(* ===== verification/Prelude.thy ===== *)
theory Prelude
  imports Main "HOL-Library.Word" "HOL-Library.State_Monad"
begin

text \<open>
  Shared vocabulary of the development.  Go's \<^verbatim>\<open>byte\<close>, \<^verbatim>\<open>int32\<close>/\<^verbatim>\<open>uint32\<close> and
  \<^verbatim>\<open>int64\<close>/\<^verbatim>\<open>uint64\<close> are words of their width (signed readings go through \<open>sint\<close>);
  Go's \<^verbatim>\<open>[]byte\<close> is a \<open>byte list\<close>, Go's \<^verbatim>\<open>string\<close> (an immutable byte sequence) a HOL
  \<open>string\<close>, and the conversions \<^verbatim>\<open>[]byte(s)\<close> and \<^verbatim>\<open>string(b)\<close> are the bijections
  \<open>bytes_of_string\<close> and \<open>string_of_bytes\<close>.  The theory also holds the fixed-endian codecs of
  \<^verbatim>\<open>encoding/binary\<close> that the sources use, XDR padding, truncated (Go-style) integer division,
  and the error-aware state combinators that give the wire operations the shape of the source's
  \<^verbatim>\<open>if err != nil\<close> chains.
\<close>

unbundle bit_operations_syntax

named_theorems codec_simps "equations of the fixed-width codecs"
named_theorems stream_simps "facts that rewrite reader operations to the byte stream they consume"

section \<open>Machine types\<close>

type_synonym byte = "8 word"
type_synonym int32 = "32 word"
type_synonym uint32 = "32 word"
type_synonym int64 = "64 word"
type_synonym uint64 = "64 word"

section \<open>Strings and byte slices\<close>

definition bytes_of_string :: "string \<Rightarrow> byte list" where
  "bytes_of_string s = map (\<lambda>c. of_char c) s"

definition string_of_bytes :: "byte list \<Rightarrow> string" where
  "string_of_bytes bs = map (\<lambda>b. char_of (unat b)) bs"

lemma unat_byte_less [simp]: "unat (b::byte) < 256"
  using unsigned_less [of b, where ?'a = nat] by simp

lemma of_char_char_of_byte [simp]: "of_char (char_of (unat (b::byte)) :: char) = b"
proof -
  have "(of_char (char_of (unat b) :: char) :: nat) = unat b" by (simp add: of_char_of)
  moreover have "(of_char (char_of (unat b) :: char) :: byte)
      = of_nat (of_char (char_of (unat b) :: char))"
    by (metis of_nat_of_char)
  ultimately show ?thesis by simp
qed

lemma unat_of_char_byte [simp]: "unat (of_char c :: byte) = of_char c"
proof -
  have "(of_char c :: nat) < 256" by (metis of_char_mod_256 mod_less_divisor zero_less_numeral)
  moreover have "(of_char c :: byte) = of_nat (of_char c)" by (metis of_nat_of_char)
  ultimately show ?thesis by (simp add: unat_of_nat)
qed

lemma string_of_bytes_of_string [simp]: "string_of_bytes (bytes_of_string s) = s"
  by (simp add: string_of_bytes_def bytes_of_string_def comp_def)

lemma bytes_of_string_of_bytes [simp]: "bytes_of_string (string_of_bytes bs) = bs"
  by (simp add: string_of_bytes_def bytes_of_string_def comp_def)

lemma length_bytes_of_string [simp]: "length (bytes_of_string s) = length s"
  by (simp add: bytes_of_string_def)

lemma length_string_of_bytes [simp]: "length (string_of_bytes bs) = length bs"
  by (simp add: string_of_bytes_def)

lemma bytes_of_string_append [simp]:
  "bytes_of_string (s @ t) = bytes_of_string s @ bytes_of_string t"
  by (simp add: bytes_of_string_def)

lemma bytes_of_string_Nil [simp]: "bytes_of_string [] = []"
  by (simp add: bytes_of_string_def)

lemma string_of_bytes_Nil [simp]: "string_of_bytes [] = []"
  by (simp add: string_of_bytes_def)

lemma bytes_of_string_inject [simp]: "bytes_of_string s = bytes_of_string t \<longleftrightarrow> s = t"
  by (metis string_of_bytes_of_string)

section \<open>Fixed-endian codecs of encoding/binary\<close>

definition putUint32 :: "uint32 \<Rightarrow> byte list" where
  "putUint32 v = [ucast (drop_bit 24 v), ucast (drop_bit 16 v), ucast (drop_bit 8 v), ucast v]"

definition putUint64 :: "uint64 \<Rightarrow> byte list" where
  "putUint64 v = [ucast (drop_bit 56 v), ucast (drop_bit 48 v), ucast (drop_bit 40 v),
     ucast (drop_bit 32 v), ucast (drop_bit 24 v), ucast (drop_bit 16 v), ucast (drop_bit 8 v), ucast v]"

definition be32 :: "byte list \<Rightarrow> uint32" where
  "be32 b = push_bit 24 (ucast (b ! 0)) OR push_bit 16 (ucast (b ! 1))
          OR push_bit 8 (ucast (b ! 2)) OR ucast (b ! 3)"

definition be64 :: "byte list \<Rightarrow> uint64" where
  "be64 b = push_bit 56 (ucast (b ! 0)) OR push_bit 48 (ucast (b ! 1))
          OR push_bit 40 (ucast (b ! 2)) OR push_bit 32 (ucast (b ! 3))
          OR push_bit 24 (ucast (b ! 4)) OR push_bit 16 (ucast (b ! 5))
          OR push_bit 8 (ucast (b ! 6)) OR ucast (b ! 7)"

definition le16 :: "byte list \<Rightarrow> nat" where
  "le16 b = unat (b ! 0) + 256 * unat (b ! 1)"

definition le32 :: "byte list \<Rightarrow> uint32" where
  "le32 b = ucast (b ! 0) OR push_bit 8 (ucast (b ! 1))
          OR push_bit 16 (ucast (b ! 2)) OR push_bit 24 (ucast (b ! 3))"

lemma length_putUint32 [simp]: "length (putUint32 v) = 4"
  by (simp add: putUint32_def)

lemma length_putUint64 [simp]: "length (putUint64 v) = 8"
  by (simp add: putUint64_def)

lemma bit_slice_index: "k \<le> n \<Longrightarrow> bit (v :: 'a::len word) (k + (n - k)) = bit v n"
  by simp

lemma be32_putUint32 [simp]: "be32 (putUint32 v @ xs) = v"
proof (rule bit_word_eqI)
  fix n assume "n < LENGTH(32)"
  then have "n < 32" by simp
  then show "bit (be32 (putUint32 v @ xs)) n = bit v n"
    unfolding be32_def putUint32_def
    by (cases "n < 8"; cases "n < 16"; cases "n < 24")
      (simp_all add: bit_simps bit_slice_index not_less less_diff_conv2, arith?)
qed

lemma be64_putUint64 [simp]: "be64 (putUint64 v @ xs) = v"
proof (rule bit_word_eqI)
  fix n assume "n < LENGTH(64)"
  then have "n < 64" by simp
  then consider "n < 8" | "8 \<le> n" "n < 16" | "16 \<le> n" "n < 24" | "24 \<le> n" "n < 32"
    | "32 \<le> n" "n < 40" | "40 \<le> n" "n < 48" | "48 \<le> n" "n < 56" | "56 \<le> n" by linarith
  then show "bit (be64 (putUint64 v @ xs)) n = bit v n"
    unfolding be64_def putUint64_def using \<open>n < 64\<close>
    by cases (simp_all add: bit_simps bit_slice_index not_less less_diff_conv2)
qed

lemma be32_putUint32_same [simp]: "be32 (putUint32 v) = v"
  using be32_putUint32 [of v "[]"] by simp

lemma be64_putUint64_same [simp]: "be64 (putUint64 v) = v"
  using be64_putUint64 [of v "[]"] by simp

lemma be32_take: "4 \<le> n \<Longrightarrow> be32 (take n xs) = be32 xs"
  by (simp add: be32_def)

lemma be64_take: "8 \<le> n \<Longrightarrow> be64 (take n xs) = be64 xs"
  by (simp add: be64_def)

text \<open>Little-endian writers, the inverses of \<open>le16\<close> and \<open>le32\<close>.\<close>

definition putLE16 :: "nat \<Rightarrow> byte list" where
  "putLE16 n = [of_nat n, of_nat (n div 256)]"

definition putLE32 :: "uint32 \<Rightarrow> byte list" where
  "putLE32 v = [ucast v, ucast (drop_bit 8 v), ucast (drop_bit 16 v), ucast (drop_bit 24 v)]"

lemma length_putLE16 [simp]: "length (putLE16 n) = 2"
  by (simp add: putLE16_def)

lemma length_putLE32 [simp]: "length (putLE32 v) = 4"
  by (simp add: putLE32_def)

lemma le16_putLE16 [simp]: "n < 65536 \<Longrightarrow> le16 (putLE16 n @ xs) = n"
  by (simp add: le16_def putLE16_def unat_of_nat)

lemma le32_putLE32 [simp]: "le32 (putLE32 v @ xs) = v"
proof -
  have "le32 (putLE32 v @ xs) = be32 (putUint32 v @ xs)"
    by (simp add: le32_def be32_def putLE32_def putUint32_def or.left_commute or.commute)
  then show ?thesis by simp
qed

lemma le32_putLE32_same [simp]: "le32 (putLE32 v) = v"
  using le32_putLE32 [of v "[]"] by simp

section \<open>XDR alignment\<close>

text \<open>The sources write the padding as \<^verbatim>\<open>(4 - n) & 3\<close> on Go's two's-complement \<^verbatim>\<open>int\<close>.\<close>

definition xdr_pad :: "nat \<Rightarrow> nat" where
  "xdr_pad n = nat ((4 - int n) AND 3)"

lemma xdr_pad_mod: "int (xdr_pad n) = (- int n) mod 4"
proof -
  have "(4 - int n) AND 3 = (4 - int n) mod 4"
    using take_bit_eq_mask [of 2 "4 - int n"] by (simp add: take_bit_eq_mod mask_eq_exp_minus_1)
  also have "\<dots> = (- int n) mod 4" by presburger
  finally show ?thesis by (simp add: xdr_pad_def)
qed

lemma xdr_pad_less [simp]: "xdr_pad n < 4"
  using xdr_pad_mod [of n] by presburger

lemma xdr_pad_aligned: "(n + xdr_pad n) mod 4 = 0"
  using xdr_pad_mod [of n] by presburger

section \<open>Go integer division\<close>

text \<open>\<^verbatim>\<open>/\<close> and \<^verbatim>\<open>%\<close> on Go integers truncate towards zero.\<close>

definition go_quot :: "int \<Rightarrow> int \<Rightarrow> int" where
  "go_quot a b = sgn a * sgn b * (\<bar>a\<bar> div \<bar>b\<bar>)"

definition go_rem :: "int \<Rightarrow> int \<Rightarrow> int" where
  "go_rem a b = a - b * go_quot a b"

lemma go_quot_nonneg: "0 \<le> a \<Longrightarrow> 0 < b \<Longrightarrow> go_quot a b = a div b"
  by (cases "a = 0") (simp_all add: go_quot_def)

lemma go_rem_nonneg: "0 \<le> a \<Longrightarrow> 0 < b \<Longrightarrow> go_rem a b = a mod b"
  by (simp add: go_rem_def go_quot_nonneg minus_mult_div_eq_mod)

lemma go_quot_neg: "a < 0 \<Longrightarrow> 0 < b \<Longrightarrow> go_quot a b = - (- a div b)"
  by (simp add: go_quot_def)

section \<open>Error-aware state passing\<close>

text \<open>
  A wire operation is a state transformer that returns an error or a value.  \<open>bindE\<close> is the
  source's \<^verbatim>\<open>x, err := f(); if err != nil { return err }\<close>, \<open>mapErr\<close> the wrapping of that
  error by \<^verbatim>\<open>fmt.Errorf("...: %w", err)\<close>.
\<close>

definition okE :: "'a \<Rightarrow> ('s, 'e + 'a) state" where
  "okE x = State_Monad.return (Inr x)"

definition throwE :: "'e \<Rightarrow> ('s, 'e + 'a) state" where
  "throwE e = State_Monad.return (Inl e)"

definition bindE :: "('s, 'e + 'a) state \<Rightarrow> ('a \<Rightarrow> ('s, 'e + 'b) state) \<Rightarrow> ('s, 'e + 'b) state" where
  "bindE m k = do { x \<leftarrow> m; (case x of Inl e \<Rightarrow> throwE e | Inr a \<Rightarrow> k a) }"

definition mapErr :: "('e \<Rightarrow> 'e) \<Rightarrow> ('s, 'e + 'a) state \<Rightarrow> ('s, 'e + 'a) state" where
  "mapErr f m = do { x \<leftarrow> m; (case x of Inl e \<Rightarrow> throwE (f e) | Inr a \<Rightarrow> okE a) }"

lemma run_okE [simp]: "run_state (okE x) s = (Inr x, s)"
  by (simp add: okE_def)

lemma run_throwE [simp]: "run_state (throwE e) s = (Inl e, s)"
  by (simp add: throwE_def)

lemma run_bindE [simp]: "run_state (bindE m k) s =
    (case run_state m s of (Inl e, s') \<Rightarrow> (Inl e, s') | (Inr a, s') \<Rightarrow> run_state (k a) s')"
  by (auto simp: bindE_def split: prod.splits sum.splits)

lemma run_mapErr [simp]: "run_state (mapErr f m) s =
    (case run_state m s of (Inl e, s') \<Rightarrow> (Inl (f e), s') | (Inr a, s') \<Rightarrow> (Inr a, s'))"
  by (auto simp: mapErr_def split: prod.splits sum.splits)

end
