(* ===== verification/Strconv.thy ===== *)
theory Strconv
  imports Prelude
begin

text \<open>
  The parts of Go's \<^verbatim>\<open>strconv\<close>, \<^verbatim>\<open>strings\<close> and \<^verbatim>\<open>math/big\<close> text conversion that the driver
  uses: decimal printing and parsing, ASCII case mapping, trimming, searching.  They are the
  language's standard library, modelled as far as the sources use them, with the round-trip and
  length facts the components share.
\<close>

section \<open>Decimal digits\<close>

definition digit_char :: "nat \<Rightarrow> char" where
  "digit_char d = char_of (48 + d)"

definition is_digit :: "char \<Rightarrow> bool" where
  "is_digit c \<longleftrightarrow> 48 \<le> (of_char c :: nat) \<and> (of_char c :: nat) \<le> 57"

definition digit_val :: "char \<Rightarrow> nat" where
  "digit_val c = of_char c - 48"

lemma digit_val_digit_char [simp]: "d < 10 \<Longrightarrow> digit_val (digit_char d) = d"
  by (simp add: digit_val_def digit_char_def of_char_of)

lemma is_digit_digit_char [simp]: "d < 10 \<Longrightarrow> is_digit (digit_char d)"
  by (simp add: is_digit_def digit_char_def of_char_of)

lemma digit_val_less [simp]: "is_digit c \<Longrightarrow> digit_val c < 10"
  by (auto simp: is_digit_def digit_val_def)

lemma digit_char_digit_val [simp]: "is_digit c \<Longrightarrow> digit_char (digit_val c) = c"
  by (simp add: is_digit_def digit_val_def digit_char_def)

lemma digit_char_eq_iff [simp]: "d < 10 \<Longrightarrow> e < 10 \<Longrightarrow> digit_char d = digit_char e \<longleftrightarrow> d = e"
  by (metis digit_val_digit_char)

section \<open>Printing and reading naturals\<close>

fun formatNat :: "nat \<Rightarrow> string" where
  "formatNat n = (if n < 10 then [digit_char n] else formatNat (n div 10) @ [digit_char (n mod 10)])"

declare formatNat.simps [simp del]

definition digits_val :: "string \<Rightarrow> nat" where
  "digits_val s = foldl (\<lambda>acc c. 10 * acc + digit_val c) 0 s"

lemma digits_val_Nil [simp]: "digits_val [] = 0"
  by (simp add: digits_val_def)

lemma digits_val_snoc [simp]: "digits_val (s @ [c]) = 10 * digits_val s + digit_val c"
  by (simp add: digits_val_def)

lemma digits_val_append: "digits_val (s @ t) = 10 ^ length t * digits_val s + digits_val t"
proof (induction t rule: rev_induct)
  case (snoc c t)
  have "digits_val (s @ t @ [c]) = digits_val ((s @ t) @ [c])" by simp
  also have "\<dots> = 10 * digits_val (s @ t) + digit_val c" by (rule digits_val_snoc)
  finally show ?case using snoc.IH by (simp add: algebra_simps)
qed simp

lemma digits_val_single [simp]: "digits_val [c] = digit_val c"
  using digits_val_snoc [of "[]" c] by simp

lemma digits_val_zeros [simp]: "digits_val (replicate k (CHR ''0'') @ s) = digits_val s"
proof -
  have "digits_val (replicate k (CHR ''0'')) = 0"
    by (induction k) (simp_all add: digits_val_def digit_val_def foldl_conv_fold)
  then show ?thesis by (simp add: digits_val_append)
qed

lemma digits_val_less: "list_all is_digit s \<Longrightarrow> digits_val s < 10 ^ length s"
proof (induction s rule: rev_induct)
  case (snoc c s)
  then have "digits_val s < 10 ^ length s" and "digit_val c < 10" by simp_all
  then show ?case by simp
qed simp

lemma formatNat_digits: "list_all is_digit (formatNat n)"
  by (induction n rule: formatNat.induct) (subst formatNat.simps, simp)

lemma formatNat_nonempty [simp]: "formatNat n \<noteq> []"
  by (subst formatNat.simps) simp

lemma formatNat_Cons: obtains c s where "formatNat n = c # s"
  using formatNat_nonempty [of n] by (cases "formatNat n") auto

lemma digits_val_formatNat [simp]: "digits_val (formatNat n) = n"
proof (induction n rule: formatNat.induct)
  case (1 n)
  then show ?case by (cases "n < 10") (simp_all add: formatNat.simps [of n])
qed

lemma formatNat_inject [simp]: "formatNat m = formatNat n \<longleftrightarrow> m = n"
  by (metis digits_val_formatNat)

lemma formatNat_no_leading_zero:
  "formatNat n = c # s \<Longrightarrow> s \<noteq> [] \<Longrightarrow> c \<noteq> CHR ''0''"
proof (induction n arbitrary: c s rule: formatNat.induct)
  case (1 n)
  show ?case
  proof (cases "n < 10")
    case True
    with "1.prems" show ?thesis by (simp add: formatNat.simps [of n])
  next
    case False
    obtain d t where dt: "formatNat (n div 10) = d # t" by (rule formatNat_Cons)
    with False "1.prems" have "c = d" by (simp add: formatNat.simps [of n])
    show ?thesis
    proof (cases "t = []")
      case True
      have "n div 10 \<noteq> 0" using False by simp
      moreover have "digit_val d = n div 10" using dt True digits_val_formatNat [of "n div 10"] by simp
      ultimately show ?thesis using \<open>c = d\<close> by (auto simp: digit_val_def)
    next
      case False': False
      with "1.IH" [OF False dt] \<open>c = d\<close> show ?thesis by simp
    qed
  qed
qed

lemma length_formatNat_le: "n < 10 ^ k \<Longrightarrow> 0 < k \<Longrightarrow> length (formatNat n) \<le> k"
proof (induction n arbitrary: k rule: formatNat.induct)
  case (1 n)
  show ?case
  proof (cases "n < 10")
    case True
    with "1.prems" show ?thesis by (simp add: formatNat.simps [of n])
  next
    case False
    then obtain j where "k = Suc j" and "0 < j"
      using "1.prems" by (cases k; cases "k - 1") auto
    with "1.prems" have "n div 10 < 10 ^ j" by (simp add: less_mult_imp_div_less mult.commute)
    with "1.IH" [OF False] \<open>0 < j\<close> have "length (formatNat (n div 10)) \<le> j" by blast
    with False \<open>k = Suc j\<close> show ?thesis by (simp add: formatNat.simps [of n])
  qed
qed

section \<open>Integers: FormatInt and Atoi\<close>

definition formatInt :: "int \<Rightarrow> string" where
  "formatInt v = (if v < 0 then CHR ''-'' # formatNat (nat (- v)) else formatNat (nat v))"

definition atoi_sign :: "string \<Rightarrow> bool \<times> string" where
  "atoi_sign s = (case s of [] \<Rightarrow> (False, [])
     | c # t \<Rightarrow> if c = CHR ''-'' then (True, t) else if c = CHR ''+'' then (False, t) else (False, s))"

text \<open>\<^verbatim>\<open>strconv.Atoi\<close>: an optional sign and decimal digits, \<open>None\<close> on a syntax error or when the
  value does not fit a 64-bit \<^verbatim>\<open>int\<close>.\<close>

definition atoi :: "string \<Rightarrow> int option" where
  "atoi s = (let (neg, t) = atoi_sign s; v = int (digits_val t) in
     if t = [] \<or> \<not> list_all is_digit t then None
     else if neg then (if v \<le> 2 ^ 63 then Some (- v) else None)
     else (if v < 2 ^ 63 then Some v else None))"

lemma atoi_range: "atoi s = Some v \<Longrightarrow> - (2 ^ 63) \<le> v \<and> v < 2 ^ 63"
  by (auto simp: atoi_def Let_def split: prod.splits if_splits)

lemma not_digit_sign [simp]: "\<not> is_digit (CHR ''-'')" "\<not> is_digit (CHR ''+'')" "\<not> is_digit (CHR ''.'')"
  by (simp_all add: is_digit_def)

lemma formatNat_hd_digit: "formatNat n = c # s \<Longrightarrow> is_digit c"
  using formatNat_digits [of n] by simp

lemma atoi_formatInt: "- (2 ^ 63) \<le> v \<Longrightarrow> v < 2 ^ 63 \<Longrightarrow> atoi (formatInt v) = Some v"
proof -
  assume v: "- (2 ^ 63) \<le> v" "v < 2 ^ 63"
  obtain c s where cs: "formatNat (nat v) = c # s" by (rule formatNat_Cons)
  then have "is_digit c" by (rule formatNat_hd_digit)
  then have "c \<noteq> CHR ''-''" "c \<noteq> CHR ''+''" by auto
  then have "atoi_sign (formatNat (nat v)) = (False, formatNat (nat v))"
    by (simp add: atoi_sign_def cs)
  then show ?thesis using v
    by (auto simp: formatInt_def atoi_def atoi_sign_def formatNat_digits)
qed

lemma atoi_digits:
  assumes "list_all is_digit s" and "s \<noteq> []"
  shows "atoi s = (if int (digits_val s) < 2 ^ 63 then Some (int (digits_val s)) else None)"
proof -
  obtain c t where s: "s = c # t" using assms(2) by (cases s) auto
  with assms(1) have "c \<noteq> CHR ''-''" "c \<noteq> CHR ''+''" by auto
  then have "atoi_sign s = (False, s)" by (simp add: s atoi_sign_def)
  then show ?thesis using assms by (simp add: atoi_def)
qed

section \<open>ASCII text helpers of strings\<close>

definition lower_char :: "char \<Rightarrow> char" where
  "lower_char c = (let n = (of_char c :: nat) in if 65 \<le> n \<and> n \<le> 90 then char_of (n + 32) else c)"

definition upper_char :: "char \<Rightarrow> char" where
  "upper_char c = (let n = (of_char c :: nat) in if 97 \<le> n \<and> n \<le> 122 then char_of (n - 32) else c)"

definition toLower :: "string \<Rightarrow> string" where "toLower s = map lower_char s"
definition toUpper :: "string \<Rightarrow> string" where "toUpper s = map upper_char s"

definition is_space :: "char \<Rightarrow> bool" where
  "is_space c \<longleftrightarrow> (let n = (of_char c :: nat) in n = 32 \<or> (9 \<le> n \<and> n \<le> 13))"

definition trimSpace :: "string \<Rightarrow> string" where
  "trimSpace s = rev (dropWhile is_space (rev (dropWhile is_space s)))"

lemma trimSpace_id:
  assumes "s \<noteq> []" and "\<not> is_space (hd s)" and "\<not> is_space (last s)"
  shows "trimSpace s = s"
proof -
  have d: "dropWhile is_space s = s" using assms(1,2) by (cases s) auto
  moreover have "dropWhile is_space (rev s) = rev s" using assms(1,3) by (cases s rule: rev_cases) auto
  ultimately show ?thesis by (simp add: trimSpace_def)
qed

definition hasPrefix :: "string \<Rightarrow> string \<Rightarrow> bool" where
  "hasPrefix s p \<longleftrightarrow> take (length p) s = p"

fun contains :: "string \<Rightarrow> string \<Rightarrow> bool" where
  "contains [] p = (p = [])"
| "contains (c # s) p = (hasPrefix (c # s) p \<or> contains s p)"

lemma contains_self_append: "contains (s @ p @ t) p"
proof (induction s)
  case Nil
  have "hasPrefix (p @ t) p" by (simp add: hasPrefix_def)
  then show ?case by (cases "p @ t") auto
qed simp

lemma toUpper_idem: "toUpper (toUpper s) = toUpper s"
  by (induction s) (auto simp: toUpper_def upper_char_def Let_def of_char_of)

end
