(* ===== verification/Regexp.thy ===== *)
theory Regexp
  imports Strconv
begin

text \<open>
  The regular expressions of Go's \<^verbatim>\<open>regexp\<close>, as far as the message generator uses them: character classes, sequence,
  alternation, greedy repetition and option, numbered groups and the end of the text.  Of all matches the package returns
  the one that a backtracking engine finds first; \<open>matches\<close> lists them in that order, each as the text left over and the
  groups set so far.  A string is its bytes: the classes used here treat every byte of a multi-byte character alike.
\<close>

section \<open>Matching\<close>

datatype rx = Eps | Cls "char \<Rightarrow> bool" | Seq rx rx | Alt rx rx | Opt rx | Many rx | Grp nat rx | Eol

type_synonym groups = "(nat \<times> string) list"

text \<open>Greedy repetition: as many rounds as possible first; a round that consumes nothing ends it.  The fuel is the
  length of the text, which every round shortens.\<close>

fun rounds :: "(string \<times> groups \<Rightarrow> (string \<times> groups) list) \<Rightarrow> nat \<Rightarrow> string \<times> groups \<Rightarrow> (string \<times> groups) list" where
  "rounds f 0 s = [s]"
| "rounds f (Suc n) s = concat (map (\<lambda>t. if length (fst t) < length (fst s) then rounds f n t else []) (f s)) @ [s]"

primrec matches :: "rx \<Rightarrow> string \<times> groups \<Rightarrow> (string \<times> groups) list" where
  "matches Eps s = [s]"
| "matches (Cls p) s = (case fst s of [] \<Rightarrow> [] | c # cs \<Rightarrow> if p c then [(cs, snd s)] else [])"
| "matches (Seq a b) s = concat (map (matches b) (matches a s))"
| "matches (Alt a b) s = matches a s @ matches b s"
| "matches (Opt a) s = matches a s @ [s]"
| "matches (Many a) s = rounds (matches a) (length (fst s)) s"
| "matches (Grp n a) s = map (\<lambda>t. (fst t, (n, take (length (fst s) - length (fst t)) (fst s)) # snd t)) (matches a s)"
| "matches Eol s = (if fst s = [] then [s] else [])"

text \<open>\<^verbatim>\<open>FindStringSubmatch\<close> for an expression anchored at the start; a group that took no part is empty.\<close>

definition FindStringSubmatch :: "rx \<Rightarrow> string \<Rightarrow> groups option" where
  "FindStringSubmatch r s = (case matches r (s, []) of [] \<Rightarrow> None | t # _ \<Rightarrow> Some (snd t))"

definition group :: "groups \<Rightarrow> nat \<Rightarrow> string" where
  "group g n = (case map_of g n of None \<Rightarrow> [] | Some s \<Rightarrow> s)"

section \<open>Expressions\<close>

definition rseq :: "rx list \<Rightarrow> rx" where "rseq rs = foldr Seq rs Eps"

definition chr :: "char \<Rightarrow> rx" where "chr c = Cls (\<lambda>d. d = c)"

definition lit :: "string \<Rightarrow> rx" where "lit s = rseq (map chr s)"

definition plus :: "rx \<Rightarrow> rx" where "plus r = Seq r (Many r)"

definition is_word :: "char \<Rightarrow> bool" where
  "is_word c \<longleftrightarrow> (let n = (of_char c :: nat) in is_digit c \<or> 65 \<le> n \<and> n \<le> 90 \<or> 97 \<le> n \<and> n \<le> 122 \<or> n = 95)"

definition is_ws :: "char \<Rightarrow> bool" where
  "is_ws c \<longleftrightarrow> (let n = (of_char c :: nat) in n = 9 \<or> n = 10 \<or> n = 12 \<or> n = 13 \<or> n = 32)"

definition newline :: char where "newline = CHR 0x0A"

definition ws :: rx where "ws = Many (Cls is_ws)"

definition dot :: rx where "dot = Cls (\<lambda>c. c \<noteq> newline)"

section \<open>Laws\<close>

lemma rounds_fuel: "length (fst s) \<le> n \<Longrightarrow> rounds f n s = rounds f (length (fst s)) s"
proof (induction n arbitrary: s rule: less_induct)
  case (less n)
  show ?case
  proof (cases n)
    case (Suc m)
    show ?thesis
    proof (cases "length (fst s)")
      case 0
      then show ?thesis using Suc by (simp add: concat_eq_Nil_conv)
    next
      case l: (Suc k)
      have "length (fst t) < length (fst s) \<Longrightarrow> rounds f m t = rounds f k t" for t
        using less.IH [of m t] less.IH [of k t] less.prems Suc l by simp
      then have "(\<lambda>t. if length (fst t) < length (fst s) then rounds f m t else [])
          = (\<lambda>t. if length (fst t) < length (fst s) then rounds f k t else [])" by auto
      then show ?thesis using Suc l by simp
    qed
  qed (use less.prems in simp)
qed

lemma matches_Many:
  "matches (Many a) s = concat (map (\<lambda>t. if length (fst t) < length (fst s) then matches (Many a) t else []) (matches a s)) @ [s]"
proof (cases "length (fst s)")
  case (Suc k)
  have "length (fst t) < length (fst s) \<Longrightarrow> rounds (matches a) k t = matches (Many a) t" for t
    using rounds_fuel [of t k] Suc by simp
  then have "(\<lambda>t. if length (fst t) < length (fst s) then rounds (matches a) k t else [])
      = (\<lambda>t. if length (fst t) < length (fst s) then matches (Many a) t else [])" by auto
  then show ?thesis using Suc by simp
qed (simp add: concat_eq_Nil_conv)

lemma concat_bind: "concat (map k (concat (map b xs))) = concat (map (\<lambda>x. concat (map k (b x))) xs)"
  by (induction xs) simp_all

lemma matches_Seq_assoc [simp]: "matches (Seq (Seq a b) k) s = matches (Seq a (Seq b k)) s"
  by (simp add: concat_bind fun_eq_iff)
    (induction "matches a s"; simp)

lemma matches_rseq [simp]: "matches (rseq []) s = [s]" "matches (rseq (r # rs)) s = matches (Seq r (rseq rs)) s"
  by (simp_all add: rseq_def)

text \<open>\<open>rejects r p\<close>: no match of \<open>r\<close> starts with a character of \<open>p\<close>.\<close>

definition rejects :: "rx \<Rightarrow> (char \<Rightarrow> bool) \<Rightarrow> bool" where
  "rejects r p \<longleftrightarrow> (\<forall>c cs g. p c \<longrightarrow> matches r (c # cs, g) = [])"

lemma rejects_chr: "\<not> p c \<Longrightarrow> rejects (Seq (chr c) k) p"
  by (auto simp: rejects_def chr_def)

lemma rejects_Eol: "rejects (Seq Eol k) p"
  by (simp add: rejects_def)

text \<open>A greedy repetition of a class, followed by what cannot start in the class, takes the longest run.\<close>

lemma many_class:
  assumes "list_all p xs" and "ys = [] \<or> \<not> p (hd ys)" and "\<And>c cs h. p c \<Longrightarrow> f (c # cs, h) = []"
  shows "concat (map f (matches (Many (Cls p)) (xs @ ys, g))) = f (ys, g)"
  using assms(1)
proof (induction xs)
  case Nil
  have "matches (Many (Cls p)) (ys, g) = [(ys, g)]" using assms(2) by (subst matches_Many) (auto split: list.split)
  then show ?case by simp
next
  case (Cons x xs)
  have "matches (Many (Cls p)) (x # xs @ ys, g) = matches (Many (Cls p)) (xs @ ys, g) @ [(x # xs @ ys, g)]"
    using Cons.prems by (subst matches_Many) simp
  then show ?case using Cons assms(3) by simp
qed

lemma match_ws:
  assumes "rejects k is_ws"
  shows "matches (Seq ws k) (s, g) = matches k (dropWhile is_ws s, g)"
proof -
  have "concat (map (matches k) (matches (Many (Cls is_ws)) (takeWhile is_ws s @ dropWhile is_ws s, g))) = matches k (dropWhile is_ws s, g)"
  proof (rule many_class)
    show "list_all is_ws (takeWhile is_ws s)" by (auto simp: list_all_iff dest: set_takeWhileD)
    show "dropWhile is_ws s = [] \<or> \<not> is_ws (hd (dropWhile is_ws s))" using hd_dropWhile by blast
  qed (use assms in \<open>simp add: rejects_def\<close>)
  then show ?thesis by (simp add: ws_def)
qed

lemma match_plus:
  assumes "list_all p xs" and "xs \<noteq> []" and "ys = [] \<or> \<not> p (hd ys)" and "rejects k p"
  shows "matches (Seq (plus (Cls p)) k) (xs @ ys, g) = matches k (ys, g)"
  using assms many_class [of p "tl xs" ys "matches k" g]
  by (cases xs) (simp_all add: plus_def rejects_def concat_bind)

lemma match_group_plus:
  assumes "list_all p xs" and "xs \<noteq> []" and "ys = [] \<or> \<not> p (hd ys)" and "rejects k p"
  shows "matches (Seq (Grp n (plus (Cls p))) k) (xs @ ys, g) = matches k (ys, (n, xs) # g)"
proof -
  let ?f = "\<lambda>t. matches k (fst t, (n, take (length (xs @ ys) - length (fst t)) (xs @ ys)) # snd t)"
  have "concat (map ?f (matches (Many (Cls p)) (tl xs @ ys, g))) = ?f (ys, g)"
    using assms by (intro many_class) (simp_all add: rejects_def, cases xs, simp_all)
  then show ?thesis using assms(1,2) by (cases xs) (simp_all add: plus_def comp_def)
qed

lemma match_chr [simp]:
  "matches (Seq (chr c) k) ([], g) = []"
  "matches (Seq (chr c) k) (d # s, g) = (if d = c then matches k (s, g) else [])"
  by (simp_all add: chr_def)

lemma match_lit: "matches (Seq (lit l) k) (l @ s, g) = matches k (s, g)"
  by (induction l) (simp_all add: lit_def rseq_def chr_def)

lemma match_Opt: "matches (Seq (Opt r) k) s = matches (Seq r k) s @ matches k s"
  by simp

lemma match_Eol: "matches (Seq Eol k) (s, g) = (if s = [] then matches k ([], g) else [])"
  by simp

text \<open>Everything up to a comma: the longest prefixes first.\<close>

fun after_commas :: "string \<Rightarrow> string list" where
  "after_commas [] = []"
| "after_commas (c # s) = (if c = CHR '','' then [s] else []) @ after_commas s"

lemma after_commas_append: "after_commas (s @ t) = map (\<lambda>u. u @ t) (after_commas s) @ after_commas t"
  by (induction s) simp_all

lemma after_commas_none: "CHR '','' \<notin> set s \<Longrightarrow> after_commas s = []"
  by (induction s) auto

lemma match_to_comma:
  assumes "newline \<notin> set s"
  shows "matches (Seq (Seq (Many dot) (chr (CHR '',''))) k) (s, g) = concat (map (\<lambda>t. matches k (t, g)) (rev (after_commas s)))"
  using assms
proof (induction s)
  case Nil
  have "matches (Many dot) ([], g) = [([], g)]" by (subst matches_Many) (simp add: dot_def)
  then show ?case by (simp add: chr_def)
next
  case (Cons c s)
  have "matches (Many dot) (c # s, g) = matches (Many dot) (s, g) @ [(c # s, g)]"
    using Cons.prems by (subst matches_Many) (auto simp: dot_def)
  then show ?case using Cons by (simp add: chr_def del: matches.simps(6))
qed

section \<open>The inside of a C string\<close>

definition dquote :: char where "dquote = CHR 0x22"

definition backslash :: char where "backslash = CHR 0x5C"

lemma quote_chars [simp]: "dquote \<noteq> backslash" "backslash \<noteq> dquote" "newline \<noteq> dquote" "dquote \<noteq> newline" "newline \<noteq> backslash" "backslash \<noteq> newline"
  by (simp_all add: dquote_def backslash_def newline_def)

definition str_char :: rx where
  "str_char = Alt (Cls (\<lambda>c. c \<noteq> dquote \<and> c \<noteq> backslash)) (Seq (chr backslash) dot)"

lemma match_str_char [simp]:
  "matches str_char (dquote # t, g) = []"
  "c \<noteq> dquote \<Longrightarrow> c \<noteq> backslash \<Longrightarrow> matches str_char (c # t, g) = [(t, g)]"
  "matches str_char (backslash # d # t, g) = (if d = newline then [] else [(t, g)])"
  by (simp_all add: str_char_def chr_def dot_def)

lemma not_ws [simp]: "\<not> is_ws dquote" "\<not> is_ws backslash" "\<not> is_ws (CHR '','')" "\<not> is_ws (CHR '')'')" "\<not> is_ws (CHR ''('')"
  by (simp_all add: is_ws_def dquote_def backslash_def)

lemma ws_space [simp]: "is_ws (CHR '' '')"
  by (simp add: is_ws_def)

fun escaped :: "string \<Rightarrow> bool" where
  "escaped [] = True"
| "escaped [c] = (c \<noteq> dquote \<and> c \<noteq> backslash)"
| "escaped (c # d # s) = (if c = backslash then d \<noteq> newline \<and> escaped s else c \<noteq> dquote \<and> escaped (d # s))"

lemma many_str_char:
  assumes "escaped s" and "\<And>c cs h. c \<noteq> dquote \<Longrightarrow> f (c # cs, h) = []"
  shows "concat (map f (matches (Many str_char) (s @ dquote # t, g))) = f (dquote # t, g)"
  using assms(1)
proof (induction s rule: escaped.induct)
  case 1
  have "matches (Many str_char) (dquote # t, g) = [(dquote # t, g)]" by (subst matches_Many) simp
  then show ?case by simp
next
  case (2 c)
  have e: "matches (Many str_char) (dquote # t, g) = [(dquote # t, g)]" by (subst matches_Many) simp
  have "matches (Many str_char) (c # dquote # t, g) = [(dquote # t, g), (c # dquote # t, g)]"
    using 2 by (subst matches_Many) (simp add: e del: matches.simps(6))
  then show ?case using 2 assms(2) by (simp del: matches.simps(6))
next
  case (3 c d s)
  show ?case
  proof (cases "c = backslash")
    case True
    then have "matches (Many str_char) (c # d # s @ dquote # t, g)
        = matches (Many str_char) (s @ dquote # t, g) @ [(c # d # s @ dquote # t, g)]"
      using 3 by (subst matches_Many) (simp del: matches.simps(6))
    then show ?thesis using 3 True assms(2) by (simp del: matches.simps(6))
  next
    case False
    then have "matches (Many str_char) (c # d # s @ dquote # t, g)
        = matches (Many str_char) (d # s @ dquote # t, g) @ [(c # d # s @ dquote # t, g)]"
      using 3 by (subst matches_Many) (simp del: matches.simps(6))
    then show ?thesis using 3 False assms(2) by (simp del: matches.simps(6))
  qed
qed

lemma match_string:
  assumes "escaped s" and "rejects k (\<lambda>c. c \<noteq> dquote)"
  shows "matches (Seq (Grp n (Many str_char)) k) (s @ dquote # t, g) = matches k (dquote # t, (n, s) # g)"
proof -
  let ?u = "s @ dquote # t"
  let ?f = "\<lambda>x. matches k (fst x, (n, take (length ?u - length (fst x)) ?u) # snd x)"
  have "concat (map ?f (matches (Many str_char) (?u, g))) = ?f (dquote # t, g)"
    using assms by (intro many_str_char) (simp_all add: rejects_def)
  then show ?thesis by (simp add: comp_def del: matches.simps(6))
qed

text \<open>No quote inside an escaped text stands first, or after a comma and blanks.\<close>

lemma escaped_tail: "escaped (c # s) \<Longrightarrow> c \<noteq> backslash \<Longrightarrow> escaped s"
  by (cases s) simp_all

lemma escaped_head: "escaped (c # s) \<Longrightarrow> c \<noteq> dquote"
  by (cases s) (auto split: if_splits)

lemma escaped_dropWhile:
  assumes "escaped s" and "dropWhile is_ws s = c # u"
  shows "c \<noteq> dquote"
  using assms
proof (induction s)
  case (Cons d s)
  show ?case
  proof (cases "is_ws d")
    case True
    then have "d \<noteq> backslash" by auto
    then show ?thesis using Cons True escaped_tail [of d s] by simp
  qed (use Cons.prems escaped_head in auto)
qed simp

lemma escaped_after_commas:
  assumes "escaped s" and "u \<in> set (after_commas s)" and "dropWhile is_ws u = c # v"
  shows "c \<noteq> dquote"
  using assms(1,2)
proof (induction s rule: escaped.induct)
  case (3 d e s)
  show ?case
  proof (cases "d = backslash")
    case True
    with 3 have "u = s \<or> u \<in> set (after_commas s)" by (auto simp: backslash_def split: if_splits)
    then show ?thesis using 3 True escaped_dropWhile [OF _ assms(3)] by auto
  next
    case False
    with 3 have "u = e # s \<or> u \<in> set (after_commas (e # s))" by (auto split: if_splits)
    then show ?thesis using 3 False escaped_dropWhile [OF _ assms(3)] by auto
  qed
qed (use assms(3) in \<open>auto split: if_splits\<close>)

section \<open>What cannot start a match\<close>

lemma rejects_group_plus: "(\<And>c. q c \<Longrightarrow> \<not> p c) \<Longrightarrow> rejects (Seq (Grp n (plus (Cls p))) k) q"
  by (auto simp: rejects_def plus_def)

lemma rejects_plus: "(\<And>c. q c \<Longrightarrow> \<not> p c) \<Longrightarrow> rejects (Seq (plus (Cls p)) k) q"
  by (auto simp: rejects_def plus_def)

lemma rejects_rseq: "rejects (Seq r (rseq rs)) p \<Longrightarrow> rejects (rseq (r # rs)) p"
  unfolding rejects_def by simp

lemma rejects_Opt: "rejects (Seq r k) p \<Longrightarrow> rejects k p \<Longrightarrow> rejects (Seq (Opt r) k) p"
  unfolding rejects_def by simp

lemma rejects_ws:
  assumes "rejects k p" and "rejects k is_ws" and "\<And>c. p c \<Longrightarrow> \<not> is_ws c"
  shows "rejects (Seq ws k) p"
  unfolding rejects_def using assms(1,3) match_ws [OF assms(2)] by (simp add: rejects_def)

declare matches.simps(3,6) [simp del]

lemmas rejects_rules = rejects_rseq rejects_chr rejects_Eol rejects_group_plus rejects_plus rejects_ws rejects_Opt

section \<open>Sequences\<close>

lemma rseq_ws: "rejects (rseq rs) is_ws \<Longrightarrow> matches (rseq (ws # rs)) (s, g) = matches (rseq rs) (dropWhile is_ws s, g)"
  by (simp add: match_ws)

lemma rseq_group_plus:
  "list_all p xs \<Longrightarrow> xs \<noteq> [] \<Longrightarrow> ys = [] \<or> \<not> p (hd ys) \<Longrightarrow> rejects (rseq rs) p
   \<Longrightarrow> matches (rseq (Grp n (plus (Cls p)) # rs)) (xs @ ys, g) = matches (rseq rs) (ys, (n, xs) # g)"
  by (simp add: match_group_plus)

lemma rseq_plus:
  "list_all p xs \<Longrightarrow> xs \<noteq> [] \<Longrightarrow> ys = [] \<or> \<not> p (hd ys) \<Longrightarrow> rejects (rseq rs) p
   \<Longrightarrow> matches (rseq (plus (Cls p) # rs)) (xs @ ys, g) = matches (rseq rs) (ys, g)"
  by (simp add: match_plus)

lemma rseq_chr: "matches (rseq (chr c # rs)) (d # s, g) = (if d = c then matches (rseq rs) (s, g) else [])"
  by simp

lemma rseq_lit: "matches (rseq (lit l # rs)) (l @ s, g) = matches (rseq rs) (s, g)"
  by (simp add: match_lit)

lemma rseq_single: "matches (rseq [r]) s = matches r s"
proof -
  have "matches (rseq []) = (\<lambda>t. [t])" by (rule ext) simp
  then show ?thesis by (simp add: matches.simps(3))
qed

lemma rseq_nest: "matches (Seq a (rseq [r])) s = matches (Seq a r) s"
proof -
  have "matches (rseq [r]) = matches r" by (rule ext) (rule rseq_single)
  then show ?thesis by (simp add: matches.simps(3))
qed

lemma match_Alt: "matches (Seq (Alt a b) k) s = matches (Seq a k) s @ matches (Seq b k) s"
  by (simp add: matches.simps(3))

lemma match_lit_step:
  "matches (Seq (lit []) k) x = matches k x"
  "matches (Seq (lit (d # l)) k) (c # s, g) = (if c = d then matches (Seq (lit l) k) (s, g) else [])"
  "matches (Seq (lit (d # l)) k) ([], g) = []"
  by (simp_all add: lit_def matches.simps(3) chr_def)

lemma match_lit_none: "take (length l) s \<noteq> l \<Longrightarrow> matches (Seq (lit l) k) (s, g) = []"
proof (induction l arbitrary: s)
  case (Cons d l)
  then show ?case by (cases s) (simp_all add: match_lit_step)
qed simp

lemma not_word [simp]: "\<not> is_word (CHR '','')" "\<not> is_word (CHR '' '')" "\<not> is_word dquote" "\<not> is_word (CHR ''-'')"
  by (simp_all add: is_word_def is_digit_def dquote_def)

lemma not_digit [simp]: "\<not> is_digit (CHR '','')" "\<not> is_digit (CHR '' '')" "\<not> is_digit dquote"
  by (simp_all add: is_digit_def dquote_def)

lemma digit_word: "is_digit c \<Longrightarrow> is_word c" and word_not_ws: "is_word c \<Longrightarrow> \<not> is_ws c" and digit_not_ws: "is_digit c \<Longrightarrow> \<not> is_ws c"
  by (auto simp: is_word_def is_ws_def is_digit_def Let_def)

lemma match_Grp: "matches (Seq (Grp n r) k) s
    = concat (map (\<lambda>t. matches k (fst t, (n, take (length (fst s) - length (fst t)) (fst s)) # snd t)) (matches r s))"
  by (simp add: matches.simps(3) comp_def)

lemma rseq_Opt: "matches (rseq (Opt r # rs)) s = matches (rseq (r # rs)) s @ matches (rseq rs) s"
  by (simp add: matches.simps)

end
