(* ===== verification/Errors.thy ===== *)
theory Errors
  imports Strconv
begin

text \<open>
  Error values of the driver: the parsed status vector and its rendering
  (\<^verbatim>\<open>internal/wire/status.go\<close> without the wire parser, \<^verbatim>\<open>internal/errmsg/errmsg.go\<close>), the tree of
  Go errors the code builds with \<^verbatim>\<open>errors.New\<close> and \<^verbatim>\<open>fmt.Errorf\<close>, and the classification of
  \<^verbatim>\<open>transport.go\<close>.  The generated tables \<^verbatim>\<open>Template\<close> and \<^verbatim>\<open>SQLState\<close>
  (\<^verbatim>\<open>messages_generated.go\<close>) are parameters \<open>tmpl\<close> and \<open>states\<close>; their generator is modelled in \<open>ErrmsgGen\<close>.
\<close>

section \<open>Status vectors\<close>

datatype gparam = PString string | PInt32 int32

record GDSError =
  Code :: int32
  SQLState_field :: string
  Message :: string
  Params :: "gparam list"

record StatusVector =
  Errors :: "GDSError list"
  Warnings :: "GDSError list"

definition newGDSError :: "int32 \<Rightarrow> GDSError" where
  "newGDSError code = \<lparr>Code = code, SQLState_field = [], Message = [], Params = []\<rparr>"

definition emptyStatusVector :: StatusVector where
  "emptyStatusVector = \<lparr>Errors = [], Warnings = []\<rparr>"

definition HasError :: "StatusVector \<Rightarrow> bool" where
  "HasError sv \<longleftrightarrow> (case Errors sv of [] \<Rightarrow> False | e # _ \<Rightarrow> Code e \<noteq> 0)"

definition HasWarning :: "StatusVector \<Rightarrow> bool" where
  "HasWarning sv \<longleftrightarrow> Warnings sv \<noteq> []"

section \<open>Message templates\<close>

definition paramString :: "gparam \<Rightarrow> string" where
  "paramString p = (case p of PString s \<Rightarrow> s | PInt32 n \<Rightarrow> formatInt (sint n))"

fun render_loop :: "gparam list \<Rightarrow> string \<Rightarrow> string" where
  "render_loop ps [] = []"
| "render_loop ps [c] = [c]"
| "render_loop ps (c # n # rest) =
     (if c \<noteq> CHR ''@'' then c # render_loop ps (n # rest)
      else if \<not> (49 \<le> (of_char n :: nat) \<and> (of_char n :: nat) \<le> 57) then c # render_loop ps (n # rest)
      else let idx = of_char n - 49 in
           if idx < length ps then paramString (ps ! idx) @ render_loop ps rest
           else CHR ''@'' # n # render_loop ps rest)"

definition Render :: "(int32 \<Rightarrow> string) \<Rightarrow> int32 \<Rightarrow> gparam list \<Rightarrow> string" where
  "Render tmpl code ps =
     (if tmpl code = [] then []
      else if CHR ''@'' \<notin> set (tmpl code) then tmpl code
      else render_loop ps (tmpl code))"

lemma render_loop_no_placeholder: "CHR ''@'' \<notin> set t \<Longrightarrow> render_loop ps t = t"
  by (induction ps t rule: render_loop.induct) auto

lemma render_loop_no_params: "render_loop [] t = t"
  by (induction "[] :: gparam list" t rule: render_loop.induct) (auto simp: Let_def)

text \<open>A template as its author means it: plain text and references to arguments, counted from 0.  A reference to an
  argument that the server did not send stays as it is written.\<close>

datatype piece = Plain string | Arg nat

fun piece_ok :: "piece \<Rightarrow> bool" where
  "piece_ok (Plain s) = (CHR ''@'' \<notin> set s)"
| "piece_ok (Arg i) = (i < 9)"

fun written_piece :: "piece \<Rightarrow> string" where
  "written_piece (Plain s) = s"
| "written_piece (Arg i) = [CHR ''@'', char_of (49 + i)]"

fun rendered_piece :: "gparam list \<Rightarrow> piece \<Rightarrow> string" where
  "rendered_piece ps (Plain s) = s"
| "rendered_piece ps (Arg i) = (if i < length ps then paramString (ps ! i) else written_piece (Arg i))"

lemma render_loop_plain: "CHR ''@'' \<notin> set s \<Longrightarrow> render_loop ps (s @ t) = s @ render_loop ps t"
proof (induction s)
  case (Cons c s)
  then show ?case by (cases "s @ t") auto
qed simp

lemma render_loop_pieces:
  "list_all piece_ok pcs \<Longrightarrow> render_loop ps (concat (map written_piece pcs)) = concat (map (rendered_piece ps) pcs)"
proof (induction pcs)
  case (Cons p pcs)
  then show ?case by (cases p) (simp_all add: render_loop_plain of_char_of Let_def)
qed simp

lemma Render_pieces:
  assumes "tmpl code = concat (map written_piece pcs)" and "tmpl code \<noteq> []" and "list_all piece_ok pcs"
  shows "Render tmpl code ps = concat (map (rendered_piece ps) pcs)"
  using assms render_loop_pieces [OF assms(3), of ps] render_loop_no_placeholder [of "tmpl code" ps] by (auto simp: Render_def)

section \<open>Rendering of status vectors\<close>

definition raw_params :: "gparam list \<Rightarrow> string" where
  "raw_params ps = concat (map (\<lambda>p. case p of PInt32 n \<Rightarrow> '' ['' @ formatInt (sint n) @ '']'' | PString _ \<Rightarrow> []) ps)"

definition appendMessage :: "(int32 \<Rightarrow> string) \<Rightarrow> GDSError \<Rightarrow> string" where
  "appendMessage tmpl e =
     (let msg = Render tmpl (Code e) (Params e) in
      if msg \<noteq> [] then msg
      else ''GDS '' @ formatInt (sint (Code e)) @
        (if Message e \<noteq> [] then '': '' @ Message e else raw_params (Params e)))"

definition code_suffix :: "GDSError \<Rightarrow> string" where
  "code_suffix e = '' (GDS '' @ formatInt (sint (Code e)) @
     (if SQLState_field e \<noteq> [] then '', SQLSTATE '' @ SQLState_field e else []) @ '')''"

definition GDSError_Error :: "(int32 \<Rightarrow> string) \<Rightarrow> GDSError \<Rightarrow> string" where
  "GDSError_Error tmpl e = appendMessage tmpl e @ code_suffix e"

fun join_messages :: "string list \<Rightarrow> string" where
  "join_messages [] = []"
| "join_messages [m] = m"
| "join_messages (m # ms) = m @ ''; '' @ join_messages ms"

definition StatusVector_Error :: "(int32 \<Rightarrow> string) \<Rightarrow> StatusVector \<Rightarrow> string" where
  "StatusVector_Error tmpl sv =
     (if \<not> HasError sv then []
      else join_messages (map (appendMessage tmpl) (Errors sv)) @ code_suffix (hd (Errors sv)))"

definition GDSCode :: "StatusVector \<Rightarrow> int32" where
  "GDSCode sv = (if HasError sv then Code (hd (Errors sv)) else 0)"

definition StatusError_SQLState :: "(int32 \<Rightarrow> string) \<Rightarrow> StatusVector \<Rightarrow> string" where
  "StatusError_SQLState states sv =
     (if \<not> HasError sv then []
      else if SQLState_field (hd (Errors sv)) \<noteq> [] then SQLState_field (hd (Errors sv))
      else states (Code (hd (Errors sv))))"

section \<open>The Go error tree\<close>

datatype errno = EPIPE | ECONNRESET | ECONNABORTED | ENOTCONN | ESHUTDOWN | ETIMEDOUT | OtherErrno nat

datatype gerr =
    ErrEOF
  | ErrUnexpectedEOF
  | ErrNoProgress
  | ErrClosedPipe
  | ErrNetClosed
  | SysErr errno
  | OpError string gerr
  | ErrBadConn
  | ErrSkip
  | CtxErr string
  | Msg string
  | Wrap string gerr
  | WrapBad gerr gerr
  | StatusErr StatusVector

text \<open>\<^verbatim>\<open>errors.Is\<close> against a sentinel walks \<^verbatim>\<open>Unwrap\<close>; \<^verbatim>\<open>errors.As\<close> returns the first match in
  pre-order.\<close>

fun errorIs :: "gerr \<Rightarrow> gerr \<Rightarrow> bool" where
  "errorIs (OpError s e) t = (OpError s e = t \<or> errorIs e t)"
| "errorIs (Wrap s e) t = (Wrap s e = t \<or> errorIs e t)"
| "errorIs (WrapBad d e) t = (WrapBad d e = t \<or> errorIs d t \<or> errorIs e t)"
| "errorIs e t = (e = t)"

fun asStatusError :: "gerr \<Rightarrow> StatusVector option" where
  "asStatusError (StatusErr sv) = Some sv"
| "asStatusError (OpError _ e) = asStatusError e"
| "asStatusError (Wrap _ e) = asStatusError e"
| "asStatusError (WrapBad d e) = (case asStatusError d of Some sv \<Rightarrow> Some sv | None \<Rightarrow> asStatusError e)"
| "asStatusError _ = None"

fun asOpError :: "gerr \<Rightarrow> bool" where
  "asOpError (OpError _ _) = True"
| "asOpError (Wrap _ e) = asOpError e"
| "asOpError (WrapBad d e) = (asOpError d \<or> asOpError e)"
| "asOpError _ = False"

fun errno_text :: "errno \<Rightarrow> string" where
  "errno_text EPIPE = ''broken pipe''"
| "errno_text ECONNRESET = ''connection reset by peer''"
| "errno_text ECONNABORTED = ''software caused connection abort''"
| "errno_text ENOTCONN = ''transport endpoint is not connected''"
| "errno_text ESHUTDOWN = ''cannot send after transport endpoint shutdown''"
| "errno_text ETIMEDOUT = ''connection timed out''"
| "errno_text (OtherErrno n) = ''errno '' @ formatNat n"

fun error_text :: "(int32 \<Rightarrow> string) \<Rightarrow> gerr \<Rightarrow> string" where
  "error_text tmpl ErrEOF = ''EOF''"
| "error_text tmpl ErrUnexpectedEOF = ''unexpected EOF''"
| "error_text tmpl ErrNoProgress = ''multiple Read calls return no data or error''"
| "error_text tmpl ErrClosedPipe = ''io: read/write on closed pipe''"
| "error_text tmpl ErrNetClosed = ''use of closed network connection''"
| "error_text tmpl (SysErr n) = errno_text n"
| "error_text tmpl (OpError s e) = s @ '': '' @ error_text tmpl e"
| "error_text tmpl ErrBadConn = ''driver: bad connection''"
| "error_text tmpl ErrSkip = ''driver: skip fast-path; continue as if unimplemented''"
| "error_text tmpl (CtxErr s) = s"
| "error_text tmpl (Msg s) = s"
| "error_text tmpl (Wrap s e) = s @ '': '' @ error_text tmpl e"
| "error_text tmpl (WrapBad d e) = error_text tmpl d @ '': '' @ error_text tmpl e"
| "error_text tmpl (StatusErr sv) = ''firebird: '' @ StatusVector_Error tmpl sv"

section \<open>Transport errors (transport.go)\<close>

definition isTransportError :: "(int32 \<Rightarrow> string) \<Rightarrow> gerr \<Rightarrow> bool" where
  "isTransportError tmpl err \<longleftrightarrow>
     errorIs err ErrEOF \<or> errorIs err ErrUnexpectedEOF \<or> errorIs err ErrClosedPipe \<or>
     errorIs err ErrNetClosed \<or> errorIs err (SysErr EPIPE) \<or> errorIs err (SysErr ECONNRESET) \<or>
     errorIs err (SysErr ECONNABORTED) \<or> errorIs err (SysErr ENOTCONN) \<or>
     errorIs err (SysErr ESHUTDOWN) \<or> errorIs err (SysErr ETIMEDOUT) \<or>
     asOpError err \<or>
     (let msg = toLower (error_text tmpl err) in
        contains msg ''broken pipe'' \<or> contains msg ''connection reset'' \<or>
        contains msg ''use of closed network connection'')"

definition wrapBadConn :: "gerr \<Rightarrow> gerr" where
  "wrapBadConn err = (if errorIs err ErrBadConn then err else WrapBad ErrBadConn err)"

lemma wrapBadConn_retryable: "errorIs (wrapBadConn err) ErrBadConn"
  by (simp add: wrapBadConn_def)

lemma wrapBadConn_keeps_cause: "asStatusError (wrapBadConn err) = asStatusError err"
  by (simp add: wrapBadConn_def)

lemma Wrap_transport:
  "isTransportError tmpl e \<Longrightarrow> isTransportError tmpl (Wrap s e)"
proof -
  have contains_app: "contains t p \<Longrightarrow> contains (s @ t) p" for s t p
    by (induction s) auto
  assume "isTransportError tmpl e"
  moreover have "toLower (error_text tmpl (Wrap s e)) = toLower (s @ '': '') @ toLower (error_text tmpl e)"
    by (simp add: toLower_def)
  ultimately show ?thesis
    unfolding isTransportError_def Let_def by (simp only: errorIs.simps asOpError.simps) (metis contains_app)
qed

end
