(* ===== verification/ErrmsgGen.thy ===== *)
theory ErrmsgGen
  imports Regexp Errors "HOL-Library.Multiset"
begin

text \<open>
  The generator of the message tables, \<^verbatim>\<open>internal/errmsg/gen/main.go\<close>: it reads the Firebird headers that declare the
  messages, one declaration per line, and writes \<^verbatim>\<open>messages_generated.go\<close>, the functions \<^verbatim>\<open>Template\<close> and \<^verbatim>\<open>SQLState\<close> from which
  the driver renders the errors of a server.  The file system, the download and \<^verbatim>\<open>strconv.Quote\<close> are parameters, and so is
  \<^verbatim>\<open>sort.Slice\<close>, which promises an ascending order and nothing about equal elements.
\<close>

section \<open>Reading a declaration\<close>

record facility =
  fac_file :: string
  fac_code :: int

definition fac :: "string \<Rightarrow> int \<Rightarrow> facility" where "fac f n = \<lparr>fac_file = f, fac_code = n\<rparr>"

definition facilities :: "facility list" where
  "facilities = [fac ''jrd'' 0, fac ''gfix'' 3, fac ''dsql'' 7, fac ''dyn'' 8, fac ''gbak'' 12, fac ''sqlerr'' 13, fac ''sqlwarn'' 14,
     fac ''jrd_bugchk'' 15, fac ''isql'' 17, fac ''gsec'' 18, fac ''gstat'' 21, fac ''fbsvcmgr'' 22, fac ''utl'' 23, fac ''nbackup'' 24,
     fac ''fbtracemgr'' 25]"

definition gdsMask :: int where "gdsMask = 0x14000000"

abbreviation comma :: char where "comma \<equiv> CHR '',''"

definition entryTail :: rx where
  "entryTail = rseq [ws, chr dquote, Grp 3 (Many str_char), chr dquote, ws, chr (CHR '')''), ws, Eol]"

definition entryRe :: rx where
  "entryRe = rseq [lit ''FB_IMPL_MSG'', Opt (Alt (lit ''_NO_SYMBOL'') (lit ''_SYMBOL'')), chr (CHR ''(''), ws, Grp 1 (plus (Cls is_word)), chr comma,
     ws, Grp 2 (plus (Cls is_digit)), ws, chr comma, Opt (Seq (Many dot) (chr comma)), entryTail]"

definition stateRe :: rx where
  "stateRe = rseq [lit ''FB_IMPL_MSG'', chr (CHR ''(''), ws, Grp 1 (plus (Cls is_word)), chr comma, ws, Grp 2 (plus (Cls is_digit)), chr comma,
     ws, plus (Cls is_word), chr comma, ws, Opt (chr (CHR ''-'')), plus (Cls is_digit), chr comma,
     ws, chr dquote, Grp 3 (rseq [Cls is_word, Cls is_word]), chr dquote, chr comma,
     ws, chr dquote, Grp 4 (rseq [Cls is_word, Cls is_word, Cls is_word]), chr dquote, chr comma]"

definition unescape_char :: "char \<Rightarrow> string" where
  "unescape_char c =
     (if c = CHR ''n'' then [newline] else if c = CHR ''t'' then [CHR 0x09] else if c = dquote then [dquote]
      else if c = backslash then [backslash] else [backslash, c])"

fun unescapeC :: "string \<Rightarrow> string" where
  "unescapeC [] = []"
| "unescapeC [c] = [c]"
| "unescapeC (c # d # s) = (if c = backslash then unescape_char d @ unescapeC s else c # unescapeC (d # s))"

record msg =
  msg_code :: int32
  msg_text :: string
  msg_state :: string

definition gds_code :: "int \<Rightarrow> int \<Rightarrow> int32" where
  "gds_code code num = word_of_int (gdsMask OR push_bit 16 code OR num)"

text \<open>The body of the loop over the lines; \<open>None\<close> where it continues with the next line.\<close>

definition read_line :: "facility \<Rightarrow> string \<Rightarrow> msg option" where
  "read_line f l =
     (let line = trimSpace l in
      case FindStringSubmatch entryRe line of
        None \<Rightarrow> None
      | Some m \<Rightarrow> (case atoi (group m 2) of
          None \<Rightarrow> None
        | Some num \<Rightarrow>
            if num < 0 \<or> num > 0x3FFF then None
            else let text = unescapeC (group m 3) in
              if text = [] then None
              else Some \<lparr>msg_code = gds_code (fac_code f) num, msg_text = text,
                msg_state = (case FindStringSubmatch stateRe line of None \<Rightarrow> [] | Some sm \<Rightarrow> group sm 3 @ group sm 4)\<rparr>))"

fun split_on :: "char \<Rightarrow> string \<Rightarrow> string list" where
  "split_on c [] = [[]]"
| "split_on c (d # s) = (if d = c then [] # split_on c s else (d # hd (split_on c s)) # tl (split_on c s))"

section \<open>Reading the headers\<close>

definition headerURL :: "string \<Rightarrow> string \<Rightarrow> string" where
  "headerURL ref name =
     ''https://raw.githubusercontent.com/FirebirdSQL/firebird/'' @ ref @ ''/src/include/firebird/impl/msg/'' @ name @ ''.h''"

text \<open>A response is its status code, its status line and what reading the body gives.\<close>

definition download :: "(string \<Rightarrow> gerr + (int \<times> string \<times> (gerr + string))) \<Rightarrow> string \<Rightarrow> string \<Rightarrow> gerr + string" where
  "download get ref name = (case get (headerURL ref name) of
     Inl e \<Rightarrow> Inl e
   | Inr (code, status, body) \<Rightarrow>
       if code \<noteq> 200 then Inl (Msg (''GET '' @ headerURL ref name @ '': '' @ status)) else body)"

text \<open>The messages of all headers, or the name and the error of the first that cannot be read.\<close>

fun read_headers :: "(string \<Rightarrow> gerr + string) \<Rightarrow> facility list \<Rightarrow> (string \<times> gerr) + msg list" where
  "read_headers get [] = Inr []"
| "read_headers get (f # fs) = (case get (fac_file f) of
     Inl e \<Rightarrow> Inl (fac_file f, e)
   | Inr cnt \<Rightarrow> (case read_headers get fs of
       Inl err \<Rightarrow> Inl err
     | Inr msgs \<Rightarrow> Inr (List.map_filter (read_line f) (split_on newline cnt) @ msgs)))"

section \<open>Writing the tables\<close>

text \<open>The two functions the generated file holds: a \<^verbatim>\<open>switch\<close> over the codes, the empty string for every other.\<close>

definition Template :: "msg list \<Rightarrow> int32 \<Rightarrow> string" where
  "Template msgs code = (case List.find (\<lambda>m. msg_code m = code) msgs of None \<Rightarrow> [] | Some m \<Rightarrow> msg_text m)"

definition with_state :: "msg list \<Rightarrow> msg list" where
  "with_state msgs = filter (\<lambda>m. msg_state m \<noteq> []) msgs"

definition SQLState :: "msg list \<Rightarrow> int32 \<Rightarrow> string" where
  "SQLState msgs code = (case List.find (\<lambda>m. msg_code m = code) (with_state msgs) of None \<Rightarrow> [] | Some m \<Rightarrow> msg_state m)"

definition nl :: string where "nl = [newline]"

definition tab :: string where "tab = [CHR 0x09]"

definition switch_case :: "(string \<Rightarrow> string) \<Rightarrow> int32 \<Rightarrow> string \<Rightarrow> string" where
  "switch_case quote code s = tab @ ''case '' @ formatInt (sint code) @ '':'' @ nl @ tab @ tab @ ''return '' @ quote s @ nl"

definition fileHead :: string where
  "fileHead = concat (map (\<lambda>l. l @ nl)
     [''// Code generated by internal/errmsg/gen; DO NOT EDIT.'', ''//'',
      ''// Firebird error message templates, extracted from'',
      ''// https://github.com/FirebirdSQL/firebird/tree/master/src/include/firebird/impl/msg'', ''//'',
      ''// The message texts are copyright of the Firebird project contributors and'',
      ''// are distributed under the Initial Developer'' @ [CHR 0x27] @ ''s Public License Version 1.0'',
      ''// (IDPL, https://www.firebirdsql.org/en/initial-developer-s-public-license-version-1-0/).'',
      ''// The rest of this module remains under its own license.'', [], ''package errmsg'', [],
      ''// Template returns the Firebird message template for a GDS error code, or'',
      ''// the empty string when the code is unknown. Placeholders @1..@n are'',
      ''// substituted with the status-vector arguments by Render.'',
      ''func Template(code int32) string {'', tab @ ''switch code {''])"

definition stateHead :: string where
  "stateHead = concat (map (\<lambda>l. l @ nl)
     [''// SQLState returns the SQLSTATE that Firebird associates with a GDS error'',
      ''// code, or '' @ [dquote, dquote] @ '' when unknown. The server does not send SQLSTATE in the wire'',
      ''// status vector; like fbclient/jaybird, clients derive it from this table.'',
      ''func SQLState(code int32) string {'', tab @ ''switch code {''])"

definition switchEnd :: string where
  "switchEnd = tab @ ''}'' @ nl @ tab @ ''return '' @ [dquote, dquote] @ nl @ ''}'' @ nl"

definition generated_file :: "(string \<Rightarrow> string) \<Rightarrow> msg list \<Rightarrow> string" where
  "generated_file quote msgs =
     fileHead @ concat (map (\<lambda>m. switch_case quote (msg_code m) (msg_text m)) msgs) @ switchEnd @ nl @
     stateHead @ concat (map (\<lambda>m. switch_case quote (msg_code m) (msg_state m)) (with_state msgs)) @ switchEnd"

text \<open>\<^verbatim>\<open>main\<close>: the exit status, what is printed on the standard output and on the standard error, and the file written.\<close>

record gen_result =
  exit_code :: int
  out_lines :: "string list"
  err_text :: string
  written :: "string option"

record gen_flags =
  flag_ref :: string
  flag_dir :: string
  flag_out :: string

record gen_lib =
  lib_join :: "string \<Rightarrow> string \<Rightarrow> string"
  lib_readFile :: "string \<Rightarrow> gerr + string"
  lib_get :: "string \<Rightarrow> gerr + (int \<times> string \<times> (gerr + string))"
  lib_sort :: "msg list \<Rightarrow> msg list"
  lib_quote :: "string \<Rightarrow> string"
  lib_writeFile :: "string \<Rightarrow> string \<Rightarrow> gerr option"

definition content_of :: "gen_lib \<Rightarrow> gen_flags \<Rightarrow> string \<Rightarrow> gerr + string" where
  "content_of lib flags name =
     (if flag_dir flags \<noteq> [] then lib_readFile lib (lib_join lib (flag_dir flags) (name @ ''.h'')) else download (lib_get lib) (flag_ref flags) name)"

definition gen_main :: "gen_lib \<Rightarrow> gen_flags \<Rightarrow> gen_result" where
  "gen_main lib flags =
     (case read_headers (content_of lib flags) facilities of
        Inl (name, e) \<Rightarrow> \<lparr>exit_code = 1, out_lines = [], err_text = name @ '': '' @ error_text (\<lambda>_. []) e @ nl, written = None\<rparr>
      | Inr found \<Rightarrow>
          (let msgs = lib_sort lib found; file = generated_file (lib_quote lib) msgs; out = flag_out flags;
               states = formatNat (length (with_state msgs)) @ '' sqlstates'' in
           case lib_writeFile lib out file of
             Some e \<Rightarrow> \<lparr>exit_code = 1, out_lines = [states], err_text = error_text (\<lambda>_. []) e @ nl, written = None\<rparr>
           | None \<Rightarrow> \<lparr>exit_code = 0, out_lines = [states, formatNat (length msgs) @ '' mensajes generados en '' @ out], err_text = [],
               written = Some file\<rparr>))"

section \<open>Declarations\<close>

definition escape_char :: "char \<Rightarrow> string" where
  "escape_char c =
     (if c = newline then [backslash, CHR ''n''] else if c = CHR 0x09 then [backslash, CHR ''t'']
      else if c = dquote \<or> c = backslash then [backslash, c] else [c])"

definition escapeC :: "string \<Rightarrow> string" where "escapeC s = concat (map escape_char s)"

definition quoted :: "string \<Rightarrow> string" where "quoted s = dquote # s @ [dquote]"

lemma unescapeC_plain: "c \<noteq> backslash \<Longrightarrow> unescapeC (c # s) = c # unescapeC s"
  by (cases s) simp_all

lemma unescapeC_escapeC [simp]: "unescapeC (escapeC s) = s"
proof (induction s)
  case (Cons c s)
  have "unescapeC (escape_char c @ t) = c # unescapeC t" for t
    by (auto simp: escape_char_def unescape_char_def unescapeC_plain)
      (simp_all add: dquote_def backslash_def newline_def)
  with Cons show ?case by (simp add: escapeC_def)
qed (simp add: escapeC_def)

lemma escaped_escape_char: "escaped t \<Longrightarrow> escaped (escape_char c @ t)"
  by (cases t) (auto simp: escape_char_def dquote_def backslash_def newline_def)

lemma escaped_escapeC: "escaped (escapeC s)"
  by (induction s) (simp_all add: escapeC_def escaped_escape_char)

lemma newline_escapeC: "newline \<notin> set (escapeC s)"
  by (auto simp: escapeC_def escape_char_def newline_def dquote_def backslash_def split: if_splits)

section \<open>The last string of a declaration\<close>

text \<open>The greedy middle of the expression may stop after any comma; only the one before the last argument lets the rest match.\<close>

lemma tail_rejects:
  assumes "\<And>u. dropWhile is_ws s \<noteq> dquote # u"
  shows "matches entryTail (s, g) = []"
proof -
  have "matches entryTail (s, g) = matches (rseq [chr dquote, Grp 3 (Many str_char), chr dquote, ws, chr (CHR '')''), ws, Eol]) (dropWhile is_ws s, g)"
    unfolding entryTail_def by (intro rseq_ws rejects_rules) simp
  moreover have "(\<And>u. t \<noteq> dquote # u) \<Longrightarrow> matches (rseq (chr dquote # rs)) (t, g) = []" for t rs by (cases t) auto
  ultimately show ?thesis using assms by simp
qed

definition stringTail :: rx where
  "stringTail = rseq [chr dquote, ws, chr (CHR '')''), ws, Eol]"

lemma tail_string: "matches entryTail (CHR '' '' # dquote # s, g) = matches (Seq (Grp 3 (Many str_char)) stringTail) (s, g)"
proof -
  have "matches entryTail (CHR '' '' # dquote # s, g)
      = matches (rseq [chr dquote, Grp 3 (Many str_char), chr dquote, ws, chr (CHR '')''), ws, Eol]) (dropWhile is_ws (CHR '' '' # dquote # s), g)"
    unfolding entryTail_def by (intro rseq_ws rejects_rules) simp
  moreover have "dropWhile is_ws (CHR '' '' # dquote # s) = dquote # s" by simp
  ultimately show ?thesis by (simp add: stringTail_def)
qed

lemma stringTail_run:
  "matches stringTail (dquote # s, g) = matches (rseq [ws, chr (CHR '')''), ws, Eol]) (s, g)" "rejects stringTail (\<lambda>c. c \<noteq> dquote)"
  by (simp_all add: stringTail_def rejects_def)

lemma tail_accepts:
  assumes "escaped s"
  shows "matches entryTail (CHR '' '' # quoted s @ '')'', g) = [([], (3, s) # g)]"
proof -
  have "matches (rseq [ws, Eol]) ([], h) = [([], h)]" for h
    by (subst rseq_ws, intro rejects_rules) (simp add: match_Eol)
  moreover have "matches (rseq [ws, chr (CHR '')''), ws, Eol]) ('')'', h) = matches (rseq [ws, Eol]) ([], h)" for h
    by (subst rseq_ws, intro rejects_rules) (simp_all del: matches_rseq add: rseq_chr)
  ultimately show ?thesis using tail_string [of "s @ dquote # '')''" g] match_string [OF assms stringTail_run(2)] by (simp add: quoted_def stringTail_run(1))
qed

lemma tail_stops:
  assumes "escaped s"
  shows "matches entryTail (CHR '' '' # quoted s @ comma # u, g) = []"
proof -
  have "matches (rseq [ws, chr (CHR '')''), ws, Eol]) (comma # u, h) = []" for h
    by (subst rseq_ws, intro rejects_rules) (simp_all del: matches_rseq add: rseq_chr)
  then show ?thesis using tail_string [of "s @ dquote # comma # u" g] match_string [OF assms stringTail_run(2)] by (simp add: quoted_def stringTail_run(1))
qed

text \<open>A comma inside the last string, and then the closing quote taken for an opening one.\<close>

lemma tail_too_far:
  assumes "list_all is_ws s"
  shows "matches entryTail (s @ [dquote, CHR '')''], g) = []"
proof -
  have "matches entryTail (s @ [dquote, CHR '')''], g)
      = matches (rseq [chr dquote, Grp 3 (Many str_char), chr dquote, ws, chr (CHR '')''), ws, Eol]) (dropWhile is_ws (s @ [dquote, CHR '')'']), g)"
    unfolding entryTail_def by (intro rseq_ws rejects_rules) simp
  moreover have "dropWhile is_ws (s @ [dquote, CHR '')'']) = [dquote, CHR '')'']" using assms by (simp add: list_all_iff dropWhile_append2)
  moreover have "matches (Many str_char) ('')'', h) = [([], h), ('')'', h)]" for h
    by (subst matches_Many, subst matches_Many) (simp add: dquote_def backslash_def str_char_def chr_def matches.simps)
  ultimately show ?thesis by (simp add: match_Grp dquote_def)
qed

text \<open>The arguments between the number and the text: plain ones or strings.\<close>

definition plain_arg :: "string \<Rightarrow> bool" where
  "plain_arg a \<longleftrightarrow> a \<noteq> [] \<and> \<not> is_ws (hd a) \<and> hd a \<noteq> dquote"

definition arg_ok :: "string \<Rightarrow> bool" where
  "arg_ok a \<longleftrightarrow> comma \<notin> set a \<and> newline \<notin> set a \<and> (plain_arg a \<or> (\<exists>w. a = quoted w \<and> escaped w))"

fun args_text :: "string list \<Rightarrow> string" where
  "args_text [] = []"
| "args_text (a # as) = CHR '' '' # a @ comma # args_text as"

lemma arg_rejected:
  assumes "arg_ok a"
  shows "matches entryTail (CHR '' '' # a @ comma # u, g) = []"
proof (cases "plain_arg a")
  case True
  then have "dropWhile is_ws (CHR '' '' # a @ comma # u) = a @ comma # u" by (cases a) (auto simp: plain_arg_def)
  then show ?thesis using True by (intro tail_rejects) (cases a, auto simp: plain_arg_def)
next
  case False
  then show ?thesis using assms by (auto simp: arg_ok_def tail_stops)
qed

lemma inside_rejected:
  assumes "escaped s" and "u \<in> set (after_commas s)"
  shows "matches entryTail (u @ [dquote, CHR '')''], g) = []"
proof (cases "dropWhile is_ws u")
  case Nil
  then show ?thesis by (intro tail_too_far) (simp add: list_all_iff)
next
  case (Cons c v)
  then have "c \<noteq> dquote" by (rule escaped_after_commas [OF assms])
  moreover have "dropWhile is_ws (u @ t) = dropWhile is_ws u @ t" for t
    using Cons by (metis dropWhile_append dropWhile_eq_Nil_conv list.distinct(1))
  ultimately show ?thesis using Cons by (intro tail_rejects) simp
qed

lemma last_string:
  assumes "list_all arg_ok as" and "escaped s" and "newline \<notin> set s"
  shows "matches (rseq [Opt (Seq (Many dot) (chr comma)), entryTail]) (args_text as @ CHR '' '' # quoted s @ '')'', g) = [([], (3, s) # g)]"
proof -
  let ?B = "CHR '' '' # quoted s @ '')''" and ?tail = "\<lambda>t. matches entryTail (t, g)"
  have B: "after_commas ?B = map (\<lambda>u. u @ [dquote, CHR '')'']) (after_commas s)"
    by (simp add: quoted_def dquote_def after_commas_append)
  have nl: "newline \<notin> set (args_text as @ ?B)"
    using assms by (induction as) (auto simp: arg_ok_def quoted_def newline_def dquote_def)
  have "concat (map ?tail (rev (after_commas (args_text as @ ?B)))) @ ?tail (args_text as @ ?B) = [([], (3, s) # g)]"
    using assms(1)
  proof (induction as)
    case Nil
    have "map ?tail (rev (after_commas ?B)) = map (\<lambda>_. []) (rev (after_commas s))"
      unfolding B rev_map map_map comp_def using inside_rejected [OF assms(2)] by simp
    then show ?case using tail_accepts [OF assms(2)] by simp
  next
    case (Cons a as)
    let ?M = "args_text as @ ?B"
    have "after_commas (args_text (a # as) @ ?B) = ?M # after_commas ?M"
      using Cons.prems by (simp add: after_commas_append arg_ok_def after_commas_none)
    moreover have "?tail (args_text (a # as) @ ?B) = []" using Cons.prems arg_rejected by simp
    ultimately show ?case using Cons by simp
  qed
  moreover have "matches (rseq [Seq (Many dot) (chr comma), entryTail]) (args_text as @ ?B, g)
      = concat (map ?tail (rev (after_commas (args_text as @ ?B))))"
    unfolding matches_rseq(2) [of "Seq (Many dot) (chr comma)"] match_to_comma [OF nl] rseq_single ..
  ultimately show ?thesis by (simp only: rseq_Opt rseq_single)
qed

section \<open>A whole declaration\<close>

lemma ws_not_word: "is_ws c \<Longrightarrow> \<not> is_word c" and ws_not_digit: "is_ws c \<Longrightarrow> \<not> is_digit c"
  using word_not_ws digit_not_ws by blast+

definition numberRe :: rx where
  "numberRe = rseq [chr (CHR ''(''), ws, Grp 1 (plus (Cls is_word)), chr comma, ws, Grp 2 (plus (Cls is_digit)), ws, chr comma,
     Opt (Seq (Many dot) (chr comma)), entryTail]"

lemma dropWhile_word: "list_all is_word xs \<Longrightarrow> xs \<noteq> [] \<Longrightarrow> dropWhile is_ws (xs @ ys) = xs @ ys"
  by (cases xs) (auto simp: word_not_ws)

lemma digits_word: "list_all is_digit xs \<Longrightarrow> list_all is_word xs"
  by (auto simp: list_all_iff digit_word)

lemma number_match:
  assumes "list_all is_word fc" "fc \<noteq> []" "list_all is_digit ds" "ds \<noteq> []"
  shows "matches numberRe (CHR ''('' # fc @ comma # CHR '' '' # ds @ comma # r, g)
    = matches (rseq [Opt (Seq (Many dot) (chr comma)), entryTail]) (r, (2, ds) # (1, fc) # g)"
proof -
  let ?k = "[Opt (Seq (Many dot) (chr comma)), entryTail]"
  have 1: "matches (rseq (ws # Grp 1 (plus (Cls is_word)) # rs)) (fc @ u, g) = matches (rseq (Grp 1 (plus (Cls is_word)) # rs)) (fc @ u, g)" for rs u
    using assms by (subst rseq_ws) (intro rejects_rules, simp_all add: ws_not_word dropWhile_word del: matches_rseq)
  have 2: "matches (rseq (Grp 1 (plus (Cls is_word)) # chr comma # rs)) (fc @ comma # u, g) = matches (rseq rs) (u, (1, fc) # g)" for rs u
    using assms by (subst rseq_group_plus) (simp_all add: rejects_rules)
  have 3: "matches (rseq (ws # Grp 2 (plus (Cls is_digit)) # rs)) (CHR '' '' # ds @ u, h) = matches (rseq (Grp 2 (plus (Cls is_digit)) # rs)) (ds @ u, h)"
    for rs u h
    using assms by (subst rseq_ws) (intro rejects_rules, simp_all add: ws_not_digit dropWhile_word digits_word del: matches_rseq)
  have w: "rejects (rseq (chr comma # rs)) is_ws" for rs by (intro rejects_rules) simp
  have 4: "matches (rseq (Grp 2 (plus (Cls is_digit)) # ws # chr comma # rs)) (ds @ comma # u, h) = matches (rseq (ws # chr comma # rs)) (comma # u, (2, ds) # h)"
    for rs u h
    using assms w [of rs] by (subst rseq_group_plus) (simp_all add: rejects_rules digit_not_ws del: matches_rseq)
  have 5: "matches (rseq (ws # chr comma # rs)) (comma # u, h) = matches (rseq rs) (u, h)" for rs u h
    by (subst rseq_ws [OF w]) simp
  show ?thesis unfolding numberRe_def rseq_chr by (simp only: 1 2 3 4 5 if_True simp_thms)
qed

lemma entry_match:
  assumes "list_all is_word fc" "fc \<noteq> []" "list_all is_digit ds" "ds \<noteq> []" and "suf \<in> {[], ''_NO_SYMBOL'', ''_SYMBOL''}"
    and "list_all arg_ok as" and "escaped s" and "newline \<notin> set s"
  shows "FindStringSubmatch entryRe (''FB_IMPL_MSG'' @ suf @ CHR ''('' # fc @ comma # CHR '' '' # ds @ comma # args_text as @ CHR '' '' # quoted s @ '')'')
    = Some [(3, s), (2, ds), (1, fc)]"
proof -
  let ?r = "CHR ''('' # fc @ comma # CHR '' '' # ds @ comma # args_text as @ CHR '' '' # quoted s @ '')''"
  let ?opt = "Alt (lit ''_NO_SYMBOL'') (lit ''_SYMBOL'')"
  have n: "matches numberRe (?r, g) = [([], (3, s) # (2, ds) # (1, fc) # g)]" for g
    using number_match [OF assms(1-4)] last_string [OF assms(6-8)] by simp
  have no: "c \<noteq> CHR ''('' \<Longrightarrow> matches numberRe (c # u, g) = []" for c u g by (simp add: numberRe_def)
  have "matches (rseq [Opt ?opt, numberRe]) (suf @ ?r, []) = [([], [(3, s), (2, ds), (1, fc)])]"
    using assms(5) n no
    by (elim insertE emptyE) (simp_all add: rseq_Opt rseq_single match_Alt match_lit_step del: matches_rseq(2) add: matches_rseq(2) [of ?opt])
  moreover have "matches entryRe (''FB_IMPL_MSG'' @ suf @ ?r, []) = matches (rseq [Opt ?opt, numberRe]) (suf @ ?r, [])"
  proof -
    have "matches (rseq (Opt ?opt # rs)) x = matches (rseq [Opt ?opt, rseq rs]) x" for rs x
      by (simp add: rseq_Opt rseq_single match_Alt rseq_nest del: matches_rseq(2) add: matches_rseq(2) [of ?opt])
    then show ?thesis unfolding entryRe_def numberRe_def rseq_lit .
  qed
  ultimately show ?thesis by (simp add: FindStringSubmatch_def)
qed

section \<open>The SQLSTATE of a declaration\<close>

lemma state_word:
  assumes "list_all is_word w" "w \<noteq> []"
  shows "matches (rseq (ws # plus (Cls is_word) # chr comma # rs)) (CHR '' '' # w @ comma # u, g) = matches (rseq rs) (u, g)"
proof -
  have "matches (rseq (ws # plus (Cls is_word) # chr comma # rs)) (CHR '' '' # w @ comma # u, g) = matches (rseq (plus (Cls is_word) # chr comma # rs)) (w @ comma # u, g)"
    using assms by (subst rseq_ws) (intro rejects_rules, simp_all add: ws_not_word dropWhile_word del: matches_rseq)
  also have "\<dots> = matches (rseq rs) (u, g)" using assms by (subst rseq_plus) (simp_all add: rejects_rules)
  finally show ?thesis .
qed

lemma state_code:
  "matches (rseq (ws # Opt (chr (CHR ''-'')) # plus (Cls is_digit) # chr comma # rs)) (CHR '' '' # formatInt v @ comma # u, g) = matches (rseq rs) (u, g)"
proof -
  let ?k = "plus (Cls is_digit) # chr comma # rs"
  have k: "matches (rseq ?k) (formatNat n @ comma # u, g) = matches (rseq rs) (u, g)" for n
    using formatNat_digits by (subst rseq_plus) (simp_all add: rejects_rules)
  have r: "rejects (rseq ?k) (\<lambda>c. \<not> is_digit c)" by (intro rejects_rules) simp
  have "\<not> is_ws (CHR ''-'')" by (simp add: is_ws_def)
  then have w: "rejects (rseq (Opt (chr (CHR ''-'')) # ?k)) is_ws"
    using r by (intro rejects_rseq rejects_Opt rejects_chr) (auto simp: rejects_def ws_not_digit)
  obtain c t where ct: "formatNat (nat (if v < 0 then - v else v)) = c # t" by (rule formatNat_Cons)
  then have c: "is_digit c" by (rule formatNat_hd_digit)
  then have d: "dropWhile is_ws (CHR '' '' # formatInt v @ comma # u) = formatInt v @ comma # u"
    using ct digit_not_ws [OF c] \<open>\<not> is_ws (CHR ''-'')\<close> by (auto simp: formatInt_def split: if_splits)
  have "matches (rseq (Opt (chr (CHR ''-'')) # ?k)) (formatInt v @ comma # u, g) = matches (rseq rs) (u, g)"
  proof (cases "v < 0")
    case True
    then show ?thesis using k [of "nat (- v)"] r by (simp add: rseq_Opt formatInt_def rseq_chr rejects_def del: matches_rseq)
  next
    case False
    with ct c have "c \<noteq> CHR ''-''" by auto
    then show ?thesis using False k [of "nat v"] ct by (simp add: rseq_Opt formatInt_def rseq_chr del: matches_rseq)
  qed
  then show ?thesis unfolding rseq_ws [OF w] d .
qed

lemma state_string:
  assumes "\<And>u h. matches r (w @ u, h) = [(u, h)]"
  shows "matches (rseq (ws # chr dquote # Grp n r # chr dquote # chr comma # rs)) (CHR '' '' # quoted w @ comma # u, g) = matches (rseq rs) (u, (n, w) # g)"
proof -
  have "matches (rseq (ws # chr dquote # Grp n r # chr dquote # chr comma # rs)) (CHR '' '' # quoted w @ comma # u, g)
      = matches (rseq (chr dquote # Grp n r # chr dquote # chr comma # rs)) (quoted w @ comma # u, g)"
    by (subst rseq_ws) (intro rejects_rules, simp_all add: quoted_def del: matches_rseq)
  then show ?thesis using assms by (simp add: quoted_def match_Grp)
qed

lemma match_words:
  "is_word a \<Longrightarrow> is_word b \<Longrightarrow> matches (rseq [Cls is_word, Cls is_word]) ([a, b] @ u, h) = [(u, h)]"
  "is_word a \<Longrightarrow> is_word b \<Longrightarrow> is_word c \<Longrightarrow> matches (rseq [Cls is_word, Cls is_word, Cls is_word]) ([a, b, c] @ u, h) = [(u, h)]"
  by (simp_all add: matches.simps(3))

lemma state_match:
  assumes "list_all is_word fc" "fc \<noteq> []" "list_all is_digit ds" "ds \<noteq> []" "list_all is_word sy" "sy \<noteq> []"
    and "list_all is_word cl" "length cl = 2" "list_all is_word sub" "length sub = 3"
  shows "FindStringSubmatch stateRe (''FB_IMPL_MSG'' @ CHR ''('' # fc @ comma # CHR '' '' # ds @ comma # args_text [sy, formatInt v, quoted cl, quoted sub] @ u)
    = Some [(4, sub), (3, cl), (2, ds), (1, fc)]"
proof -
  obtain a b where cl: "cl = [a, b]" using assms(8) by (auto simp: length_Suc_conv numeral_2_eq_2)
  obtain c d e where sub: "sub = [c, d, e]" using assms(10) by (auto simp: length_Suc_conv numeral_3_eq_3)
  have w: "is_word a" "is_word b" "is_word c" "is_word d" "is_word e" using assms(7,9) cl sub by simp_all
  have 1: "matches (rseq (ws # Grp 1 (plus (Cls is_word)) # chr comma # rs)) (fc @ comma # t, g) = matches (rseq rs) (t, (1, fc) # g)" for rs t g
    using assms by (subst rseq_ws, intro rejects_rules)
      (simp_all add: ws_not_word dropWhile_word rseq_group_plus rejects_rules rseq_chr del: matches_rseq)
  have 2: "matches (rseq (ws # Grp 2 (plus (Cls is_digit)) # chr comma # rs)) (CHR '' '' # ds @ comma # t, g) = matches (rseq rs) (t, (2, ds) # g)" for rs t g
    using assms by (subst rseq_ws, intro rejects_rules)
      (simp_all add: ws_not_digit dropWhile_word digits_word rseq_group_plus rejects_rules rseq_chr del: matches_rseq)
  have "matches stateRe (''FB_IMPL_MSG'' @ CHR ''('' # fc @ comma # CHR '' '' # ds @ comma # args_text [sy, formatInt v, quoted cl, quoted sub] @ u, [])
      = matches (rseq []) (u, [(4, sub), (3, cl), (2, ds), (1, fc)])"
    unfolding stateRe_def rseq_lit rseq_chr
    using w by (simp only: if_True simp_thms 1 2 args_text.simps append_Cons append_assoc append_Nil state_word [OF assms(5,6)] state_code
        state_string [where w = cl and n = 3, unfolded cl, OF match_words(1)] cl sub state_string [where w = sub and n = 4, unfolded sub, OF match_words(2)])
  then show ?thesis by (simp add: FindStringSubmatch_def)
qed

lemma state_none: "suf \<in> {''_NO_SYMBOL'', ''_SYMBOL''} \<Longrightarrow> FindStringSubmatch stateRe (''FB_IMPL_MSG'' @ suf @ u) = None"
  unfolding FindStringSubmatch_def stateRe_def rseq_lit by (elim insertE emptyE) simp_all

section \<open>Codes\<close>

lemma or_disjoint:
  fixes a b :: int
  assumes "0 \<le> b" and "b < 2 ^ n"
  shows "push_bit n a OR b = push_bit n a + b"
proof -
  have "take_bit n b = b" using assms by (simp add: take_bit_int_eq_self)
  then have "push_bit n a AND b = push_bit n a AND take_bit n b" by simp
  also have "\<dots> = 0" by (rule bit_eqI) (simp add: bit_simps)
  finally show ?thesis by (metis disjunctive_add_eq_or)
qed

lemma gds_code_value:
  assumes "0 \<le> c" "c < 32" "0 \<le> n" "n \<le> 0x3FFF"
  shows "gds_code c n = word_of_int (gdsMask + c * 65536 + n)"
proof -
  have "push_bit 16 c OR n = c * 65536 + n" using assms or_disjoint [of n 16 c] by (simp add: push_bit_eq_mult)
  moreover have "gdsMask OR (c * 65536 + n) = gdsMask + (c * 65536 + n)"
    using assms or_disjoint [of "c * 65536 + n" 26 5] by (simp add: gdsMask_def push_bit_eq_mult)
  ultimately show ?thesis unfolding gds_code_def or.assoc by simp
qed

lemma gds_code_inj:
  assumes "0 \<le> c" "c < 32" "0 \<le> n" "n \<le> 0x3FFF" "0 \<le> c'" "c' < 32" "0 \<le> n'" "n' \<le> 0x3FFF"
    and "gds_code c n = gds_code c' n'"
  shows "c = c' \<and> n = n'"
proof -
  have u: "uint (gds_code c n) = gdsMask + c * 65536 + n" if "0 \<le> c" "c < 32" "0 \<le> n" "n \<le> 0x3FFF" for c n :: int
    unfolding gds_code_value [OF that] uint_word_of_int_eq using that by (simp add: gdsMask_def take_bit_int_eq_self)
  from arg_cong [OF assms(9), of uint] have e: "c * 65536 + n = c' * 65536 + n'"
    unfolding u [OF assms(1-4)] u [OF assms(5-8)] by simp
  have "(c * 65536 + n) div 65536 = c" "(c' * 65536 + n') div 65536 = c'" using assms(1-8) by simp_all
  with e have "c = c'" by simp
  with e show ?thesis by simp
qed

lemma facilities_codes:
  assumes "f \<in> set facilities"
  shows "0 \<le> fac_code f \<and> fac_code f < 32"
proof -
  have "list_all (\<lambda>f. 0 \<le> fac_code f \<and> fac_code f < 32) facilities" by (simp add: facilities_def fac_def)
  with assms show ?thesis by (simp add: list_all_iff)
qed

lemma facilities_distinct: "distinct (map fac_code facilities)"
  by (simp add: facilities_def fac_def)

section \<open>Headers\<close>

text \<open>A line of a header: a declaration in one of its three forms, or any other text.\<close>

datatype hline =
    Full string nat string int string string string
  | Symbol string nat string string
  | NoSymbol string nat string
  | Other string

definition decl_text :: "string \<Rightarrow> string \<Rightarrow> nat \<Rightarrow> string list \<Rightarrow> string \<Rightarrow> string" where
  "decl_text suf fc n as t = ''FB_IMPL_MSG'' @ suf @ CHR ''('' # fc @ comma # CHR '' '' # formatNat n @ comma # args_text as @ CHR '' '' # quoted (escapeC t) @ '')''"

fun line_text :: "hline \<Rightarrow> string" where
  "line_text (Full fc n sy v cl sub t) = decl_text [] fc n [sy, formatInt v, quoted cl, quoted sub] t"
| "line_text (Symbol fc n sy t) = decl_text ''_SYMBOL'' fc n [sy] t"
| "line_text (NoSymbol fc n t) = decl_text ''_NO_SYMBOL'' fc n [] t"
| "line_text (Other s) = s"

definition word_ok :: "string \<Rightarrow> bool" where "word_ok w \<longleftrightarrow> w \<noteq> [] \<and> list_all is_word w"

fun line_ok :: "hline \<Rightarrow> bool" where
  "line_ok (Full fc n sy v cl sub t) = (word_ok fc \<and> word_ok sy \<and> word_ok cl \<and> length cl = 2 \<and> word_ok sub \<and> length sub = 3)"
| "line_ok (Symbol fc n sy t) = (word_ok fc \<and> word_ok sy)"
| "line_ok (NoSymbol fc n t) = word_ok fc"
| "line_ok (Other s) = (newline \<notin> set s \<and> \<not> hasPrefix (trimSpace s) ''FB_IMPL_MSG'')"

text \<open>The number, the text and the SQLSTATE that a line declares.\<close>

fun declared :: "hline \<Rightarrow> (nat \<times> string \<times> string) option" where
  "declared (Full fc n sy v cl sub t) = Some (n, t, cl @ sub)"
| "declared (Symbol fc n sy t) = Some (n, t, [])"
| "declared (NoSymbol fc n t) = Some (n, t, [])"
| "declared (Other s) = None"

definition message :: "facility \<Rightarrow> nat \<times> string \<times> string \<Rightarrow> msg option" where
  "message f d = (case d of (n, t, st) \<Rightarrow>
     if n > 0x3FFF \<or> t = [] then None else Some \<lparr>msg_code = gds_code (fac_code f) (int n), msg_text = t, msg_state = st\<rparr>)"

lemma word_chars:
  assumes "word_ok w"
  shows "comma \<notin> set w" "newline \<notin> set w" "plain_arg w" "escaped w" "dquote \<notin> set w"
proof -
  have "is_word c \<Longrightarrow> c \<noteq> comma \<and> c \<noteq> newline \<and> c \<noteq> dquote \<and> c \<noteq> backslash \<and> \<not> is_ws c" for c
    by (auto simp: word_not_ws) (auto simp: is_word_def is_digit_def newline_def backslash_def)
  then have s: "\<forall>c\<in>set w. c \<noteq> comma \<and> c \<noteq> newline \<and> c \<noteq> dquote \<and> c \<noteq> backslash \<and> \<not> is_ws c" and "w \<noteq> []"
    using assms by (auto simp: word_ok_def list_all_iff)
  then show "comma \<notin> set w" "newline \<notin> set w" "plain_arg w" "dquote \<notin> set w" by (cases w; auto simp: plain_arg_def)+
  from s show "escaped w" by (induction w rule: escaped.induct) auto
qed

lemma arg_word: "word_ok w \<Longrightarrow> arg_ok w" and arg_quoted: "word_ok w \<Longrightarrow> arg_ok (quoted w)"
  using word_chars [of w] by (auto simp: arg_ok_def quoted_def dquote_def newline_def)

lemma word_formatNat: "word_ok (formatNat n)"
  using formatNat_digits by (simp add: word_ok_def digits_word)

lemma arg_int: "arg_ok (formatInt v)"
proof (cases "v < 0")
  case True
  then show ?thesis using word_chars [OF word_formatNat [of "nat (- v)"]]
    by (auto simp: formatInt_def arg_ok_def plain_arg_def is_ws_def dquote_def newline_def)
next
  case False
  then show ?thesis using arg_word [OF word_formatNat] by (simp add: formatInt_def)
qed

lemma not_space: "\<not> is_space (CHR ''F'')" "\<not> is_space (CHR '')'')"
  by (simp_all add: is_space_def)

lemma decl_text_trim: "trimSpace (decl_text suf fc n as t) = decl_text suf fc n as t"
proof -
  have "decl_text suf fc n as t = CHR ''F'' # tl (decl_text suf fc n as t)" by (simp add: decl_text_def)
  moreover have "last (decl_text suf fc n as t) = CHR '')''" by (simp add: decl_text_def)
  ultimately show ?thesis by (intro trimSpace_id) (metis list.distinct(1), metis list.sel(1) not_space(1), simp add: not_space)
qed

lemma read_decl:
  assumes "word_ok fc" and "suf \<in> {[], ''_NO_SYMBOL'', ''_SYMBOL''}" and "list_all arg_ok as"
  shows "read_line f (decl_text suf fc n as t)
    = message f (n, t, case FindStringSubmatch stateRe (decl_text suf fc n as t) of None \<Rightarrow> [] | Some sm \<Rightarrow> group sm 3 @ group sm 4)"
proof -
  have m: "FindStringSubmatch entryRe (decl_text suf fc n as t) = Some [(3, escapeC t), (2, formatNat n), (1, fc)]"
    unfolding decl_text_def using assms word_formatNat [of n]
    by (intro entry_match) (simp_all add: word_ok_def formatNat_digits escaped_escapeC newline_escapeC)
  have "atoi (formatNat n) = (if int n < 2 ^ 63 then Some (int n) else None)"
    using atoi_digits [OF formatNat_digits] by simp
  then show ?thesis by (auto simp: read_line_def decl_text_trim m Let_def group_def message_def)
qed

lemma read_known:
  assumes "line_ok l"
  shows "read_line f (line_text l) = Option.bind (declared l) (message f)"
proof (cases l)
  case (Full fc n sy v cl sub t)
  with assms have ok: "word_ok fc" "word_ok sy" "word_ok cl" "word_ok sub" "length cl = 2" "length sub = 3" by simp_all
  have "FindStringSubmatch stateRe (decl_text [] fc n [sy, formatInt v, quoted cl, quoted sub] t) = Some [(4, sub), (3, cl), (2, formatNat n), (1, fc)]"
    unfolding decl_text_def append_Nil using ok formatNat_digits by (intro state_match) (simp_all add: word_ok_def)
  then show ?thesis using read_decl [of fc "[]" "[sy, formatInt v, quoted cl, quoted sub]" f n t] ok Full
    by (simp add: arg_word arg_quoted arg_int group_def)
next
  case (Symbol fc n sy t)
  then show ?thesis using read_decl [of fc "''_SYMBOL''" "[sy]" f n t] assms state_none [of "''_SYMBOL''"]
    by (simp add: arg_word decl_text_def)
next
  case (NoSymbol fc n t)
  then show ?thesis using read_decl [of fc "''_NO_SYMBOL''" "[]" f n t] assms state_none [of "''_NO_SYMBOL''"]
    by (simp add: decl_text_def)
next
  case (Other s)
  then have "matches entryRe (trimSpace s, []) = []"
    using assms match_lit_none [of "''FB_IMPL_MSG''" "trimSpace s"] unfolding entryRe_def matches_rseq(2) [of "lit ''FB_IMPL_MSG''"]
    by (simp add: hasPrefix_def)
  then show ?thesis using Other by (simp add: read_line_def FindStringSubmatch_def)
qed

lemma line_one_line: "line_ok l \<Longrightarrow> newline \<notin> set (line_text l)"
proof -
  have a: "list_all arg_ok as \<Longrightarrow> newline \<notin> set (args_text as)" for as by (induction as) (auto simp: arg_ok_def newline_def)
  have d: "word_ok fc \<Longrightarrow> list_all arg_ok as \<Longrightarrow> newline \<notin> set suf \<Longrightarrow> newline \<notin> set (decl_text suf fc n as t)" for suf fc n as t
    using a [of as] word_chars(2) [of fc] word_chars(2) [OF word_formatNat [of n]] newline_escapeC [of t]
    by (auto simp: decl_text_def quoted_def) (auto simp: newline_def dquote_def)
  show "line_ok l \<Longrightarrow> newline \<notin> set (line_text l)"
    using d [of _ _ "[]"] d [of _ _ "''_SYMBOL''"] d [of _ _ "''_NO_SYMBOL''"] by (cases l) (simp_all add: d arg_word arg_quoted arg_int newline_def)
qed

section \<open>The generated tables\<close>

definition header :: "hline list \<Rightarrow> string" where
  "header ls = concat (map (\<lambda>l. line_text l @ [newline]) ls)"

definition messages :: "facility \<Rightarrow> hline list \<Rightarrow> msg list" where
  "messages f ls = List.map_filter (\<lambda>l. Option.bind (declared l) (message f)) ls"

definition numbers :: "hline list \<Rightarrow> nat list" where
  "numbers ls = List.map_filter (\<lambda>l. map_option fst (declared l)) ls"

lemma split_line: "newline \<notin> set l \<Longrightarrow> split_on newline (l @ newline # s) = l # split_on newline s"
  by (induction l) auto

lemma read_empty: "read_line f [] = None"
  using read_known [of "Other []" f] by (simp add: hasPrefix_def trimSpace_def)

lemma read_header: "list_all line_ok ls \<Longrightarrow> List.map_filter (read_line f) (split_on newline (header ls)) = messages f ls"
proof (induction ls)
  case (Cons l ls)
  have "split_on newline (header (l # ls)) = line_text l # split_on newline (header ls)"
    using Cons.prems line_one_line [of l] by (simp add: header_def split_line)
  then show ?case using Cons by (simp add: messages_def map_filter_simps read_known split: option.split)
qed (simp add: header_def messages_def map_filter_simps read_empty)

lemma read_headers_all:
  assumes "\<And>f. f \<in> set fs \<Longrightarrow> get (fac_file f) = Inr (header (hs f)) \<and> list_all line_ok (hs f)"
  shows "read_headers get fs = Inr (concat (map (\<lambda>f. messages f (hs f)) fs))"
  using assms by (induction fs) (simp_all add: read_header)

lemma messages_code:
  assumes "m \<in> set (messages f ls)"
  shows "\<exists>n\<in>set (numbers ls). n \<le> 0x3FFF \<and> msg_code m = gds_code (fac_code f) (int n)"
  using assms
  by (induction ls) (auto simp: messages_def numbers_def map_filter_simps message_def split: option.splits if_splits)

lemma messages_distinct:
  assumes "f \<in> set facilities" and "distinct (numbers ls)"
  shows "distinct (map msg_code (messages f ls))"
  using assms(2)
proof (induction ls)
  case (Cons l ls)
  show ?case
  proof (cases "Option.bind (declared l) (message f)")
    case None
    with Cons show ?thesis by (simp add: messages_def numbers_def map_filter_simps split: option.splits)
  next
    case (Some m)
    then obtain n t st where d: "declared l = Some (n, t, st)" "n \<le> 0x3FFF" "msg_code m = gds_code (fac_code f) (int n)"
      by (auto simp: message_def bind_eq_Some_conv split: if_splits)
    with Cons.prems have n: "n \<notin> set (numbers ls)" "distinct (numbers ls)" by (simp_all add: numbers_def map_filter_simps)
    have "msg_code m' \<noteq> msg_code m" if m': "m' \<in> set (messages f ls)" for m'
    proof -
      obtain k where "k \<in> set (numbers ls)" "k \<le> 0x3FFF" "msg_code m' = gds_code (fac_code f) (int k)"
        using messages_code [OF m'] by blast
      then show ?thesis using n(1) d facilities_codes [OF assms(1)] gds_code_inj [of "fac_code f" "int k" "fac_code f" "int n"] by auto
    qed
    then have "msg_code m \<notin> msg_code ` set (messages f ls)" by (metis imageE)
    then show ?thesis using Cons.IH [OF n(2)] Some by (simp add: messages_def map_filter_simps)
  qed
qed (simp add: messages_def map_filter_simps)

lemma all_distinct:
  assumes "set fs \<subseteq> set facilities" and "distinct (map fac_code fs)" and "\<And>f. f \<in> set fs \<Longrightarrow> distinct (numbers (hs f))"
  shows "distinct (map msg_code (concat (map (\<lambda>f. messages f (hs f)) fs)))"
  using assms
proof (induction fs)
  case (Cons f fs)
  have "msg_code m \<noteq> msg_code m'" if m: "m \<in> set (messages f (hs f))" "m' \<in> set (messages f' (hs f'))" and f': "f' \<in> set fs" for m m' f'
  proof
    assume e: "msg_code m = msg_code m'"
    obtain n n' where "msg_code m = gds_code (fac_code f) (int n)" "n \<le> 0x3FFF" "msg_code m' = gds_code (fac_code f') (int n')" "n' \<le> 0x3FFF"
      using messages_code [OF m(1)] messages_code [OF m(2)] by blast
    moreover have "0 \<le> fac_code f \<and> fac_code f < 32" "0 \<le> fac_code f' \<and> fac_code f' < 32"
      using facilities_codes Cons.prems(1) f' by auto
    ultimately have "fac_code f = fac_code f'" using e gds_code_inj [of "fac_code f" "int n" "fac_code f'" "int n'"] by simp
    then show False using Cons.prems(2) f' by (metis distinct.simps(2) image_eqI list.simps(9) set_map)
  qed
  then show ?case using Cons messages_distinct [of f "hs f"] by auto
qed simp

lemma find_key:
  assumes "distinct (map key xs)" and "x \<in> set xs"
  shows "List.find (\<lambda>y. key y = key x) xs = Some x"
  using assms by (induction xs) auto

lemma tables_lookup:
  assumes "distinct (map msg_code ms)" and "m \<in> set ms"
  shows "Template ms (msg_code m) = msg_text m" and "SQLState ms (msg_code m) = msg_state m"
proof -
  show "Template ms (msg_code m) = msg_text m" using find_key [OF assms] by (simp add: Template_def)
  have d: "distinct (map msg_code (with_state ms))" using assms(1) by (simp add: with_state_def distinct_map_filter)
  show "SQLState ms (msg_code m) = msg_state m"
  proof (cases "msg_state m = []")
    case True
    have "m' = m" if "m' \<in> set ms" "msg_code m' = msg_code m" for m' using that assms by (meson eq_key_imp_eq_value distinct_map inj_onD)
    then have "List.find (\<lambda>y. msg_code y = msg_code m) (with_state ms) = None" using True by (auto simp: find_None_iff with_state_def)
    then show ?thesis using True by (simp add: SQLState_def)
  next
    case False
    then have "m \<in> set (with_state ms)" using assms(2) by (simp add: with_state_def)
    from find_key [OF d this] show ?thesis by (simp add: SQLState_def)
  qed
qed


definition demo_msg_text :: string where "demo_msg_text = ''token @1, '' @ [dquote, newline]"

definition demo_lines :: "facility \<Rightarrow> hline list" where
  "demo_lines f = (if fac_file f = ''jrd'' then [Other ''// header'', Full ''JRD'' 1 ''arith_except'' (-802) ''22'' ''000'' demo_msg_text] else [])"

definition demo_gen_lib :: gen_lib where
  "demo_gen_lib = \<lparr>lib_join = (\<lambda>d n. d @ ''/'' @ n), lib_readFile = (\<lambda>p. Inr (if p = ''msg/jrd.h'' then header (demo_lines (fac ''jrd'' 0)) else [])),
     lib_get = (\<lambda>_. Inl ErrEOF), lib_sort = sort_key (\<lambda>m. sint (msg_code m)), lib_quote = (\<lambda>s. s), lib_writeFile = (\<lambda>_ _. None)\<rparr>"

definition demo_gen_flags :: gen_flags where "demo_gen_flags = \<lparr>flag_ref = ''master'', flag_dir = ''msg'', flag_out = ''out.go''\<rparr>"


end
