(* ===== verification/Datetime.thy ===== *)
theory Datetime
  imports Strconv
begin

text \<open>
  Dates and times: the conversions of \<^verbatim>\<open>internal/wire/types_datetime.go\<close> and the offset zones of
  \<^verbatim>\<open>internal/timezone/timezone.go\<close>.  A \<^verbatim>\<open>time.Time\<close> is an instant (seconds since the Unix epoch and
  nanoseconds) with the name and the offset of its location at that instant; the calendar is the
  proleptic Gregorian one of the \<^verbatim>\<open>time\<close> package.  Named zones and their rules come from generated and
  system tables and are parameters.
\<close>

section \<open>The calendar\<close>

text \<open>Day numbers of the proleptic Gregorian calendar, counted from the Unix epoch: days in the full
  years before \<open>y\<close> (with year 0 a leap year), days in the months before \<open>m\<close>, days of the month.\<close>

definition leap :: "int \<Rightarrow> bool" where
  "leap y \<longleftrightarrow> y mod 4 = 0 \<and> (y mod 100 \<noteq> 0 \<or> y mod 400 = 0)"

definition days_before_year :: "int \<Rightarrow> int" where
  "days_before_year y = 365 * y + (y - 1) div 4 - (y - 1) div 100 + (y - 1) div 400 + 1"

definition month_start :: "int \<Rightarrow> int" where
  "month_start m = [0, 31, 59, 90, 120, 151, 181, 212, 243, 273, 304, 334] ! nat (m - 1)"

definition days_before_month :: "int \<Rightarrow> int \<Rightarrow> int" where
  "days_before_month y m = month_start m + (if 2 < m \<and> leap y then 1 else 0)"

definition day_number :: "int \<Rightarrow> int \<Rightarrow> int \<Rightarrow> int" where
  "day_number y m d = days_before_year y + days_before_month y m + d - 1 - 719528"

definition month_length :: "int \<Rightarrow> int \<Rightarrow> int" where
  "month_length y m = (if m = 2 then (if leap y then 29 else 28) else if m \<in> {4, 6, 9, 11} then 30 else 31)"

definition valid_date :: "int \<Rightarrow> int \<Rightarrow> int \<Rightarrow> bool" where
  "valid_date y m d \<longleftrightarrow> 1 \<le> m \<and> m \<le> 12 \<and> 1 \<le> d \<and> d \<le> month_length y m"

lemma div_pred:
  fixes y k :: int
  assumes "0 < k"
  shows "y div k = (y - 1) div k + (if y mod k = 0 then 1 else 0)"
proof (cases "y mod k = 0")
  case True
  then obtain q where q: "y = k * q" by auto
  have "(k * q - 1) div k = (k * (q - 1) + (k - 1)) div k" by (simp add: algebra_simps)
  also have "\<dots> = q - 1" using assms by (simp only: div_mult_self4) simp
  finally show ?thesis using q True assms by simp
next
  case False
  have r: "0 \<le> y mod k - 1" "y mod k - 1 < k" using False assms pos_mod_bound [of k y] pos_mod_sign [of k y] by linarith+
  have "y - 1 = k * (y div k) + (y mod k - 1)" by simp
  then have "(y - 1) div k = (k * (y div k) + (y mod k - 1)) div k" by presburger
  also have "\<dots> = y div k" using r assms by (simp only: div_mult_self4) simp
  finally show ?thesis using False by simp
qed

lemma leap_count_aux:
  fixes d4 :: int
  shows "d4 = a + (if A then 1 else 0) \<Longrightarrow> d100 = b + (if B then 1 else 0) \<Longrightarrow> d400 = c + (if C then 1 else 0)
    \<Longrightarrow> (C \<Longrightarrow> B) \<Longrightarrow> (B \<Longrightarrow> A) \<Longrightarrow> d4 - d100 + d400 = a - b + c + (if A \<and> (\<not> B \<or> C) then 1 else 0)"
  by (cases A; cases B; cases C) simp_all

lemma leap_count: "y div 4 - y div 100 + y div 400 =
    (y - 1) div 4 - (y - 1) div 100 + (y - 1) div 400 + (if leap y then 1 else 0)"
  unfolding leap_def
proof (rule leap_count_aux)
  show "y mod 400 = 0 \<Longrightarrow> y mod 100 = 0" using mod_mod_cancel [of 100 400 y] by auto
  show "y mod 100 = 0 \<Longrightarrow> y mod 4 = 0" using mod_mod_cancel [of 4 100 y] by auto
qed (rule div_pred, simp)+

lemma days_before_year_step: "days_before_year (y + 1) = days_before_year y + (if leap y then 366 else 365)"
  using leap_count [of y] by (auto simp: days_before_year_def)

text \<open>The inverse, on years that start in March: 400-year eras, centuries, four-year groups, years.\<close>

definition civil_of_days :: "int \<Rightarrow> int \<times> int \<times> int" where
  "civil_of_days n =
     (let z = n + 719468; era = z div 146097; doe = z mod 146097;
          c = min 3 (doe div 36524); r1 = doe - 36524 * c;
          q = r1 div 1461; r2 = r1 - 1461 * q;
          k = min 3 (r2 div 365); doy = r2 - 365 * k;
          mp = (5 * doy + 2) div 153; d = doy - (153 * mp + 2) div 5 + 1;
          m = (if mp < 10 then mp + 3 else mp - 9);
          y = era * 400 + 100 * c + 4 * q + k
      in (if m \<le> 2 then y + 1 else y, m, d))"

section \<open>civilToUnixDays (types_datetime.go)\<close>

definition civilToUnixDays :: "int \<Rightarrow> int \<Rightarrow> int \<Rightarrow> int" where
  "civilToUnixDays y0 m d =
     (let y = (if m \<le> 2 then y0 - 1 else y0);
          era = (if y < 0 \<and> go_rem y 400 \<noteq> 0 then go_quot y 400 - 1 else go_quot y 400);
          yoe = y - era * 400;
          mp = (if m > 2 then m - 3 else m + 9);
          doy = go_quot (153 * mp + 2) 5 + d - 1;
          doe = yoe * 365 + go_quot yoe 4 - go_quot yoe 100 + doy
      in era * 146097 + doe - 719468)"

lemma era_floor: "(if y < 0 \<and> go_rem y 400 \<noteq> 0 then go_quot y 400 - 1 else go_quot y 400) = y div 400"
proof (cases "y < 0")
  case True
  then have q: "go_quot y 400 = - (- y div 400)" by (simp add: go_quot_neg)
  have "go_rem y 400 = - ((- y) mod 400)" unfolding go_rem_def q using minus_mult_div_eq_mod [of "- y" 400] by linarith
  then show ?thesis using True q zdiv_zminus1_eq_if [of 400 "- y"] by simp
next
  case False
  then show ?thesis by (simp add: go_quot_nonneg)
qed

text \<open>Month by month, the five-month trick is the table of the calendar.\<close>

lemma months_trick:
  assumes "1 \<le> m" and "m \<le> 12"
  shows "(153 * (if m > 2 then m - 3 else m + 9) + 2) div 5 =
    month_start m + (if m > 2 then - 59 else 306)"
proof -
  have "m = 1 \<or> m = 2 \<or> m = 3 \<or> m = 4 \<or> m = 5 \<or> m = 6 \<or> m = 7 \<or> m = 8 \<or> m = 9 \<or> m = 10 \<or> m = 11 \<or> m = 12"
    using assms by presburger
  then show ?thesis by (elim disjE) (simp_all add: month_start_def)
qed

lemma civilToUnixDays_floor:
  assumes "1 \<le> m" and "m \<le> 12"
  shows "civilToUnixDays y0 m d =
    (let y = (if m \<le> 2 then y0 - 1 else y0) in
     365 * y + y div 4 - y div 100 + y div 400
       + (153 * (if m > 2 then m - 3 else m + 9) + 2) div 5 + d - 1 - 719468)"
proof -
  define y where "y = (if m \<le> 2 then y0 - 1 else y0)"
  define yoe where "yoe = y - y div 400 * 400"
  have yoe: "yoe = y mod 400" by (simp add: yoe_def minus_div_mult_eq_mod)
  then have b: "0 \<le> yoe" "yoe < 400" by simp_all
  have q: "go_quot yoe 4 = yoe div 4" "go_quot yoe 100 = yoe div 100"
    using b by (simp_all add: go_quot_nonneg)
  have mq: "go_quot (153 * (if m > 2 then m - 3 else m + 9) + 2) 5 = (153 * (if m > 2 then m - 3 else m + 9) + 2) div 5"
    using assms by (intro go_quot_nonneg) auto
  have c: "y div 400 * 146097 + (yoe * 365 + yoe div 4 - yoe div 100) = 365 * y + y div 4 - y div 100 + y div 400"
  proof -
    have y: "y = yoe + 4 * (100 * (y div 400))" "y = yoe + 100 * (4 * (y div 400))" unfolding yoe_def by simp_all
    have "y div 4 = yoe div 4 + 100 * (y div 400)" by (subst y(1), subst div_mult_self2) simp_all
    moreover have "y div 100 = yoe div 100 + 4 * (y div 400)" by (subst y(2), subst div_mult_self2) simp_all
    ultimately show ?thesis using y by linarith
  qed
  show ?thesis
    unfolding civilToUnixDays_def Let_def era_floor y_def [symmetric] yoe_def [symmetric] q mq
    using c by linarith
qed

lemma civilToUnixDays_day_number:
  assumes "1 \<le> m" and "m \<le> 12"
  shows "civilToUnixDays y m d = day_number y m d"
proof (cases "m > 2")
  case True
  have "days_before_year y + (if leap y then 1 else 0) = 365 * y + y div 4 - y div 100 + y div 400 + 1"
    using leap_count [of y] by (simp add: days_before_year_def)
  moreover have "civilToUnixDays y m d = 365 * y + y div 4 - y div 100 + y div 400 + (month_start m - 59) + d - 1 - 719468"
    using civilToUnixDays_floor [OF assms, of y d] months_trick [OF assms] True by (simp add: Let_def)
  ultimately show ?thesis
    using True unfolding day_number_def days_before_month_def by (simp split: if_splits)
next
  case False
  have "days_before_year y = 365 * (y - 1) + (y - 1) div 4 - (y - 1) div 100 + (y - 1) div 400 + 366"
    by (simp add: days_before_year_def)
  moreover have "civilToUnixDays y m d = 365 * (y - 1) + (y - 1) div 4 - (y - 1) div 100 + (y - 1) div 400
      + (month_start m + 306) + d - 1 - 719468"
    using civilToUnixDays_floor [OF assms, of y d] months_trick [OF assms] False by (simp add: Let_def)
  ultimately show ?thesis
    using False unfolding day_number_def days_before_month_def by simp
qed

section \<open>The calendar date of a day\<close>

lemma civil_of_days_parts:
  fixes n :: int
  defines "z \<equiv> n + 719468"
  obtains era c q k doy mp where
    "z = 146097 * era + 36524 * c + 1461 * q + 365 * k + doy" and "0 \<le> c" "c \<le> 3" "0 \<le> q" "q \<le> 24" "0 \<le> k" "k \<le> 3"
    and "0 \<le> doy" "doy \<le> 365" and "mp = (5 * doy + 2) div 153" and "0 \<le> mp" "mp \<le> 11"
    and "civil_of_days n = (if mp < 10 then era * 400 + 100 * c + 4 * q + k else era * 400 + 100 * c + 4 * q + k + 1,
       if mp < 10 then mp + 3 else mp - 9, doy - (153 * mp + 2) div 5 + 1)"
proof -
  define era doe where "era = z div 146097" and "doe = z mod 146097"
  define c where "c = min 3 (doe div 36524)"
  define r1 where "r1 = doe - 36524 * c"
  define q where "q = r1 div 1461"
  define r2 where "r2 = r1 - 1461 * q"
  define k where "k = min 3 (r2 div 365)"
  define doy where "doy = r2 - 365 * k"
  define mp where "mp = (5 * doy + 2) div 153"
  have doe: "0 \<le> doe" "doe < 146097" by (simp_all add: doe_def)
  have "0 \<le> doe div 36524" using doe by (simp add: pos_imp_zdiv_nonneg_iff)
  moreover have "36524 * (doe div 36524) \<le> doe" "doe < 36524 * (doe div 36524) + 36524"
    using pos_mod_bound [of 36524 doe] pos_mod_sign [of 36524 doe] mult_div_mod_eq [of 36524 doe] by linarith+
  ultimately have c: "0 \<le> c" "c \<le> 3" "0 \<le> r1" "r1 < 36525" using doe by (auto simp: c_def r1_def)
  have qr: "1461 * q + r2 = r1" "0 \<le> r2" "r2 < 1461"
    using pos_mod_bound [of 1461 r1] pos_mod_sign [of 1461 r1] mult_div_mod_eq [of 1461 r1] by (simp_all add: q_def r2_def)
  then have q: "0 \<le> q" "q \<le> 24" using c by linarith+
  have "0 \<le> r2 div 365" using qr by (simp add: pos_imp_zdiv_nonneg_iff)
  moreover have "365 * (r2 div 365) \<le> r2" "r2 < 365 * (r2 div 365) + 365"
    using pos_mod_bound [of 365 r2] pos_mod_sign [of 365 r2] mult_div_mod_eq [of 365 r2] by linarith+
  ultimately have k: "0 \<le> k" "k \<le> 3" "0 \<le> doy" "doy \<le> 365" using qr by (auto simp: k_def doy_def)
  have "153 * mp \<le> 5 * doy + 2" "5 * doy + 2 < 153 * mp + 153"
    using pos_mod_bound [of 153 "5 * doy + 2"] pos_mod_sign [of 153 "5 * doy + 2"] mult_div_mod_eq [of 153 "5 * doy + 2"]
    unfolding mp_def by linarith+
  then have mp: "0 \<le> mp" "mp \<le> 11" using k by linarith+
  have z: "z = 146097 * era + 36524 * c + 1461 * q + 365 * k + doy"
    using qr(1) mult_div_mod_eq [of 146097 z] by (simp add: doy_def r1_def era_def doe_def)
  have civ: "civil_of_days n = (if mp < 10 then era * 400 + 100 * c + 4 * q + k else era * 400 + 100 * c + 4 * q + k + 1,
       if mp < 10 then mp + 3 else mp - 9, doy - (153 * mp + 2) div 5 + 1)"
    using mp unfolding civil_of_days_def Let_def z_def [symmetric] era_def [symmetric] doe_def [symmetric]
      c_def [symmetric] r1_def [symmetric] q_def [symmetric] r2_def [symmetric] k_def [symmetric]
      doy_def [symmetric] mp_def [symmetric] by auto
  show ?thesis by (rule that [OF z c(1,2) q k mp_def mp civ])
qed

text \<open>The date of day \<open>n\<close> is a month of the calendar and counts back to \<open>n\<close>.\<close>

lemma civil_of_days_inverse:
  assumes "civil_of_days n = (y, m, d)"
  shows "1 \<le> m" and "m \<le> 12" and "civilToUnixDays y m d = n"
proof -
  obtain era c q k doy mp where
    z: "n + 719468 = 146097 * era + 36524 * c + 1461 * q + 365 * k + doy"
    and b: "0 \<le> c" "c \<le> 3" "0 \<le> q" "q \<le> 24" "0 \<le> k" "k \<le> 3" "0 \<le> doy" "doy \<le> 365"
    and mp_def: "mp = (5 * doy + 2) div 153" and mp: "0 \<le> mp" "mp \<le> 11"
    and civ: "civil_of_days n = (if mp < 10 then era * 400 + 100 * c + 4 * q + k else era * 400 + 100 * c + 4 * q + k + 1,
       if mp < 10 then mp + 3 else mp - 9, doy - (153 * mp + 2) div 5 + 1)"
    by (rule civil_of_days_parts)
  define Y where "Y = era * 400 + 100 * c + 4 * q + k"
  have "((if mp < 10 then Y else Y + 1), if mp < 10 then mp + 3 else mp - 9, doy - (153 * mp + 2) div 5 + 1) = (y, m, d)"
    using trans [OF civ [symmetric] assms] unfolding Y_def .
  then have ymd: "y = (if mp < 10 then Y else Y + 1)" "m = (if mp < 10 then mp + 3 else mp - 9)" "d = doy - (153 * mp + 2) div 5 + 1"
    unfolding prod.inject by blast+
  show m: "1 \<le> m" "m \<le> 12" using mp ymd(2) by (simp_all split: if_splits)
  have yy: "(if m \<le> 2 then y - 1 else y) = Y" and mm: "(if m > 2 then m - 3 else m + 9) = mp"
    using ymd mp by (auto split: if_splits)
  have "Y = k + 4 * (100 * era + 25 * c + q)" "Y = (4 * q + k) + 100 * (4 * era + c)" "Y = (100 * c + 4 * q + k) + 400 * era"
    by (simp_all add: Y_def)
  then have "Y div 4 = k div 4 + (100 * era + 25 * c + q)" "Y div 100 = (4 * q + k) div 100 + (4 * era + c)"
    "Y div 400 = (100 * c + 4 * q + k) div 400 + era" by (metis div_mult_self2 zero_neq_numeral add.commute)+
  moreover have "k div 4 = 0" "(4 * q + k) div 100 = 0" "(100 * c + 4 * q + k) div 400 = 0"
    using b by (simp_all add: div_pos_pos_trivial)
  ultimately have cal: "365 * Y + Y div 4 - Y div 100 + Y div 400 = 365 * Y + (100 * era + 25 * c + q) - (4 * era + c) + era"
    by (simp only: add_0)
  have fl: "civilToUnixDays y m d = (365 * Y + Y div 4 - Y div 100 + Y div 400) + (153 * mp + 2) div 5 + d - 1 - 719468"
    using civilToUnixDays_floor [OF m, of y d] unfolding yy mm Let_def .
  define X where "X = (153 * mp + 2) div 5"
  have "civilToUnixDays y m d = 146097 * era + 36524 * c + 1461 * q + 365 * k + doy - 719468"
    using fl [unfolded cal] unfolding ymd(3) X_def [symmetric] Y_def by (simp add: algebra_simps)
  then show "civilToUnixDays y m d = n" using z by linarith
qed

section \<open>time.Time\<close>

record gtime =
  tsec :: int
  tnsec :: int
  tzname :: string
  toff :: int

definition wall :: "gtime \<Rightarrow> int" where
  "wall t = tsec t + toff t"

text \<open>\<^verbatim>\<open>t.Date()\<close>, \<^verbatim>\<open>t.Clock()\<close>, \<^verbatim>\<open>t.UTC()\<close>, \<^verbatim>\<open>t.In(FixedZone(name, off))\<close>, \<^verbatim>\<open>time.Date(..., UTC)\<close> and
  \<^verbatim>\<open>t.AddDate(0, 0, days)\<close>.\<close>

definition time_DateOf :: "gtime \<Rightarrow> int \<times> int \<times> int" where
  "time_DateOf t = civil_of_days (wall t div 86400)"

definition time_Clock :: "gtime \<Rightarrow> int \<times> int \<times> int" where
  "time_Clock t = (let s = wall t mod 86400 in (s div 3600, s mod 3600 div 60, s mod 60))"

definition time_UTC :: "gtime \<Rightarrow> gtime" where
  "time_UTC t = t\<lparr>tzname := ''UTC'', toff := 0\<rparr>"

definition time_In :: "string \<Rightarrow> int \<Rightarrow> gtime \<Rightarrow> gtime" where
  "time_In name off t = t\<lparr>tzname := name, toff := off\<rparr>"

definition time_Date :: "int \<Rightarrow> int \<Rightarrow> int \<Rightarrow> int \<Rightarrow> int \<Rightarrow> int \<Rightarrow> int \<Rightarrow> gtime" where
  "time_Date y mo d h mi s ns = \<lparr>tsec = day_number y mo d * 86400 + h * 3600 + mi * 60 + s + ns div 1000000000,
     tnsec = ns mod 1000000000, tzname = ''UTC'', toff = 0\<rparr>"

definition time_AddDays :: "int \<Rightarrow> gtime \<Rightarrow> gtime" where
  "time_AddDays n t = (let (y, mo, d) = time_DateOf t; (h, mi, s) = time_Clock t in time_Date y mo (d + n) h mi s (tnsec t))"

section \<open>Wire dates and times (types_datetime.go)\<close>

definition mjdEpoch :: gtime where
  "mjdEpoch = time_Date 1858 11 17 0 0 0 0"

definition timeTicksPerSecond :: int where "timeTicksPerSecond = 10000"

definition unixToMJDOffset :: int where "unixToMJDOffset = 40587"

definition DateToMJD :: "gtime \<Rightarrow> int32" where
  "DateToMJD t = (let (y, m, d) = time_DateOf t in of_int (civilToUnixDays y m d + unixToMJDOffset))"

definition MJDToDate :: "int32 \<Rightarrow> gtime" where
  "MJDToDate mjd = time_AddDays (sint mjd) mjdEpoch"

definition TimeToTicks :: "gtime \<Rightarrow> uint32" where
  "TimeToTicks t = (let (h, m, s) = time_Clock t; ns = tnsec t;
      ticks = (h * 3600 + m * 60 + s) * timeTicksPerSecond + go_quot ns 100000 in of_int ticks)"

definition TicksToTime :: "uint32 \<Rightarrow> gtime" where
  "TicksToTime ticks =
     (let totalMicro = uint ticks * 100;
          sec = go_quot totalMicro 1000000;
          ns = go_rem totalMicro 1000000 * 1000;
          h = go_quot sec 3600; m = go_quot (go_rem sec 3600) 60; s = go_rem sec 60
      in time_Date 0 1 1 h m s ns)"

definition TimestampToTime :: "int32 \<Rightarrow> uint32 \<Rightarrow> gtime" where
  "TimestampToTime mjd ticks =
     (let (y, mo, d) = time_DateOf (MJDToDate mjd); t = TicksToTime ticks; (h, mi, s) = time_Clock t
      in time_Date y mo d h mi s (tnsec t))"

definition digit_byte :: "int \<Rightarrow> char" where
  "digit_byte x = char_of (nat ((48 + x) mod 256))"

definition offsetLocationName :: "int32 \<Rightarrow> string" where
  "offsetLocationName minutes =
     (let neg = sint minutes < 0; mi = sint (if neg then - minutes else minutes);
          h = go_quot mi 60; m = go_rem mi 60
      in [if neg then CHR ''-'' else CHR ''+'', digit_byte (go_quot h 10), digit_byte (go_rem h 10), CHR '':'',
          digit_byte (go_quot m 10), digit_byte (go_rem m 10)])"

definition timezoneParts :: "gtime \<Rightarrow> gtime \<times> int \<times> int32" where
  "timezoneParts t = (time_UTC t, toff t, of_int (go_quot (toff t) 60))"

definition tzOffsetToID :: "int \<Rightarrow> uint32" where
  "tzOffsetToID offsetSeconds = of_int (go_quot offsetSeconds 60 + 1439)"

section \<open>Time zones (timezone.go)\<close>

text \<open>A location is its name and, for a fixed zone, its offset.  \<open>named\<close> is \<^verbatim>\<open>namedZoneName\<close> (the
  table of \<open>NamedZones\<close>), \<open>known\<close> tells whether \<^verbatim>\<open>time.LoadLocation\<close> finds a name.\<close>

type_synonym location = "string \<times> int option"

definition utcLocation :: location where "utcLocation = (''UTC'', Some 0)"

record tz_cache =
  fastCache :: "location option list"
  locationCache :: "uint32 \<Rightarrow> location option"

definition format_hhmm :: "int \<Rightarrow> string" where
  "format_hhmm minutes =
     (let neg = minutes < 0; mi = (if neg then - minutes else minutes); h = go_quot mi 60; m = go_rem mi 60
      in [if neg then CHR ''-'' else CHR ''+'', digit_byte (go_quot h 10), digit_byte (go_rem h 10), CHR '':'',
          digit_byte (go_quot m 10), digit_byte (go_rem m 10)])"

definition offsetStrings :: "string list" where
  "offsetStrings = map (\<lambda>i. format_hhmm (int i - 720)) [0 ..< 1561]"

definition formatOffset :: "int \<Rightarrow> string" where
  "formatOffset minutes =
     (if - 720 \<le> minutes \<and> minutes \<le> 840 \<and> offsetStrings ! nat (minutes + 720) \<noteq> []
      then offsetStrings ! nat (minutes + 720) else format_hhmm minutes)"

definition resolveOffsetFast :: "uint32 \<Rightarrow> tz_cache \<Rightarrow> location \<times> tz_cache" where
  "resolveOffsetFast tz c =
     (let offsetMin = uint tz - 1439; loc = (formatOffset offsetMin, Some (offsetMin * 60))
      in (loc, c\<lparr>fastCache := (fastCache c)[unat tz := Some loc]\<rparr>))"

definition resolveNamedSlow :: "(uint32 \<Rightarrow> string) \<Rightarrow> (string \<Rightarrow> bool) \<Rightarrow> uint32 \<Rightarrow> tz_cache \<Rightarrow> location \<times> tz_cache" where
  "resolveNamedSlow named known tz c =
     (let name = named tz;
          loc = (if name = [] then utcLocation else if known name then (name, None) else utcLocation)
      in (loc, c\<lparr>locationCache := (locationCache c)(tz := Some loc)\<rparr>))"

definition Resolve :: "(uint32 \<Rightarrow> string) \<Rightarrow> (string \<Rightarrow> bool) \<Rightarrow> uint32 \<Rightarrow> tz_cache \<Rightarrow> location \<times> tz_cache" where
  "Resolve named known tz c =
     (if tz < 2880 then
        (case fastCache c ! unat tz of Some loc \<Rightarrow> (loc, c) | None \<Rightarrow> resolveOffsetFast tz c)
      else (case locationCache c tz of Some loc \<Rightarrow> (loc, c) | None \<Rightarrow> resolveNamedSlow named known tz c))"

text \<open>The location the caches stand for.\<close>

definition zone_of :: "(uint32 \<Rightarrow> string) \<Rightarrow> (string \<Rightarrow> bool) \<Rightarrow> uint32 \<Rightarrow> location" where
  "zone_of named known tz =
     (if tz < 2880 then (format_hhmm (uint tz - 1439), Some ((uint tz - 1439) * 60))
      else if named tz = [] \<or> \<not> known (named tz) then utcLocation else (named tz, None))"

text \<open>\<open>res\<close> stands for \<^verbatim>\<open>timezone.Resolve\<close>; its caches are transparent (below).\<close>

definition fixedLocationForTZ :: "(uint32 \<Rightarrow> location) \<Rightarrow> uint32 \<Rightarrow> int32 \<Rightarrow> string \<times> int" where
  "fixedLocationForTZ res tzValue offsetMinutes =
     (let name0 = fst (res tzValue);
          name = (if name0 = ''UTC'' \<and> offsetMinutes \<noteq> 0 then offsetLocationName offsetMinutes else name0)
      in (name, sint offsetMinutes * 60))"

definition TimestampTZExToTime :: "(uint32 \<Rightarrow> location) \<Rightarrow> int32 \<Rightarrow> uint32 \<Rightarrow> uint32 \<Rightarrow> int32 \<Rightarrow> gtime" where
  "TimestampTZExToTime res mjd ticks tzValue offsetMinutes =
     (let utcTime = TimestampToTime mjd ticks; (name, off) = fixedLocationForTZ res tzValue offsetMinutes
      in time_In name off utcTime)"

definition TimeTZExToTime :: "(uint32 \<Rightarrow> location) \<Rightarrow> uint32 \<Rightarrow> uint32 \<Rightarrow> int32 \<Rightarrow> gtime" where
  "TimeTZExToTime res ticks tzValue offsetMinutes =
     (let t = TicksToTime ticks; (name, off) = fixedLocationForTZ res tzValue offsetMinutes in time_In name off t)"

section \<open>Round trips\<close>

lemma day_number_add: "day_number y m (d + n) = day_number y m d + n"
  by (simp add: day_number_def)

lemma MJDToDate_eq: "MJDToDate mjd = \<lparr>tsec = (sint mjd - 40587) * 86400, tnsec = 0, tzname = ''UTC'', toff = 0\<rparr>"
proof -
  have dn: "day_number 1858 11 17 = - 40587" by code_simp
  then have ep: "mjdEpoch = \<lparr>tsec = - 40587 * 86400, tnsec = 0, tzname = ''UTC'', toff = 0\<rparr>"
    by (simp add: mjdEpoch_def time_Date_def)
  have "civil_of_days (- 40587) = (1858, 11, 17)" by code_simp
  then have "time_DateOf mjdEpoch = (1858, 11, 17)"
    by (simp add: time_DateOf_def ep wall_def)
  moreover have "time_Clock mjdEpoch = (0, 0, 0)"
    by (simp add: time_Clock_def ep wall_def)
  ultimately show ?thesis
    using dn by (simp add: MJDToDate_def time_AddDays_def time_Date_def day_number_add ep)
qed

lemma DateToMJD_wall: "DateToMJD t = of_int (wall t div 86400 + 40587)"
proof -
  obtain y m d where c: "civil_of_days (wall t div 86400) = (y, m, d)" by (metis surj_pair)
  then show ?thesis
    using civil_of_days_inverse(3) [OF c] by (simp add: DateToMJD_def time_DateOf_def unixToMJDOffset_def)
qed

lemma DateToMJD_MJDToDate: "DateToMJD (MJDToDate mjd) = mjd"
  by (simp add: DateToMJD_wall MJDToDate_eq wall_def)

text \<open>What a date column stores and returns: midnight of the wall-clock day, for every day an \<^verbatim>\<open>int32\<close>
  can hold.\<close>

lemma MJDToDate_DateToMJD:
  assumes "- (2 ^ 31) \<le> wall t div 86400 + 40587" and "wall t div 86400 + 40587 < 2 ^ 31"
  shows "tsec (MJDToDate (DateToMJD t)) = 86400 * (wall t div 86400)"
proof -
  define n where "n = wall t div 86400"
  have "sint (of_int (n + 40587) :: int32) = signed_take_bit 31 (n + 40587)"
    by (simp only: signed_of_int) simp
  also have "\<dots> = n + 40587" using assms by (intro signed_take_bit_int_eq_self) (simp_all add: n_def [symmetric])
  finally show ?thesis unfolding MJDToDate_eq DateToMJD_wall n_def [symmetric] by simp
qed

lemma hms: "s div 3600 * 3600 + s mod 3600 div 60 * 60 + s mod 60 = (s :: int)"
proof -
  have "s mod 3600 mod 60 = s mod 60" by (rule mod_mod_cancel) simp
  then have "s mod 3600 div 60 * 60 + s mod 60 = s mod 3600"
    using div_mult_mod_eq [of "s mod 3600" 60] by (simp only:)
  then show ?thesis by (simp only: add.assoc div_mult_mod_eq)
qed

lemma TimeToTicks_wall:
  assumes "0 \<le> tnsec t"
  shows "TimeToTicks t = of_int (wall t mod 86400 * 10000 + tnsec t div 100000)"
proof -
  define s where "s = wall t mod 86400"
  have q: "go_quot (tnsec t) 100000 = tnsec t div 100000" by (rule go_quot_nonneg) (simp_all add: assms)
  show ?thesis
    unfolding TimeToTicks_def time_Clock_def timeTicksPerSecond_def Let_def prod.case s_def [symmetric] hms q ..
qed

lemma TicksToTime_eq:
  "TicksToTime ticks = \<lparr>tsec = day_number 0 1 1 * 86400 + uint ticks div 10000, tnsec = uint ticks mod 10000 * 100000,
     tzname = ''UTC'', toff = 0\<rparr>"
proof -
  define u where "u = uint ticks"
  have u: "0 \<le> u" by (simp add: u_def)
  define sec where "sec = u div 10000"
  have sec: "0 \<le> sec" using u by (simp add: sec_def pos_imp_zdiv_nonneg_iff)
  have q: "go_quot (u * 100) 1000000 = sec" "go_rem (u * 100) 1000000 * 1000 = u mod 10000 * 100000"
    using u div_mult_mult2 [of 100 u 10000] mod_mult_mult2 [of u 100 10000]
    by (simp_all add: go_quot_nonneg go_rem_nonneg sec_def)
  have h: "go_quot sec 3600 = sec div 3600" "go_rem sec 3600 = sec mod 3600" "go_rem sec 60 = sec mod 60"
    "go_quot (sec mod 3600) 60 = sec mod 3600 div 60" using sec by (simp_all add: go_quot_nonneg go_rem_nonneg)
  have "u mod 10000 < 10000" "0 \<le> u mod 10000" by simp_all
  then have "u mod 10000 * 100000 div 1000000000 = 0" "u mod 10000 * 100000 mod 1000000000 = u mod 10000 * 100000"
    by (simp_all add: div_pos_pos_trivial mod_pos_pos_trivial)
  then show ?thesis
    unfolding TicksToTime_def Let_def u_def [symmetric] q h time_Date_def
    using hms [of sec] by (simp add: sec_def)
qed

lemma TimeToTicks_TicksToTime:
  assumes "uint ticks < 864000000"
  shows "TimeToTicks (TicksToTime ticks) = ticks"
proof -
  have "uint ticks div 10000 < 86400" "0 \<le> uint ticks div 10000"
    using assms by (simp_all add: pos_imp_zdiv_nonneg_iff div_less_iff_less_mult)
  then have "(day_number 0 1 1 * 86400 + uint ticks div 10000) mod 86400 = uint ticks div 10000"
    by (simp add: mod_pos_pos_trivial)
  then have "wall (TicksToTime ticks) mod 86400 * 10000 + tnsec (TicksToTime ticks) div 100000 = uint ticks"
    by (simp add: TicksToTime_eq wall_def)
  moreover have "0 \<le> tnsec (TicksToTime ticks)" by (simp add: TicksToTime_eq)
  ultimately show ?thesis using TimeToTicks_wall [of "TicksToTime ticks"] by simp
qed

lemma TimestampToTime_eq:
  assumes "uint ticks < 864000000"
  shows "TimestampToTime mjd ticks = \<lparr>tsec = (sint mjd - 40587) * 86400 + uint ticks div 10000,
    tnsec = uint ticks mod 10000 * 100000, tzname = ''UTC'', toff = 0\<rparr>"
proof -
  define n where "n = sint mjd - 40587"
  define sec where "sec = uint ticks div 10000"
  define fr where "fr = uint ticks mod 10000"
  have sec: "0 \<le> sec" "sec < 86400" using assms by (simp_all add: sec_def pos_imp_zdiv_nonneg_iff div_less_iff_less_mult)
  have fr: "0 \<le> fr" "fr < 10000" by (simp_all add: fr_def)
  obtain y m d where c: "civil_of_days n = (y, m, d)" by (metis surj_pair)
  note civ = civil_of_days_inverse [OF c]
  have dn: "day_number y m d = n" using civ civilToUnixDays_day_number [OF civ(1,2), of y d] by simp
  have "wall (MJDToDate mjd) div 86400 = n" by (simp add: MJDToDate_eq wall_def n_def)
  then have date: "time_DateOf (MJDToDate mjd) = (y, m, d)" using c by (simp only: time_DateOf_def)
  have "wall (TicksToTime ticks) mod 86400 = (sec + 86400 * day_number 0 1 1) mod 86400"
    by (simp add: TicksToTime_eq wall_def sec_def algebra_simps)
  also have "\<dots> = sec" using sec by (simp only: mod_mult_self2 mod_pos_pos_trivial)
  finally have clock: "time_Clock (TicksToTime ticks) = (sec div 3600, sec mod 3600 div 60, sec mod 60)"
    by (simp only: time_Clock_def Let_def)
  have "fr * 100000 div 1000000000 = 0" "fr * 100000 mod 1000000000 = fr * 100000"
    using fr by (simp_all add: div_pos_pos_trivial mod_pos_pos_trivial)
  moreover have "n * 86400 + sec div 3600 * 3600 + sec mod 3600 div 60 * 60 + sec mod 60 = n * 86400 + sec"
    by (simp only: add.assoc) (simp only: hms [of sec, unfolded add.assoc])
  ultimately show ?thesis
    unfolding TimestampToTime_def Let_def date clock prod.case time_Date_def dn
    by (simp add: TicksToTime_eq sec_def [symmetric] fr_def [symmetric] n_def [symmetric])
qed

lemma timestamp_round_trip:
  assumes "uint ticks < 864000000"
  shows "DateToMJD (TimestampToTime mjd ticks) = mjd" and "TimeToTicks (TimestampToTime mjd ticks) = ticks"
proof -
  define n where "n = sint mjd - 40587"
  define sec where "sec = uint ticks div 10000"
  have sec: "0 \<le> sec" "sec < 86400" using assms by (simp_all add: sec_def pos_imp_zdiv_nonneg_iff div_less_iff_less_mult)
  have w: "wall (TimestampToTime mjd ticks) = sec + 86400 * n"
    using TimestampToTime_eq [OF assms, of mjd] by (simp add: wall_def sec_def n_def)
  have "(sec + 86400 * n) div 86400 = n" "(sec + 86400 * n) mod 86400 = sec"
    using sec by (simp_all add: div_pos_pos_trivial mod_pos_pos_trivial)
  note dm = this
  show "DateToMJD (TimestampToTime mjd ticks) = mjd"
    unfolding DateToMJD_wall w dm by (simp add: n_def)
  have ns: "tnsec (TimestampToTime mjd ticks) = uint ticks mod 10000 * 100000"
    using TimestampToTime_eq [OF assms, of mjd] by simp
  have "TimeToTicks (TimestampToTime mjd ticks) = of_int (sec * 10000 + uint ticks mod 10000 * 100000 div 100000)"
    using TimeToTicks_wall [of "TimestampToTime mjd ticks"] unfolding w dm ns by simp
  also have "\<dots> = of_int (uint ticks)" by (simp add: sec_def)
  finally show "TimeToTicks (TimestampToTime mjd ticks) = ticks" by simp
qed

text \<open>TIMESTAMP WITH TIME ZONE: what is encoded for a time and decoded again is the same instant, at the
  resolution of the wire, with the same offset.\<close>

lemma timestamp_tz_round_trip:
  assumes "timezoneParts t = (utc, off, offMin)" and "60 dvd toff t" and "\<bar>toff t\<bar> < 2 ^ 31"
    and "0 \<le> tnsec t" and "tnsec t < 1000000000"
    and "- (2 ^ 31) \<le> tsec t div 86400 + 40587" and "tsec t div 86400 + 40587 < 2 ^ 31"
  shows "tsec (TimestampTZExToTime res (DateToMJD utc) (TimeToTicks utc) tz offMin) = tsec t"
    and "tnsec (TimestampTZExToTime res (DateToMJD utc) (TimeToTicks utc) tz offMin) = tnsec t - tnsec t mod 100000"
    and "toff (TimestampTZExToTime res (DateToMJD utc) (TimeToTicks utc) tz offMin) = toff t"
proof -
  have parts: "utc = time_UTC t" "offMin = of_int (go_quot (toff t) 60)" using assms(1) by (auto simp: timezoneParts_def)
  define s where "s = tsec t mod 86400"
  define f where "f = tnsec t div 100000"
  have s: "0 \<le> s" "s < 86400" by (simp_all add: s_def)
  have f: "0 \<le> f" "f < 10000" using assms(4,5) by (simp_all add: f_def pos_imp_zdiv_nonneg_iff div_less_iff_less_mult)
  have w: "wall utc = tsec t" "tnsec utc = tnsec t" by (simp_all add: parts(1) wall_def time_UTC_def)
  have tk: "TimeToTicks utc = of_int (s * 10000 + f)"
    using TimeToTicks_wall [of utc] assms(4) unfolding w s_def f_def by simp
  have b: "0 \<le> s * 10000 + f" "s * 10000 + f < 864000000" using s f by linarith+
  then have u: "uint (TimeToTicks utc) = s * 10000 + f"
    unfolding tk by (simp only: unsigned_of_int) (simp add: take_bit_int_eq_self)
  have dm: "(s * 10000 + f) div 10000 = s" "(s * 10000 + f) mod 10000 = f"
    using f by (simp_all add: div_pos_pos_trivial mod_pos_pos_trivial)
  define n where "n = tsec t div 86400"
  have "sint (of_int (n + 40587) :: int32) = signed_take_bit 31 (n + 40587)" by (simp only: signed_of_int) simp
  also have "\<dots> = n + 40587" using assms(6,7) by (intro signed_take_bit_int_eq_self) (simp_all add: n_def [symmetric])
  finally have mjd: "sint (DateToMJD utc) = n + 40587" unfolding DateToMJD_wall w n_def [symmetric] .
  have ts: "TimestampToTime (DateToMJD utc) (TimeToTicks utc)
    = \<lparr>tsec = (n + 40587 - 40587) * 86400 + s, tnsec = f * 100000, tzname = ''UTC'', toff = 0\<rparr>"
    using TimestampToTime_eq [of "TimeToTicks utc" "DateToMJD utc"] b unfolding u dm mjd by simp
  have "n * 86400 + s = tsec t" unfolding n_def s_def by (rule div_mult_mod_eq)
  then show "tsec (TimestampTZExToTime res (DateToMJD utc) (TimeToTicks utc) tz offMin) = tsec t"
    by (simp add: TimestampTZExToTime_def ts time_In_def Let_def split: prod.splits)
  have "f * 100000 = tnsec t - tnsec t mod 100000" unfolding f_def by (simp only: minus_mod_eq_div_mult)
  then show "tnsec (TimestampTZExToTime res (DateToMJD utc) (TimeToTicks utc) tz offMin) = tnsec t - tnsec t mod 100000"
    by (simp add: TimestampTZExToTime_def ts time_In_def Let_def split: prod.splits)
  obtain h where h: "toff t = 60 * h" using assms(2) by blast
  then have q: "go_quot (toff t) 60 = h" by (cases "0 \<le> h") (simp_all add: go_quot_nonneg go_quot_neg)
  have "sint offMin = signed_take_bit 31 h" unfolding parts(2) q by (simp only: signed_of_int) simp
  also have "\<dots> = h" using assms(3) h by (intro signed_take_bit_int_eq_self) auto
  finally show "toff (TimestampTZExToTime res (DateToMJD utc) (TimeToTicks utc) tz offMin) = toff t"
    using h by (simp add: TimestampTZExToTime_def fixedLocationForTZ_def time_In_def Let_def)
qed

section \<open>The zone caches are transparent\<close>

definition cache_ok :: "(uint32 \<Rightarrow> string) \<Rightarrow> (string \<Rightarrow> bool) \<Rightarrow> tz_cache \<Rightarrow> bool" where
  "cache_ok named known c \<longleftrightarrow> length (fastCache c) = 2880 \<and>
     (\<forall>i loc. i < 2880 \<longrightarrow> fastCache c ! i = Some loc \<longrightarrow> loc = zone_of named known (of_nat i)) \<and>
     (\<forall>tz loc. \<not> tz < 2880 \<longrightarrow> locationCache c tz = Some loc \<longrightarrow> loc = zone_of named known tz)"

definition emptyTzCache :: tz_cache where
  "emptyTzCache = \<lparr>fastCache = replicate 2880 None, locationCache = (\<lambda>_. None)\<rparr>"

lemma cache_ok_empty: "cache_ok named known emptyTzCache"
  by (simp add: cache_ok_def emptyTzCache_def)

lemma formatOffset_hhmm: "formatOffset minutes = format_hhmm minutes"
proof (cases "- 720 \<le> minutes \<and> minutes \<le> 840")
  case True
  then have i: "nat (minutes + 720) < 1561" and "int (nat (minutes + 720)) - 720 = minutes" by linarith+
  then have "offsetStrings ! nat (minutes + 720) = format_hhmm minutes"
    unfolding offsetStrings_def by (subst nth_map) (simp_all del: upt_conv_Cons)
  then show ?thesis by (simp add: formatOffset_def)
qed (auto simp: formatOffset_def)

lemma Resolve_transparent:
  assumes "cache_ok named known c" and "Resolve named known tz c = (loc, c')"
  shows "loc = zone_of named known tz" and "cache_ok named known c'"
proof -
  have lt: "tz < 2880 \<longleftrightarrow> unat tz < 2880" by (simp add: word_less_nat_alt)
  have fast: "tz < 2880 \<Longrightarrow> (formatOffset (uint tz - 1439), Some ((uint tz - 1439) * 60)) = zone_of named known tz"
    by (simp add: zone_of_def formatOffset_hhmm)
  have slow: "\<not> tz < 2880 \<Longrightarrow> (if named tz = [] then utcLocation else if known (named tz) then (named tz, None) else utcLocation)
      = zone_of named known tz" by (simp add: zone_of_def)
  show "loc = zone_of named known tz"
  proof (cases "tz < 2880")
    case True
    then have "fastCache c ! unat tz = Some l \<Longrightarrow> l = zone_of named known tz" for l
    proof -
      assume l: "fastCache c ! unat tz = Some l"
      have "unat tz < 2880" using True lt by simp
      with assms(1) l have "l = zone_of named known (of_nat (unat tz))" unfolding cache_ok_def by blast
      then show "l = zone_of named known tz" by simp
    qed
    with True assms(2) fast show ?thesis
      by (auto simp: Resolve_def resolveOffsetFast_def Let_def simp del: split_paired_All split: option.splits)
  next
    case False
    then have "locationCache c tz = Some l \<Longrightarrow> l = zone_of named known tz" for l
      using assms(1) unfolding cache_ok_def by blast
    with False assms(2) show ?thesis
      by (auto simp: Resolve_def resolveNamedSlow_def Let_def slow [OF False] split: option.splits)
  qed
  show "cache_ok named known c'"
  proof (cases "tz < 2880")
    case True
    then have "c' = c \<or> c' = c\<lparr>fastCache := (fastCache c)[unat tz := Some (zone_of named known tz)]\<rparr>"
      using assms(2) fast by (auto simp: Resolve_def resolveOffsetFast_def Let_def split: option.splits)
    moreover have "unat tz < 2880" using True lt by simp
    ultimately show ?thesis using assms(1) unfolding cache_ok_def
      by (elim disjE) (simp_all add: nth_list_update split: if_splits)
  next
    case False
    then have "c' = c \<or> c' = c\<lparr>locationCache := (locationCache c)(tz := Some (zone_of named known tz))\<rparr>"
      using assms(2) slow by (auto simp: Resolve_def resolveNamedSlow_def Let_def split: option.splits)
    with assms(1) False show ?thesis by (auto simp: cache_ok_def split: if_splits)
  qed
qed

end
