(* ===== verification/NamedZones.thy ===== *)
theory NamedZones
  imports Datetime
begin

text \<open>
  The table of Firebird's named time zones, \<^verbatim>\<open>named_zones_generated.go\<close>, which \<^verbatim>\<open>timezone.Resolve\<close> looks up.  The list is
  cut into parts; the identifiers count down from 65535.
\<close>

section \<open>The table\<close>

definition namedZoneMinID :: uint32 where "namedZoneMinID = 64898"

definition namedZoneMaxID :: uint32 where "namedZoneMaxID = 65535"

definition namedZones1 :: "string list" where
  "namedZones1 = [''GMT'', ''ACT'', ''AET'', ''AGT'', ''ART'', ''AST'', ''Africa/Abidjan'', ''Africa/Accra'', ''Africa/Addis_Ababa'',
     ''Africa/Algiers'', ''Africa/Asmara'', ''Africa/Asmera'', ''Africa/Bamako'', ''Africa/Bangui'', ''Africa/Banjul'',
     ''Africa/Bissau'', ''Africa/Blantyre'', ''Africa/Brazzaville'', ''Africa/Bujumbura'', ''Africa/Cairo'',
     ''Africa/Casablanca'', ''Africa/Ceuta'', ''Africa/Conakry'', ''Africa/Dakar'', ''Africa/Dar_es_Salaam'',
     ''Africa/Djibouti'', ''Africa/Douala'', ''Africa/El_Aaiun'', ''Africa/Freetown'', ''Africa/Gaborone'', ''Africa/Harare'',
     ''Africa/Johannesburg'', ''Africa/Juba'', ''Africa/Kampala'', ''Africa/Khartoum'', ''Africa/Kigali'',
     ''Africa/Kinshasa'', ''Africa/Lagos'', ''Africa/Libreville'', ''Africa/Lome'', ''Africa/Luanda'', ''Africa/Lubumbashi'',
     ''Africa/Lusaka'', ''Africa/Malabo'', ''Africa/Maputo'', ''Africa/Maseru'', ''Africa/Mbabane'', ''Africa/Mogadishu'',
     ''Africa/Monrovia'', ''Africa/Nairobi'', ''Africa/Ndjamena'', ''Africa/Niamey'', ''Africa/Nouakchott'',
     ''Africa/Ouagadougou'', ''Africa/Porto-Novo'', ''Africa/Sao_Tome'', ''Africa/Timbuktu'', ''Africa/Tripoli'',
     ''Africa/Tunis'', ''Africa/Windhoek'', ''America/Adak'', ''America/Anchorage'', ''America/Anguilla'',
     ''America/Antigua'', ''America/Araguaina'', ''America/Argentina/Buenos_Aires'', ''America/Argentina/Catamarca'',
     ''America/Argentina/ComodRivadavia'', ''America/Argentina/Cordoba'', ''America/Argentina/Jujuy'',
     ''America/Argentina/La_Rioja'', ''America/Argentina/Mendoza'', ''America/Argentina/Rio_Gallegos'',
     ''America/Argentina/Salta'', ''America/Argentina/San_Juan'', ''America/Argentina/San_Luis'',
     ''America/Argentina/Tucuman'', ''America/Argentina/Ushuaia'', ''America/Aruba'', ''America/Asuncion'',
     ''America/Atikokan'', ''America/Atka'', ''America/Bahia'', ''America/Bahia_Banderas'', ''America/Barbados'',
     ''America/Belem'', ''America/Belize'', ''America/Blanc-Sablon'', ''America/Boa_Vista'', ''America/Bogota'',
     ''America/Boise'', ''America/Buenos_Aires'', ''America/Cambridge_Bay'', ''America/Campo_Grande'', ''America/Cancun'',
     ''America/Caracas'', ''America/Catamarca'', ''America/Cayenne'', ''America/Cayman'', ''America/Chicago'',
     ''America/Chihuahua'', ''America/Coral_Harbour'', ''America/Cordoba'', ''America/Costa_Rica'', ''America/Creston'',
     ''America/Cuiaba'', ''America/Curacao'', ''America/Danmarkshavn'', ''America/Dawson'', ''America/Dawson_Creek'',
     ''America/Denver'', ''America/Detroit'', ''America/Dominica'', ''America/Edmonton'', ''America/Eirunepe'',
     ''America/El_Salvador'', ''America/Ensenada'', ''America/Fort_Nelson'', ''America/Fort_Wayne'', ''America/Fortaleza'',
     ''America/Glace_Bay'', ''America/Godthab'', ''America/Goose_Bay'', ''America/Grand_Turk'', ''America/Grenada'',
     ''America/Guadeloupe'', ''America/Guatemala'', ''America/Guayaquil'']"

definition namedZones2 :: "string list" where
  "namedZones2 = [''America/Guyana'', ''America/Halifax'', ''America/Havana'', ''America/Hermosillo'', ''America/Indiana/Indianapolis'',
     ''America/Indiana/Knox'', ''America/Indiana/Marengo'', ''America/Indiana/Petersburg'', ''America/Indiana/Tell_City'',
     ''America/Indiana/Vevay'', ''America/Indiana/Vincennes'', ''America/Indiana/Winamac'', ''America/Indianapolis'',
     ''America/Inuvik'', ''America/Iqaluit'', ''America/Jamaica'', ''America/Jujuy'', ''America/Juneau'',
     ''America/Kentucky/Louisville'', ''America/Kentucky/Monticello'', ''America/Knox_IN'', ''America/Kralendijk'',
     ''America/La_Paz'', ''America/Lima'', ''America/Los_Angeles'', ''America/Louisville'', ''America/Lower_Princes'',
     ''America/Maceio'', ''America/Managua'', ''America/Manaus'', ''America/Marigot'', ''America/Martinique'',
     ''America/Matamoros'', ''America/Mazatlan'', ''America/Mendoza'', ''America/Menominee'', ''America/Merida'',
     ''America/Metlakatla'', ''America/Mexico_City'', ''America/Miquelon'', ''America/Moncton'', ''America/Monterrey'',
     ''America/Montevideo'', ''America/Montreal'', ''America/Montserrat'', ''America/Nassau'', ''America/New_York'',
     ''America/Nipigon'', ''America/Nome'', ''America/Noronha'', ''America/North_Dakota/Beulah'',
     ''America/North_Dakota/Center'', ''America/North_Dakota/New_Salem'', ''America/Ojinaga'', ''America/Panama'',
     ''America/Pangnirtung'', ''America/Paramaribo'', ''America/Phoenix'', ''America/Port-au-Prince'',
     ''America/Port_of_Spain'', ''America/Porto_Acre'', ''America/Porto_Velho'', ''America/Puerto_Rico'',
     ''America/Punta_Arenas'', ''America/Rainy_River'', ''America/Rankin_Inlet'', ''America/Recife'', ''America/Regina'',
     ''America/Resolute'', ''America/Rio_Branco'', ''America/Rosario'', ''America/Santa_Isabel'', ''America/Santarem'',
     ''America/Santiago'', ''America/Santo_Domingo'', ''America/Sao_Paulo'', ''America/Scoresbysund'', ''America/Shiprock'',
     ''America/Sitka'', ''America/St_Barthelemy'', ''America/St_Johns'', ''America/St_Kitts'', ''America/St_Lucia'',
     ''America/St_Thomas'', ''America/St_Vincent'', ''America/Swift_Current'', ''America/Tegucigalpa'', ''America/Thule'',
     ''America/Thunder_Bay'', ''America/Tijuana'', ''America/Toronto'', ''America/Tortola'', ''America/Vancouver'',
     ''America/Virgin'', ''America/Whitehorse'', ''America/Winnipeg'', ''America/Yakutat'', ''America/Yellowknife'',
     ''Antarctica/Casey'', ''Antarctica/Davis'', ''Antarctica/DumontDUrville'', ''Antarctica/Macquarie'',
     ''Antarctica/Mawson'', ''Antarctica/McMurdo'', ''Antarctica/Palmer'', ''Antarctica/Rothera'', ''Antarctica/South_Pole'',
     ''Antarctica/Syowa'', ''Antarctica/Troll'', ''Antarctica/Vostok'', ''Arctic/Longyearbyen'', ''Asia/Aden'',
     ''Asia/Almaty'', ''Asia/Amman'', ''Asia/Anadyr'', ''Asia/Aqtau'', ''Asia/Aqtobe'', ''Asia/Ashgabat'', ''Asia/Ashkhabad'',
     ''Asia/Atyrau'', ''Asia/Baghdad'', ''Asia/Bahrain'', ''Asia/Baku'', ''Asia/Bangkok'', ''Asia/Barnaul'', ''Asia/Beirut'',
     ''Asia/Bishkek'', ''Asia/Brunei'']"

definition namedZones3 :: "string list" where
  "namedZones3 = [''Asia/Calcutta'', ''Asia/Chita'', ''Asia/Choibalsan'', ''Asia/Chongqing'', ''Asia/Chungking'', ''Asia/Colombo'',
     ''Asia/Dacca'', ''Asia/Damascus'', ''Asia/Dhaka'', ''Asia/Dili'', ''Asia/Dubai'', ''Asia/Dushanbe'', ''Asia/Famagusta'',
     ''Asia/Gaza'', ''Asia/Harbin'', ''Asia/Hebron'', ''Asia/Ho_Chi_Minh'', ''Asia/Hong_Kong'', ''Asia/Hovd'',
     ''Asia/Irkutsk'', ''Asia/Istanbul'', ''Asia/Jakarta'', ''Asia/Jayapura'', ''Asia/Jerusalem'', ''Asia/Kabul'',
     ''Asia/Kamchatka'', ''Asia/Karachi'', ''Asia/Kashgar'', ''Asia/Kathmandu'', ''Asia/Katmandu'', ''Asia/Khandyga'',
     ''Asia/Kolkata'', ''Asia/Krasnoyarsk'', ''Asia/Kuala_Lumpur'', ''Asia/Kuching'', ''Asia/Kuwait'', ''Asia/Macao'',
     ''Asia/Macau'', ''Asia/Magadan'', ''Asia/Makassar'', ''Asia/Manila'', ''Asia/Muscat'', ''Asia/Nicosia'',
     ''Asia/Novokuznetsk'', ''Asia/Novosibirsk'', ''Asia/Omsk'', ''Asia/Oral'', ''Asia/Phnom_Penh'', ''Asia/Pontianak'',
     ''Asia/Pyongyang'', ''Asia/Qatar'', ''Asia/Qyzylorda'', ''Asia/Rangoon'', ''Asia/Riyadh'', ''Asia/Saigon'',
     ''Asia/Sakhalin'', ''Asia/Samarkand'', ''Asia/Seoul'', ''Asia/Shanghai'', ''Asia/Singapore'', ''Asia/Srednekolymsk'',
     ''Asia/Taipei'', ''Asia/Tashkent'', ''Asia/Tbilisi'', ''Asia/Tehran'', ''Asia/Tel_Aviv'', ''Asia/Thimbu'',
     ''Asia/Thimphu'', ''Asia/Tokyo'', ''Asia/Tomsk'', ''Asia/Ujung_Pandang'', ''Asia/Ulaanbaatar'', ''Asia/Ulan_Bator'',
     ''Asia/Urumqi'', ''Asia/Ust-Nera'', ''Asia/Vientiane'', ''Asia/Vladivostok'', ''Asia/Yakutsk'', ''Asia/Yangon'',
     ''Asia/Yekaterinburg'', ''Asia/Yerevan'', ''Atlantic/Azores'', ''Atlantic/Bermuda'', ''Atlantic/Canary'',
     ''Atlantic/Cape_Verde'', ''Atlantic/Faeroe'', ''Atlantic/Faroe'', ''Atlantic/Jan_Mayen'', ''Atlantic/Madeira'',
     ''Atlantic/Reykjavik'', ''Atlantic/South_Georgia'', ''Atlantic/St_Helena'', ''Atlantic/Stanley'', ''Australia/ACT'',
     ''Australia/Adelaide'', ''Australia/Brisbane'', ''Australia/Broken_Hill'', ''Australia/Canberra'', ''Australia/Currie'',
     ''Australia/Darwin'', ''Australia/Eucla'', ''Australia/Hobart'', ''Australia/LHI'', ''Australia/Lindeman'',
     ''Australia/Lord_Howe'', ''Australia/Melbourne'', ''Australia/NSW'', ''Australia/North'', ''Australia/Perth'',
     ''Australia/Queensland'', ''Australia/South'', ''Australia/Sydney'', ''Australia/Tasmania'', ''Australia/Victoria'',
     ''Australia/West'', ''Australia/Yancowinna'', ''BET'', ''BST'', ''Brazil/Acre'', ''Brazil/DeNoronha'', ''Brazil/East'',
     ''Brazil/West'', ''CAT'', ''CET'', ''CNT'', ''CST'', ''CST6CDT'', ''CTT'']"

definition namedZones4 :: "string list" where
  "namedZones4 = [''Canada/Atlantic'', ''Canada/Central'', ''Canada/East-Saskatchewan'', ''Canada/Eastern'', ''Canada/Mountain'',
     ''Canada/Newfoundland'', ''Canada/Pacific'', ''Canada/Saskatchewan'', ''Canada/Yukon'', ''Chile/Continental'',
     ''Chile/EasterIsland'', ''Cuba'', ''EAT'', ''ECT'', ''EET'', ''EST'', ''EST5EDT'', ''Egypt'', ''Eire'', ''Etc/GMT'',
     ''Etc/GMT+0'', ''Etc/GMT+1'', ''Etc/GMT+10'', ''Etc/GMT+11'', ''Etc/GMT+12'', ''Etc/GMT+2'', ''Etc/GMT+3'',
     ''Etc/GMT+4'', ''Etc/GMT+5'', ''Etc/GMT+6'', ''Etc/GMT+7'', ''Etc/GMT+8'', ''Etc/GMT+9'', ''Etc/GMT-0'', ''Etc/GMT-1'',
     ''Etc/GMT-10'', ''Etc/GMT-11'', ''Etc/GMT-12'', ''Etc/GMT-13'', ''Etc/GMT-14'', ''Etc/GMT-2'', ''Etc/GMT-3'',
     ''Etc/GMT-4'', ''Etc/GMT-5'', ''Etc/GMT-6'', ''Etc/GMT-7'', ''Etc/GMT-8'', ''Etc/GMT-9'', ''Etc/GMT0'',
     ''Etc/Greenwich'', ''Etc/UCT'', ''Etc/UTC'', ''Etc/Universal'', ''Etc/Zulu'', ''Europe/Amsterdam'', ''Europe/Andorra'',
     ''Europe/Astrakhan'', ''Europe/Athens'', ''Europe/Belfast'', ''Europe/Belgrade'', ''Europe/Berlin'',
     ''Europe/Bratislava'', ''Europe/Brussels'', ''Europe/Bucharest'', ''Europe/Budapest'', ''Europe/Busingen'',
     ''Europe/Chisinau'', ''Europe/Copenhagen'', ''Europe/Dublin'', ''Europe/Gibraltar'', ''Europe/Guernsey'',
     ''Europe/Helsinki'', ''Europe/Isle_of_Man'', ''Europe/Istanbul'', ''Europe/Jersey'', ''Europe/Kaliningrad'',
     ''Europe/Kiev'', ''Europe/Kirov'', ''Europe/Lisbon'', ''Europe/Ljubljana'', ''Europe/London'', ''Europe/Luxembourg'',
     ''Europe/Madrid'', ''Europe/Malta'', ''Europe/Mariehamn'', ''Europe/Minsk'', ''Europe/Monaco'', ''Europe/Moscow'',
     ''Europe/Nicosia'', ''Europe/Oslo'', ''Europe/Paris'', ''Europe/Podgorica'', ''Europe/Prague'', ''Europe/Riga'',
     ''Europe/Rome'', ''Europe/Samara'', ''Europe/San_Marino'', ''Europe/Sarajevo'', ''Europe/Saratov'',
     ''Europe/Simferopol'', ''Europe/Skopje'', ''Europe/Sofia'', ''Europe/Stockholm'', ''Europe/Tallinn'', ''Europe/Tirane'',
     ''Europe/Tiraspol'', ''Europe/Ulyanovsk'', ''Europe/Uzhgorod'', ''Europe/Vaduz'', ''Europe/Vatican'', ''Europe/Vienna'',
     ''Europe/Vilnius'', ''Europe/Volgograd'', ''Europe/Warsaw'', ''Europe/Zagreb'', ''Europe/Zaporozhye'', ''Europe/Zurich'',
     ''Factory'', ''GB'', ''GB-Eire'', ''GMT+0'', ''GMT-0'', ''GMT0'', ''Greenwich'', ''HST'', ''Hongkong'', ''IET'', ''IST'']"

definition namedZones5 :: "string list" where
  "namedZones5 = [''Iceland'', ''Indian/Antananarivo'', ''Indian/Chagos'', ''Indian/Christmas'', ''Indian/Cocos'', ''Indian/Comoro'',
     ''Indian/Kerguelen'', ''Indian/Mahe'', ''Indian/Maldives'', ''Indian/Mauritius'', ''Indian/Mayotte'', ''Indian/Reunion'',
     ''Iran'', ''Israel'', ''JST'', ''Jamaica'', ''Japan'', ''Kwajalein'', ''Libya'', ''MET'', ''MIT'', ''MST'', ''MST7MDT'',
     ''Mexico/BajaNorte'', ''Mexico/BajaSur'', ''Mexico/General'', ''NET'', ''NST'', ''NZ'', ''NZ-CHAT'', ''Navajo'', ''PLT'',
     ''PNT'', ''PRC'', ''PRT'', ''PST'', ''PST8PDT'', ''Pacific/Apia'', ''Pacific/Auckland'', ''Pacific/Bougainville'',
     ''Pacific/Chatham'', ''Pacific/Chuuk'', ''Pacific/Easter'', ''Pacific/Efate'', ''Pacific/Enderbury'',
     ''Pacific/Fakaofo'', ''Pacific/Fiji'', ''Pacific/Funafuti'', ''Pacific/Galapagos'', ''Pacific/Gambier'',
     ''Pacific/Guadalcanal'', ''Pacific/Guam'', ''Pacific/Honolulu'', ''Pacific/Johnston'', ''Pacific/Kiritimati'',
     ''Pacific/Kosrae'', ''Pacific/Kwajalein'', ''Pacific/Majuro'', ''Pacific/Marquesas'', ''Pacific/Midway'',
     ''Pacific/Nauru'', ''Pacific/Niue'', ''Pacific/Norfolk'', ''Pacific/Noumea'', ''Pacific/Pago_Pago'', ''Pacific/Palau'',
     ''Pacific/Pitcairn'', ''Pacific/Pohnpei'', ''Pacific/Ponape'', ''Pacific/Port_Moresby'', ''Pacific/Rarotonga'',
     ''Pacific/Saipan'', ''Pacific/Samoa'', ''Pacific/Tahiti'', ''Pacific/Tarawa'', ''Pacific/Tongatapu'', ''Pacific/Truk'',
     ''Pacific/Wake'', ''Pacific/Wallis'', ''Pacific/Yap'', ''Poland'', ''Portugal'', ''ROC'', ''ROK'', ''SST'',
     ''Singapore'', ''SystemV/AST4'', ''SystemV/AST4ADT'', ''SystemV/CST6'', ''SystemV/CST6CDT'', ''SystemV/EST5'',
     ''SystemV/EST5EDT'', ''SystemV/HST10'', ''SystemV/MST7'', ''SystemV/MST7MDT'', ''SystemV/PST8'', ''SystemV/PST8PDT'',
     ''SystemV/YST9'', ''SystemV/YST9YDT'', ''Turkey'', ''UCT'', ''US/Alaska'', ''US/Aleutian'', ''US/Arizona'',
     ''US/Central'', ''US/East-Indiana'', ''US/Eastern'', ''US/Hawaii'', ''US/Indiana-Starke'', ''US/Michigan'',
     ''US/Mountain'', ''US/Pacific'', ''US/Pacific-New'', ''US/Samoa'', ''UTC'', ''Universal'', ''VST'', ''W-SU'', ''WET'',
     ''Zulu'', ''America/Nuuk'', ''Asia/Qostanay'', ''Pacific/Kanton'', ''Europe/Kyiv'', ''America/Ciudad_Juarez'',
     ''America/Coyhaique'']"

definition namedZoneNames :: "string list" where
  "namedZoneNames = namedZones1 @ namedZones2 @ namedZones3 @ namedZones4 @ namedZones5"

definition namedZoneName :: "uint32 \<Rightarrow> string" where
  "namedZoneName tzValue =
     (if tzValue < namedZoneMinID \<or> tzValue > namedZoneMaxID then [] else namedZoneNames ! unat (namedZoneMaxID - tzValue))"

section \<open>An order on names\<close>

text \<open>Lexicographic, on the bits of the characters, so that the order of neighbours is evaluated quickly.\<close>

fun bits_less :: "bool list \<Rightarrow> bool list \<Rightarrow> bool" where
  "bits_less (a # as) (b # bs) = (if a = b then bits_less as bs else b)"
| "bits_less [] (b # bs) = True"
| "bits_less _ [] = False"

primrec char_bits :: "char \<Rightarrow> bool list" where
  "char_bits (Char b0 b1 b2 b3 b4 b5 b6 b7) = [b7, b6, b5, b4, b3, b2, b1, b0]"

definition char_less :: "char \<Rightarrow> char \<Rightarrow> bool" where
  "char_less c d \<longleftrightarrow> bits_less (char_bits c) (char_bits d)"

fun name_less :: "string \<Rightarrow> string \<Rightarrow> bool" where
  "name_less (c # s) (d # t) = (if c = d then name_less s t else char_less c d)"
| "name_less [] (d # t) = True"
| "name_less _ [] = False"

lemma bits_less_irrefl: "\<not> bits_less xs xs"
  by (induction xs) simp_all

lemma bits_less_trans: "bits_less xs ys \<Longrightarrow> bits_less ys zs \<Longrightarrow> bits_less xs zs"
proof (induction xs zs arbitrary: ys rule: bits_less.induct)
  case (1 a as b bs)
  then show ?case by (cases ys) (auto split: if_splits)
qed (case_tac ys; simp)+

lemma name_less_irrefl: "\<not> name_less s s"
  by (induction s) simp_all

lemma name_less_trans: "name_less s t \<Longrightarrow> name_less t u \<Longrightarrow> name_less s u"
proof (induction s u arbitrary: t rule: name_less.induct)
  case (1 c s d u)
  then show ?case
    by (cases t) (auto split: if_splits simp: char_less_def bits_less_irrefl intro: bits_less_trans dest: bits_less_trans)
qed (case_tac t; simp)+

fun ascending :: "string list \<Rightarrow> bool" where
  "ascending (x # y # zs) = (name_less x y \<and> ascending (y # zs))"
| "ascending _ = True"

lemma ascending_sorted: "ascending xs \<Longrightarrow> sorted_wrt name_less xs"
proof (induction xs rule: ascending.induct)
  case (1 x y zs)
  then show ?case using name_less_trans by (auto simp: list_all_iff)
qed simp_all

lemma ascending_distinct: "ascending xs \<Longrightarrow> distinct xs"
proof -
  have "sorted_wrt name_less xs \<Longrightarrow> distinct xs" for xs using name_less_irrefl by (induction xs) auto
  then show "ascending xs \<Longrightarrow> distinct xs" using ascending_sorted by blast
qed

section \<open>The names\<close>

definition sortedZones :: "string list" where
  "sortedZones = tl namedZones1 @ namedZones2 @ namedZones3 @ namedZones4 @ take 120 namedZones5"

definition addedZones :: "string list" where
  "addedZones = [''America/Nuuk'', ''Asia/Qostanay'', ''Pacific/Kanton'', ''Europe/Kyiv'', ''America/Ciudad_Juarez'', ''America/Coyhaique'']"

lemma length_zones: "length namedZones1 = 128" "length namedZones2 = 128" "length namedZones3 = 128" "length namedZones4 = 128" "length namedZones5 = 126"
  by (simp_all add: namedZones1_def namedZones2_def namedZones3_def namedZones4_def namedZones5_def)

lemma ascending_append: "ascending xs \<Longrightarrow> ascending ys \<Longrightarrow> name_less (last xs) (hd ys) \<Longrightarrow> ascending (xs @ ys)"
  by (induction xs rule: ascending.induct) (simp_all, cases ys, simp_all)

lemma ascending_parts:
  "ascending (tl namedZones1)" "ascending namedZones2" "ascending namedZones3" "ascending namedZones4" "ascending (take 120 namedZones5)"
  by code_simp+

lemma ascending_borders:
  "name_less (last (tl namedZones1)) (hd namedZones2)" "name_less (last namedZones2) (hd namedZones3)"
  "name_less (last namedZones3) (hd namedZones4)" "name_less (last namedZones4) (hd (take 120 namedZones5))"
  by code_simp+

lemma ascending_sortedZones: "ascending sortedZones"
proof -
  have "namedZones2 \<noteq> []" "namedZones3 \<noteq> []" "namedZones4 \<noteq> []" using length_zones by auto
  then show ?thesis unfolding sortedZones_def using ascending_parts ascending_borders by (simp add: ascending_append)
qed

text \<open>The other names fall between neighbours of the ascending part.\<close>

lemma between_neighbours:
  assumes "sorted_wrt name_less xs" and "Suc i < length xs" and "name_less (xs ! i) a" and "name_less a (xs ! Suc i)"
  shows "a \<notin> set xs"
proof
  assume "a \<in> set xs"
  then obtain j where j: "j < length xs" "xs ! j = a" by (auto simp: in_set_conv_nth)
  consider "j = i" | "j < i" | "j = Suc i" | "Suc i < j" by linarith
  then have "name_less a a"
  proof cases
    case 2
    then have "name_less (xs ! j) (xs ! i)" using assms(1,2) by (simp add: sorted_wrt_iff_nth_less)
    then show ?thesis using j assms(3) name_less_trans by blast
  next
    case 4
    then have "name_less (xs ! Suc i) (xs ! j)" using assms(1) j(1) by (simp add: sorted_wrt_iff_nth_less)
    then show ?thesis using j assms(4) name_less_trans by blast
  qed (use j assms(3,4) in auto)
  then show False by (simp add: name_less_irrefl)
qed

definition zoneGaps :: "(nat \<times> string) list" where
  "zoneGaps = [(502, ''GMT''), (179, ''America/Nuuk''), (305, ''Asia/Qostanay''), (564, ''Pacific/Kanton''), (460, ''Europe/Kyiv''), (99, ''America/Ciudad_Juarez''), (102, ''America/Coyhaique'')]"

lemma zone_gaps: "list_all (\<lambda>(i, a). i < 630 \<and> name_less (sortedZones ! i) a \<and> name_less a (sortedZones ! Suc i)) zoneGaps"
  by code_simp

lemma length_sortedZones: "length sortedZones = 631"
  by (simp add: sortedZones_def length_zones)

lemma addedZones_new: "set (''GMT'' # addedZones) \<inter> set sortedZones = {}"
proof -
  note s = ascending_sorted [OF ascending_sortedZones]
  have "a \<notin> set sortedZones" if "(i, a) \<in> set zoneGaps" for i a
  proof (rule between_neighbours [OF s, of i])
    from zone_gaps that have *: "i < 630 \<and> name_less (sortedZones ! i) a \<and> name_less a (sortedZones ! Suc i)" by (auto simp: list_all_iff)
    from * show "Suc i < length sortedZones" by (simp add: length_sortedZones)
    from * show "name_less (sortedZones ! i) a" "name_less a (sortedZones ! Suc i)" by blast+
  qed
  then have "snd ` set zoneGaps \<inter> set sortedZones = {}" by auto
  moreover have "snd ` set zoneGaps = set (''GMT'' # addedZones)" by (simp add: zoneGaps_def addedZones_def)
  ultimately show ?thesis by simp
qed

lemma namedZoneNames_split: "namedZoneNames = ''GMT'' # sortedZones @ addedZones"
proof -
  have "namedZones1 = ''GMT'' # tl namedZones1" by (simp add: namedZones1_def)
  moreover have "drop 120 namedZones5 = addedZones" by (simp add: namedZones5_def addedZones_def)
  ultimately have "namedZoneNames = (''GMT'' # tl namedZones1) @ namedZones2 @ namedZones3 @ namedZones4 @ take 120 namedZones5 @ addedZones"
    unfolding namedZoneNames_def by (metis append_take_drop_id)
  then show ?thesis by (simp add: sortedZones_def)
qed

lemma namedZoneNames_distinct: "distinct namedZoneNames"
proof -
  have "distinct (''GMT'' # addedZones)" by (simp add: addedZones_def)
  then show ?thesis using ascending_distinct [OF ascending_sortedZones] addedZones_new unfolding namedZoneNames_split by auto
qed

lemma namedZoneNames_nonempty: "[] \<notin> set namedZoneNames"
proof -
  have "list_all (\<lambda>n. n \<noteq> []) namedZoneNames"
    by (simp add: namedZoneNames_def namedZones1_def namedZones2_def namedZones3_def namedZones4_def namedZones5_def)
  then show ?thesis by (auto simp: list_all_iff)
qed

lemma length_namedZoneNames: "length namedZoneNames = 638"
  by (simp add: namedZoneNames_def length_zones)

section \<open>Looking up\<close>

text \<open>C35. Every zone identifier of the range has a name, no two have the same, and no other value has one: the table is exactly
  as long as the range, so the lookup never indexes outside it.  So a value the server sends for a named zone that the
  Go runtime knows is resolved to that zone, whatever was resolved before.\<close>

theorem named_zones_complete:
  "(namedZoneName tz \<noteq> [] \<longleftrightarrow> namedZoneMinID \<le> tz \<and> tz \<le> namedZoneMaxID)
   \<and> (namedZoneMinID \<le> tz \<and> tz \<le> namedZoneMaxID \<longrightarrow> unat (namedZoneMaxID - tz) < length namedZoneNames)
   \<and> (namedZoneName tz = namedZoneName tz' \<and> namedZoneName tz \<noteq> [] \<longrightarrow> tz = tz')
   \<and> (cache_ok namedZoneName known c \<and> namedZoneMinID \<le> tz \<and> tz \<le> namedZoneMaxID \<and> known (namedZoneName tz)
        \<longrightarrow> fst (Resolve namedZoneName known tz c) = (namedZoneName tz, None))"
proof (intro conjI impI)
  have idx: "unat (namedZoneMaxID - t) < length namedZoneNames" if "namedZoneMinID \<le> t" "t \<le> namedZoneMaxID" for t
  proof -
    have "unat (namedZoneMaxID - t) = unat namedZoneMaxID - unat t" using that(2) by (rule unat_sub)
    moreover have "64898 \<le> unat t" using that(1) by (simp add: namedZoneMinID_def word_le_nat_alt)
    ultimately show ?thesis by (simp add: namedZoneMaxID_def length_namedZoneNames)
  qed
  have nm: "namedZoneName t = namedZoneNames ! unat (namedZoneMaxID - t)" if "namedZoneMinID \<le> t" "t \<le> namedZoneMaxID" for t
    using that by (simp add: namedZoneName_def not_less [symmetric])
  have "namedZoneName t \<noteq> []" if "namedZoneMinID \<le> t" "t \<le> namedZoneMaxID" for t
    using nm [OF that] nth_mem [OF idx [OF that]] namedZoneNames_nonempty by auto
  moreover have "namedZoneName t = []" if "\<not> (namedZoneMinID \<le> t \<and> t \<le> namedZoneMaxID)" for t
    using that by (auto simp: namedZoneName_def not_le)
  ultimately show ne: "namedZoneName tz \<noteq> [] \<longleftrightarrow> namedZoneMinID \<le> tz \<and> tz \<le> namedZoneMaxID" for tz
    by blast
  show "unat (namedZoneMaxID - tz) < length namedZoneNames" if "namedZoneMinID \<le> tz \<and> tz \<le> namedZoneMaxID" using that idx by blast
  show "tz = tz'" if "namedZoneName tz = namedZoneName tz' \<and> namedZoneName tz \<noteq> []"
  proof -
    from that ne have r: "namedZoneMinID \<le> tz" "tz \<le> namedZoneMaxID" "namedZoneMinID \<le> tz'" "tz' \<le> namedZoneMaxID" by metis+
    then have "namedZoneNames ! unat (namedZoneMaxID - tz) = namedZoneNames ! unat (namedZoneMaxID - tz')" using that nm by simp
    then have "unat (namedZoneMaxID - tz) = unat (namedZoneMaxID - tz')"
      using namedZoneNames_distinct idx r by (simp add: nth_eq_iff_index_eq)
    then have "namedZoneMaxID - tz = namedZoneMaxID - tz'" by (rule unsigned_word_eqI)
    then show ?thesis by simp
  qed
  show "fst (Resolve namedZoneName known tz c) = (namedZoneName tz, None)"
    if "cache_ok namedZoneName known c \<and> namedZoneMinID \<le> tz \<and> tz \<le> namedZoneMaxID \<and> known (namedZoneName tz)"
  proof -
    obtain loc c' where r: "Resolve namedZoneName known tz c = (loc, c')" by (metis surj_pair)
    have "\<not> tz < 2880" using that by (auto simp: namedZoneMinID_def word_less_nat_alt word_le_nat_alt)
    then have "zone_of namedZoneName known tz = (namedZoneName tz, None)" using that ne [of tz] by (simp add: zone_of_def)
    then show ?thesis using Resolve_transparent(1) [OF _ r] that r by simp
  qed
qed

theorem named_zones_complete_witness:
  "fst (Resolve namedZoneName (\<lambda>_. True) 65535 emptyTzCache) = (''GMT'', None) \<and> namedZoneName 64898 = ''America/Coyhaique''"
proof -
  have c: "namedZoneMinID \<le> 65535" "(65535 :: uint32) \<le> namedZoneMaxID" by (simp_all add: namedZoneMinID_def namedZoneMaxID_def)
  have "namedZoneName 65535 = ''GMT''"
    by (simp add: namedZoneName_def namedZoneMinID_def namedZoneMaxID_def namedZoneNames_split)
  moreover have "fst (Resolve namedZoneName (\<lambda>_. True) 65535 emptyTzCache) = (namedZoneName 65535, None)"
    using named_zones_complete [of 65535 65535 "\<lambda>_. True" emptyTzCache] c cache_ok_empty by blast
  moreover have "namedZoneName 64898 = ''America/Coyhaique''"
    by (simp add: namedZoneName_def namedZoneMinID_def namedZoneMaxID_def namedZoneNames_split nth_append length_sortedZones nth_Cons_numeral addedZones_def)
  ultimately show ?thesis by simp
qed

end
