(* ===== verification/Net.thy ===== *)
theory Net
  imports Errors
begin

text \<open>
  The transport: \<^verbatim>\<open>internal/wire/conn.go\<close> and \<^verbatim>\<open>internal/wire/crypt.go\<close>.

  The socket is the environment.  Its incoming side is a script of read events: a chunk of bytes
  that one or several \<^verbatim>\<open>Read\<close> calls deliver (as TCP segments them), or an error; the end of the
  script is the peer closing the connection.  Its outgoing side is the log of bytes that reached
  the socket, with a script of write failures.  A stream cipher is its documented meaning: a key
  stream and a position in it, and \<^verbatim>\<open>XORKeyStream\<close> xors the input with the next key bytes.  The
  generators of the key streams (RC4, ChaCha20, SHA-256) live outside the repository and are
  parameters of the constructors.
\<close>

section \<open>Stream ciphers (crypt.go)\<close>

record streamCipher =
  keystream :: "nat \<Rightarrow> byte"
  kpos :: nat

definition xor_at :: "(nat \<Rightarrow> byte) \<Rightarrow> nat \<Rightarrow> byte list \<Rightarrow> byte list" where
  "xor_at ks p bs = map2 (XOR) bs (map ks [p ..< p + length bs])"

definition XORKeyStream :: "streamCipher \<Rightarrow> byte list \<Rightarrow> byte list \<times> streamCipher" where
  "XORKeyStream c src = (xor_at (keystream c) (kpos c) src, c\<lparr>kpos := kpos c + length src\<rparr>)"

definition newArc4Cipher :: "(byte list \<Rightarrow> gerr + (nat \<Rightarrow> byte)) \<Rightarrow> byte list \<Rightarrow> gerr + streamCipher" where
  "newArc4Cipher rc4 key = (case rc4 key of Inl e \<Rightarrow> Inl e | Inr ks \<Rightarrow> Inr \<lparr>keystream = ks, kpos = 0\<rparr>)"

text \<open>\<open>chacha key nonce counter\<close> is the key stream of \<^verbatim>\<open>chacha20.NewUnauthenticatedCipher\<close> after
  \<^verbatim>\<open>SetCounter(counter)\<close>; \<open>sha256\<close> is \<^verbatim>\<open>sha256.Sum256\<close>.\<close>

definition newChaCha20Cipher ::
  "(byte list \<Rightarrow> byte list) \<Rightarrow> (byte list \<Rightarrow> byte list \<Rightarrow> uint32 \<Rightarrow> gerr + (nat \<Rightarrow> byte)) \<Rightarrow>
   byte list \<Rightarrow> byte list \<Rightarrow> gerr + streamCipher" where
  "newChaCha20Cipher sha256 chacha sessionKey serverData =
     (if length sessionKey < 16 then Inl (Msg ''chacha20: session key too short (need >= 16 bytes)'')
      else let h = sha256 sessionKey in
        if 16 \<le> length serverData then
          (case chacha h (take 12 serverData) (be32 (take 4 (drop 12 serverData))) of
             Inl e \<Rightarrow> Inl e | Inr ks \<Rightarrow> Inr \<lparr>keystream = ks, kpos = 0\<rparr>)
        else if 12 \<le> length serverData then
          (case chacha h (take 12 serverData) 0 of
             Inl e \<Rightarrow> Inl e | Inr ks \<Rightarrow> Inr \<lparr>keystream = ks, kpos = 0\<rparr>)
        else Inl (Msg ''chacha20: server data too short for nonce (need >= 12 bytes)''))"

lemma length_xor_at [simp]: "length (xor_at ks p bs) = length bs"
  by (simp add: xor_at_def)

lemma xor_at_Nil [simp]: "xor_at ks p [] = []"
  by (simp add: xor_at_def)

lemma nth_xor_at: "i < length bs \<Longrightarrow> xor_at ks p bs ! i = bs ! i XOR ks (p + i)"
  by (simp add: xor_at_def)

lemma xor_at_append: "xor_at ks p (xs @ ys) = xor_at ks p xs @ xor_at ks (p + length xs) ys"
  by (rule nth_equalityI) (auto simp: nth_xor_at nth_append add.assoc)

lemma xor_at_take: "xor_at ks p (take n xs) = take n (xor_at ks p xs)"
  by (rule nth_equalityI) (auto simp: nth_xor_at)

lemma xor_at_involution [simp]: "xor_at ks p (xor_at ks p xs) = xs"
  by (rule nth_equalityI) (auto simp: nth_xor_at xor.assoc)

text \<open>
  The contract every wire cipher has to meet: it keeps lengths, consumes its state as a stream
  (encrypting in pieces is encrypting at once), and the peer's cipher, started in the same state,
  undoes it.  What the connection layers rely on is proved from it.
\<close>

locale stream_cipher =
  fixes apply_stream :: "'c \<Rightarrow> byte list \<Rightarrow> byte list \<times> 'c"
  assumes keeps_length: "length (fst (apply_stream c xs)) = length xs"
    and streaming: "apply_stream c (xs @ ys) =
      (fst (apply_stream c xs) @ fst (apply_stream (snd (apply_stream c xs)) ys),
       snd (apply_stream (snd (apply_stream c xs)) ys))"
    and undo: "apply_stream c (fst (apply_stream c xs)) = (xs, snd (apply_stream c xs))"
begin

text \<open>\<open>run_stream c css\<close> pushes a sequence of chunks through the cipher.\<close>

fun run_stream :: "'c \<Rightarrow> byte list list \<Rightarrow> byte list \<times> 'c" where
  "run_stream c [] = ([], c)"
| "run_stream c (xs # css) =
     (let (ys, c') = apply_stream c xs; (zs, c'') = run_stream c' css in (ys @ zs, c''))"

lemma apply_Nil: "fst (apply_stream c []) = []"
  using keeps_length [of c "[]"] by simp

lemma run_stream_concat: "fst (run_stream c css) = fst (apply_stream c (concat css))"
proof (induction css arbitrary: c)
  case Nil
  show ?case by (simp add: apply_Nil)
next
  case (Cons xs css)
  then show ?case by (simp add: streaming split: prod.splits) (metis fst_conv)
qed

text \<open>However the plaintext is cut into writes and the ciphertext into reads, the reader recovers
  the plaintext.\<close>

lemma chunked_round_trip:
  assumes "concat rss = fst (run_stream c wss)"
  shows "fst (run_stream c rss) = concat wss"
  using assms by (simp add: run_stream_concat undo)

end

interpretation xks: stream_cipher XORKeyStream
  by unfold_locales (simp_all add: XORKeyStream_def xor_at_append add.assoc)

section \<open>The connection and its layers (conn.go)\<close>

datatype rd_event = Recv "byte list" | RecvErr gerr

record Conn =
  conn_in :: "rd_event list"
  conn_out :: "byte list"
  conn_wfail :: "(nat \<times> gerr) option list"
  conn_closed :: bool
  cryptR :: "streamCipher option"
  cryptW :: "streamCipher option"

definition NewConn :: "rd_event list \<Rightarrow> (nat \<times> gerr) option list \<Rightarrow> Conn" where
  "NewConn evs fails = \<lparr>conn_in = evs, conn_out = [], conn_wfail = fails, conn_closed = False,
     cryptR = None, cryptW = None\<rparr>"

text \<open>One \<^verbatim>\<open>Read\<close> on the socket with room for \<open>n\<close> bytes.\<close>

definition sock_read :: "nat \<Rightarrow> Conn \<Rightarrow> (byte list \<times> gerr option) \<times> Conn" where
  "sock_read n c =
     (if conn_closed c then (([], Some ErrNetClosed), c)
      else case conn_in c of
        [] \<Rightarrow> (([], Some ErrEOF), c)
      | RecvErr e # es \<Rightarrow> (([], Some e), c\<lparr>conn_in := es\<rparr>)
      | Recv bs # es \<Rightarrow>
          if length bs \<le> n then ((bs, None), c\<lparr>conn_in := es\<rparr>)
          else ((take n bs, None), c\<lparr>conn_in := Recv (drop n bs) # es\<rparr>))"

definition sock_write :: "byte list \<Rightarrow> Conn \<Rightarrow> gerr option \<times> Conn" where
  "sock_write bs c =
     (if conn_closed c then (Some ErrNetClosed, c)
      else case conn_wfail c of
        Some (k, e) # fs \<Rightarrow> (Some e, c\<lparr>conn_out := conn_out c @ take k bs, conn_wfail := fs\<rparr>)
      | None # fs \<Rightarrow> (None, c\<lparr>conn_out := conn_out c @ bs, conn_wfail := fs\<rparr>)
      | [] \<Rightarrow> (None, c\<lparr>conn_out := conn_out c @ bs\<rparr>))"

definition Conn_Read :: "nat \<Rightarrow> Conn \<Rightarrow> (byte list \<times> gerr option) \<times> Conn" where
  "Conn_Read n c =
     (case cryptR c of
        None \<Rightarrow> sock_read n c
      | Some rc \<Rightarrow>
          (let ((bs, err), c') = sock_read n c in
           if bs \<noteq> [] then let (ps, rc') = XORKeyStream rc bs in ((ps, err), c'\<lparr>cryptR := Some rc'\<rparr>)
           else ((bs, err), c')))"

definition Conn_Write :: "byte list \<Rightarrow> Conn \<Rightarrow> gerr option \<times> Conn" where
  "Conn_Write bs c =
     (case cryptW c of
        None \<Rightarrow> sock_write bs c
      | Some wc \<Rightarrow>
          (if bs = [] then (None, c)
           else let (es, wc') = XORKeyStream wc bs; (err, c') = sock_write es c
                in (err, c'\<lparr>cryptW := Some wc'\<rparr>)))"

definition enableEncryption :: "streamCipher \<Rightarrow> streamCipher \<Rightarrow> Conn \<Rightarrow> Conn" where
  "enableEncryption readCipher writeCipher c = c\<lparr>cryptR := Some readCipher, cryptW := Some writeCipher\<rparr>"

definition Conn_Close :: "Conn \<Rightarrow> Conn" where
  "Conn_Close c = c\<lparr>conn_closed := True\<rparr>"

section \<open>The byte stream a connection will deliver\<close>

text \<open>The bytes that successful reads can still obtain: everything before the first error, end of
  stream or empty read.\<close>

fun deliv :: "rd_event list \<Rightarrow> byte list" where
  "deliv [] = []"
| "deliv (Recv bs # es) = (if bs = [] then [] else bs @ deliv es)"
| "deliv (RecvErr e # es) = []"

fun first_failure :: "rd_event list \<Rightarrow> gerr" where
  "first_failure [] = ErrUnexpectedEOF"
| "first_failure (Recv bs # es) = (if bs = [] then ErrNoProgress else first_failure es)"
| "first_failure (RecvErr e # es) = (if e = ErrEOF then ErrUnexpectedEOF else e)"

definition decrypt :: "streamCipher option \<Rightarrow> byte list \<Rightarrow> byte list" where
  "decrypt rc bs = (case rc of None \<Rightarrow> bs | Some c \<Rightarrow> fst (XORKeyStream c bs))"

definition net_stream :: "Conn \<Rightarrow> byte list" where
  "net_stream c = (if conn_closed c then [] else decrypt (cryptR c) (deliv (conn_in c)))"

definition net_failure :: "Conn \<Rightarrow> gerr" where
  "net_failure c = (if conn_closed c then ErrNetClosed else first_failure (conn_in c))"

text \<open>What a read with room does: it delivers a non-empty prefix of the stream, or, when the
  stream is empty, an error or no bytes at all.\<close>

lemma Conn_Read_progress:
  assumes "0 < n" and "net_stream c \<noteq> []"
  obtains bs c' where "Conn_Read n c = ((bs, None), c')" and "bs \<noteq> []" and "length bs \<le> n"
    and "net_stream c = bs @ net_stream c'" and "net_failure c' = net_failure c"
    and "conn_out c' = conn_out c" and "conn_closed c' = conn_closed c"
    and "conn_wfail c' = conn_wfail c" and "cryptW c' = cryptW c"
proof -
  have open_c: "\<not> conn_closed c" and d: "deliv (conn_in c) \<noteq> []"
    using assms(2) by (auto simp: net_stream_def decrypt_def XORKeyStream_def split: if_splits option.splits)
  from d obtain bs es where ev: "conn_in c = Recv bs # es" and bs: "bs \<noteq> []"
    by (cases "conn_in c" rule: deliv.cases) (auto split: if_splits)
  define xs where "xs = take n bs"
  define es' where "es' = (if length bs \<le> n then es else Recv (drop n bs) # es)"
  have xs: "xs \<noteq> []" "length xs \<le> n" using assms(1) bs by (auto simp: xs_def)
  have sr: "sock_read n c = ((xs, None), c\<lparr>conn_in := es'\<rparr>)"
    using open_c ev by (auto simp: sock_read_def xs_def es'_def)
  have dl: "deliv (conn_in c) = xs @ deliv es'"
    using ev bs by (auto simp: xs_def es'_def)
  have ff: "first_failure es' = first_failure (conn_in c)"
    using ev bs by (auto simp: es'_def)
  show ?thesis
  proof (cases "cryptR c")
    case None
    then have "Conn_Read n c = ((xs, None), c\<lparr>conn_in := es'\<rparr>)"
      using sr by (simp add: Conn_Read_def)
    moreover have "net_stream c = xs @ net_stream (c\<lparr>conn_in := es'\<rparr>)"
      using None open_c dl by (simp add: net_stream_def decrypt_def)
    ultimately show ?thesis
      using that xs open_c ff by (simp add: net_failure_def)
  next
    case (Some rc)
    define c' where "c' = c\<lparr>conn_in := es', cryptR := Some (rc\<lparr>kpos := kpos rc + length xs\<rparr>)\<rparr>"
    have "Conn_Read n c = ((xor_at (keystream rc) (kpos rc) xs, None), c')"
      using Some sr xs by (simp add: Conn_Read_def XORKeyStream_def c'_def)
    moreover have "net_stream c = xor_at (keystream rc) (kpos rc) xs @ net_stream c'"
      using Some open_c dl by (simp add: net_stream_def decrypt_def XORKeyStream_def xor_at_append c'_def)
    moreover have "xor_at (keystream rc) (kpos rc) xs \<noteq> []"
      using xs by (metis length_0_conv length_xor_at)
    ultimately show ?thesis
      using that xs open_c ff by (simp add: net_failure_def c'_def)
  qed
qed

text \<open>A read on an exhausted stream fails the way \<open>net_failure\<close> says, up to the mapping of
  \<^verbatim>\<open>io.EOF\<close> that the reader does.\<close>

lemma Conn_Read_exhausted:
  assumes "net_stream c = []"
  obtains err c' where "Conn_Read n c = (([], err), c')"
    and "(case err of None \<Rightarrow> ErrNoProgress
          | Some e \<Rightarrow> if e = ErrEOF then ErrUnexpectedEOF else e) = net_failure c"
    and "conn_out c' = conn_out c" and "conn_closed c' = conn_closed c"
    and "conn_wfail c' = conn_wfail c" and "cryptW c' = cryptW c"
proof (cases "conn_closed c")
  case True
  then show ?thesis
    by (intro that [of "Some ErrNetClosed" c])
      (auto simp: Conn_Read_def sock_read_def net_failure_def split: option.splits)
next
  case False
  have d: "deliv (conn_in c) = []"
    using assms False by (auto simp: net_stream_def decrypt_def XORKeyStream_def
        dest: arg_cong [of _ _ length] split: option.splits)
  show ?thesis
  proof (cases "conn_in c" rule: deliv.cases)
    case 1
    with False show ?thesis
      by (intro that [of "Some ErrEOF" c])
        (auto simp: Conn_Read_def sock_read_def net_failure_def split: option.splits)
  next
    case (2 bs es)
    with d have "bs = []" by (simp split: if_splits)
    with 2 False show ?thesis
      by (intro that [of None "c\<lparr>conn_in := es\<rparr>"])
        (auto simp: Conn_Read_def sock_read_def net_failure_def split: option.splits)
  next
    case (3 e es)
    with False show ?thesis
      by (intro that [of "Some e" "c\<lparr>conn_in := es\<rparr>"])
        (auto simp: Conn_Read_def sock_read_def net_failure_def split: option.splits)
  qed
qed

end
