(* ===== verification/Protocol.thy ===== *)
theory Protocol
  imports Prelude
begin

text \<open>
  The protocol constants of \<^verbatim>\<open>internal/wire/protocol.go\<close> that the modelled operations use, with the
  widths and values of the source.  They are abbreviations, so that a message on the wire is a
  concrete byte list.
\<close>

subsection \<open>Operation codes (opcodes)\<close>

abbreviation (input) opConnect :: int32 where "opConnect \<equiv> 1"
abbreviation (input) opAccept :: int32 where "opAccept \<equiv> 3"
abbreviation (input) opReject :: int32 where "opReject \<equiv> 4"
abbreviation (input) opDisconnect :: int32 where "opDisconnect \<equiv> 6"
abbreviation (input) opAcceptData :: int32 where "opAcceptData \<equiv> 94"
abbreviation (input) opCondAccept :: int32 where "opCondAccept \<equiv> 98"
abbreviation (input) opContAuth :: int32 where "opContAuth \<equiv> 92"
abbreviation (input) opCrypt :: int32 where "opCrypt \<equiv> 96"
abbreviation (input) opAttach :: int32 where "opAttach \<equiv> 19"
abbreviation (input) opDetach :: int32 where "opDetach \<equiv> 21"
abbreviation (input) opInfoDatabase :: int32 where "opInfoDatabase \<equiv> 40"
abbreviation (input) opCancel :: int32 where "opCancel \<equiv> 91"
abbreviation (input) opTransaction :: int32 where "opTransaction \<equiv> 29"
abbreviation (input) opCommit :: int32 where "opCommit \<equiv> 30"
abbreviation (input) opRollback :: int32 where "opRollback \<equiv> 31"
abbreviation (input) opCommitRetaining :: int32 where "opCommitRetaining \<equiv> 50"
abbreviation (input) opInfoTransaction :: int32 where "opInfoTransaction \<equiv> 42"
abbreviation (input) opAllocateStatement :: int32 where "opAllocateStatement \<equiv> 62"
abbreviation (input) opPrepareStatement :: int32 where "opPrepareStatement \<equiv> 68"
abbreviation (input) opExecute :: int32 where "opExecute \<equiv> 63"
abbreviation (input) opExecute2 :: int32 where "opExecute2 \<equiv> 76"
abbreviation (input) opFetch :: int32 where "opFetch \<equiv> 65"
abbreviation (input) opFetchResponse :: int32 where "opFetchResponse \<equiv> 66"
abbreviation (input) opFreeStatement :: int32 where "opFreeStatement \<equiv> 67"
abbreviation (input) opInfoSQL :: int32 where "opInfoSQL \<equiv> 70"
abbreviation (input) opSQLResponse :: int32 where "opSQLResponse \<equiv> 78"
abbreviation (input) opCreateBlob2 :: int32 where "opCreateBlob2 \<equiv> 57"
abbreviation (input) opOpenBlob2 :: int32 where "opOpenBlob2 \<equiv> 56"
abbreviation (input) opGetSegment :: int32 where "opGetSegment \<equiv> 36"
abbreviation (input) opPutSegment :: int32 where "opPutSegment \<equiv> 37"
abbreviation (input) opCancelBlob :: int32 where "opCancelBlob \<equiv> 38"
abbreviation (input) opCloseBlob :: int32 where "opCloseBlob \<equiv> 39"
abbreviation (input) opInfoBlob :: int32 where "opInfoBlob \<equiv> 43"
abbreviation (input) opResponse :: int32 where "opResponse \<equiv> 9"
abbreviation (input) opDummy :: int32 where "opDummy \<equiv> 71"

subsection \<open>Protocol versions\<close>

abbreviation (input) ProtocolVersion13 :: uint32 where "ProtocolVersion13 \<equiv> 0x800D"
abbreviation (input) ProtocolVersion15 :: uint32 where "ProtocolVersion15 \<equiv> 0x800F"
abbreviation (input) ProtocolVersion16 :: uint32 where "ProtocolVersion16 \<equiv> 0x8010"
abbreviation (input) ProtocolVersion18 :: uint32 where "ProtocolVersion18 \<equiv> 0x8012"
abbreviation (input) FBProtocolMask :: uint32 where "FBProtocolMask \<equiv> 0x7FFF"

subsection \<open>Connection constants\<close>

abbreviation (input) ConnectVersion3 :: uint32 where "ConnectVersion3 \<equiv> 3"
abbreviation (input) ArchGeneric :: uint32 where "ArchGeneric \<equiv> 1"
abbreviation (input) InvalidObject :: uint32 where "InvalidObject \<equiv> 0xFFFF"

subsection \<open>Protocol types and flags\<close>

abbreviation (input) PtypeBatchSend :: uint32 where "PtypeBatchSend \<equiv> 3"
abbreviation (input) PtypeLazySend :: uint32 where "PtypeLazySend \<equiv> 5"
abbreviation (input) PtypeMask :: uint32 where "PtypeMask \<equiv> 0xFF"

subsection \<open>CNCT parameters\<close>

abbreviation (input) CnctUser :: byte where "CnctUser \<equiv> 1"
abbreviation (input) CnctHost :: byte where "CnctHost \<equiv> 4"
abbreviation (input) CnctUserVerification :: byte where "CnctUserVerification \<equiv> 6"
abbreviation (input) CnctSpecificData :: byte where "CnctSpecificData \<equiv> 7"
abbreviation (input) CnctPluginName :: byte where "CnctPluginName \<equiv> 8"
abbreviation (input) CnctLogin :: byte where "CnctLogin \<equiv> 9"
abbreviation (input) CnctPluginList :: byte where "CnctPluginList \<equiv> 10"
abbreviation (input) CnctClientCrypt :: byte where "CnctClientCrypt \<equiv> 11"

subsection \<open>Wire crypt preferences\<close>

abbreviation (input) WireCryptDisabled :: uint32 where "WireCryptDisabled \<equiv> 0"
abbreviation (input) WireCryptEnabled :: uint32 where "WireCryptEnabled \<equiv> 1"
abbreviation (input) WireCryptRequired :: uint32 where "WireCryptRequired \<equiv> 2"

subsection \<open>DSQL options\<close>

abbreviation (input) DSQLClose :: uint32 where "DSQLClose \<equiv> 1"
abbreviation (input) DSQLDrop :: uint32 where "DSQLDrop \<equiv> 2"

subsection \<open>Statement types\<close>

abbreviation (input) StmtSelect :: int32 where "StmtSelect \<equiv> 1"
abbreviation (input) StmtInsert :: int32 where "StmtInsert \<equiv> 2"
abbreviation (input) StmtUpdate :: int32 where "StmtUpdate \<equiv> 3"
abbreviation (input) StmtDelete :: int32 where "StmtDelete \<equiv> 4"
abbreviation (input) StmtExecProcedure :: int32 where "StmtExecProcedure \<equiv> 8"
abbreviation (input) StmtSelectForUpd :: int32 where "StmtSelectForUpd \<equiv> 12"

subsection \<open>SQL dialect\<close>

abbreviation (input) SQLDialectCurrent :: uint32 where "SQLDialectCurrent \<equiv> 3"

subsection \<open>Cancellation kinds\<close>

abbreviation (input) CancelRaise :: uint32 where "CancelRaise \<equiv> 3"
abbreviation (input) CancelAbort :: uint32 where "CancelAbort \<equiv> 4"

subsection \<open>Status vector tags\<close>

abbreviation (input) IscArgEnd :: int32 where "IscArgEnd \<equiv> 0"
abbreviation (input) IscArgGds :: int32 where "IscArgGds \<equiv> 1"
abbreviation (input) IscArgString :: int32 where "IscArgString \<equiv> 2"
abbreviation (input) IscArgCstring :: int32 where "IscArgCstring \<equiv> 3"
abbreviation (input) IscArgNumber :: int32 where "IscArgNumber \<equiv> 4"
abbreviation (input) IscArgInterpreted :: int32 where "IscArgInterpreted \<equiv> 5"
abbreviation (input) IscArgWarning :: int32 where "IscArgWarning \<equiv> 18"
abbreviation (input) IscArgSQLState :: int32 where "IscArgSQLState \<equiv> 19"

subsection \<open>Info structural items\<close>

abbreviation (input) IscInfoEnd :: byte where "IscInfoEnd \<equiv> 1"
abbreviation (input) IscInfoTruncated :: byte where "IscInfoTruncated \<equiv> 2"
abbreviation (input) IscInfoError :: byte where "IscInfoError \<equiv> 3"
abbreviation (input) IscInfoDataNotReady :: byte where "IscInfoDataNotReady \<equiv> 4"

subsection \<open>DPB/TPB/SPB version tags\<close>

abbreviation (input) IscDpbVersion2 :: byte where "IscDpbVersion2 \<equiv> 2"
abbreviation (input) IscTpbVersion3 :: byte where "IscTpbVersion3 \<equiv> 3"

subsection \<open>SQL type codes\<close>

abbreviation (input) SQLText :: int32 where "SQLText \<equiv> 452"
abbreviation (input) SQLVarying :: int32 where "SQLVarying \<equiv> 448"
abbreviation (input) SQLShort :: int32 where "SQLShort \<equiv> 500"
abbreviation (input) SQLLong :: int32 where "SQLLong \<equiv> 496"
abbreviation (input) SQLFloat :: int32 where "SQLFloat \<equiv> 482"
abbreviation (input) SQLDouble :: int32 where "SQLDouble \<equiv> 480"
abbreviation (input) SQLTimestamp :: int32 where "SQLTimestamp \<equiv> 510"
abbreviation (input) SQLBlob :: int32 where "SQLBlob \<equiv> 520"
abbreviation (input) SQLArray :: int32 where "SQLArray \<equiv> 540"
abbreviation (input) SQLTypeDate :: int32 where "SQLTypeDate \<equiv> 570"
abbreviation (input) SQLTypeTime :: int32 where "SQLTypeTime \<equiv> 560"
abbreviation (input) SQLInt64 :: int32 where "SQLInt64 \<equiv> 580"
abbreviation (input) SQLInt128 :: int32 where "SQLInt128 \<equiv> 32752"
abbreviation (input) SQLTimestampTZ :: int32 where "SQLTimestampTZ \<equiv> 32754"
abbreviation (input) SQLTimeTZ :: int32 where "SQLTimeTZ \<equiv> 32756"
abbreviation (input) SQLTimeTZEx :: int32 where "SQLTimeTZEx \<equiv> 32750"
abbreviation (input) SQLTimestampTZEx :: int32 where "SQLTimestampTZEx \<equiv> 32748"
abbreviation (input) SQLDec16 :: int32 where "SQLDec16 \<equiv> 32760"
abbreviation (input) SQLDec34 :: int32 where "SQLDec34 \<equiv> 32762"
abbreviation (input) SQLBoolean :: int32 where "SQLBoolean \<equiv> 32764"
abbreviation (input) SQLNull :: int32 where "SQLNull \<equiv> 32766"

subsection \<open>BLR type codes\<close>

abbreviation (input) BlrShort :: byte where "BlrShort \<equiv> 7"
abbreviation (input) BlrLong :: byte where "BlrLong \<equiv> 8"
abbreviation (input) BlrFloat :: byte where "BlrFloat \<equiv> 10"
abbreviation (input) BlrSQLDate :: byte where "BlrSQLDate \<equiv> 12"
abbreviation (input) BlrSQLTime :: byte where "BlrSQLTime \<equiv> 13"
abbreviation (input) BlrText :: byte where "BlrText \<equiv> 14"
abbreviation (input) BlrText2 :: byte where "BlrText2 \<equiv> 15"
abbreviation (input) BlrInt64 :: byte where "BlrInt64 \<equiv> 16"
abbreviation (input) BlrBlob2 :: byte where "BlrBlob2 \<equiv> 17"
abbreviation (input) BlrBool :: byte where "BlrBool \<equiv> 23"
abbreviation (input) BlrDec64 :: byte where "BlrDec64 \<equiv> 24"
abbreviation (input) BlrDec128 :: byte where "BlrDec128 \<equiv> 25"
abbreviation (input) BlrInt128 :: byte where "BlrInt128 \<equiv> 26"
abbreviation (input) BlrDouble :: byte where "BlrDouble \<equiv> 27"
abbreviation (input) BlrExTimeTZ :: byte where "BlrExTimeTZ \<equiv> 30"
abbreviation (input) BlrExTimestampTZ :: byte where "BlrExTimestampTZ \<equiv> 31"
abbreviation (input) BlrTimestamp :: byte where "BlrTimestamp \<equiv> 35"
abbreviation (input) BlrVarying2 :: byte where "BlrVarying2 \<equiv> 38"

subsection \<open>BLR structural tokens\<close>

abbreviation (input) BlrVersion5 :: byte where "BlrVersion5 \<equiv> 5"
abbreviation (input) BlrBegin :: byte where "BlrBegin \<equiv> 2"
abbreviation (input) BlrMessage :: byte where "BlrMessage \<equiv> 4"
abbreviation (input) BlrEnd :: byte where "BlrEnd \<equiv> 255"
abbreviation (input) BlrEOC :: byte where "BlrEOC \<equiv> 76"

end
