(* ===== verification/Reader.thy ===== *)
theory Reader
  imports Net Protocol
begin

text \<open>
  The XDR reader of \<^verbatim>\<open>internal/wire/reader.go\<close>: a sliding window \<^verbatim>\<open>buf[start:end]\<close> over a
  growable buffer, refilled from the connection, with a sticky error.  The \<^verbatim>\<open>io.Reader\<close> it holds is
  always the driver's \<^verbatim>\<open>Conn\<close>, which is therefore a field of the record.

  The operations are the source's, field for field; \<open>stream\<close> abstracts them to the bytes still to be
  read.  Every read refines \<open>take\<close>/\<open>drop\<close> on that stream, independently of how the network cut it
  into chunks, of buffer growth and of the cipher layer.
\<close>

section \<open>State\<close>

record Reader =
  rd :: Conn
  rerr :: "gerr option"
  rbuf :: "byte list"
  rstart :: nat
  rend :: nat
  auxBuf :: "byte list"

definition defaultReadBufSize :: nat where "defaultReadBufSize = 16 * 1024"
definition maxWireBufferLen :: nat where "maxWireBufferLen = 64 * 1024 * 1024"

definition NewReader :: "Conn \<Rightarrow> Reader" where
  "NewReader c = \<lparr>rd = c, rerr = None, rbuf = replicate defaultReadBufSize 0, rstart = 0, rend = 0,
     auxBuf = []\<rparr>"

definition ResetErr :: "Reader \<Rightarrow> Reader" where
  "ResetErr r = r\<lparr>rerr := None\<rparr>"

definition Reader_Reset :: "Conn \<Rightarrow> Reader \<Rightarrow> Reader" where
  "Reader_Reset c r = r\<lparr>rd := c, rerr := None, rstart := 0, rend := 0\<rparr>"

section \<open>Refilling the window: ensure\<close>

text \<open>\<open>overwrite at new buf\<close> is Go's \<^verbatim>\<open>copy(buf[at:], new)\<close>.\<close>

definition overwrite :: "nat \<Rightarrow> byte list \<Rightarrow> byte list \<Rightarrow> byte list" where
  "overwrite at new b = take at b @ take (length b - at) new @ drop (at + length new) b"

function double_until :: "nat \<Rightarrow> nat \<Rightarrow> nat" where
  "double_until sz n = (if 0 < sz \<and> sz < n then double_until (sz * 2) n else sz)"
  by pat_completeness auto
termination by (relation "measure (\<lambda>(sz, n). n - sz)") auto

declare double_until.simps [simp del]

definition make_room :: "nat \<Rightarrow> Reader \<Rightarrow> Reader" where
  "make_room n r =
     (let unread = rend r - rstart r; win = take unread (drop (rstart r) (rbuf r)) in
      if length (rbuf r) < n then
        let newSize = double_until (if length (rbuf r) = 0 then defaultReadBufSize else length (rbuf r)) n
        in r\<lparr>rbuf := overwrite 0 win (replicate newSize 0), rstart := 0, rend := unread\<rparr>
      else if 0 < unread \<and> 0 < rstart r then
        r\<lparr>rbuf := overwrite 0 win (rbuf r), rstart := 0, rend := unread\<rparr>
      else if unread = 0 then r\<lparr>rstart := 0, rend := 0\<rparr>
      else r)"

function fill_loop :: "nat \<Rightarrow> Reader \<Rightarrow> bool \<times> Reader" where
  "fill_loop n r =
     (if rend r - rstart r < n then
        (case Conn_Read (length (rbuf r) - rend r) (rd r) of
           ((bs, err), c') \<Rightarrow>
             let r' = (if bs \<noteq> [] then r\<lparr>rd := c', rbuf := overwrite (rend r) bs (rbuf r),
                                         rend := rend r + length bs\<rparr>
                       else r\<lparr>rd := c'\<rparr>)
             in (case err of
                   Some e \<Rightarrow> (False, r'\<lparr>rerr := Some (if e = ErrEOF then ErrUnexpectedEOF else e)\<rparr>)
                 | None \<Rightarrow> if bs = [] then (False, r'\<lparr>rerr := Some ErrNoProgress\<rparr>)
                           else fill_loop n r'))
      else (True, r))"
  by pat_completeness auto

lemma Conn_Read_length: "Conn_Read n c = ((bs, err), c') \<Longrightarrow> length bs \<le> n"
  by (auto simp: Conn_Read_def sock_read_def XORKeyStream_def Let_def
      split: option.splits if_splits list.splits rd_event.splits prod.splits)

lemma length_overwrite [simp]: "at + length new \<le> length b \<Longrightarrow> length (overwrite at new b) = length b"
  by (simp add: overwrite_def)

lemma fill_measure:
  assumes "((bs, err), c') = Conn_Read (length b - e) c" and "bs \<noteq> []"
  shows "length (overwrite e bs b) - (e + length bs) < length b - e"
proof -
  have "length bs \<le> length b - e" using Conn_Read_length assms(1) by metis
  moreover have "0 < length bs" using assms(2) by simp
  ultimately have "e + length bs \<le> length b" and "0 < length bs" by linarith+
  then show ?thesis by (simp del: length_greater_0_conv)
qed

termination fill_loop
  by (relation "measure (\<lambda>(n, r). length (rbuf r) - rend r)")
    (auto split: if_splits intro: fill_measure)

declare fill_loop.simps [simp del]

definition ensure :: "nat \<Rightarrow> Reader \<Rightarrow> bool \<times> Reader" where
  "ensure n r =
     (if rerr r \<noteq> None then (False, r)
      else if n \<le> rend r - rstart r then (True, r)
      else fill_loop n (make_room n r))"

section \<open>Views of the window\<close>

definition readView :: "nat \<Rightarrow> Reader \<Rightarrow> byte list \<times> Reader" where
  "readView n r =
     (if n = 0 then ([], r)
      else case ensure n r of
        (False, r') \<Rightarrow> ([], r')
      | (True, r') \<Rightarrow> (take n (drop (rstart r') (rbuf r')), r'\<lparr>rstart := rstart r' + n\<rparr>))"

definition readFull :: "byte list \<Rightarrow> Reader \<Rightarrow> byte list \<times> Reader" where
  "readFull buf r = (if length buf = 0 \<or> rerr r \<noteq> None then (buf, r)
     else let (view, r') = readView (length buf) r in if rerr r' \<noteq> None then (buf, r') else (view, r'))"

definition peekBytes :: "nat \<Rightarrow> Reader \<Rightarrow> byte list \<times> Reader" where
  "peekBytes n r = (case ensure n r of
      (False, r') \<Rightarrow> ([], r')
    | (True, r') \<Rightarrow> (take n (drop (rstart r') (rbuf r')), r'))"

definition advance :: "nat \<Rightarrow> Reader \<Rightarrow> Reader" where
  "advance n r = r\<lparr>rstart := rstart r + n\<rparr>"

section \<open>XDR primitives\<close>

definition ReadInt32 :: "Reader \<Rightarrow> int32 \<times> Reader" where
  "ReadInt32 r = (let (b, r') = readView 4 r in if rerr r' \<noteq> None then (0, r') else (be32 b, r'))"

definition ReadUInt32 :: "Reader \<Rightarrow> uint32 \<times> Reader" where
  "ReadUInt32 r = (let (b, r') = readView 4 r in if rerr r' \<noteq> None then (0, r') else (be32 b, r'))"

definition ReadInt64 :: "Reader \<Rightarrow> int64 \<times> Reader" where
  "ReadInt64 r = (let (b, r') = readView 8 r in if rerr r' \<noteq> None then (0, r') else (be64 b, r'))"

definition buffer_len_fixup :: "int32 \<Rightarrow> nat" where
  "buffer_len_fixup raw = unat (if drop_bit 16 raw = 0xFFFF then raw AND 0xFFFF else raw)"

definition buffer_too_long :: "nat \<Rightarrow> gerr" where
  "buffer_too_long len = Msg (''wire: buffer length '' @ formatNat len @ '' exceeds maximum ''
     @ formatNat maxWireBufferLen)"

definition ReadBuffer :: "Reader \<Rightarrow> byte list \<times> Reader" where
  "ReadBuffer r =
     (let (raw, r1) = ReadInt32 r in
      if rerr r1 \<noteq> None then ([], r1)
      else let len = buffer_len_fixup raw in
        if maxWireBufferLen < len then ([], r1\<lparr>rerr := Some (buffer_too_long len)\<rparr>)
        else let (data, r2) = readView (len + xdr_pad len) r1 in
          if rerr r2 \<noteq> None then ([], r2) else (take len data, r2))"

definition ReadString :: "Reader \<Rightarrow> string \<times> Reader" where
  "ReadString r = (let (b, r') = ReadBuffer r in
     if rerr r' \<noteq> None then ([], r') else (string_of_bytes b, r'))"

definition ReadOpaque :: "nat \<Rightarrow> Reader \<Rightarrow> byte list option \<times> Reader" where
  "ReadOpaque n r = (let (view, r') = readView (n + xdr_pad n) r in
     if rerr r' \<noteq> None then (None, r') else (Some (take n view), r'))"

definition skipPadding :: "nat \<Rightarrow> Reader \<Rightarrow> Reader" where
  "skipPadding n r = (if 0 < xdr_pad n then snd (readView (xdr_pad n) r) else r)"

section \<open>Well-formedness and the abstract stream\<close>

text \<open>The window lies inside the buffer: the slice expressions of the source never panic.\<close>

definition wf_reader :: "Reader \<Rightarrow> bool" where
  "wf_reader r \<longleftrightarrow> rstart r \<le> rend r \<and> rend r \<le> length (rbuf r)"

definition window :: "Reader \<Rightarrow> byte list" where
  "window r = take (rend r - rstart r) (drop (rstart r) (rbuf r))"

definition stream :: "Reader \<Rightarrow> byte list" where
  "stream r = window r @ net_stream (rd r)"

text \<open>What a read never touches: the outgoing side of the connection.\<close>

definition same_out :: "Reader \<Rightarrow> Reader \<Rightarrow> bool" where
  "same_out r r' \<longleftrightarrow> conn_out (rd r') = conn_out (rd r) \<and> conn_closed (rd r') = conn_closed (rd r)
     \<and> conn_wfail (rd r') = conn_wfail (rd r) \<and> cryptW (rd r') = cryptW (rd r)"

lemma same_out_refl [simp]: "same_out r r"
  by (simp add: same_out_def)

lemma same_out_trans [trans]: "same_out r s \<Longrightarrow> same_out s t \<Longrightarrow> same_out r t"
  by (simp add: same_out_def)

lemma wf_NewReader [simp]: "wf_reader (NewReader c)"
  by (simp add: wf_reader_def NewReader_def)

lemma stream_NewReader [simp]: "stream (NewReader c) = net_stream c"
  by (simp add: stream_def window_def NewReader_def)

lemma length_window: "wf_reader r \<Longrightarrow> length (window r) = rend r - rstart r"
  by (auto simp: wf_reader_def window_def)

lemma double_until_ge: "0 < sz \<Longrightarrow> sz \<le> double_until sz n \<and> n \<le> double_until sz n"
  by (induction sz n rule: double_until.induct) (subst (1 2) double_until.simps, auto)

lemma overwrite_0: "length new \<le> length b \<Longrightarrow> overwrite 0 new b = new @ drop (length new) b"
  by (simp add: overwrite_def)

lemma make_room_props:
  assumes "wf_reader r" and "rend r - rstart r < n"
  shows "wf_reader (make_room n r)" and "window (make_room n r) = window r"
    and "rd (make_room n r) = rd r" and "rerr (make_room n r) = rerr r"
    and "auxBuf (make_room n r) = auxBuf r" and "rstart (make_room n r) = 0"
    and "n \<le> length (rbuf (make_room n r))"
proof -
  let ?u = "rend r - rstart r" and ?win = "take (rend r - rstart r) (drop (rstart r) (rbuf r))"
  let ?sz = "double_until (if length (rbuf r) = 0 then defaultReadBufSize else length (rbuf r)) n"
  have big: "length (rbuf r) \<le> ?sz \<and> n \<le> ?sz"
    using double_until_ge [of "if length (rbuf r) = 0 then defaultReadBufSize else length (rbuf r)" n]
    by (auto simp: defaultReadBufSize_def)
  have win: "length ?win = ?u" using assms(1) by (auto simp: wf_reader_def)
  note defs = make_room_def wf_reader_def window_def overwrite_0
  show "wf_reader (make_room n r)" "window (make_room n r) = window r"
    "rd (make_room n r) = rd r" "rerr (make_room n r) = rerr r"
    "auxBuf (make_room n r) = auxBuf r" "rstart (make_room n r) = 0"
    "n \<le> length (rbuf (make_room n r))"
    using assms big win by (auto simp: defs Let_def)
qed

section \<open>Refinement: reading is take and drop on the stream\<close>

lemma window_overwrite:
  assumes "wf_reader r" and "length bs \<le> length (rbuf r) - rend r"
  shows "window (r\<lparr>rd := c, rbuf := overwrite (rend r) bs (rbuf r), rend := rend r + length bs\<rparr>)
      = window r @ bs"
proof -
  have "min (length (rbuf r) - rstart r) (rend r - rstart r) = rend r - rstart r"
    using assms by (auto simp: wf_reader_def)
  then show ?thesis using assms by (auto simp: window_def wf_reader_def overwrite_def drop_take)
qed

text \<open>The refill loop obtains \<open>n\<close> bytes exactly when the stream has them, keeps the stream, and
  otherwise records why it stopped.\<close>

lemma fill_loop_ok:
  assumes "wf_reader r" and "rerr r = None" and "rstart r + n \<le> length (rbuf r)"
    and "n \<le> length (stream r)"
  shows "\<exists>r'. fill_loop n r = (True, r') \<and> wf_reader r' \<and> rerr r' = None \<and> stream r' = stream r
    \<and> n \<le> length (window r') \<and> same_out r r' \<and> net_failure (rd r') = net_failure (rd r)"
  using assms
proof (induction n r rule: fill_loop.induct)
  case (1 n r)
  show ?case
  proof (cases "rend r - rstart r < n")
    case False
    with "1.prems" show ?thesis
      by (subst fill_loop.simps) (simp add: length_window)
  next
    case True
    then have room: "0 < length (rbuf r) - rend r" using "1.prems" by (auto simp: wf_reader_def)
    have "net_stream (rd r) \<noteq> []"
      using True "1.prems" by (auto simp: stream_def length_window)
    with room obtain bs c' where rdc: "Conn_Read (length (rbuf r) - rend r) (rd r) = ((bs, None), c')"
      and bs: "bs \<noteq> []" "length bs \<le> length (rbuf r) - rend r"
      and ns: "net_stream (rd r) = bs @ net_stream c'"
      and same: "net_failure c' = net_failure (rd r)" "conn_out c' = conn_out (rd r)"
        "conn_closed c' = conn_closed (rd r)" "conn_wfail c' = conn_wfail (rd r)" "cryptW c' = cryptW (rd r)"
      by (rule Conn_Read_progress)
    let ?r = "r\<lparr>rd := c', rbuf := overwrite (rend r) bs (rbuf r), rend := rend r + length bs\<rparr>"
    have wf: "wf_reader ?r" and len: "length (rbuf ?r) = length (rbuf r)"
      using "1.prems"(1) bs by (auto simp: wf_reader_def)
    have st: "stream ?r = stream r"
      using window_overwrite [OF "1.prems"(1) bs(2), of c'] by (simp add: stream_def ns)
    have "\<exists>r'. fill_loop n ?r = (True, r') \<and> wf_reader r' \<and> rerr r' = None \<and> stream r' = stream ?r
      \<and> n \<le> length (window r') \<and> same_out ?r r' \<and> net_failure (rd r') = net_failure (rd ?r)"
      by (rule "1.IH" [OF True]) (use rdc bs wf len st "1.prems" in auto)
    moreover have "fill_loop n r = fill_loop n ?r"
      using True rdc bs by (subst fill_loop.simps) simp
    moreover have "same_out r ?r" using same by (simp add: same_out_def)
    ultimately show ?thesis using st same by (auto intro: same_out_trans)
  qed
qed

lemma fill_loop_fail:
  assumes "wf_reader r" and "rerr r = None" and "rstart r + n \<le> length (rbuf r)"
    and "length (stream r) < n"
  shows "\<exists>r'. fill_loop n r = (False, r') \<and> wf_reader r' \<and> rerr r' = Some (net_failure (rd r)) \<and> same_out r r'"
  using assms
proof (induction n r rule: fill_loop.induct)
  case (1 n r)
  have True: "rend r - rstart r < n"
    using "1.prems" by (auto simp: stream_def length_window)
  then have room: "0 < length (rbuf r) - rend r" using "1.prems" by (auto simp: wf_reader_def)
  show ?case
  proof (cases "net_stream (rd r) = []")
    case empty: True
    obtain err c' where rdc: "Conn_Read (length (rbuf r) - rend r) (rd r) = (([], err), c')"
      and fl: "(case err of None \<Rightarrow> ErrNoProgress
          | Some e \<Rightarrow> if e = ErrEOF then ErrUnexpectedEOF else e) = net_failure (rd r)"
      and same: "conn_out c' = conn_out (rd r)" "conn_closed c' = conn_closed (rd r)"
        "conn_wfail c' = conn_wfail (rd r)" "cryptW c' = cryptW (rd r)"
      by (rule Conn_Read_exhausted [OF empty])
    show ?thesis using True rdc fl same "1.prems"(1)
      by (subst fill_loop.simps) (cases err; auto simp: wf_reader_def same_out_def)
  next
    case False
    with room obtain bs c' where rdc: "Conn_Read (length (rbuf r) - rend r) (rd r) = ((bs, None), c')"
      and bs: "bs \<noteq> []" "length bs \<le> length (rbuf r) - rend r"
      and ns: "net_stream (rd r) = bs @ net_stream c'"
      and same: "net_failure c' = net_failure (rd r)" "conn_out c' = conn_out (rd r)"
        "conn_closed c' = conn_closed (rd r)" "conn_wfail c' = conn_wfail (rd r)" "cryptW c' = cryptW (rd r)"
      by (rule Conn_Read_progress)
    let ?r = "r\<lparr>rd := c', rbuf := overwrite (rend r) bs (rbuf r), rend := rend r + length bs\<rparr>"
    have wf: "wf_reader ?r" and len: "length (rbuf ?r) = length (rbuf r)"
      using "1.prems"(1) bs by (auto simp: wf_reader_def)
    have st: "stream ?r = stream r"
      using window_overwrite [OF "1.prems"(1) bs(2), of c'] by (simp add: stream_def ns)
    have "\<exists>r'. fill_loop n ?r = (False, r') \<and> wf_reader r' \<and> rerr r' = Some (net_failure (rd ?r)) \<and> same_out ?r r'"
      by (rule "1.IH" [OF True]) (use rdc bs wf len st "1.prems" in auto)
    moreover have "fill_loop n r = fill_loop n ?r"
      using True rdc bs by (subst fill_loop.simps) simp
    moreover have "same_out r ?r" using same by (simp add: same_out_def)
    ultimately show ?thesis using same by (auto intro: same_out_trans)
  qed
qed

lemma ensure_ok:
  assumes "wf_reader r" and "rerr r = None" and "n \<le> length (stream r)"
  shows "\<exists>r'. ensure n r = (True, r') \<and> wf_reader r' \<and> rerr r' = None \<and> stream r' = stream r
    \<and> n \<le> length (window r') \<and> same_out r r' \<and> net_failure (rd r') = net_failure (rd r)"
proof (cases "n \<le> rend r - rstart r")
  case True
  with assms show ?thesis by (simp add: ensure_def length_window)
next
  case False
  then have lt: "rend r - rstart r < n" by simp
  note mr = make_room_props [OF assms(1) lt]
  have st: "stream (make_room n r) = stream r" using mr by (simp add: stream_def)
  have so: "same_out r (make_room n r)" using mr by (simp add: same_out_def)
  have "\<exists>r'. fill_loop n (make_room n r) = (True, r') \<and> wf_reader r' \<and> rerr r' = None
    \<and> stream r' = stream (make_room n r) \<and> n \<le> length (window r') \<and> same_out (make_room n r) r'
    \<and> net_failure (rd r') = net_failure (rd (make_room n r))"
    by (rule fill_loop_ok) (use mr assms st in auto)
  with st so mr assms False show ?thesis by (auto simp: ensure_def intro: same_out_trans)
qed

lemma ensure_fail:
  assumes "wf_reader r" and "rerr r = None" and "length (stream r) < n"
  shows "\<exists>r'. ensure n r = (False, r') \<and> wf_reader r' \<and> rerr r' = Some (net_failure (rd r)) \<and> same_out r r'"
proof -
  have lt: "rend r - rstart r < n"
    using assms by (auto simp: stream_def length_window)
  note mr = make_room_props [OF assms(1) lt]
  have st: "stream (make_room n r) = stream r" using mr by (simp add: stream_def)
  have so: "same_out r (make_room n r)" using mr by (simp add: same_out_def)
  have "\<exists>r'. fill_loop n (make_room n r) = (False, r') \<and> wf_reader r'
    \<and> rerr r' = Some (net_failure (rd (make_room n r))) \<and> same_out (make_room n r) r'"
    by (rule fill_loop_fail) (use mr assms st in auto)
  with so mr assms lt show ?thesis by (auto simp: ensure_def intro: same_out_trans)
qed

lemma ensure_sticky [simp]: "rerr r \<noteq> None \<Longrightarrow> ensure n r = (False, r)"
  by (simp add: ensure_def)

lemma window_prefix: "n \<le> length (window r) \<Longrightarrow> take n (drop (rstart r) (rbuf r)) = take n (stream r)"
  by (simp add: stream_def window_def min_def split: if_splits)

lemma stream_advance:
  assumes "wf_reader r" and "n \<le> length (window r)"
  shows "stream (r\<lparr>rstart := rstart r + n\<rparr>) = drop n (stream r)" and "wf_reader (r\<lparr>rstart := rstart r + n\<rparr>)"
  using assms by (auto simp: stream_def window_def wf_reader_def drop_take add.commute)

text \<open>The contract of the window: \<open>readView n\<close> is \<open>take n\<close> of the stream, leaves \<open>drop n\<close>.\<close>

lemma readView_ok:
  assumes "wf_reader r" and "rerr r = None" and "n \<le> length (stream r)"
  obtains r' where "readView n r = (take n (stream r), r')" and "wf_reader r'" and "rerr r' = None"
    and "stream r' = drop n (stream r)" and "same_out r r'" and "net_failure (rd r') = net_failure (rd r)"
proof (cases "n = 0")
  case True
  with assms show ?thesis by (intro that [of r]) (simp_all add: readView_def)
next
  case False
  obtain r1 where r1: "ensure n r = (True, r1)" "wf_reader r1" "rerr r1 = None" "stream r1 = stream r"
    "n \<le> length (window r1)" "same_out r r1" "net_failure (rd r1) = net_failure (rd r)"
    using ensure_ok [OF assms] by blast
  show ?thesis
    by (rule that [of "r1\<lparr>rstart := rstart r1 + n\<rparr>"])
      (use False r1 stream_advance [OF r1(2,5)] window_prefix [OF r1(5)] in
        \<open>auto simp: readView_def same_out_def\<close>)
qed

lemma readView_fail:
  assumes "wf_reader r" and "rerr r = None" and "length (stream r) < n"
  obtains r' where "readView n r = ([], r')" and "wf_reader r'" and "rerr r' = Some (net_failure (rd r))"
    and "same_out r r'"
  using ensure_fail [OF assms] assms(3) that by (auto simp: readView_def)

lemma readView_sticky: "rerr r \<noteq> None \<Longrightarrow> readView n r = ([], r)"
  by (simp add: readView_def)

section \<open>Byte sources\<close>

text \<open>
  What the message parsers need from the reader: in a ready state with enough bytes left, \<open>view n\<close>
  returns the next \<open>n\<close> bytes and leaves the rest.  \<open>consumes m bs v\<close> says that operation \<open>m\<close>,
  started on a stream that begins with \<open>bs\<close>, eats exactly \<open>bs\<close> and returns \<open>v\<close>; it composes.
\<close>

locale byte_source =
  fixes view :: "nat \<Rightarrow> 's \<Rightarrow> byte list \<times> 's"
    and ready :: "'s \<Rightarrow> bool"
    and rest :: "'s \<Rightarrow> byte list"
  assumes view_ready: "ready s \<Longrightarrow> n \<le> length (rest s) \<Longrightarrow>
      \<exists>s'. view n s = (take n (rest s), s') \<and> ready s' \<and> rest s' = drop n (rest s)"
begin

definition consumes :: "('s \<Rightarrow> 'a \<times> 's) \<Rightarrow> byte list \<Rightarrow> 'a \<Rightarrow> bool" where
  "consumes m bs v \<longleftrightarrow>
     (\<forall>s zs. ready s \<longrightarrow> rest s = bs @ zs \<longrightarrow> (\<exists>s'. m s = (v, s') \<and> ready s' \<and> rest s' = zs))"

lemma consumesD:
  "consumes m bs v \<Longrightarrow> ready s \<Longrightarrow> rest s = bs @ zs \<Longrightarrow> \<exists>s'. m s = (v, s') \<and> ready s' \<and> rest s' = zs"
  by (simp add: consumes_def)

lemma consumes_view: "length bs = n \<Longrightarrow> consumes (view n) bs bs"
  unfolding consumes_def
proof (intro allI impI)
  fix s zs assume "length bs = n" "ready s" "rest s = bs @ zs"
  then show "\<exists>s'. view n s = (bs, s') \<and> ready s' \<and> rest s' = zs"
    using view_ready [of s n] by auto
qed

lemma consumes_pure: "consumes (Pair v) [] v"
  by (simp add: consumes_def)

lemma consumes_bind:
  assumes "consumes m bs v" and "consumes (k v) cs w"
  shows "consumes (\<lambda>s. case m s of (x, s') \<Rightarrow> k x s') (bs @ cs) w"
  unfolding consumes_def
proof (intro allI impI)
  fix s zs assume "ready s" "rest s = (bs @ cs) @ zs"
  then obtain s' where "m s = (v, s')" "ready s'" "rest s' = cs @ zs"
    using consumesD [OF assms(1), of s "cs @ zs"] by auto
  with consumesD [OF assms(2), of s' zs]
  show "\<exists>s'. (case m s of (x, s') \<Rightarrow> k x s') = (w, s') \<and> ready s' \<and> rest s' = zs" by auto
qed

lemma consumes_cong:
  "consumes m bs v \<Longrightarrow> (\<And>s. ready s \<Longrightarrow> m' s = m s) \<Longrightarrow> consumes m' bs v"
  by (simp add: consumes_def)

end

text \<open>The part of the connection that reading leaves alone.\<close>

definition outside :: "Reader \<Rightarrow> byte list \<times> bool \<times> (nat \<times> gerr) option list \<times> streamCipher option \<times> gerr" where
  "outside r = (conn_out (rd r), conn_closed (rd r), conn_wfail (rd r), cryptW (rd r), net_failure (rd r))"

definition ready_at ::
  "byte list \<times> bool \<times> (nat \<times> gerr) option list \<times> streamCipher option \<times> gerr \<Rightarrow> Reader \<Rightarrow> bool" where
  "ready_at out r \<longleftrightarrow> wf_reader r \<and> rerr r = None \<and> outside r = out"

interpretation src: byte_source readView "ready_at out" stream for out
proof unfold_locales
  fix s :: Reader and n
  assume "ready_at out s" and n: "n \<le> length (stream s)"
  then have "wf_reader s" "rerr s = None" "outside s = out" by (simp_all add: ready_at_def)
  from this(1,2) n obtain r' where "readView n s = (take n (stream s), r')" "wf_reader r'" "rerr r' = None"
    "stream r' = drop n (stream s)" "same_out s r'" "net_failure (rd r') = net_failure (rd s)"
    by (rule readView_ok)
  with \<open>outside s = out\<close> show "\<exists>s'. readView n s = (take n (stream s), s') \<and> ready_at out s'
      \<and> stream s' = drop n (stream s)"
    by (auto simp: ready_at_def outside_def same_out_def)
qed

text \<open>\<open>reads m bs v\<close>: whatever the outside of the connection, \<open>m\<close> consumes \<open>bs\<close> and yields \<open>v\<close>.\<close>

definition reads :: "(Reader \<Rightarrow> 'a \<times> Reader) \<Rightarrow> byte list \<Rightarrow> 'a \<Rightarrow> bool" where
  "reads m bs v \<longleftrightarrow> (\<forall>r zs. wf_reader r \<longrightarrow> rerr r = None \<longrightarrow> stream r = bs @ zs \<longrightarrow>
     (\<exists>r'. m r = (v, r') \<and> wf_reader r' \<and> rerr r' = None \<and> stream r' = zs \<and> outside r' = outside r))"

lemma reads_iff: "reads m bs v \<longleftrightarrow> (\<forall>out. src.consumes out m bs v)"
  unfolding reads_def src.consumes_def ready_at_def by blast

lemma readsD:
  assumes "reads m bs v" and "wf_reader r" and "rerr r = None" and "stream r = bs @ zs"
  obtains r' where "m r = (v, r')" and "wf_reader r'" and "rerr r' = None" and "stream r' = zs"
    and "outside r' = outside r"
  using assms unfolding reads_def by blast

lemma reads_bind:
  "reads m bs v \<Longrightarrow> reads (k v) cs w \<Longrightarrow> reads (\<lambda>r. case m r of (x, r') \<Rightarrow> k x r') (bs @ cs) w"
  unfolding reads_iff by (blast intro: src.consumes_bind)

lemma reads_view: "length bs = n \<Longrightarrow> reads (readView n) bs bs"
  by (simp add: reads_iff src.consumes_view)

lemma reads_pure: "reads (Pair v) [] v"
  by (simp add: reads_iff src.consumes_pure)

lemma reads_cong: "reads m bs v \<Longrightarrow> (\<And>r. rerr r = None \<Longrightarrow> m' r = m r) \<Longrightarrow> reads m' bs v"
  unfolding reads_iff by (metis ready_at_def src.consumes_cong)

lemma reads_guarded:
  assumes "reads m bs v" and "reads (k v) cs w"
  shows "reads (\<lambda>r. let (x, r') = m r in if rerr r' \<noteq> None then f r' else k x r') (bs @ cs) w"
  unfolding reads_def
proof (intro allI impI)
  fix r zs assume r: "wf_reader r" "rerr r = None" "stream r = (bs @ cs) @ zs"
  then have "stream r = bs @ (cs @ zs)" by simp
  with assms(1) r(1,2) obtain r1 where r1: "m r = (v, r1)" "wf_reader r1" "rerr r1 = None"
    "stream r1 = cs @ zs" "outside r1 = outside r" by (rule readsD)
  obtain r2 where "k v r1 = (w, r2)" "wf_reader r2" "rerr r2 = None" "stream r2 = zs" "outside r2 = outside r1"
    using assms(2) r1(2,3,4) by (rule readsD)
  with r1 show "\<exists>r'. (let (x, r') = m r in if rerr r' \<noteq> None then f r' else k x r') = (w, r')
    \<and> wf_reader r' \<and> rerr r' = None \<and> stream r' = zs \<and> outside r' = outside r" by auto
qed

section \<open>The XDR primitives on a stream\<close>

lemma reads_ReadInt32: "reads ReadInt32 (putUint32 v) v"
  using reads_guarded [OF reads_view reads_pure, of "putUint32 v" 4 "\<lambda>r. (0, r)" be32]
  by (simp add: ReadInt32_def [abs_def] Let_def case_prod_beta')

lemma ReadUInt32_eq: "ReadUInt32 = ReadInt32"
  by (simp add: fun_eq_iff ReadUInt32_def ReadInt32_def)

lemma reads_ReadUInt32: "reads ReadUInt32 (putUint32 v) v"
  by (simp add: ReadUInt32_eq reads_ReadInt32)

lemma reads_ReadInt64: "reads ReadInt64 (putUint64 v) v"
  using reads_guarded [OF reads_view reads_pure, of "putUint64 v" 8 "\<lambda>r. (0, r)" be64]
  by (simp add: ReadInt64_def [abs_def] Let_def case_prod_beta')

text \<open>The XDR image of a buffer: length prefix, bytes, zero padding.\<close>

definition xdr_buffer :: "byte list \<Rightarrow> byte list" where
  "xdr_buffer b = putUint32 (of_nat (length b)) @ b @ replicate (xdr_pad (length b)) 0"

lemma maxWireBufferLen_bits: "maxWireBufferLen = 67108864"
  by (simp add: maxWireBufferLen_def)

lemma buffer_len_fixup_id:
  "n \<le> maxWireBufferLen \<Longrightarrow> buffer_len_fixup (of_nat n) = n"
proof -
  assume "n \<le> maxWireBufferLen"
  then have n: "n < 2 ^ 32" "n div 65536 < 65535" by (simp_all add: maxWireBufferLen_bits)
  then have u: "unat (of_nat n :: int32) = n" by (simp add: unat_of_nat)
  have "unat (drop_bit 16 (of_nat n :: int32)) = n div 65536"
    by (simp only: unat_drop_bit_eq u) (simp add: drop_bit_eq_div)
  then have "drop_bit 16 (of_nat n :: int32) \<noteq> 0xFFFF" using n by auto
  then show ?thesis by (simp add: buffer_len_fixup_def u)
qed

lemma reads_ReadBuffer:
  assumes "length b \<le> maxWireBufferLen" and "length pad = xdr_pad (length b)"
  shows "reads ReadBuffer (putUint32 (of_nat (length b)) @ b @ pad) b"
proof -
  let ?n = "length b"
  have "reads (readView (?n + xdr_pad ?n)) (b @ pad) (b @ pad)"
    by (rule reads_view) (simp add: assms)
  from reads_guarded [OF this reads_pure, of "\<lambda>r. ([], r)" "take ?n"]
  have "reads (\<lambda>r. let (data, r2) = readView (?n + xdr_pad ?n) r in
      if rerr r2 \<noteq> None then ([], r2) else (take ?n data, r2)) (b @ pad) b"
    by (simp add: case_prod_beta')
  then have k: "reads (\<lambda>r1. let len = buffer_len_fixup (of_nat ?n) in
      if maxWireBufferLen < len then ([], r1\<lparr>rerr := Some (buffer_too_long len)\<rparr>)
      else let (data, r2) = readView (len + xdr_pad len) r1 in
        if rerr r2 \<noteq> None then ([], r2) else (take len data, r2)) (b @ pad) b"
    using assms by (simp add: buffer_len_fixup_id Let_def)
  show ?thesis
    using reads_guarded [where k = "\<lambda>raw r1. let len = buffer_len_fixup raw in
        if maxWireBufferLen < len then ([], r1\<lparr>rerr := Some (buffer_too_long len)\<rparr>)
        else let (data, r2) = readView (len + xdr_pad len) r1 in
          if rerr r2 \<noteq> None then ([], r2) else (take len data, r2)",
        OF reads_ReadInt32 k, of "\<lambda>r1. ([], r1)"]
    by (simp add: ReadBuffer_def [abs_def] Let_def case_prod_beta')
qed

lemma reads_ReadBuffer_xdr: "length b \<le> maxWireBufferLen \<Longrightarrow> reads ReadBuffer (xdr_buffer b) b"
  by (simp add: xdr_buffer_def reads_ReadBuffer)

lemma reads_ReadString:
  assumes "length s \<le> maxWireBufferLen"
  shows "reads ReadString (xdr_buffer (bytes_of_string s)) s"
  using reads_guarded [OF reads_ReadBuffer_xdr [of "bytes_of_string s"] reads_pure, of "\<lambda>r. ([], r)" string_of_bytes]
    assms by (simp add: ReadString_def [abs_def] case_prod_beta')

section \<open>Robustness on arbitrary input\<close>

text \<open>
  \<open>pending\<close> bounds the input that is left.  No read increases it and every successful field read
  decreases it, whatever the server sends: the parsing loops terminate.
\<close>

definition ev_len :: "rd_event \<Rightarrow> nat" where
  "ev_len e = (case e of Recv bs \<Rightarrow> length bs | RecvErr _ \<Rightarrow> 0)"

definition pending :: "Reader \<Rightarrow> nat" where
  "pending r = (rend r - rstart r) + sum_list (map ev_len (conn_in (rd r)))"

lemma Conn_Read_budget:
  "Conn_Read n c = ((bs, err), c') \<Longrightarrow>
     length bs + sum_list (map ev_len (conn_in c')) \<le> sum_list (map ev_len (conn_in c))"
  by (auto simp: Conn_Read_def sock_read_def XORKeyStream_def Let_def ev_len_def
      split: option.splits if_splits list.splits rd_event.splits prod.splits)

lemma make_room_pending [simp]: "pending (make_room n r) = pending r"
  by (simp add: pending_def make_room_def Let_def)

lemma fill_loop_pending:
  "fill_loop n r = (b, r') \<Longrightarrow>
     pending r' \<le> pending r \<and> (b \<longrightarrow> n \<le> rend r' - rstart r') \<and> (b \<or> rerr r' \<noteq> None)"
proof (induction n r rule: fill_loop.induct)
  case (1 n r)
  obtain bs err c' where rdc: "Conn_Read (length (rbuf r) - rend r) (rd r) = ((bs, err), c')"
    by (metis surj_pair)
  note bud = Conn_Read_budget [OF rdc]
  show ?case
  proof (cases "rend r - rstart r < n \<and> err = None \<and> bs \<noteq> []")
    case False
    then show ?thesis using "1.prems" rdc bud
      by (subst (asm) fill_loop.simps) (auto simp: pending_def Let_def split: if_splits option.splits)
  next
    case True
    let ?r = "r\<lparr>rd := c', rbuf := overwrite (rend r) bs (rbuf r), rend := rend r + length bs\<rparr>"
    have "fill_loop n ?r = (b, r')"
      using "1.prems" True rdc by (subst (asm) fill_loop.simps) simp
    with True rdc "1.IH" have "pending r' \<le> pending ?r \<and> (b \<longrightarrow> n \<le> rend r' - rstart r') \<and> (b \<or> rerr r' \<noteq> None)" by simp
    moreover have "pending ?r \<le> pending r" using bud by (simp add: pending_def)
    ultimately show ?thesis by simp
  qed
qed

lemma ensure_pending: "ensure n r = (b, r') \<Longrightarrow> pending r' \<le> pending r \<and> (b \<longrightarrow> n \<le> rend r' - rstart r')"
  using fill_loop_pending [of n "make_room n r" b r'] by (auto simp: ensure_def split: if_splits)

lemma ensure_err: "ensure n r = (b, r') \<Longrightarrow> rerr r' = None \<Longrightarrow> b"
  using fill_loop_pending [of n "make_room n r" b r'] by (auto simp: ensure_def split: if_splits)

lemma readView_pending:
  assumes "readView n r = (bs, r')"
  shows "pending r' \<le> pending r" and "rerr r' = None \<Longrightarrow> pending r' + n \<le> pending r"
proof -
  obtain b r1 where e: "ensure n r = (b, r1)" by (metis surj_pair)
  note ep = ensure_pending [OF e]
  have rec: "pending (r1\<lparr>rstart := rstart r1 + n\<rparr>) + n \<le> pending r1" if "n \<le> rend r1 - rstart r1"
    using that by (simp add: pending_def)
  show "pending r' \<le> pending r"
    using assms e ep rec by (cases b) (auto simp: readView_def split: if_splits)
  assume "rerr r' = None"
  then show "pending r' + n \<le> pending r"
    using assms e ep rec ensure_err [OF e] by (cases b) (auto simp: readView_def split: if_splits)
qed

lemma ReadInt32_pending:
  assumes "ReadInt32 r = (v, r')"
  shows "pending r' \<le> pending r" and "rerr r' = None \<Longrightarrow> pending r' < pending r"
  using assms readView_pending [of 4 r]
  by (auto simp: ReadInt32_def split: prod.splits if_splits)

section \<open>Opcodes\<close>

text \<open>\<^verbatim>\<open>ReadOpcode\<close> skips \<^verbatim>\<open>op_dummy\<close> keep-alives.\<close>

function ReadOpcode :: "Reader \<Rightarrow> int32 \<times> Reader" where
  "ReadOpcode r = (let (op, r') = ReadInt32 r in
     if rerr r' \<noteq> None \<or> op \<noteq> opDummy then (op, r') else ReadOpcode r')"
  by pat_completeness auto
termination
  by (relation "measure pending") (auto dest: ReadInt32_pending(2) [OF sym])

declare ReadOpcode.simps [simp del]

lemma reads_ReadOpcode:
  assumes "op \<noteq> opDummy"
  shows "reads ReadOpcode (concat (replicate k (putUint32 opDummy)) @ putUint32 op) op"
proof (induction k)
  case 0
  show ?case unfolding reads_def
  proof (intro allI impI)
    fix r zs assume r: "wf_reader r" "rerr r = None"
      "stream r = (concat (replicate 0 (putUint32 opDummy)) @ putUint32 op) @ zs"
    then have "stream r = putUint32 op @ zs" by simp
    with reads_ReadInt32 r(1,2) obtain r' where "ReadInt32 r = (op, r')" "wf_reader r'" "rerr r' = None"
      "stream r' = zs" "outside r' = outside r" by (rule readsD)
    with assms show "\<exists>r'. ReadOpcode r = (op, r') \<and> wf_reader r' \<and> rerr r' = None
      \<and> stream r' = zs \<and> outside r' = outside r" by (simp add: ReadOpcode.simps [of r])
  qed
next
  case (Suc k)
  let ?bs = "concat (replicate k (putUint32 opDummy)) @ putUint32 op"
  show ?case unfolding reads_def
  proof (intro allI impI)
    fix r zs assume r: "wf_reader r" "rerr r = None"
      "stream r = (concat (replicate (Suc k) (putUint32 opDummy)) @ putUint32 op) @ zs"
    then have "stream r = putUint32 opDummy @ (?bs @ zs)" by simp
    with reads_ReadInt32 r(1,2) obtain r1 where r1: "ReadInt32 r = (opDummy, r1)" "wf_reader r1"
      "rerr r1 = None" "stream r1 = ?bs @ zs" "outside r1 = outside r" by (rule readsD)
    obtain r' where "ReadOpcode r1 = (op, r')" "wf_reader r'" "rerr r' = None" "stream r' = zs"
      "outside r' = outside r1" using Suc.IH r1(2,3,4) by (rule readsD)
    with r1 show "\<exists>r'. ReadOpcode r = (op, r') \<and> wf_reader r' \<and> rerr r' = None
      \<and> stream r' = zs \<and> outside r' = outside r" by (simp add: ReadOpcode.simps [of r])
  qed
qed

lemma reads_ReadOpcode_plain: "op \<noteq> opDummy \<Longrightarrow> reads ReadOpcode (putUint32 op) op"
  using reads_ReadOpcode [of op 0] by simp

section \<open>Safety for arbitrary servers\<close>

text \<open>
  \<open>sane m\<close>: from a well-formed reader and for any network behaviour, \<open>m\<close> keeps the window inside
  the buffer (no slice expression of the source panics), leaves the outgoing side of the
  connection alone, and an error already recorded stays the error.
\<close>

definition sane :: "(Reader \<Rightarrow> 'a \<times> Reader) \<Rightarrow> bool" where
  "sane m \<longleftrightarrow> (\<forall>r v r'. wf_reader r \<longrightarrow> m r = (v, r') \<longrightarrow>
     wf_reader r' \<and> same_out r r' \<and> (rerr r \<noteq> None \<longrightarrow> rerr r' = rerr r))"

lemma saneD:
  assumes "sane m" and "wf_reader r" and "m r = (v, r')"
  shows "wf_reader r'" and "same_out r r'" and "rerr r \<noteq> None \<Longrightarrow> rerr r' = rerr r"
  using assms unfolding sane_def by blast+

lemma sane_readView: "sane (readView n)"
  unfolding sane_def
proof (intro allI impI)
  fix r v r' assume wf: "wf_reader r" and rv: "readView n r = (v, r')"
  show "wf_reader r' \<and> same_out r r' \<and> (rerr r \<noteq> None \<longrightarrow> rerr r' = rerr r)"
  proof (cases "rerr r = None")
    case False
    with wf rv show ?thesis by (simp add: readView_sticky)
  next
    case True
    show ?thesis
    proof (cases "n \<le> length (stream r)")
      case le: True
      obtain r1 where "readView n r = (take n (stream r), r1)" "wf_reader r1" "same_out r r1"
        by (rule readView_ok [OF wf True le])
      with rv True show ?thesis by simp
    next
      case False
      then have "length (stream r) < n" by simp
      then obtain r1 where "readView n r = ([], r1)" "wf_reader r1" "same_out r r1"
        by (rule readView_fail [OF wf True])
      with rv True show ?thesis by simp
    qed
  qed
qed

lemma sane_bind:
  assumes "sane m" and "\<And>x. sane (k x)"
  shows "sane (\<lambda>r. case m r of (x, r') \<Rightarrow> k x r')"
  unfolding sane_def
proof (intro allI impI)
  fix r v r' assume wf: "wf_reader r" and run: "(case m r of (x, r') \<Rightarrow> k x r') = (v, r')"
  obtain x r1 where m: "m r = (x, r1)" by (cases "m r")
  with run have k: "k x r1 = (v, r')" by simp
  note m1 = saneD [OF assms(1) wf m]
  note k1 = saneD [OF assms(2) m1(1) k]
  show "wf_reader r' \<and> same_out r r' \<and> (rerr r \<noteq> None \<longrightarrow> rerr r' = rerr r)"
    using m1 k1 same_out_trans [OF m1(2) k1(2)] by simp
qed

lemma sane_pure: "sane (Pair v)"
  by (simp add: sane_def)

lemma sane_if:
  assumes "sane m" and "sane m'"
  shows "sane (\<lambda>r. if P r then m r else m' r)"
  unfolding sane_def
proof (intro allI impI)
  fix r v r' assume wf: "wf_reader r" and run: "(if P r then m r else m' r) = (v, r')"
  show "wf_reader r' \<and> same_out r r' \<and> (rerr r \<noteq> None \<longrightarrow> rerr r' = rerr r)"
    using saneD [OF assms(1) wf, of v r'] saneD [OF assms(2) wf, of v r'] run by (cases "P r") simp_all
qed

lemma sane_fail: "sane (\<lambda>r. (v, if rerr r = None then r\<lparr>rerr := Some e\<rparr> else r))"
  by (auto simp: sane_def wf_reader_def same_out_def)

text \<open>The continuation of a guarded read runs only while no error is recorded.\<close>

definition sane0 :: "(Reader \<Rightarrow> 'a \<times> Reader) \<Rightarrow> bool" where
  "sane0 m \<longleftrightarrow> (\<forall>r v r'. wf_reader r \<longrightarrow> rerr r = None \<longrightarrow> m r = (v, r') \<longrightarrow> wf_reader r' \<and> same_out r r')"

lemma sane_sane0: "sane m \<Longrightarrow> sane0 m"
  unfolding sane_def sane0_def by blast

lemma sane0_fail: "sane0 (\<lambda>r. (v, r\<lparr>rerr := e\<rparr>))"
  by (simp add: sane0_def wf_reader_def same_out_def)

lemma sane0_if: "(P \<Longrightarrow> sane0 m) \<Longrightarrow> (\<not> P \<Longrightarrow> sane0 m') \<Longrightarrow> sane0 (\<lambda>r. if P then m r else m' r)"
  by (cases P) simp_all

lemma sane_guarded:
  assumes "sane m" and "sane f" and "\<And>x. sane0 (k x)"
  shows "sane (\<lambda>r. let (x, r') = m r in if rerr r' \<noteq> None then f r' else k x r')"
  unfolding sane_def
proof (intro allI impI)
  fix r v r' assume wf: "wf_reader r"
    and run: "(let (x, r') = m r in if rerr r' \<noteq> None then f r' else k x r') = (v, r')"
  obtain x r1 where m: "m r = (x, r1)" by (cases "m r")
  note m1 = saneD [OF assms(1) wf m]
  show "wf_reader r' \<and> same_out r r' \<and> (rerr r \<noteq> None \<longrightarrow> rerr r' = rerr r)"
  proof (cases "rerr r1 = None")
    case False
    with run m have "f r1 = (v, r')" by simp
    note f1 = saneD [OF assms(2) m1(1) this]
    show ?thesis using m1 f1 False same_out_trans [OF m1(2) f1(2)] by auto
  next
    case True
    with run m have "k x r1 = (v, r')" by simp
    with assms(3) [of x] m1(1) True have "wf_reader r'" "same_out r1 r'" by (auto simp: sane0_def)
    with m1 True same_out_trans [OF m1(2)] show ?thesis by auto
  qed
qed

lemma sane_ReadInt32: "sane ReadInt32"
  unfolding ReadInt32_def [abs_def]
  by (intro sane_guarded sane_readView sane_pure sane_sane0)

lemma sane_ReadInt64: "sane ReadInt64"
  unfolding ReadInt64_def [abs_def]
  by (intro sane_guarded sane_readView sane_pure sane_sane0)

lemma sane_ReadBuffer: "sane ReadBuffer"
  unfolding ReadBuffer_def [abs_def] Let_def [of "buffer_len_fixup _"]
  by (intro sane_guarded sane_ReadInt32 sane_readView sane_pure sane0_if sane0_fail sane_sane0)

lemma sane_ReadString: "sane ReadString"
  unfolding ReadString_def [abs_def]
  by (intro sane_guarded sane_ReadBuffer sane_pure sane_sane0)

lemma sane_ReadOpcode: "sane ReadOpcode"
  unfolding sane_def
proof (intro allI)
  fix r v r'
  show "wf_reader r \<longrightarrow> ReadOpcode r = (v, r') \<longrightarrow>
    wf_reader r' \<and> same_out r r' \<and> (rerr r \<noteq> None \<longrightarrow> rerr r' = rerr r)"
  proof (induction r arbitrary: v r' rule: ReadOpcode.induct)
    case (1 r)
    obtain op r1 where m: "ReadInt32 r = (op, r1)" by (cases "ReadInt32 r")
    show ?case
    proof (intro impI)
      assume wf: "wf_reader r" and run: "ReadOpcode r = (v, r')"
      note m1 = saneD [OF sane_ReadInt32 wf m]
      show "wf_reader r' \<and> same_out r r' \<and> (rerr r \<noteq> None \<longrightarrow> rerr r' = rerr r)"
      proof (cases "rerr r1 \<noteq> None \<or> op \<noteq> opDummy")
        case True
        with run m m1 show ?thesis by (simp add: ReadOpcode.simps [of r])
      next
        case False
        with run m have "ReadOpcode r1 = (v, r')" by (simp add: ReadOpcode.simps [of r])
        with "1" [OF m [symmetric] refl] False m1(1) have "wf_reader r'" "same_out r1 r'" by auto
        with m1 False same_out_trans [OF m1(2)] show ?thesis by auto
      qed
    qed
  qed
qed

lemmas sane_reads = sane_readView sane_ReadInt32 sane_ReadInt64 sane_ReadBuffer sane_ReadString
  sane_ReadOpcode sane_pure

section \<open>Segmentation independence\<close>

text \<open>
  Two readers are indistinguishable when they record the same error or, without one, will deliver the
  same bytes and then fail the same way.  \<open>uniform m\<close>: on indistinguishable readers \<open>m\<close> returns the
  same value and leaves indistinguishable readers, also on malformed or cut input.  So what a parser
  returns depends on the bytes of the stream only, never on how they were segmented or buffered.
\<close>

definition obs_eq :: "Reader \<Rightarrow> Reader \<Rightarrow> bool" where
  "obs_eq r s \<longleftrightarrow> wf_reader r \<and> wf_reader s \<and> rerr r = rerr s \<and>
     (rerr r = None \<longrightarrow> stream r = stream s \<and> net_failure (rd r) = net_failure (rd s))"

definition uniform :: "(Reader \<Rightarrow> 'a \<times> Reader) \<Rightarrow> bool" where
  "uniform m \<longleftrightarrow> (\<forall>r s. obs_eq r s \<longrightarrow> fst (m r) = fst (m s) \<and> obs_eq (snd (m r)) (snd (m s)))"

lemma obs_eq_rerr: "obs_eq r s \<Longrightarrow> rerr r = rerr s"
  by (simp add: obs_eq_def)

lemma obs_eq_refl: "wf_reader r \<Longrightarrow> obs_eq r r"
  by (simp add: obs_eq_def)

lemma uniformD:
  assumes "uniform m" and "obs_eq r s"
  obtains v r' s' where "m r = (v, r')" and "m s = (v, s')" and "obs_eq r' s'"
  using assms unfolding uniform_def by (metis prod.collapse)

lemma uniformI:
  assumes "\<And>r s. obs_eq r s \<Longrightarrow> \<exists>v r' s'. m r = (v, r') \<and> m s = (v, s') \<and> obs_eq r' s'"
  shows "uniform m"
  unfolding uniform_def using assms by (metis fst_conv snd_conv)

lemma uniform_readView: "uniform (readView n)"
proof (rule uniformI)
  fix r s assume rs: "obs_eq r s"
  then have wf: "wf_reader r" "wf_reader s" and e: "rerr r = rerr s" by (simp_all add: obs_eq_def)
  show "\<exists>v r' s'. readView n r = (v, r') \<and> readView n s = (v, s') \<and> obs_eq r' s'"
  proof (cases "rerr r")
    case (Some err)
    then have "rerr r \<noteq> None" "rerr s \<noteq> None" by (simp_all add: e [symmetric])
    with rs show ?thesis by (simp add: readView_sticky)
  next
    case None
    with rs have st: "stream r = stream s" "net_failure (rd r) = net_failure (rd s)" and e': "rerr s = None"
      by (simp_all add: obs_eq_def)
    show ?thesis
    proof (cases "n \<le> length (stream r)")
      case True
      then have "n \<le> length (stream s)" by (simp add: st)
      from readView_ok [OF wf(1) None True] readView_ok [OF wf(2) e' this]
      show ?thesis unfolding obs_eq_def st by metis
    next
      case False
      then have lt: "length (stream r) < n" "length (stream s) < n" by (simp_all add: st)
      from readView_fail [OF wf(1) None lt(1)] readView_fail [OF wf(2) e' lt(2)]
      show ?thesis unfolding obs_eq_def st by (metis option.distinct(1))
    qed
  qed
qed

lemma uniform_pure: "uniform (Pair v)"
  by (simp add: uniform_def)

lemma uniform_bind:
  assumes "uniform m" and "\<And>x. uniform (k x)"
  shows "uniform (\<lambda>r. case m r of (x, r') \<Rightarrow> k x r')"
proof (rule uniformI)
  fix r s assume "obs_eq r s"
  with assms(1) obtain v r1 s1 where "m r = (v, r1)" "m s = (v, s1)" "obs_eq r1 s1" by (rule uniformD)
  moreover obtain w r2 s2 where "k v r1 = (w, r2)" "k v s1 = (w, s2)" "obs_eq r2 s2"
    using assms(2) \<open>obs_eq r1 s1\<close> by (rule uniformD)
  ultimately show "\<exists>v r' s'. (case m r of (x, r') \<Rightarrow> k x r') = (v, r')
    \<and> (case m s of (x, r') \<Rightarrow> k x r') = (v, s') \<and> obs_eq r' s'" by simp
qed

lemma uniform_err_if:
  assumes "uniform f" and "uniform g"
  shows "uniform (\<lambda>r. if rerr r \<noteq> None then f r else g r)"
  using assms unfolding uniform_def by (simp add: obs_eq_rerr)

lemma uniform_guarded:
  assumes "uniform m" and "uniform f" and "\<And>x. uniform (k x)"
  shows "uniform (\<lambda>r. let (x, r') = m r in if rerr r' \<noteq> None then f r' else k x r')"
  using uniform_bind [OF assms(1) uniform_err_if [OF assms(2,3)]] by (simp add: Let_def)

lemma uniform_if: "(P \<Longrightarrow> uniform m) \<Longrightarrow> (\<not> P \<Longrightarrow> uniform m') \<Longrightarrow> uniform (\<lambda>r. if P then m r else m' r)"
  by (cases P) simp_all

lemma uniform_set_err: "uniform (\<lambda>r. (v, r\<lparr>rerr := Some e\<rparr>))"
  by (simp add: uniform_def obs_eq_def wf_reader_def)

lemma uniform_ReadInt32: "uniform ReadInt32"
  unfolding ReadInt32_def [abs_def] by (intro uniform_guarded uniform_readView uniform_pure)

lemma uniform_ReadInt64: "uniform ReadInt64"
  unfolding ReadInt64_def [abs_def] by (intro uniform_guarded uniform_readView uniform_pure)

lemma uniform_ReadBuffer: "uniform ReadBuffer"
  unfolding ReadBuffer_def [abs_def] Let_def [of "buffer_len_fixup _"]
  by (intro uniform_guarded uniform_ReadInt32 uniform_readView uniform_pure uniform_if uniform_set_err)

lemma uniform_ReadString: "uniform ReadString"
  unfolding ReadString_def [abs_def] by (intro uniform_guarded uniform_ReadBuffer uniform_pure)

lemma uniform_ReadOpcode: "uniform ReadOpcode"
proof (rule uniformI)
  show "\<exists>v r' s'. ReadOpcode r = (v, r') \<and> ReadOpcode s = (v, s') \<and> obs_eq r' s'" if "obs_eq r s" for r s
    using that
  proof (induction r arbitrary: s rule: ReadOpcode.induct)
    case (1 r)
    from uniform_ReadInt32 "1.prems" obtain op r1 s1 where
      m: "ReadInt32 r = (op, r1)" "ReadInt32 s = (op, s1)" "obs_eq r1 s1" by (rule uniformD)
    note e = obs_eq_rerr [OF m(3)]
    show ?case
    proof (cases "rerr r1 \<noteq> None \<or> op \<noteq> opDummy")
      case True
      with m e show ?thesis by (simp add: ReadOpcode.simps [of r] ReadOpcode.simps [of s])
    next
      case False
      with "1.IH" [OF m(1) [symmetric] refl False m(3)] m e show ?thesis
        by (simp add: ReadOpcode.simps [of r] ReadOpcode.simps [of s])
    qed
  qed
qed

lemmas uniform_reads = uniform_readView uniform_ReadInt32 uniform_ReadInt64 uniform_ReadBuffer
  uniform_ReadString uniform_ReadOpcode uniform_pure

text \<open>Peeking does not move the stream, but it does fail when the stream is shorter than the peek.\<close>

lemma uniform_peekBytes: "uniform (peekBytes n)"
proof (rule uniformI)
  fix r s assume rs: "obs_eq r s"
  then have wf: "wf_reader r" "wf_reader s" and e: "rerr r = rerr s" by (simp_all add: obs_eq_def)
  show "\<exists>v r' s'. peekBytes n r = (v, r') \<and> peekBytes n s = (v, s') \<and> obs_eq r' s'"
  proof (cases "rerr r")
    case (Some err)
    then have "rerr r \<noteq> None" "rerr s \<noteq> None" by (simp_all add: e [symmetric])
    with rs show ?thesis by (simp add: peekBytes_def)
  next
    case None
    with rs have st: "stream r = stream s" "net_failure (rd r) = net_failure (rd s)" and e': "rerr s = None"
      by (simp_all add: obs_eq_def)
    show ?thesis
    proof (cases "n \<le> length (stream r)")
      case True
      then have "n \<le> length (stream s)" by (simp add: st)
      from ensure_ok [OF wf(1) None True] ensure_ok [OF wf(2) e' this] window_prefix
      show ?thesis unfolding obs_eq_def st peekBytes_def by fastforce
    next
      case False
      then have lt: "length (stream r) < n" "length (stream s) < n" by (simp_all add: st)
      from ensure_fail [OF wf(1) None lt(1)] ensure_fail [OF wf(2) e' lt(2)]
      show ?thesis unfolding obs_eq_def st peekBytes_def by fastforce
    qed
  qed
qed

lemma peekBytes_ok:
  assumes "wf_reader r" and "rerr r = None" and "n \<le> length (stream r)"
  obtains r' where "peekBytes n r = (take n (stream r), r')" and "wf_reader r'" and "rerr r' = None"
    and "stream r' = stream r" and "outside r' = outside r" and "n \<le> length (window r')"
  using ensure_ok [OF assms] window_prefix [of n] that
  by (auto simp: peekBytes_def outside_def same_out_def)

lemma peekBytes_fail:
  assumes "wf_reader r" and "rerr r = None" and "length (stream r) < n"
  obtains r' where "peekBytes n r = ([], r')" and "wf_reader r'" and "rerr r' = Some (net_failure (rd r))"
  using ensure_fail [OF assms] that by (auto simp: peekBytes_def)

end
