(* ===== verification/Writer.thy ===== *)
theory Writer
  imports Reader
begin

text \<open>
  The XDR writers of \<^verbatim>\<open>internal/wire/writer.go\<close>: the growable \<^verbatim>\<open>Writer\<close> that accumulates a request
  before \<^verbatim>\<open>Flush\<close>, and the fixed 1024-byte \<^verbatim>\<open>StackWriter\<close> with its overflow flag.  Both keep a buffer
  and a fill position; what they have written is the prefix up to that position.

  The contract that the encoders rely on is the locale \<open>xdr_writer\<close>: a write appends the XDR image
  of its field or raises the overflow flag for good.  It is interpreted on both writers, and the
  round trip with the reader of the other end is proved once from it.
\<close>

section \<open>The growable writer\<close>

record Writer =
  wbuf :: "byte list"
  wn :: nat

definition defaultWriteBufSize :: nat where "defaultWriteBufSize = 32 * 1024"

definition NewWriter :: Writer where
  "NewWriter = \<lparr>wbuf = replicate defaultWriteBufSize 0, wn = 0\<rparr>"

text \<open>The pool is a bag of idle writers; \<^verbatim>\<open>GetWriter\<close> takes one of them or makes a new one, and rewinds it.\<close>

definition GetWriter :: "Writer list \<Rightarrow> Writer \<times> Writer list" where
  "GetWriter pool = (case pool of [] \<Rightarrow> (NewWriter\<lparr>wn := 0\<rparr>, []) | w # ws \<Rightarrow> (w\<lparr>wn := 0\<rparr>, ws))"

definition PutWriter :: "Writer \<Rightarrow> Writer list \<Rightarrow> Writer list" where
  "PutWriter w pool = w # pool"

definition ResetWriter :: "Writer \<Rightarrow> Writer" where "ResetWriter w = w\<lparr>wn := 0\<rparr>"

definition grow :: "nat \<Rightarrow> Writer \<Rightarrow> Writer" where
  "grow n w =
     (if wn w + n \<le> length (wbuf w) then w
      else let newSize = double_until (length (wbuf w) * 2) (wn w + n)
           in w\<lparr>wbuf := overwrite 0 (take (wn w) (wbuf w)) (replicate newSize 0)\<rparr>)"

text \<open>\<open>w_put bs\<close> is the source's \<^verbatim>\<open>copy(w.buf[w.n:], bs); w.n += len(bs)\<close>.\<close>

definition w_put :: "byte list \<Rightarrow> Writer \<Rightarrow> Writer" where
  "w_put bs w = w\<lparr>wbuf := overwrite (wn w) bs (wbuf w), wn := wn w + length bs\<rparr>"

definition WriteInt32 :: "int32 \<Rightarrow> Writer \<Rightarrow> Writer" where
  "WriteInt32 v w = w_put (putUint32 v) (grow 4 w)"

definition WriteUInt32 :: "uint32 \<Rightarrow> Writer \<Rightarrow> Writer" where
  "WriteUInt32 v w = w_put (putUint32 v) (grow 4 w)"

definition WriteInt64 :: "int64 \<Rightarrow> Writer \<Rightarrow> Writer" where
  "WriteInt64 v w = w_put (putUint64 v) (grow 8 w)"

definition zeroPad :: "byte list" where "zeroPad = replicate 4 0"

definition WriteBuffer :: "byte list \<Rightarrow> Writer \<Rightarrow> Writer" where
  "WriteBuffer data w =
     (let l = length data; pad = xdr_pad l; w0 = grow (4 + l + pad) w;
          w1 = w_put (putUint32 (of_nat l)) w0; w2 = w_put data w1
      in w_put (take pad zeroPad) w2)"

definition WriteString :: "string \<Rightarrow> Writer \<Rightarrow> Writer" where
  "WriteString s w =
     (let l = length s; pad = xdr_pad l; w0 = grow (4 + l + pad) w;
          w1 = w_put (putUint32 (of_nat l)) w0; w2 = w_put (bytes_of_string s) w1
      in w_put (take pad zeroPad) w2)"

text \<open>\<^verbatim>\<open>WriteOpaque\<close> slices \<^verbatim>\<open>data[:n]\<close>: \<open>None\<close> is the panic of a slice that is too short.\<close>

definition WriteOpaque :: "byte list \<Rightarrow> nat \<Rightarrow> Writer \<Rightarrow> Writer option" where
  "WriteOpaque data n w =
     (let pad = xdr_pad n; w0 = grow (n + pad) w in
      if length data < n then None
      else Some (w_put (take pad zeroPad) (w_put (take n data) w0)))"

definition WriteRaw :: "byte list \<Rightarrow> Writer \<Rightarrow> Writer" where
  "WriteRaw data w = w_put data (grow (length data) w)"

definition Writer_Reset :: "Writer \<Rightarrow> Writer" where "Writer_Reset w = w\<lparr>wn := 0\<rparr>"

definition Len :: "Writer \<Rightarrow> nat" where "Len w = wn w"

definition Bytes :: "Writer \<Rightarrow> byte list" where "Bytes w = take (wn w) (wbuf w)"

definition Flush :: "Writer \<Rightarrow> Conn \<Rightarrow> gerr option \<times> Writer \<times> Conn" where
  "Flush w c =
     (if wn w = 0 then (None, w, c)
      else let (err, c') = Conn_Write (take (wn w) (wbuf w)) c in (err, w\<lparr>wn := 0\<rparr>, c'))"

section \<open>The stack writer\<close>

record StackWriter =
  sbuf :: "byte list"
  sn :: nat
  overflow :: bool

definition stackCap :: nat where "stackCap = 1024"

definition emptyStackWriter :: StackWriter where
  "emptyStackWriter = \<lparr>sbuf = replicate stackCap 0, sn = 0, overflow = False\<rparr>"

definition StackWriter_Reset :: "StackWriter \<Rightarrow> StackWriter" where
  "StackWriter_Reset w = w\<lparr>sn := 0, overflow := False\<rparr>"

definition Overflowed :: "StackWriter \<Rightarrow> bool" where "Overflowed w = overflow w"

definition s_put :: "byte list \<Rightarrow> StackWriter \<Rightarrow> StackWriter" where
  "s_put bs w = w\<lparr>sbuf := overwrite (sn w) bs (sbuf w), sn := sn w + length bs\<rparr>"

definition StackWriter_WriteInt32 :: "int32 \<Rightarrow> StackWriter \<Rightarrow> StackWriter" where
  "StackWriter_WriteInt32 v w =
     (if sn w + 4 > length (sbuf w) then w\<lparr>overflow := True\<rparr> else s_put (putUint32 v) w)"

definition StackWriter_WriteUInt32 :: "uint32 \<Rightarrow> StackWriter \<Rightarrow> StackWriter" where
  "StackWriter_WriteUInt32 v w =
     (if sn w + 4 > length (sbuf w) then w\<lparr>overflow := True\<rparr> else s_put (putUint32 v) w)"

definition StackWriter_WriteInt64 :: "int64 \<Rightarrow> StackWriter \<Rightarrow> StackWriter" where
  "StackWriter_WriteInt64 v w =
     (if sn w + 8 > length (sbuf w) then w\<lparr>overflow := True\<rparr> else s_put (putUint64 v) w)"

definition StackWriter_WriteBuffer :: "byte list \<Rightarrow> StackWriter \<Rightarrow> StackWriter" where
  "StackWriter_WriteBuffer data w =
     (let l = length data; pad = xdr_pad l in
      if sn w + 4 + l + pad > length (sbuf w) then w\<lparr>overflow := True\<rparr>
      else s_put (take pad zeroPad) (s_put data (s_put (putUint32 (of_nat l)) w)))"

definition StackWriter_WriteString :: "string \<Rightarrow> StackWriter \<Rightarrow> StackWriter" where
  "StackWriter_WriteString s w =
     (let l = length s; pad = xdr_pad l in
      if sn w + 4 + l + pad > length (sbuf w) then w\<lparr>overflow := True\<rparr>
      else s_put (take pad zeroPad) (s_put (bytes_of_string s) (s_put (putUint32 (of_nat l)) w)))"

definition StackWriter_Bytes :: "StackWriter \<Rightarrow> byte list" where
  "StackWriter_Bytes w = take (sn w) (sbuf w)"

section \<open>Well-formedness and content\<close>

text \<open>The position lies inside the buffer, and the buffer is never empty (an empty one would make the
  doubling loop of \<^verbatim>\<open>grow\<close> run forever).\<close>

definition wf_writer :: "Writer \<Rightarrow> bool" where
  "wf_writer w \<longleftrightarrow> wn w \<le> length (wbuf w) \<and> 0 < length (wbuf w)"

definition wf_stack :: "StackWriter \<Rightarrow> bool" where
  "wf_stack w \<longleftrightarrow> sn w \<le> length (sbuf w) \<and> length (sbuf w) = stackCap"

lemma wf_NewWriter [simp]: "wf_writer NewWriter"
  by (simp add: wf_writer_def NewWriter_def defaultWriteBufSize_def)

lemma Bytes_NewWriter [simp]: "Bytes NewWriter = []"
  by (simp add: Bytes_def NewWriter_def)

lemma wf_emptyStackWriter [simp]: "wf_stack emptyStackWriter"
  by (simp add: wf_stack_def emptyStackWriter_def)

lemma StackWriter_Bytes_empty [simp]: "StackWriter_Bytes emptyStackWriter = []"
  by (simp add: StackWriter_Bytes_def emptyStackWriter_def)

lemma wf_Reset [simp]: "wf_writer w \<Longrightarrow> wf_writer (w\<lparr>wn := 0\<rparr>)"
  by (simp add: wf_writer_def)

lemma Bytes_Reset [simp]: "Bytes (w\<lparr>wn := 0\<rparr>) = []"
  by (simp add: Bytes_def)

lemma take_overwrite:
  "n + length bs \<le> length b \<Longrightarrow> take (n + length bs) (overwrite n bs b) = take n b @ bs"
  by (simp add: overwrite_def)

lemma grow_props:
  assumes "wf_writer w"
  shows "wf_writer (grow n w)" and "Bytes (grow n w) = Bytes w" and "wn (grow n w) = wn w"
    and "wn (grow n w) + n \<le> length (wbuf (grow n w))"
proof -
  let ?sz = "double_until (length (wbuf w) * 2) (wn w + n)"
  have sz: "length (wbuf w) * 2 \<le> ?sz" "wn w + n \<le> ?sz"
    using double_until_ge [of "length (wbuf w) * 2" "wn w + n"] assms by (auto simp: wf_writer_def)
  have len: "length (take (wn w) (wbuf w)) = wn w" using assms by (simp add: wf_writer_def)
  show "wf_writer (grow n w)" "Bytes (grow n w) = Bytes w" "wn (grow n w) = wn w"
    "wn (grow n w) + n \<le> length (wbuf (grow n w))"
    using assms sz len by (auto simp: grow_def wf_writer_def Bytes_def Let_def overwrite_0)
qed

lemma w_put_props:
  assumes "wf_writer w" and "wn w + length bs \<le> length (wbuf w)"
  shows "wf_writer (w_put bs w)" and "Bytes (w_put bs w) = Bytes w @ bs"
    and "length (wbuf (w_put bs w)) = length (wbuf w)" and "wn (w_put bs w) = wn w + length bs"
  using assms by (simp_all add: w_put_def wf_writer_def Bytes_def take_overwrite)

lemma take_zeroPad: "k < 4 \<Longrightarrow> take k zeroPad = replicate k 0"
  by (simp add: zeroPad_def)

text \<open>Three puts after one \<^verbatim>\<open>grow\<close> for their total, the shape of the length-prefixed writes.\<close>

lemma w_put3:
  assumes "wf_writer w"
  shows "wf_writer (w_put c (w_put b (w_put a (grow (length a + length b + length c) w))))"
    and "Bytes (w_put c (w_put b (w_put a (grow (length a + length b + length c) w)))) = Bytes w @ a @ b @ c"
proof -
  define w0 where "w0 = grow (length a + length b + length c) w"
  note g = grow_props [OF assms, of "length a + length b + length c", folded w0_def]
  have a: "wn w0 + length a \<le> length (wbuf w0)" using g by simp
  note pa = w_put_props [OF g(1) a]
  have b: "wn (w_put a w0) + length b \<le> length (wbuf (w_put a w0))" using g pa by simp
  note pb = w_put_props [OF pa(1) b]
  have c: "wn (w_put b (w_put a w0)) + length c \<le> length (wbuf (w_put b (w_put a w0)))" using g pa pb by simp
  note pc = w_put_props [OF pb(1) c]
  show "wf_writer (w_put c (w_put b (w_put a (grow (length a + length b + length c) w))))"
    using pc unfolding w0_def by simp
  show "Bytes (w_put c (w_put b (w_put a (grow (length a + length b + length c) w)))) = Bytes w @ a @ b @ c"
    using pa pb pc g unfolding w0_def by simp
qed

lemma w_put1:
  assumes "wf_writer w"
  shows "wf_writer (w_put a (grow (length a) w))" and "Bytes (w_put a (grow (length a) w)) = Bytes w @ a"
  using w_put_props [OF grow_props(1) [OF assms], of "length a" a] grow_props [OF assms, of "length a"]
  by simp_all

lemma WriteInt32_props:
  assumes "wf_writer w"
  shows "wf_writer (WriteInt32 v w)" and "Bytes (WriteInt32 v w) = Bytes w @ putUint32 v"
  using w_put1 [OF assms, of "putUint32 v"] by (simp_all add: WriteInt32_def)

lemma WriteUInt32_eq: "WriteUInt32 = WriteInt32"
  by (simp add: fun_eq_iff WriteUInt32_def WriteInt32_def)

lemma WriteInt64_props:
  assumes "wf_writer w"
  shows "wf_writer (WriteInt64 v w)" and "Bytes (WriteInt64 v w) = Bytes w @ putUint64 v"
  using w_put1 [OF assms, of "putUint64 v"] by (simp_all add: WriteInt64_def)

lemma WriteBuffer_props:
  assumes "wf_writer w"
  shows "wf_writer (WriteBuffer data w)" and "Bytes (WriteBuffer data w) = Bytes w @ xdr_buffer data"
  using w_put3 [OF assms, of "replicate (xdr_pad (length data)) 0" data "putUint32 (of_nat (length data))"]
  by (simp_all add: WriteBuffer_def Let_def take_zeroPad xdr_buffer_def)

lemma WriteString_eq: "WriteString s w = WriteBuffer (bytes_of_string s) w"
  by (simp add: WriteString_def WriteBuffer_def)

lemma WriteRaw_props:
  assumes "wf_writer w"
  shows "wf_writer (WriteRaw data w)" and "Bytes (WriteRaw data w) = Bytes w @ data"
  using w_put1 [OF assms, of data] by (simp_all add: WriteRaw_def)

lemma WriteOpaque_props:
  assumes "wf_writer w" and "n \<le> length data"
  obtains w' where "WriteOpaque data n w = Some w'" and "wf_writer w'"
    and "Bytes w' = Bytes w @ take n data @ replicate (xdr_pad n) 0"
proof
  let ?w = "w_put (take (xdr_pad n) zeroPad) (w_put (take n data) (grow (n + xdr_pad n) w))"
  show "WriteOpaque data n w = Some ?w" using assms by (simp add: WriteOpaque_def Let_def)
  have id: "w_put [] w1 = w1" if "wf_writer w1" for w1
    using that by (simp add: w_put_def overwrite_def)
  note p = w_put3 [OF assms(1), of "replicate (xdr_pad n) 0" "take n data" "[]"]
  have len: "length (take n data) = n" using assms(2) by simp
  have g: "wf_writer (grow (n + xdr_pad n) w)" by (rule grow_props [OF assms(1)])
  show "wf_writer ?w" using p len id [OF g] by (simp add: take_zeroPad)
  show "Bytes ?w = Bytes w @ take n data @ replicate (xdr_pad n) 0"
    using p len id [OF g] by (simp add: take_zeroPad)
qed

lemma s_put_props:
  assumes "wf_stack w" and "sn w + length bs \<le> length (sbuf w)"
  shows "wf_stack (s_put bs w)" and "StackWriter_Bytes (s_put bs w) = StackWriter_Bytes w @ bs"
    and "sbuf (s_put bs w) = overwrite (sn w) bs (sbuf w)" and "sn (s_put bs w) = sn w + length bs"
    and "overflow (s_put bs w) = overflow w"
  using assms by (simp_all add: s_put_def wf_stack_def StackWriter_Bytes_def take_overwrite)

lemma s_put3:
  assumes "wf_stack w" and "sn w + length a + length b + length c \<le> length (sbuf w)"
  shows "wf_stack (s_put c (s_put b (s_put a w)))"
    and "StackWriter_Bytes (s_put c (s_put b (s_put a w))) = StackWriter_Bytes w @ a @ b @ c"
    and "overflow (s_put c (s_put b (s_put a w))) = overflow w"
proof -
  have len: "length (sbuf (s_put xs v)) = length (sbuf v)" if "sn v + length xs \<le> length (sbuf v)" for xs v
    using that by (simp add: s_put_def)
  have a: "sn w + length a \<le> length (sbuf w)" using assms(2) by simp
  note pa = s_put_props [OF assms(1) a]
  have b: "sn (s_put a w) + length b \<le> length (sbuf (s_put a w))" using assms(2) pa(4) len [OF a] by simp
  note pb = s_put_props [OF pa(1) b]
  have c: "sn (s_put b (s_put a w)) + length c \<le> length (sbuf (s_put b (s_put a w)))"
    using assms(2) pa(4) pb(4) len [OF a] len [OF b] by simp
  note pc = s_put_props [OF pb(1) c]
  show "wf_stack (s_put c (s_put b (s_put a w)))" by (rule pc)
  show "StackWriter_Bytes (s_put c (s_put b (s_put a w))) = StackWriter_Bytes w @ a @ b @ c"
    using pa(2) pb(2) pc(2) by simp
  show "overflow (s_put c (s_put b (s_put a w))) = overflow w" using pa(5) pb(5) pc(5) by simp
qed

section \<open>The contract of a writer\<close>

datatype field = FInt32 int32 | FInt64 int64 | FBuffer "byte list" | FString string

fun field_image :: "field \<Rightarrow> byte list" where
  "field_image (FInt32 v) = putUint32 v"
| "field_image (FInt64 v) = putUint64 v"
| "field_image (FBuffer b) = xdr_buffer b"
| "field_image (FString s) = xdr_buffer (bytes_of_string s)"

locale xdr_writer =
  fixes wInt32 :: "int32 \<Rightarrow> 'w \<Rightarrow> 'w"
    and wInt64 :: "int64 \<Rightarrow> 'w \<Rightarrow> 'w"
    and wBuffer :: "byte list \<Rightarrow> 'w \<Rightarrow> 'w"
    and wString :: "string \<Rightarrow> 'w \<Rightarrow> 'w"
    and content :: "'w \<Rightarrow> byte list"
    and wf :: "'w \<Rightarrow> bool"
    and failed :: "'w \<Rightarrow> bool"
  assumes wf_ops: "wf w \<Longrightarrow> wf (wInt32 v w)" "wf w \<Longrightarrow> wf (wInt64 x w)"
      "wf w \<Longrightarrow> wf (wBuffer b w)" "wf w \<Longrightarrow> wf (wString s w)"
    and failed_ops: "failed w \<Longrightarrow> failed (wInt32 v w)" "failed w \<Longrightarrow> failed (wInt64 x w)"
      "failed w \<Longrightarrow> failed (wBuffer b w)" "failed w \<Longrightarrow> failed (wString s w)"
    and content_ops:
      "wf w \<Longrightarrow> \<not> failed (wInt32 v w) \<Longrightarrow> content (wInt32 v w) = content w @ putUint32 v"
      "wf w \<Longrightarrow> \<not> failed (wInt64 x w) \<Longrightarrow> content (wInt64 x w) = content w @ putUint64 x"
      "wf w \<Longrightarrow> \<not> failed (wBuffer b w) \<Longrightarrow> content (wBuffer b w) = content w @ xdr_buffer b"
      "wf w \<Longrightarrow> \<not> failed (wString s w) \<Longrightarrow>
        content (wString s w) = content w @ xdr_buffer (bytes_of_string s)"
begin

fun write_field :: "field \<Rightarrow> 'w \<Rightarrow> 'w" where
  "write_field (FInt32 v) w = wInt32 v w"
| "write_field (FInt64 v) w = wInt64 v w"
| "write_field (FBuffer b) w = wBuffer b w"
| "write_field (FString s) w = wString s w"

definition write_fields :: "field list \<Rightarrow> 'w \<Rightarrow> 'w" where
  "write_fields fs w = fold write_field fs w"

lemma write_field_wf: "wf w \<Longrightarrow> wf (write_field f w)"
  by (cases f) (simp_all add: wf_ops)

lemma write_field_failed: "failed w \<Longrightarrow> failed (write_field f w)"
  by (cases f) (simp_all add: failed_ops)

lemma write_field_content:
  "wf w \<Longrightarrow> \<not> failed (write_field f w) \<Longrightarrow> content (write_field f w) = content w @ field_image f"
  by (cases f) (simp_all add: content_ops)

lemma write_fields_Cons [simp]: "write_fields (f # fs) w = write_fields fs (write_field f w)"
  by (simp add: write_fields_def)

lemma write_fields_Nil [simp]: "write_fields [] w = w"
  by (simp add: write_fields_def)

lemma write_fields_wf: "wf w \<Longrightarrow> wf (write_fields fs w)"
  by (induction fs arbitrary: w) (simp_all add: write_field_wf)

lemma write_fields_failed: "failed w \<Longrightarrow> failed (write_fields fs w)"
  by (induction fs arbitrary: w) (simp_all add: write_field_failed)

text \<open>A sequence of writes that did not overflow has appended the images of all its fields.\<close>

lemma write_fields_content:
  "wf w \<Longrightarrow> \<not> failed (write_fields fs w) \<Longrightarrow>
     content (write_fields fs w) = content w @ concat (map field_image fs)"
proof (induction fs arbitrary: w)
  case (Cons f fs)
  from Cons.prems have "\<not> failed (write_field f w)"
    using write_fields_failed by auto
  with Cons show ?case by (simp add: write_field_wf write_field_content)
qed simp

end

interpretation pooled: xdr_writer WriteInt32 WriteInt64 WriteBuffer WriteString Bytes wf_writer "\<lambda>_. False"
  by unfold_locales (simp_all add: WriteInt32_props WriteInt64_props WriteBuffer_props WriteString_eq)

lemma StackWriter_WriteInt32_props:
  assumes "wf_stack w"
  shows "wf_stack (StackWriter_WriteInt32 v w)"
    and "overflow w \<Longrightarrow> overflow (StackWriter_WriteInt32 v w)"
    and "\<not> overflow (StackWriter_WriteInt32 v w) \<Longrightarrow>
      StackWriter_Bytes (StackWriter_WriteInt32 v w) = StackWriter_Bytes w @ putUint32 v"
  using s_put_props [OF assms, of "putUint32 v"] assms
  by (auto simp: StackWriter_WriteInt32_def wf_stack_def not_less split: if_splits)

lemma StackWriter_WriteUInt32_eq: "StackWriter_WriteUInt32 = StackWriter_WriteInt32"
  by (simp add: fun_eq_iff StackWriter_WriteUInt32_def StackWriter_WriteInt32_def)

lemma StackWriter_WriteInt64_props:
  assumes "wf_stack w"
  shows "wf_stack (StackWriter_WriteInt64 v w)"
    and "overflow w \<Longrightarrow> overflow (StackWriter_WriteInt64 v w)"
    and "\<not> overflow (StackWriter_WriteInt64 v w) \<Longrightarrow>
      StackWriter_Bytes (StackWriter_WriteInt64 v w) = StackWriter_Bytes w @ putUint64 v"
  using s_put_props [OF assms, of "putUint64 v"] assms
  by (auto simp: StackWriter_WriteInt64_def wf_stack_def not_less split: if_splits)

lemma StackWriter_WriteBuffer_props:
  assumes "wf_stack w"
  shows "wf_stack (StackWriter_WriteBuffer b w)"
    and "overflow w \<Longrightarrow> overflow (StackWriter_WriteBuffer b w)"
    and "\<not> overflow (StackWriter_WriteBuffer b w) \<Longrightarrow>
      StackWriter_Bytes (StackWriter_WriteBuffer b w) = StackWriter_Bytes w @ xdr_buffer b"
proof -
  note p = s_put3 [OF assms, of "putUint32 (of_nat (length b))" b "replicate (xdr_pad (length b)) 0"]
  show "wf_stack (StackWriter_WriteBuffer b w)"
    using p assms by (auto simp: StackWriter_WriteBuffer_def Let_def take_zeroPad wf_stack_def not_less)
  show "overflow w \<Longrightarrow> overflow (StackWriter_WriteBuffer b w)"
    using p by (auto simp: StackWriter_WriteBuffer_def Let_def take_zeroPad not_less)
  show "\<not> overflow (StackWriter_WriteBuffer b w) \<Longrightarrow>
      StackWriter_Bytes (StackWriter_WriteBuffer b w) = StackWriter_Bytes w @ xdr_buffer b"
    using p by (auto simp: StackWriter_WriteBuffer_def Let_def take_zeroPad xdr_buffer_def not_less split: if_splits)
qed

lemma StackWriter_WriteString_eq: "StackWriter_WriteString s = StackWriter_WriteBuffer (bytes_of_string s)"
  by (simp add: fun_eq_iff StackWriter_WriteString_def StackWriter_WriteBuffer_def)

lemma overflow_sticky:
  "overflow w \<Longrightarrow> overflow (StackWriter_WriteInt32 v w)"
  "overflow w \<Longrightarrow> overflow (StackWriter_WriteInt64 x w)"
  "overflow w \<Longrightarrow> overflow (StackWriter_WriteBuffer b w)"
  by (simp_all add: StackWriter_WriteInt32_def StackWriter_WriteInt64_def StackWriter_WriteBuffer_def
      s_put_def Let_def)

interpretation stacked: xdr_writer StackWriter_WriteInt32 StackWriter_WriteInt64 StackWriter_WriteBuffer
    StackWriter_WriteString StackWriter_Bytes wf_stack overflow
  by unfold_locales
    (simp_all add: StackWriter_WriteInt32_props StackWriter_WriteInt64_props StackWriter_WriteBuffer_props
      StackWriter_WriteString_eq overflow_sticky)

section \<open>Writing, flushing and reading back\<close>

text \<open>The reader's side of a field.\<close>

fun read_field :: "field \<Rightarrow> Reader \<Rightarrow> field \<times> Reader" where
  "read_field (FInt32 _) r = (let (v, r') = ReadInt32 r in (FInt32 v, r'))"
| "read_field (FInt64 _) r = (let (v, r') = ReadInt64 r in (FInt64 v, r'))"
| "read_field (FBuffer _) r = (let (v, r') = ReadBuffer r in (FBuffer v, r'))"
| "read_field (FString _) r = (let (v, r') = ReadString r in (FString v, r'))"

fun read_fields :: "field list \<Rightarrow> Reader \<Rightarrow> field list \<times> Reader" where
  "read_fields [] r = ([], r)"
| "read_fields (f # fs) r = (let (x, r1) = read_field f r; (xs, r2) = read_fields fs r1 in (x # xs, r2))"

text \<open>The reader refuses buffers above its limit.\<close>

fun field_ok :: "field \<Rightarrow> bool" where
  "field_ok (FBuffer b) = (length b \<le> maxWireBufferLen)"
| "field_ok (FString s) = (length s \<le> maxWireBufferLen)"
| "field_ok _ = True"

lemma reads_map: "reads m bs v \<Longrightarrow> reads (\<lambda>r. let (x, r') = m r in (g x, r')) bs (g v)"
  using reads_bind [OF _ reads_pure, of m bs v g] by (simp add: Let_def case_prod_beta')

lemma read_field_eqs:
  "read_field (FInt32 v) = (\<lambda>r. let (x, r') = ReadInt32 r in (FInt32 x, r'))"
  "read_field (FInt64 i) = (\<lambda>r. let (x, r') = ReadInt64 r in (FInt64 x, r'))"
  "read_field (FBuffer b) = (\<lambda>r. let (x, r') = ReadBuffer r in (FBuffer x, r'))"
  "read_field (FString s) = (\<lambda>r. let (x, r') = ReadString r in (FString x, r'))"
  by (simp_all add: fun_eq_iff)

lemma reads_read_field: "field_ok f \<Longrightarrow> reads (read_field f) (field_image f) f"
  by (cases f)
    (simp_all only: read_field_eqs field_image.simps field_ok.simps reads_map reads_ReadInt32
      reads_ReadInt64 reads_ReadBuffer_xdr reads_ReadString)

lemma reads_read_fields:
  "list_all field_ok fs \<Longrightarrow> reads (read_fields fs) (concat (map field_image fs)) fs"
proof (induction fs)
  case Nil
  then show ?case using reads_pure [of "[]"] by (simp add: reads_def)
next
  case (Cons f fs)
  then have f: "reads (read_field f) (field_image f) f"
    and fs: "reads (read_fields fs) (concat (map field_image fs)) fs"
    by (simp_all add: reads_read_field)
  from reads_bind [where k = "\<lambda>x r. let (xs, r2) = read_fields fs r in (x # xs, r2)",
      OF f reads_map [OF fs, of "Cons f"]]
  show ?case by (simp add: reads_def Let_def case_prod_beta')
qed

text \<open>What \<^verbatim>\<open>Flush\<close> puts on the socket, with the writer's cipher applied.\<close>

definition encrypted :: "Conn \<Rightarrow> byte list \<Rightarrow> byte list" where
  "encrypted c bs = (case cryptW c of None \<Rightarrow> bs | Some wc \<Rightarrow> fst (XORKeyStream wc bs))"

lemma Flush_sends:
  assumes "Flush w c = (None, w', c')" and "\<not> conn_closed c"
  shows "conn_out c' = conn_out c @ encrypted c (Bytes w)" and "Bytes w' = []"
  using assms
  by (auto simp: Flush_def Bytes_def encrypted_def Conn_Write_def sock_write_def XORKeyStream_def Let_def
      split: if_splits option.splits list.splits prod.splits)

lemma decrypt_encrypted: "decrypt (cryptW c) (encrypted c bs) = bs"
  by (simp add: decrypt_def encrypted_def XORKeyStream_def split: option.splits)

end
