(* ===== verification/Info.thy ===== *)
theory Info
  imports Protocol Strconv
begin

text \<open>
  Info buffers (\<^verbatim>\<open>internal/wire/info.go\<close>): tag-length-value items, the SQL describe parser with its
  truncation continuation, and the record counts.  The parsers walk a byte slice; the model recurses
  on the rest of the slice instead of an index.
\<close>

section \<open>Tags\<close>

abbreviation (input) IscInfoSQLSelect :: byte where "IscInfoSQLSelect \<equiv> 4"
abbreviation (input) IscInfoSQLBind :: byte where "IscInfoSQLBind \<equiv> 5"
abbreviation (input) IscInfoSQLNumVariables :: byte where "IscInfoSQLNumVariables \<equiv> 6"
abbreviation (input) IscInfoSQLDescribeVars :: byte where "IscInfoSQLDescribeVars \<equiv> 7"
abbreviation (input) IscInfoSQLDescribeEnd :: byte where "IscInfoSQLDescribeEnd \<equiv> 8"
abbreviation (input) IscInfoSQLSQLDASeq :: byte where "IscInfoSQLSQLDASeq \<equiv> 9"
abbreviation (input) IscInfoSQLType :: byte where "IscInfoSQLType \<equiv> 11"
abbreviation (input) IscInfoSQLSubType :: byte where "IscInfoSQLSubType \<equiv> 12"
abbreviation (input) IscInfoSQLScale :: byte where "IscInfoSQLScale \<equiv> 13"
abbreviation (input) IscInfoSQLLength :: byte where "IscInfoSQLLength \<equiv> 14"
abbreviation (input) IscInfoSQLNullInd :: byte where "IscInfoSQLNullInd \<equiv> 15"
abbreviation (input) IscInfoSQLField :: byte where "IscInfoSQLField \<equiv> 16"
abbreviation (input) IscInfoSQLRelation :: byte where "IscInfoSQLRelation \<equiv> 17"
abbreviation (input) IscInfoSQLOwner :: byte where "IscInfoSQLOwner \<equiv> 18"
abbreviation (input) IscInfoSQLAlias :: byte where "IscInfoSQLAlias \<equiv> 19"
abbreviation (input) IscInfoSQLSqldaStart :: byte where "IscInfoSQLSqldaStart \<equiv> 20"
abbreviation (input) IscInfoSQLStmtType :: byte where "IscInfoSQLStmtType \<equiv> 21"
abbreviation (input) IscInfoSQLRecords :: byte where "IscInfoSQLRecords \<equiv> 23"
abbreviation (input) IscInfoReqSelectCount :: byte where "IscInfoReqSelectCount \<equiv> 13"
abbreviation (input) IscInfoReqInsertCount :: byte where "IscInfoReqInsertCount \<equiv> 14"
abbreviation (input) IscInfoReqUpdateCount :: byte where "IscInfoReqUpdateCount \<equiv> 15"
abbreviation (input) IscInfoReqDeleteCount :: byte where "IscInfoReqDeleteCount \<equiv> 16"
abbreviation (input) IscInfoBlobNumSegments :: byte where "IscInfoBlobNumSegments \<equiv> 4"
abbreviation (input) IscInfoBlobMaxSegment :: byte where "IscInfoBlobMaxSegment \<equiv> 5"
abbreviation (input) IscInfoBlobTotalLength :: byte where "IscInfoBlobTotalLength \<equiv> 6"
abbreviation (input) IscInfoBlobType :: byte where "IscInfoBlobType \<equiv> 7"

section \<open>Item lists\<close>

definition maxSQLDescribeColumns :: nat where "maxSQLDescribeColumns = 4096"

definition DescribeItems :: "byte list" where
  "DescribeItems = [IscInfoSQLNumVariables, IscInfoSQLDescribeVars, IscInfoSQLSQLDASeq, IscInfoSQLType,
     IscInfoSQLSubType, IscInfoSQLScale, IscInfoSQLLength, IscInfoSQLNullInd,
     IscInfoSQLField, IscInfoSQLAlias, IscInfoSQLDescribeEnd]"

definition prepareInfoItems :: "byte list" where
  "prepareInfoItems = [IscInfoSQLStmtType, IscInfoSQLSelect, IscInfoSQLNumVariables, IscInfoSQLDescribeVars,
     IscInfoSQLSQLDASeq, IscInfoSQLType, IscInfoSQLSubType, IscInfoSQLScale,
     IscInfoSQLLength, IscInfoSQLNullInd, IscInfoSQLField, IscInfoSQLAlias,
     IscInfoSQLDescribeEnd, IscInfoSQLBind, IscInfoSQLNumVariables, IscInfoSQLDescribeVars,
     IscInfoSQLSQLDASeq, IscInfoSQLType, IscInfoSQLSubType, IscInfoSQLScale,
     IscInfoSQLLength, IscInfoSQLDescribeEnd]"

definition prepareExecInfoItems :: "byte list" where
  "prepareExecInfoItems = [IscInfoSQLStmtType, IscInfoSQLBind, IscInfoSQLNumVariables, IscInfoSQLDescribeVars,
     IscInfoSQLSQLDASeq, IscInfoSQLType, IscInfoSQLSubType, IscInfoSQLScale,
     IscInfoSQLLength, IscInfoSQLDescribeEnd]"

definition PrepareInfoItems :: "byte list" where "PrepareInfoItems = prepareInfoItems"
definition PrepareExecInfoItems :: "byte list" where "PrepareExecInfoItems = prepareExecInfoItems"

section \<open>Info items\<close>

record InfoItem =
  Tag :: byte
  ItemData :: "byte list"

definition readInfoInt32LE :: "byte list \<Rightarrow> int32" where
  "readInfoInt32LE data =
     (if length data = 0 then 0
      else if length data = 1 then ucast (data ! 0)
      else if length data = 2 then of_nat (le16 data)
      else if length data = 4 then le32 data
      else if 4 \<le> length data then le32 (take 4 data)
      else ucast (data ! 0))"

definition Int32LE :: "InfoItem \<Rightarrow> int32" where
  "Int32LE item =
     (let d = ItemData item in
      if length d = 0 then 0
      else if length d = 1 then ucast (d ! 0)
      else if length d = 2 then of_nat (le16 d)
      else if length d = 4 then le32 d
      else if 4 \<le> length d then le32 (take 4 d)
      else ucast (d ! 0))"

function ParseInfoBuffer :: "byte list \<Rightarrow> InfoItem list \<times> bool" where
  "ParseInfoBuffer [] = ([], False)"
| "ParseInfoBuffer (tag # rest) =
     (if tag = IscInfoEnd then ([], False)
      else if tag = IscInfoTruncated then ([], True)
      else if length rest < 2 then ([], False)
      else let len = le16 rest; body = drop 2 rest in
        if length body < len then ([], False)
        else let (items, tr) = ParseInfoBuffer (drop len body)
             in (\<lparr>Tag = tag, ItemData = take len body\<rparr> # items, tr))"
  by pat_completeness auto
termination by (relation "measure length") auto

section \<open>Column descriptors\<close>

record ColumnDescriptor =
  FieldName :: string
  RelationName :: string
  OwnerName :: string
  AliasName :: string
  SQLType :: int32
  SubType :: int32
  Scale :: int32
  Length :: int32
  Nullable :: bool
  SubTypeFromNone :: bool

definition emptyColumn :: ColumnDescriptor where
  "emptyColumn = \<lparr>FieldName = [], RelationName = [], OwnerName = [], AliasName = [], SQLType = 0,
     SubType = 0, Scale = 0, Length = 0, Nullable = False, SubTypeFromNone = False\<rparr>"

definition describeCount :: "int32 \<Rightarrow> nat" where
  "describeCount v = (if sint v \<le> 0 \<or> sint v > int maxSQLDescribeColumns then 0 else nat (sint v))"

text \<open>The state of the describe parser.  \<open>capOutputs\<close> and \<open>capInputs\<close> are the capacities of the two
  slices: the source reads them, and a reallocation detaches the pointer \<^verbatim>\<open>current\<close> from the list.\<close>

record describeState =
  stmtType :: int32
  outputs :: "ColumnDescriptor list"
  inputs :: "ColumnDescriptor list"
  numOutputs :: nat
  numInputs :: nat
  doneOutputs :: nat
  doneInputs :: nat
  capOutputs :: nat
  capInputs :: nat

definition emptyDescribeState :: describeState where
  "emptyDescribeState = \<lparr>stmtType = 0, outputs = [], inputs = [], numOutputs = 0, numInputs = 0,
     doneOutputs = 0, doneInputs = 0, capOutputs = 0, capInputs = 0\<rparr>"

text \<open>The section pointers of the source (\<^verbatim>\<open>currentList\<close>, \<^verbatim>\<open>totalVars\<close>, \<^verbatim>\<open>doneVars\<close>, set together), and
  the pointer \<^verbatim>\<open>current\<close>: nil, an entry of the current list, or an entry of an array the list no longer
  uses.\<close>

datatype dsection = NoSection | Outputs | Inputs
datatype dcursor = NoCursor | At nat | Detached

fun sec_list :: "dsection \<Rightarrow> describeState \<Rightarrow> ColumnDescriptor list" where
  "sec_list Outputs st = outputs st"
| "sec_list Inputs st = inputs st"
| "sec_list NoSection st = []"

fun sec_cap :: "dsection \<Rightarrow> describeState \<Rightarrow> nat" where
  "sec_cap Outputs st = capOutputs st"
| "sec_cap Inputs st = capInputs st"
| "sec_cap NoSection st = 0"

fun sec_total :: "dsection \<Rightarrow> describeState \<Rightarrow> nat" where
  "sec_total Outputs st = numOutputs st"
| "sec_total Inputs st = numInputs st"
| "sec_total NoSection st = 0"

fun set_list :: "dsection \<Rightarrow> ColumnDescriptor list \<Rightarrow> nat \<Rightarrow> describeState \<Rightarrow> describeState" where
  "set_list Outputs cs c st = st\<lparr>outputs := cs, capOutputs := c\<rparr>"
| "set_list Inputs cs c st = st\<lparr>inputs := cs, capInputs := c\<rparr>"
| "set_list NoSection cs c st = st"

fun set_total :: "dsection \<Rightarrow> nat \<Rightarrow> describeState \<Rightarrow> describeState" where
  "set_total Outputs n st = st\<lparr>numOutputs := n\<rparr>"
| "set_total Inputs n st = st\<lparr>numInputs := n\<rparr>"
| "set_total NoSection n st = st"

fun inc_done :: "dsection \<Rightarrow> describeState \<Rightarrow> describeState" where
  "inc_done Outputs st = st\<lparr>doneOutputs := doneOutputs st + 1\<rparr>"
| "inc_done Inputs st = st\<lparr>doneInputs := doneInputs st + 1\<rparr>"
| "inc_done NoSection st = st"

text \<open>\<open>gc cap need\<close> is the capacity \<^verbatim>\<open>append\<close> chooses when \<open>cap\<close> does not suffice: the runtime's choice,
  a parameter of the parser.\<close>

function append_until :: "(nat \<Rightarrow> nat \<Rightarrow> nat) \<Rightarrow> nat \<Rightarrow> ColumnDescriptor list \<times> nat \<Rightarrow> ColumnDescriptor list \<times> nat" where
  "append_until gc n (cs, c) =
     (if length cs < n
      then append_until gc n (cs @ [emptyColumn], if length cs < c then c else gc c (length cs + 1))
      else (cs, c))"
  by pat_completeness auto
termination by (relation "measure (\<lambda>(gc, n, cs, c). n - length cs)") auto

declare append_until.simps [simp del]

definition upd_column :: "dsection \<Rightarrow> dcursor \<Rightarrow> (ColumnDescriptor \<Rightarrow> ColumnDescriptor) \<Rightarrow> describeState \<Rightarrow> describeState" where
  "upd_column sec cur f st = (case cur of
      At i \<Rightarrow> set_list sec ((sec_list sec st)[i := f (sec_list sec st ! i)]) (sec_cap sec st) st
    | _ \<Rightarrow> st)"

definition describe_item ::
  "(nat \<Rightarrow> nat \<Rightarrow> nat) \<Rightarrow> byte \<Rightarrow> byte list \<Rightarrow> dsection \<Rightarrow> dcursor \<Rightarrow> describeState \<Rightarrow> dcursor \<times> describeState" where
  "describe_item gc tag data sec cur st =
     (if tag = IscInfoSQLStmtType then (cur, st\<lparr>stmtType := readInfoInt32LE data\<rparr>)
      else if tag = IscInfoSQLNumVariables \<or> tag = IscInfoSQLDescribeVars then
        (let n = describeCount (readInfoInt32LE data) in
         if sec \<noteq> NoSection then
           (let st1 = set_total sec n st in
            if 0 < n \<and> sec_cap sec st1 < n
            then (case cur of NoCursor \<Rightarrow> NoCursor | _ \<Rightarrow> Detached, set_list sec (sec_list sec st1) n st1)
            else (cur, st1))
         else (cur, st))
      else if tag = IscInfoSQLSQLDASeq then
        (if sec \<noteq> NoSection then
           (let seq = describeCount (readInfoInt32LE data) in
            if 0 < seq then
              (if 0 < sec_total sec st \<and> sec_total sec st < seq then (NoCursor, st)
               else let (cs, c) = append_until gc seq (sec_list sec st, sec_cap sec st)
                    in (At (seq - 1), set_list sec cs c st))
            else (NoCursor, st))
         else (cur, st))
      else if tag = IscInfoSQLType then (cur, upd_column sec cur (\<lambda>d. d\<lparr>SQLType := readInfoInt32LE data\<rparr>) st)
      else if tag = IscInfoSQLSubType then (cur, upd_column sec cur (\<lambda>d. d\<lparr>SubType := readInfoInt32LE data\<rparr>) st)
      else if tag = IscInfoSQLScale then (cur, upd_column sec cur (\<lambda>d. d\<lparr>Scale := readInfoInt32LE data\<rparr>) st)
      else if tag = IscInfoSQLLength then (cur, upd_column sec cur (\<lambda>d. d\<lparr>Length := readInfoInt32LE data\<rparr>) st)
      else if tag = IscInfoSQLNullInd then (cur, upd_column sec cur (\<lambda>d. d\<lparr>Nullable := readInfoInt32LE data \<noteq> 0\<rparr>) st)
      else if tag = IscInfoSQLField then (cur, upd_column sec cur (\<lambda>d. d\<lparr>FieldName := string_of_bytes data\<rparr>) st)
      else if tag = IscInfoSQLRelation then (cur, upd_column sec cur (\<lambda>d. d\<lparr>RelationName := string_of_bytes data\<rparr>) st)
      else if tag = IscInfoSQLOwner then (cur, upd_column sec cur (\<lambda>d. d\<lparr>OwnerName := string_of_bytes data\<rparr>) st)
      else if tag = IscInfoSQLAlias then (cur, upd_column sec cur (\<lambda>d. d\<lparr>AliasName := string_of_bytes data\<rparr>) st)
      else (cur, st))"

function describe_loop ::
  "(nat \<Rightarrow> nat \<Rightarrow> nat) \<Rightarrow> byte list \<Rightarrow> dsection \<Rightarrow> dcursor \<Rightarrow> describeState \<Rightarrow> bool \<times> describeState" where
  "describe_loop gc [] sec cur st = (False, st)"
| "describe_loop gc (tag # rest) sec cur st =
     (if tag = IscInfoEnd then (False, st)
      else if tag = IscInfoTruncated then (True, st)
      else if tag = IscInfoSQLSelect then describe_loop gc rest Outputs NoCursor st
      else if tag = IscInfoSQLBind then describe_loop gc rest Inputs NoCursor st
      else if tag = IscInfoSQLDescribeEnd then
        describe_loop gc rest sec NoCursor (if cur \<noteq> NoCursor \<and> sec \<noteq> NoSection then inc_done sec st else st)
      else if length rest < 2 then (False, st)
      else let len = le16 rest; body = drop 2 rest in
        if length body < len then (False, st)
        else let (cur', st') = describe_item gc tag (take len body) sec cur st
             in describe_loop gc (drop len body) sec cur' st')"
  by pat_completeness auto
termination by (relation "measure (\<lambda>(gc, bs, sec, cur, st). length bs)") auto

declare describe_loop.simps(2) [simp del]

definition parseSQLDescribeChunk :: "(nat \<Rightarrow> nat \<Rightarrow> nat) \<Rightarrow> byte list \<Rightarrow> describeState \<Rightarrow> bool \<times> describeState" where
  "parseSQLDescribeChunk gc buf st = describe_loop gc buf NoSection NoCursor st"

definition ParseSQLDescribeInfo ::
  "(nat \<Rightarrow> nat \<Rightarrow> nat) \<Rightarrow> byte list \<Rightarrow> int32 \<times> ColumnDescriptor list \<times> ColumnDescriptor list" where
  "ParseSQLDescribeInfo gc buf =
     (let st = snd (parseSQLDescribeChunk gc buf emptyDescribeState) in (stmtType st, outputs st, inputs st))"

definition itemsWithSqldaStart :: "byte list \<Rightarrow> int \<Rightarrow> int \<Rightarrow> byte list" where
  "itemsWithSqldaStart items nextOutput nextInput = concat (map (\<lambda>it.
     if it = IscInfoSQLSelect \<or> it = IscInfoSQLBind then
       let idx = (if it = IscInfoSQLBind then nextInput else nextOutput)
       in [IscInfoSQLSqldaStart, 2, of_int (idx AND 0xFF), of_int (drop_bit 8 idx), it]
     else [it]) items)"

section \<open>Record counts\<close>

record recordCounts =
  selectCount :: int64
  insertCount :: int64
  updateCount :: int64
  deleteCount :: int64

definition zeroCounts :: recordCounts where
  "zeroCounts = \<lparr>selectCount = 0, insertCount = 0, updateCount = 0, deleteCount = 0\<rparr>"

definition is_info_stop :: "byte \<Rightarrow> bool" where
  "is_info_stop tag \<longleftrightarrow> tag = IscInfoEnd \<or> tag = IscInfoTruncated \<or> tag = IscInfoError \<or> tag = IscInfoDataNotReady"

definition set_count :: "byte \<Rightarrow> int64 \<Rightarrow> recordCounts \<Rightarrow> recordCounts" where
  "set_count tag v rc =
     (if tag = IscInfoReqSelectCount then rc\<lparr>selectCount := v\<rparr>
      else if tag = IscInfoReqInsertCount then rc\<lparr>insertCount := v\<rparr>
      else if tag = IscInfoReqUpdateCount then rc\<lparr>updateCount := v\<rparr>
      else if tag = IscInfoReqDeleteCount then rc\<lparr>deleteCount := v\<rparr>
      else rc)"

function parseRecordCountItems :: "byte list \<Rightarrow> recordCounts \<Rightarrow> recordCounts" where
  "parseRecordCountItems [] rc = rc"
| "parseRecordCountItems (tag # rest) rc =
     (if is_info_stop tag then rc
      else if length rest < 2 then rc
      else let len = le16 rest; body = drop 2 rest in
        if length body < len then rc
        else parseRecordCountItems (drop len body)
               (set_count tag (scast (readInfoInt32LE (take len body))) rc))"
  by pat_completeness auto
termination by (relation "measure (\<lambda>(bs, rc). length bs)") auto

function ParseRecordCounts :: "byte list \<Rightarrow> recordCounts" where
  "ParseRecordCounts [] = zeroCounts"
| "ParseRecordCounts (tag # rest) =
     (if is_info_stop tag then zeroCounts
      else if length rest < 2 then zeroCounts
      else let len = le16 rest; body = drop 2 rest in
        if length body < len then zeroCounts
        else if tag = IscInfoSQLRecords then parseRecordCountItems (take len body) zeroCounts
        else ParseRecordCounts (drop len body))"
  by pat_completeness auto
termination by (relation "measure length") auto

section \<open>What a server encodes\<close>

definition tlv :: "byte \<Rightarrow> byte list \<Rightarrow> byte list" where
  "tlv tag d = tag # putLE16 (length d) @ d"

definition tlv32 :: "byte \<Rightarrow> int32 \<Rightarrow> byte list" where
  "tlv32 tag v = tlv tag (putLE32 v)"

lemma readInfoInt32LE_put [simp]: "readInfoInt32LE (putLE32 v) = v"
  by (simp add: readInfoInt32LE_def)

lemma readInfoInt32LE_short:
  "n < 256 \<Longrightarrow> readInfoInt32LE [of_nat n] = of_nat n"
  "n < 65536 \<Longrightarrow> readInfoInt32LE (putLE16 n) = of_nat n"
proof -
  show "n < 256 \<Longrightarrow> readInfoInt32LE [of_nat n] = of_nat n"
    by (simp add: readInfoInt32LE_def unsigned_of_nat take_bit_nat_eq_self)
  show "n < 65536 \<Longrightarrow> readInfoInt32LE (putLE16 n) = of_nat n"
    using le16_putLE16 [of n "[]"] by (simp add: readInfoInt32LE_def)
qed

text \<open>Parsing an info buffer gives back its items, and the flag of how it ended.\<close>

definition enc_items :: "InfoItem list \<Rightarrow> byte list" where
  "enc_items items = concat (map (\<lambda>it. tlv (Tag it) (ItemData it)) items)"

definition item_ok :: "InfoItem \<Rightarrow> bool" where
  "item_ok it \<longleftrightarrow> Tag it \<noteq> IscInfoEnd \<and> Tag it \<noteq> IscInfoTruncated \<and> length (ItemData it) < 65536"

lemma ParseInfoBuffer_tlv:
  assumes "tag \<noteq> IscInfoEnd" and "tag \<noteq> IscInfoTruncated" and "length d < 65536"
  shows "ParseInfoBuffer (tlv tag d @ rest) =
    (let (items, tr) = ParseInfoBuffer rest in (\<lparr>Tag = tag, ItemData = d\<rparr> # items, tr))"
  using assms by (simp add: tlv_def Let_def)

lemma ParseInfoBuffer_items:
  "list_all item_ok items \<Longrightarrow> ParseInfoBuffer (enc_items items @ rest) =
     (let (more, tr) = ParseInfoBuffer rest in (items @ more, tr))"
proof (induction items)
  case (Cons it items)
  then have "item_ok it" and IH: "ParseInfoBuffer (enc_items items @ rest) =
     (let (more, tr) = ParseInfoBuffer rest in (items @ more, tr))" by simp_all
  have it: "\<lparr>Tag = Tag it, ItemData = ItemData it\<rparr> = it" by simp
  from \<open>item_ok it\<close> ParseInfoBuffer_tlv [of "Tag it" "ItemData it" "enc_items items @ rest"]
  have "ParseInfoBuffer (enc_items (it # items) @ rest) =
    (let (more, tr) = ParseInfoBuffer (enc_items items @ rest) in (it # more, tr))"
    unfolding it by (simp add: item_ok_def enc_items_def)
  with IH show ?case by (simp add: Let_def split: prod.splits)
qed (simp add: enc_items_def Let_def split: prod.splits)

section \<open>The describe parser reads back a description\<close>

definition enc_out :: "nat \<Rightarrow> ColumnDescriptor \<Rightarrow> byte list" where
  "enc_out i d = tlv32 IscInfoSQLSQLDASeq (of_nat i) @ tlv32 IscInfoSQLType (SQLType d)
     @ tlv32 IscInfoSQLSubType (SubType d) @ tlv32 IscInfoSQLScale (Scale d) @ tlv32 IscInfoSQLLength (Length d)
     @ tlv32 IscInfoSQLNullInd (if Nullable d then 1 else 0)
     @ tlv IscInfoSQLField (bytes_of_string (FieldName d)) @ tlv IscInfoSQLAlias (bytes_of_string (AliasName d))
     @ [IscInfoSQLDescribeEnd]"

definition enc_in :: "nat \<Rightarrow> ColumnDescriptor \<Rightarrow> byte list" where
  "enc_in i d = tlv32 IscInfoSQLSQLDASeq (of_nat i) @ tlv32 IscInfoSQLType (SQLType d)
     @ tlv32 IscInfoSQLSubType (SubType d) @ tlv32 IscInfoSQLScale (Scale d) @ tlv32 IscInfoSQLLength (Length d)
     @ [IscInfoSQLDescribeEnd]"

fun enc_cols :: "(nat \<Rightarrow> ColumnDescriptor \<Rightarrow> byte list) \<Rightarrow> nat \<Rightarrow> ColumnDescriptor list \<Rightarrow> byte list" where
  "enc_cols enc i [] = []"
| "enc_cols enc i (d # ds) = enc i d @ enc_cols enc (Suc i) ds"

definition out_ok :: "ColumnDescriptor \<Rightarrow> bool" where
  "out_ok d \<longleftrightarrow> RelationName d = [] \<and> OwnerName d = [] \<and> \<not> SubTypeFromNone d
     \<and> length (FieldName d) < 65536 \<and> length (AliasName d) < 65536"

definition in_ok :: "ColumnDescriptor \<Rightarrow> bool" where
  "in_ok d \<longleftrightarrow> RelationName d = [] \<and> OwnerName d = [] \<and> \<not> SubTypeFromNone d
     \<and> FieldName d = [] \<and> AliasName d = [] \<and> \<not> Nullable d"

definition enc_describe :: "int32 \<Rightarrow> ColumnDescriptor list \<Rightarrow> ColumnDescriptor list \<Rightarrow> byte list" where
  "enc_describe ty outs ins = tlv32 IscInfoSQLStmtType ty
     @ [IscInfoSQLSelect] @ tlv32 IscInfoSQLDescribeVars (of_nat (length outs)) @ enc_cols enc_out 1 outs
     @ [IscInfoSQLBind] @ tlv32 IscInfoSQLDescribeVars (of_nat (length ins)) @ enc_cols enc_in 1 ins
     @ [IscInfoEnd]"

definition control_tag :: "byte \<Rightarrow> bool" where
  "control_tag t \<longleftrightarrow> t = IscInfoEnd \<or> t = IscInfoTruncated \<or> t = IscInfoSQLSelect \<or> t = IscInfoSQLBind \<or> t = IscInfoSQLDescribeEnd"

lemma describe_loop_tlv:
  assumes "\<not> control_tag tag" and "length d < 65536"
  shows "describe_loop gc (tlv tag d @ rest) sec cur st =
    (let (cur', st') = describe_item gc tag d sec cur st in describe_loop gc rest sec cur' st')"
  using assms by (simp add: tlv_def describe_loop.simps(2) control_tag_def Let_def)

lemma describe_loop_tlv32:
  assumes "\<not> control_tag tag"
  shows "describe_loop gc (tlv32 tag v @ rest) sec cur st =
    (let (cur', st') = describe_item gc tag (putLE32 v) sec cur st in describe_loop gc rest sec cur' st')"
  using describe_loop_tlv [OF assms, of "putLE32 v"] by (simp add: tlv32_def)

lemma describe_loop_end: "describe_loop gc (IscInfoSQLDescribeEnd # rest) sec cur st =
    describe_loop gc rest sec NoCursor (if cur \<noteq> NoCursor \<and> sec \<noteq> NoSection then inc_done sec st else st)"
  by (simp add: describe_loop.simps(2))

lemma append_one:
  "\<exists>c'. append_until gc (Suc (length cs)) (cs, c) = (cs @ [emptyColumn], c')"
  by (auto simp: append_until.simps [of gc "Suc (length cs)"])

lemma describeCount_of_nat: "0 < n \<Longrightarrow> n \<le> maxSQLDescribeColumns \<Longrightarrow> describeCount (of_nat n) = n"
proof -
  assume n: "0 < n" "n \<le> maxSQLDescribeColumns"
  then have "n < 2 ^ 31" by (simp add: maxSQLDescribeColumns_def)
  then have "sint (of_nat n :: int32) = int n"
    by (simp add: signed_of_nat signed_take_bit_int_eq_self)
  with n show ?thesis by (simp add: describeCount_def)
qed

lemma describeCount_0 [simp]: "describeCount 0 = 0"
  by (simp add: describeCount_def)

text \<open>One complete descriptor appends one column and counts as done.\<close>

lemma upd_new:
  "sec \<noteq> NoSection \<Longrightarrow> upd_column sec (At (length cs)) f (set_list sec (cs @ [x]) c st) = set_list sec (cs @ [f x]) c st"
  by (cases sec) (simp_all add: upd_column_def)

lemma item_eqs:
  "describe_item gc IscInfoSQLType (putLE32 v) sec cur st = (cur, upd_column sec cur (\<lambda>d. d\<lparr>SQLType := v\<rparr>) st)"
  "describe_item gc IscInfoSQLSubType (putLE32 v) sec cur st = (cur, upd_column sec cur (\<lambda>d. d\<lparr>SubType := v\<rparr>) st)"
  "describe_item gc IscInfoSQLScale (putLE32 v) sec cur st = (cur, upd_column sec cur (\<lambda>d. d\<lparr>Scale := v\<rparr>) st)"
  "describe_item gc IscInfoSQLLength (putLE32 v) sec cur st = (cur, upd_column sec cur (\<lambda>d. d\<lparr>Length := v\<rparr>) st)"
  "describe_item gc IscInfoSQLNullInd (putLE32 (if b then 1 else 0)) sec cur st
     = (cur, upd_column sec cur (\<lambda>d. d\<lparr>Nullable := b\<rparr>) st)"
  "describe_item gc IscInfoSQLField (bytes_of_string s) sec cur st = (cur, upd_column sec cur (\<lambda>d. d\<lparr>FieldName := s\<rparr>) st)"
  "describe_item gc IscInfoSQLAlias (bytes_of_string s) sec cur st = (cur, upd_column sec cur (\<lambda>d. d\<lparr>AliasName := s\<rparr>) st)"
  by (simp_all add: describe_item_def)

lemmas column_simps = describe_loop_tlv32 describe_loop_tlv control_tag_def describe_loop_end item_eqs upd_new

lemma describe_seq:
  assumes "sec \<noteq> NoSection" and "sec_list sec st = cs" and "length cs < sec_total sec st" and "sec_total sec st \<le> maxSQLDescribeColumns"
  shows "\<exists>c. describe_item gc IscInfoSQLSQLDASeq (putLE32 (of_nat (Suc (length cs)))) sec cur st
    = (At (length cs), set_list sec (cs @ [emptyColumn]) c st)"
proof -
  have "describeCount (of_nat (Suc (length cs))) = Suc (length cs)"
    by (rule describeCount_of_nat) (use assms in auto)
  moreover obtain c where "append_until gc (Suc (length cs)) (cs, sec_cap sec st) = (cs @ [emptyColumn], c)"
    using append_one by blast
  ultimately show ?thesis using assms by (auto simp: describe_item_def Let_def simp del: of_nat_Suc)
qed

lemma describe_out_column:
  assumes "sec_list Outputs st = cs" and "length cs < sec_total Outputs st" and "sec_total Outputs st \<le> maxSQLDescribeColumns"
    and "out_ok d"
  shows "\<exists>c. describe_loop gc (enc_out (Suc (length cs)) d @ rest) Outputs cur st
    = describe_loop gc rest Outputs NoCursor (inc_done Outputs (set_list Outputs (cs @ [d]) c st))"
proof -
  obtain c where c: "describe_item gc IscInfoSQLSQLDASeq (putLE32 (of_nat (Suc (length cs)))) Outputs cur st
    = (At (length cs), set_list Outputs (cs @ [emptyColumn]) c st)"
    using describe_seq [OF _ assms(1-3)] by blast
  have d: "emptyColumn\<lparr>SQLType := SQLType d, SubType := SubType d, Scale := Scale d, Length := Length d,
     Nullable := Nullable d, FieldName := FieldName d, AliasName := AliasName d\<rparr> = d"
    using assms(4) by (cases d) (simp add: emptyColumn_def out_ok_def)
  have "describe_loop gc (enc_out (Suc (length cs)) d @ rest) Outputs cur st
    = describe_loop gc rest Outputs NoCursor (inc_done Outputs (set_list Outputs (cs @ [d]) c st))"
    using assms(4) d
    by (simp add: enc_out_def column_simps c out_ok_def del: of_nat_Suc inc_done.simps set_list.simps if_distrib)
  then show ?thesis by blast
qed

lemma describe_in_column:
  assumes "sec_list Inputs st = cs" and "length cs < sec_total Inputs st" and "sec_total Inputs st \<le> maxSQLDescribeColumns"
    and "in_ok d"
  shows "\<exists>c. describe_loop gc (enc_in (Suc (length cs)) d @ rest) Inputs cur st
    = describe_loop gc rest Inputs NoCursor (inc_done Inputs (set_list Inputs (cs @ [d]) c st))"
proof -
  obtain c where c: "describe_item gc IscInfoSQLSQLDASeq (putLE32 (of_nat (Suc (length cs)))) Inputs cur st
    = (At (length cs), set_list Inputs (cs @ [emptyColumn]) c st)"
    using describe_seq [OF _ assms(1-3)] by blast
  have d: "emptyColumn\<lparr>SQLType := SQLType d, SubType := SubType d, Scale := Scale d, Length := Length d\<rparr> = d"
    using assms(4) by (cases d) (simp add: emptyColumn_def in_ok_def)
  have "describe_loop gc (enc_in (Suc (length cs)) d @ rest) Inputs cur st
    = describe_loop gc rest Inputs NoCursor (inc_done Inputs (set_list Inputs (cs @ [d]) c st))"
    using d by (simp add: enc_in_def column_simps c del: of_nat_Suc inc_done.simps set_list.simps)
  then show ?thesis by blast
qed

lemma sec_simps [simp]:
  "sec_list sec (inc_done sec' st) = sec_list sec st" "sec_total sec (inc_done sec' st) = sec_total sec st"
  "sec_total sec (set_list sec' cs c st) = sec_total sec st"
  "sec \<noteq> NoSection \<Longrightarrow> sec_list sec (set_list sec cs c st) = cs"
  "set_list sec cs c (set_list sec cs' c' st) = set_list sec cs c st"
  "set_list sec cs c (inc_done sec' st) = inc_done sec' (set_list sec cs c st)"
  "set_list sec (sec_list sec st) (sec_cap sec st) st = st"
  by (cases sec; cases sec'; simp)+

text \<open>A run of complete descriptors, for either section.\<close>

lemma describe_cols:
  assumes step: "\<And>cs st d rest cur. sec_list sec st = cs \<Longrightarrow> length cs < sec_total sec st \<Longrightarrow>
      sec_total sec st \<le> maxSQLDescribeColumns \<Longrightarrow> ok d \<Longrightarrow>
      \<exists>c. describe_loop gc (enc (Suc (length cs)) d @ rest) sec cur st
        = describe_loop gc rest sec NoCursor (inc_done sec (set_list sec (cs @ [d]) c st))"
    and sec: "sec \<noteq> NoSection" and "list_all ok ds" and "sec_list sec st = cs"
    and "length cs + length ds \<le> sec_total sec st" and "sec_total sec st \<le> maxSQLDescribeColumns"
  shows "\<exists>c. describe_loop gc (enc_cols enc (Suc (length cs)) ds @ rest) sec NoCursor st
    = describe_loop gc rest sec NoCursor ((inc_done sec ^^ length ds) (set_list sec (cs @ ds) c st))"
  using assms(3-6)
proof (induction ds arbitrary: cs st)
  case Nil
  then have "describe_loop gc rest sec NoCursor st = describe_loop gc rest sec NoCursor (set_list sec cs (sec_cap sec st) st)"
    by auto
  then show ?case by (intro exI [of _ "sec_cap sec st"]) simp
next
  case (Cons d ds)
  obtain c where c: "describe_loop gc (enc (Suc (length cs)) d @ enc_cols enc (Suc (Suc (length cs))) ds @ rest) sec NoCursor st
    = describe_loop gc (enc_cols enc (Suc (Suc (length cs))) ds @ rest) sec NoCursor (inc_done sec (set_list sec (cs @ [d]) c st))"
    using step [of st cs d "enc_cols enc (Suc (Suc (length cs))) ds @ rest" NoCursor] Cons.prems by auto
  let ?st = "inc_done sec (set_list sec (cs @ [d]) c st)"
  have "\<exists>c'. describe_loop gc (enc_cols enc (Suc (length (cs @ [d]))) ds @ rest) sec NoCursor ?st
    = describe_loop gc rest sec NoCursor ((inc_done sec ^^ length ds) (set_list sec ((cs @ [d]) @ ds) c' ?st))"
    by (rule Cons.IH) (use Cons.prems sec in auto)
  then obtain c' where c': "describe_loop gc (enc_cols enc (Suc (Suc (length cs))) ds @ rest) sec NoCursor ?st
    = describe_loop gc rest sec NoCursor ((inc_done sec ^^ length ds) (set_list sec (cs @ d # ds) c' ?st))" by auto
  have "(inc_done sec ^^ length ds) (set_list sec (cs @ d # ds) c' ?st)
    = (inc_done sec ^^ length (d # ds)) (set_list sec (cs @ d # ds) c' st)"
    by (simp add: funpow_swap1)
  with c c' show ?case by (intro exI [of _ c']) simp
qed

lemma describe_vars:
  assumes "sec \<noteq> NoSection" and "n \<le> maxSQLDescribeColumns" and "sec_list sec st = []"
  shows "\<exists>c. describe_item gc IscInfoSQLDescribeVars (putLE32 (of_nat n)) sec NoCursor st
    = (NoCursor, set_total sec n (set_list sec [] c st))"
proof -
  have st: "set_list sec [] (sec_cap sec st) st = st" using assms(3) sec_simps(7) [of sec st] by simp
  have com: "set_list sec xs c (set_total sec m st) = set_total sec m (set_list sec xs c st)" for xs c m
    by (cases sec) simp_all
  have lst: "sec_list sec (set_total sec m st) = sec_list sec st" for m by (cases sec) simp_all
  have n: "describeCount (of_nat n) = n" using describeCount_of_nat [of n] assms(2) by (cases "n = 0") auto
  show ?thesis
  proof (cases "0 < n \<and> sec_cap sec (set_total sec n st) < n")
    case True
    then show ?thesis using assms n by (auto simp: describe_item_def Let_def com lst)
  next
    case False
    then have "describe_item gc IscInfoSQLDescribeVars (putLE32 (of_nat n)) sec NoCursor st = (NoCursor, set_total sec n st)"
      using assms n by (auto simp: describe_item_def Let_def)
    with st show ?thesis by metis
  qed
qed

lemma inc_done_pow:
  "(inc_done Outputs ^^ k) st = st\<lparr>doneOutputs := doneOutputs st + k\<rparr>"
  "(inc_done Inputs ^^ k) st = st\<lparr>doneInputs := doneInputs st + k\<rparr>"
  by (induction k) simp_all

lemma describe_section:
  assumes step: "\<And>cs st d rest cur. sec_list sec st = cs \<Longrightarrow> length cs < sec_total sec st \<Longrightarrow>
      sec_total sec st \<le> maxSQLDescribeColumns \<Longrightarrow> ok d \<Longrightarrow>
      \<exists>c. describe_loop gc (enc (Suc (length cs)) d @ rest) sec cur st
        = describe_loop gc rest sec NoCursor (inc_done sec (set_list sec (cs @ [d]) c st))"
    and "sec \<noteq> NoSection" and "list_all ok ds" and "sec_list sec st = []" and "length ds \<le> maxSQLDescribeColumns"
  shows "\<exists>c. describe_loop gc (tlv32 IscInfoSQLDescribeVars (of_nat (length ds)) @ enc_cols enc 1 ds @ rest) sec NoCursor st
    = describe_loop gc rest sec NoCursor
        ((inc_done sec ^^ length ds) (set_list sec ds c (set_total sec (length ds) st)))"
proof -
  obtain c where c: "describe_item gc IscInfoSQLDescribeVars (putLE32 (of_nat (length ds))) sec NoCursor st
    = (NoCursor, set_total sec (length ds) (set_list sec [] c st))"
    using describe_vars [OF assms(2,5,4)] by blast
  let ?st = "set_total sec (length ds) (set_list sec [] c st)"
  have st: "sec_list sec ?st = []" "sec_total sec ?st = length ds"
    "set_list sec ds c' ?st = set_list sec ds c' (set_total sec (length ds) st)" for c'
    using assms(2) by (cases sec; simp)+
  have "\<exists>c'. describe_loop gc (enc_cols enc (Suc (length ([] :: ColumnDescriptor list))) ds @ rest) sec NoCursor ?st
    = describe_loop gc rest sec NoCursor ((inc_done sec ^^ length ds) (set_list sec ([] @ ds) c' ?st))"
    by (rule describe_cols [OF step assms(2,3) st(1)]) (use st(2) assms(5) in simp_all)
  then show ?thesis using c st(3) by (auto simp: describe_loop_tlv32 control_tag_def)
qed

text \<open>The description of a statement is read back whole: type, outputs, inputs, and every descriptor
  counted as done.\<close>

lemma describe_all:
  assumes "list_all out_ok outs" and "list_all in_ok ins" and "length outs \<le> maxSQLDescribeColumns"
    and "length ins \<le> maxSQLDescribeColumns"
  shows "\<exists>c c'. parseSQLDescribeChunk gc (enc_describe ty outs ins) emptyDescribeState =
    (False, \<lparr>stmtType = ty, outputs = outs, inputs = ins, numOutputs = length outs, numInputs = length ins,
       doneOutputs = length outs, doneInputs = length ins, capOutputs = c, capInputs = c'\<rparr>)"
proof -
  let ?st0 = "emptyDescribeState\<lparr>stmtType := ty\<rparr>"
  let ?ins = "tlv32 IscInfoSQLDescribeVars (of_nat (length ins)) @ enc_cols enc_in 1 ins @ [IscInfoEnd]"
  have "\<exists>c. describe_loop gc (tlv32 IscInfoSQLDescribeVars (of_nat (length outs)) @ enc_cols enc_out 1 outs
      @ (IscInfoSQLBind # ?ins)) Outputs NoCursor ?st0
    = describe_loop gc (IscInfoSQLBind # ?ins) Outputs NoCursor
        ((inc_done Outputs ^^ length outs) (set_list Outputs outs c (set_total Outputs (length outs) ?st0)))"
    by (rule describe_section [OF describe_out_column]) (use assms in \<open>simp_all add: emptyDescribeState_def\<close>)
  then obtain c where c: "describe_loop gc (tlv32 IscInfoSQLDescribeVars (of_nat (length outs)) @ enc_cols enc_out 1 outs
      @ (IscInfoSQLBind # ?ins)) Outputs NoCursor ?st0
    = describe_loop gc (IscInfoSQLBind # ?ins) Outputs NoCursor
        ((inc_done Outputs ^^ length outs) (set_list Outputs outs c (set_total Outputs (length outs) ?st0)))" by blast
  define st1 where "st1 = (inc_done Outputs ^^ length outs) (set_list Outputs outs c (set_total Outputs (length outs) ?st0))"
  have "sec_list Inputs st1 = []" by (simp add: st1_def inc_done_pow emptyDescribeState_def)
  then have "\<exists>c'. describe_loop gc (tlv32 IscInfoSQLDescribeVars (of_nat (length ins)) @ enc_cols enc_in 1 ins
      @ [IscInfoEnd]) Inputs NoCursor st1
    = describe_loop gc [IscInfoEnd] Inputs NoCursor
        ((inc_done Inputs ^^ length ins) (set_list Inputs ins c' (set_total Inputs (length ins) st1)))"
    by (intro describe_section [OF describe_in_column]) (use assms in simp_all)
  then obtain c' where c': "describe_loop gc ?ins Inputs NoCursor st1
    = describe_loop gc [IscInfoEnd] Inputs NoCursor
        ((inc_done Inputs ^^ length ins) (set_list Inputs ins c' (set_total Inputs (length ins) st1)))" by blast
  have ty: "describe_item gc IscInfoSQLStmtType (putLE32 ty) NoSection NoCursor emptyDescribeState = (NoCursor, ?st0)"
    by (simp add: describe_item_def)
  have "parseSQLDescribeChunk gc (enc_describe ty outs ins) emptyDescribeState
    = describe_loop gc (IscInfoSQLBind # ?ins) Outputs NoCursor st1"
    using c ty by (simp add: parseSQLDescribeChunk_def enc_describe_def describe_loop_tlv32 control_tag_def
        describe_loop.simps(2) [of gc IscInfoSQLSelect] st1_def del: funpow.simps)
  also have "\<dots> = (False, (inc_done Inputs ^^ length ins) (set_list Inputs ins c' (set_total Inputs (length ins) st1)))"
    using c' by (simp add: describe_loop.simps(2) [of gc IscInfoSQLBind] describe_loop.simps(2) [of gc IscInfoEnd] del: funpow.simps)
  finally show ?thesis
    by (intro exI [of _ c] exI [of _ c']) (simp add: inc_done_pow st1_def emptyDescribeState_def)
qed

section \<open>Arbitrary describe buffers\<close>

text \<open>Whatever bytes arrive, neither list outgrows the column limit and the cursor stays inside its list:
  no index panics, no unbounded allocation.\<close>

definition describe_inv :: "dsection \<Rightarrow> dcursor \<Rightarrow> describeState \<Rightarrow> bool" where
  "describe_inv sec cur st \<longleftrightarrow> length (outputs st) \<le> maxSQLDescribeColumns \<and> length (inputs st) \<le> maxSQLDescribeColumns
     \<and> (\<forall>i. cur = At i \<longrightarrow> sec \<noteq> NoSection \<and> i < length (sec_list sec st))"

lemma describeCount_le: "describeCount v \<le> maxSQLDescribeColumns"
  unfolding describeCount_def by (simp, linarith)

lemma append_until_length: "length (fst (append_until gc n (cs, c))) = max n (length cs)"
proof (induction gc n "(cs, c)" arbitrary: cs c rule: append_until.induct)
  case (1 gc n cs c)
  show ?case
  proof (cases "length cs < n")
    case False
    then show ?thesis by (simp add: append_until.simps [of gc n cs c])
  next
    case True
    from "1" [OF True] True show ?thesis by (subst append_until.simps) simp
  qed
qed

lemma describe_inv_upd: "describe_inv sec cur st \<Longrightarrow> describe_inv sec cur (upd_column sec cur f st)"
  by (cases sec; cases cur) (simp_all add: describe_inv_def upd_column_def)

lemma describe_inv_seq:
  assumes "describe_inv sec cur st" and "sec \<noteq> NoSection" and "0 < n" and "n \<le> maxSQLDescribeColumns"
    and "append_until gc n (sec_list sec st, sec_cap sec st) = (cs, c)"
  shows "describe_inv sec (At (n - 1)) (set_list sec cs c st)"
proof -
  have "length cs = max n (length (sec_list sec st))"
    using append_until_length [of gc n "sec_list sec st" "sec_cap sec st"] assms(5) by simp
  moreover have "length (sec_list sec st) \<le> maxSQLDescribeColumns"
    using assms(1,2) by (cases sec) (simp_all add: describe_inv_def)
  ultimately show ?thesis using assms by (cases sec) (auto simp: describe_inv_def)
qed

lemma describe_inv_item:
  assumes "describe_inv sec cur st" and "describe_item gc tag d sec cur st = (cur', st')"
  shows "describe_inv sec cur' st'"
proof -
  have base: "describe_inv sec NoCursor st" "describe_inv sec cur (st\<lparr>stmtType := v\<rparr>)" for v
    using assms(1) by (cases sec; simp add: describe_inv_def)+
  have tot: "describe_inv sec cur (set_total sec n st)"
    "describe_inv sec Detached (set_list sec (sec_list sec (set_total sec n st)) c (set_total sec n st))"
    "describe_inv sec NoCursor (set_list sec (sec_list sec (set_total sec n st)) c (set_total sec n st))" for n c
    using assms(1) by (cases sec; simp add: describe_inv_def)+
  show ?thesis
    using assms base tot describe_inv_upd [OF assms(1)] describe_inv_seq [OF assms(1)] describeCount_le
    by (auto simp: describe_item_def Let_def split: if_splits prod.splits dcursor.splits)
qed

lemma describe_inv_loop:
  "describe_inv sec cur st \<Longrightarrow> describe_loop gc bs sec cur st = (tr, st') \<Longrightarrow> \<exists>sec' cur'. describe_inv sec' cur' st'"
proof (induction gc bs sec cur st rule: describe_loop.induct)
  case (1 gc sec cur st)
  then show ?case by auto
next
  case (2 gc tag rest sec cur st)
  have nc: "describe_inv s NoCursor st" "describe_inv s NoCursor (inc_done sec st)" for s
    using "2.prems"(1) by (cases sec; simp add: describe_inv_def)+
  obtain cur' st1 where it: "describe_item gc tag (take (le16 rest) (drop 2 rest)) sec cur st = (cur', st1)"
    by (cases "describe_item gc tag (take (le16 rest) (drop 2 rest)) sec cur st")
  note inv1 = describe_inv_item [OF "2.prems"(1) it]
  consider "tag = IscInfoEnd \<or> tag = IscInfoTruncated" | "tag = IscInfoSQLSelect" | "tag = IscInfoSQLBind"
    | "tag = IscInfoSQLDescribeEnd" | "\<not> control_tag tag" by (auto simp: control_tag_def)
  then show ?case
  proof cases
    case 1
    then have "st' = st" using "2.prems"(2) by (auto simp: describe_loop.simps(2))
    then show ?thesis using "2.prems"(1) by blast
  next
    case 2
    then show ?thesis using "2.IH"(1) "2.prems" nc by (auto simp: describe_loop.simps(2))
  next
    case 3
    then show ?thesis using "2.IH"(2) "2.prems" nc by (auto simp: describe_loop.simps(2))
  next
    case 4
    then show ?thesis using "2.IH"(3) "2.prems" nc by (auto simp: describe_loop.simps(2))
  next
    case 5
    then have ctl: "tag \<noteq> IscInfoEnd" "tag \<noteq> IscInfoTruncated" "tag \<noteq> IscInfoSQLSelect" "tag \<noteq> IscInfoSQLBind"
      "tag \<noteq> IscInfoSQLDescribeEnd" by (auto simp: control_tag_def)
    show ?thesis
    proof (cases "length rest < 2 \<or> length (drop 2 rest) < le16 rest")
      case True
      then have "st' = st" using "2.prems"(2) ctl by (auto simp: describe_loop.simps(2) Let_def split: if_splits)
      then show ?thesis using "2.prems"(1) by blast
    next
      case False
      then have "describe_loop gc (drop (le16 rest) (drop 2 rest)) sec cur' st1 = (tr, st')"
        using "2.prems"(2) ctl it by (simp add: describe_loop.simps(2) Let_def del: drop_drop)
      with "2.IH"(4) [OF ctl _ refl refl _ it [symmetric] refl inv1] False show ?thesis by blast
    qed
  qed
qed

section \<open>Record counts read back\<close>

definition enc_counts :: "recordCounts \<Rightarrow> byte list" where
  "enc_counts rc = tlv IscInfoSQLRecords
     (tlv32 IscInfoReqSelectCount (ucast (selectCount rc)) @ tlv32 IscInfoReqInsertCount (ucast (insertCount rc))
      @ tlv32 IscInfoReqUpdateCount (ucast (updateCount rc)) @ tlv32 IscInfoReqDeleteCount (ucast (deleteCount rc))
      @ [IscInfoEnd])"

text \<open>A count travels in 32 bits and is sign-extended.\<close>

definition count_ok :: "int64 \<Rightarrow> bool" where
  "count_ok v \<longleftrightarrow> scast (ucast v :: int32) = v"

lemma parseRecordCountItems_tlv32:
  "\<not> is_info_stop tag \<Longrightarrow>
     parseRecordCountItems (tlv32 tag v @ rest) rc = parseRecordCountItems rest (set_count tag (scast v) rc)"
  by (simp add: tlv32_def tlv_def Let_def)

lemma ParseRecordCounts_tlv:
  "length d < 65536 \<Longrightarrow> ParseRecordCounts (tlv IscInfoSQLRecords d @ rest) = parseRecordCountItems d zeroCounts"
  by (simp add: tlv_def Let_def is_info_stop_def)

lemma ParseRecordCounts_enc:
  assumes "count_ok (selectCount rc)" and "count_ok (insertCount rc)" and "count_ok (updateCount rc)"
    and "count_ok (deleteCount rc)"
  shows "ParseRecordCounts (enc_counts rc @ rest) = rc"
proof -
  have len: "length (tlv32 t v) = 7" for t v by (simp add: tlv32_def tlv_def)
  note cs = assms [unfolded count_ok_def]
  show ?thesis
    unfolding enc_counts_def
    by (subst ParseRecordCounts_tlv)
      (simp_all add: len parseRecordCountItems_tlv32 is_info_stop_def set_count_def zeroCounts_def cs)
qed

end
