(* ===== verification/Blr.thy ===== *)
theory Blr
  imports Info
begin

text \<open>
  Message descriptions in BLR (\<^verbatim>\<open>internal/wire/blr.go\<close>).  The BLR tells the server how rows and
  parameters are laid out; the reference is a parser of that language, and the generated buffer is
  parsed to exactly one field description and one null indicator per column.
\<close>

section \<open>Generation\<close>

text \<open>\<open>baseType\<close> strips the nullable flag, \<^verbatim>\<open>t & ^int32(1)\<close>.\<close>

definition baseType :: "int32 \<Rightarrow> int32" where
  "baseType t = t AND NOT 1"

definition charsetID :: "ColumnDescriptor \<Rightarrow> int32" where
  "charsetID desc = SubType desc AND 0xFF"

definition wireCharset :: "ColumnDescriptor \<Rightarrow> int32" where
  "wireCharset desc = (if SubTypeFromNone desc then 0 else charsetID desc)"

definition lo8 :: "int32 \<Rightarrow> byte" where "lo8 v = ucast v"
definition hi8 :: "int32 \<Rightarrow> byte" where "hi8 v = ucast (drop_bit 8 v)"

definition appendBLRType :: "byte list \<Rightarrow> ColumnDescriptor \<Rightarrow> byte list" where
  "appendBLRType buf desc =
     (let sqlType = baseType (SQLType desc) in
      if sqlType = SQLShort then buf @ [BlrShort, lo8 (Scale desc)]
      else if sqlType = SQLLong then buf @ [BlrLong, lo8 (Scale desc)]
      else if sqlType = SQLInt64 then buf @ [BlrInt64, lo8 (Scale desc)]
      else if sqlType = SQLInt128 then buf @ [BlrInt128, lo8 (Scale desc)]
      else if sqlType = SQLFloat then buf @ [BlrFloat]
      else if sqlType = SQLDouble then buf @ [BlrDouble]
      else if sqlType = SQLText then
        buf @ [BlrText2, lo8 (wireCharset desc), hi8 (wireCharset desc), lo8 (Length desc), hi8 (Length desc)]
      else if sqlType = SQLVarying then
        buf @ [BlrVarying2, lo8 (wireCharset desc), hi8 (wireCharset desc), lo8 (Length desc), hi8 (Length desc)]
      else if sqlType = SQLBoolean then buf @ [BlrBool]
      else if sqlType = SQLTypeDate then buf @ [BlrSQLDate]
      else if sqlType = SQLTypeTime then buf @ [BlrSQLTime]
      else if sqlType = SQLTimestamp then buf @ [BlrTimestamp]
      else if sqlType = SQLTimeTZ \<or> sqlType = SQLTimeTZEx then buf @ [BlrExTimeTZ]
      else if sqlType = SQLTimestampTZ \<or> sqlType = SQLTimestampTZEx then buf @ [BlrExTimestampTZ]
      else if sqlType = SQLDec16 then buf @ [BlrDec64]
      else if sqlType = SQLDec34 then buf @ [BlrDec128]
      else if sqlType = SQLBlob then buf @ [BlrBlob2, lo8 (SubType desc), hi8 (SubType desc), 0, 0]
      else if sqlType = SQLNull then buf @ [BlrText, 0, 0]
      else buf @ [BlrVarying2, 0, 0, lo8 (Length desc), hi8 (Length desc)])"

definition appendVaryingUTF8BLR :: "byte list \<Rightarrow> int32 \<Rightarrow> byte list" where
  "appendVaryingUTF8BLR buf len = buf @ [BlrVarying2, lo8 4, hi8 4, lo8 len, hi8 len]"

definition appendParamBLRType :: "byte list \<Rightarrow> ColumnDescriptor \<Rightarrow> byte list" where
  "appendParamBLRType buf desc =
     (let sqlType = baseType (SQLType desc) in
      if sqlType = SQLDec16 then appendVaryingUTF8BLR buf 64
      else if sqlType = SQLDec34 then appendVaryingUTF8BLR buf 128
      else appendBLRType buf desc)"

definition AppendBLR :: "byte list \<Rightarrow> ColumnDescriptor list \<Rightarrow> byte list" where
  "AppendBLR dst descs =
     (let paramCount = length descs * 2;
          dst1 = dst @ [BlrVersion5, BlrBegin, BlrMessage, 0] @ [of_nat paramCount, of_nat (paramCount div 256)];
          dst2 = foldl (\<lambda>d desc. appendBLRType d desc @ [BlrShort, 0]) dst1 descs
      in dst2 @ [BlrEnd, BlrEOC])"

definition BuildBLR :: "ColumnDescriptor list \<Rightarrow> byte list" where
  "BuildBLR descs = AppendBLR [] descs"

definition BuildParamBLR :: "ColumnDescriptor list \<Rightarrow> byte list" where
  "BuildParamBLR descs =
     (let paramCount = length descs * 2;
          dst1 = [BlrVersion5, BlrBegin, BlrMessage, 0] @ [of_nat paramCount, of_nat (paramCount div 256)];
          dst2 = foldl (\<lambda>d desc. appendParamBLRType d desc @ [BlrShort, 0]) dst1 descs
      in dst2 @ [BlrEnd, BlrEOC])"

definition IOLength :: "int32 \<Rightarrow> int32 \<Rightarrow> int" where
  "IOLength sqlType len =
     (let t = baseType sqlType in
      if t \<in> {SQLShort, SQLLong, SQLFloat, SQLTypeDate, SQLTypeTime} then - 4
      else if t \<in> {SQLDouble, SQLTimestamp, SQLBlob, SQLArray, SQLInt64, SQLDec16, SQLTimeTZ} then - 8
      else if t \<in> {SQLTimestampTZ, SQLTimeTZEx} then - 12
      else if t \<in> {SQLTimestampTZEx, SQLDec34, SQLInt128} then - 16
      else if t = SQLText then sint len + 1
      else if t = SQLVarying then 0
      else if t = SQLBoolean then 2
      else 0)"

section \<open>The BLR language\<close>

text \<open>Field descriptions of a BLR message: the exact numeric types carry a scale, the text types a
  character set and a length.\<close>

datatype blr_type =
    BNum byte byte
  | BPlain byte
  | BChars byte nat nat
  | BBlob nat byte byte
  | BTextLen nat

fun parse_type :: "byte list \<Rightarrow> (blr_type \<times> byte list) option" where
  "parse_type [] = None"
| "parse_type (op # bs) =
     (if op \<in> {BlrShort, BlrLong, BlrInt64, BlrInt128} then
        (case bs of sc # rest \<Rightarrow> Some (BNum op sc, rest) | _ \<Rightarrow> None)
      else if op \<in> {BlrFloat, BlrDouble, BlrBool, BlrSQLDate, BlrSQLTime, BlrTimestamp, BlrExTimeTZ,
          BlrExTimestampTZ, BlrDec64, BlrDec128} then Some (BPlain op, bs)
      else if op = BlrText2 \<or> op = BlrVarying2 then
        (case bs of c0 # c1 # l0 # l1 # rest \<Rightarrow> Some (BChars op (le16 [c0, c1]) (le16 [l0, l1]), rest) | _ \<Rightarrow> None)
      else if op = BlrBlob2 then
        (case bs of s0 # s1 # cs # coll # rest \<Rightarrow> Some (BBlob (le16 [s0, s1]) cs coll, rest) | _ \<Rightarrow> None)
      else if op = BlrText then
        (case bs of l0 # l1 # rest \<Rightarrow> Some (BTextLen (le16 [l0, l1]), rest) | _ \<Rightarrow> None)
      else None)"

fun parse_types :: "nat \<Rightarrow> byte list \<Rightarrow> (blr_type list \<times> byte list) option" where
  "parse_types 0 bs = Some ([], bs)"
| "parse_types (Suc n) bs = (case parse_type bs of None \<Rightarrow> None
     | Some (t, rest) \<Rightarrow> (case parse_types n rest of None \<Rightarrow> None | Some (ts, rest') \<Rightarrow> Some (t # ts, rest')))"

definition parse_message :: "byte list \<Rightarrow> blr_type list option" where
  "parse_message bs = (case bs of
      v # b # m # n # c0 # c1 # rest \<Rightarrow>
        if v = BlrVersion5 \<and> b = BlrBegin \<and> m = BlrMessage \<and> n = 0 then
          (case parse_types (le16 [c0, c1]) rest of
             Some (ts, [e, eoc]) \<Rightarrow> if e = BlrEnd \<and> eoc = BlrEOC then Some ts else None
           | _ \<Rightarrow> None)
        else None
    | _ \<Rightarrow> None)"

text \<open>The field a column asks for.\<close>

definition int16 :: "int32 \<Rightarrow> nat" where "int16 v = le16 [lo8 v, hi8 v]"

definition column_type :: "ColumnDescriptor \<Rightarrow> blr_type" where
  "column_type desc =
     (let t = baseType (SQLType desc) in
      if t = SQLShort then BNum BlrShort (lo8 (Scale desc))
      else if t = SQLLong then BNum BlrLong (lo8 (Scale desc))
      else if t = SQLInt64 then BNum BlrInt64 (lo8 (Scale desc))
      else if t = SQLInt128 then BNum BlrInt128 (lo8 (Scale desc))
      else if t = SQLFloat then BPlain BlrFloat
      else if t = SQLDouble then BPlain BlrDouble
      else if t = SQLText then BChars BlrText2 (int16 (wireCharset desc)) (int16 (Length desc))
      else if t = SQLVarying then BChars BlrVarying2 (int16 (wireCharset desc)) (int16 (Length desc))
      else if t = SQLBoolean then BPlain BlrBool
      else if t = SQLTypeDate then BPlain BlrSQLDate
      else if t = SQLTypeTime then BPlain BlrSQLTime
      else if t = SQLTimestamp then BPlain BlrTimestamp
      else if t = SQLTimeTZ \<or> t = SQLTimeTZEx then BPlain BlrExTimeTZ
      else if t = SQLTimestampTZ \<or> t = SQLTimestampTZEx then BPlain BlrExTimestampTZ
      else if t = SQLDec16 then BPlain BlrDec64
      else if t = SQLDec34 then BPlain BlrDec128
      else if t = SQLBlob then BBlob (int16 (SubType desc)) 0 0
      else if t = SQLNull then BTextLen 0
      else BChars BlrVarying2 0 (int16 (Length desc)))"

text \<open>Parameters differ in the decimal floating types, which travel as UTF-8 text.\<close>

definition param_type :: "ColumnDescriptor \<Rightarrow> blr_type" where
  "param_type desc =
     (if baseType (SQLType desc) = SQLDec16 then BChars BlrVarying2 4 64
      else if baseType (SQLType desc) = SQLDec34 then BChars BlrVarying2 4 128
      else column_type desc)"

definition encodes :: "byte list \<Rightarrow> blr_type \<Rightarrow> bool" where
  "encodes bs t \<longleftrightarrow> (\<forall>rest. parse_type (bs @ rest) = Some (t, rest))"

lemma encodes_if: "encodes a t \<Longrightarrow> encodes b u \<Longrightarrow> encodes (if c then a else b) (if c then t else u)"
  by simp

lemma encodes_base:
  "op \<in> {BlrShort, BlrLong, BlrInt64, BlrInt128} \<Longrightarrow> encodes [op, sc] (BNum op sc)"
  "op \<in> {BlrFloat, BlrDouble, BlrBool, BlrSQLDate, BlrSQLTime, BlrTimestamp, BlrExTimeTZ,
     BlrExTimestampTZ, BlrDec64, BlrDec128} \<Longrightarrow> encodes [op] (BPlain op)"
  "op = BlrText2 \<or> op = BlrVarying2 \<Longrightarrow> encodes [op, lo8 c, hi8 c, lo8 l, hi8 l] (BChars op (int16 c) (int16 l))"
  "op = BlrText2 \<or> op = BlrVarying2 \<Longrightarrow> encodes [op, 0, 0, lo8 l, hi8 l] (BChars op 0 (int16 l))"
  "encodes [BlrBlob2, lo8 c, hi8 c, 0, 0] (BBlob (int16 c) 0 0)"
  "encodes [BlrText, 0, 0] (BTextLen 0)"
  by (auto simp: encodes_def int16_def le16_def)

lemma encodes_column: "encodes (appendBLRType [] desc) (column_type desc)"
  unfolding appendBLRType_def column_type_def Let_def append_Nil
  by (intro encodes_if; rule encodes_base; simp)

lemma encodes_param: "encodes (appendParamBLRType [] desc) (param_type desc)"
proof -
  have n: "int16 4 = 4" "int16 64 = 64" "int16 128 = 128" by (simp_all add: int16_def le16_def lo8_def hi8_def)
  have v: "encodes (appendVaryingUTF8BLR [] l) (BChars BlrVarying2 (int16 4) (int16 l))" for l
    using encodes_base(3) [of BlrVarying2 4 l] by (simp add: appendVaryingUTF8BLR_def)
  show ?thesis
    unfolding appendParamBLRType_def param_type_def Let_def
    by (intro encodes_if encodes_column) (use v [of 64] v [of 128] n in simp_all)
qed

lemma append_if: "x = buf @ y \<Longrightarrow> u = buf @ v \<Longrightarrow> (if c then x else u) = buf @ (if c then y else v)"
  by simp

lemma appendBLRType_append: "appendBLRType buf desc = buf @ appendBLRType [] desc"
  unfolding appendBLRType_def Let_def append_Nil by (intro append_if refl)

lemma appendParamBLRType_append: "appendParamBLRType buf desc = buf @ appendParamBLRType [] desc"
  using appendBLRType_append [of buf desc]
  unfolding appendParamBLRType_def appendVaryingUTF8BLR_def Let_def append_Nil by (intro append_if refl)

lemma fold_fields:
  assumes "\<And>b d. app b d = b @ app [] d"
  shows "foldl (\<lambda>d desc. app d desc @ [BlrShort, 0]) dst descs
    = dst @ concat (map (\<lambda>desc. app [] desc @ [BlrShort, 0]) descs)"
proof (induction descs arbitrary: dst)
  case (Cons d ds)
  have "foldl (\<lambda>d desc. app d desc @ [BlrShort, 0]) dst (d # ds)
    = foldl (\<lambda>d desc. app d desc @ [BlrShort, 0]) (dst @ app [] d @ [BlrShort, 0]) ds"
    by (subst foldl_Cons, subst assms) simp
  then show ?case by (simp only: Cons.IH) simp
qed simp

text \<open>Every column's field is followed by its null indicator.\<close>

definition with_nulls :: "blr_type list \<Rightarrow> blr_type list" where
  "with_nulls ts = concat (map (\<lambda>t. [t, BNum BlrShort 0]) ts)"

lemma parse_fields:
  assumes "\<And>d. encodes (app d) (ty d)"
  shows "parse_types (2 * length descs) (concat (map (\<lambda>desc. app desc @ [BlrShort, 0]) descs) @ rest)
    = Some (with_nulls (map ty descs), rest)"
proof -
  have "parse_type (app d @ zs) = Some (ty d, zs)" for d zs using assms by (simp add: encodes_def)
  then show ?thesis by (induction descs) (simp_all add: with_nulls_def)
qed

lemma parse_message_fields:
  assumes "\<And>d. encodes (app d) (ty d)" and "length descs \<le> maxSQLDescribeColumns"
  shows "parse_message ([BlrVersion5, BlrBegin, BlrMessage, 0, of_nat (length descs * 2), of_nat (length descs * 2 div 256)]
      @ concat (map (\<lambda>desc. app desc @ [BlrShort, 0]) descs) @ [BlrEnd, BlrEOC])
    = Some (with_nulls (map ty descs))"
proof -
  have "le16 [of_nat (length descs * 2), of_nat (length descs * 2 div 256)] = 2 * length descs"
    using le16_putLE16 [of "length descs * 2" "[]"] assms(2)
    by (simp add: putLE16_def mult.commute maxSQLDescribeColumns_def)
  then show ?thesis using parse_fields [of app ty descs "[BlrEnd, BlrEOC]", OF assms(1)]
    by (simp add: parse_message_def)
qed

lemma parse_BuildBLR:
  "length descs \<le> maxSQLDescribeColumns \<Longrightarrow>
     parse_message (BuildBLR descs) = Some (with_nulls (map column_type descs))"
  using parse_message_fields [of "appendBLRType []" column_type descs, OF encodes_column]
  by (simp add: BuildBLR_def AppendBLR_def Let_def fold_fields [of appendBLRType, OF appendBLRType_append])

lemma parse_BuildParamBLR:
  "length descs \<le> maxSQLDescribeColumns \<Longrightarrow>
     parse_message (BuildParamBLR descs) = Some (with_nulls (map param_type descs))"
  using parse_message_fields [of "appendParamBLRType []" param_type descs, OF encodes_param]
  by (simp add: BuildParamBLR_def Let_def fold_fields [of appendParamBLRType, OF appendParamBLRType_append])

text \<open>The reinterpretation of NONE columns stays on the client: it never changes the requested field.\<close>

lemma lo8_hi8_0 [simp]: "lo8 0 = 0" "hi8 0 = 0"
  by (simp_all add: lo8_def hi8_def)

lemma appendBLRType_from_none:
  assumes "baseType (SQLType desc) = SQLText \<or> baseType (SQLType desc) = SQLVarying"
  shows "appendBLRType [] (desc\<lparr>SubType := cs, SubTypeFromNone := True\<rparr>)
    = appendBLRType [] (desc\<lparr>SubType := 0, SubTypeFromNone := False\<rparr>)"
  using assms by (auto simp: appendBLRType_def Let_def wireCharset_def charsetID_def)

end
