(* ===== verification/Numeric.thy ===== *)
theory Numeric
  imports Errors Datetime
begin

text \<open>
  Parameter values and their numeric conversions: \<^verbatim>\<open>internal/wire/types_numeric.go\<close> and
  \<^verbatim>\<open>internal/wire/types_int128.go\<close>.  A Go \<^verbatim>\<open>any\<close> is the sum of the dynamic types the code
  distinguishes; \<^verbatim>\<open>big.Int\<close> is \<open>int\<close>, and \<^verbatim>\<open>int64\<close>/\<^verbatim>\<open>int\<close> arithmetic that can wrap is written with
  \<open>wrap64\<close>.  A float is its IEEE bit pattern; the conversions between floats, integers and text are
  those of the Go runtime and of \<^verbatim>\<open>strconv\<close>, kept as the fields of the parameter \<open>golib\<close>, together with
  \<^verbatim>\<open>fmt\<close>'s \<^verbatim>\<open>%v\<close>.
\<close>

section \<open>Values\<close>

datatype gval =
    VNil
  | VInt int64 | VInt8 "8 word" | VInt16 "16 word" | VInt32 int32 | VInt64 int64
  | VUint uint64 | VUint8 "8 word" | VUint16 "16 word" | VUint32 uint32 | VUint64 uint64
  | VFloat32 uint32 | VFloat64 uint64
  | VBool bool
  | VString string
  | VBytes "byte list"
  | VTime gtime
  | VOther string

record golib =
  fmt_f :: "gval \<Rightarrow> string"
  fmt_g :: "gval \<Rightarrow> string"
  sprintV :: "gval \<Rightarrow> string"
  float_to_int64 :: "gval \<Rightarrow> int64"
  float64_of :: "gval \<Rightarrow> uint64"
  float32_of :: "uint64 \<Rightarrow> uint32"
  parseFloat :: "string \<Rightarrow> uint64 option"

fun type_name :: "gval \<Rightarrow> string" where
  "type_name VNil = ''<nil>''"
| "type_name (VInt _) = ''int''" | "type_name (VInt8 _) = ''int8''" | "type_name (VInt16 _) = ''int16''"
| "type_name (VInt32 _) = ''int32''" | "type_name (VInt64 _) = ''int64''" | "type_name (VUint _) = ''uint''"
| "type_name (VUint8 _) = ''uint8''" | "type_name (VUint16 _) = ''uint16''" | "type_name (VUint32 _) = ''uint32''"
| "type_name (VUint64 _) = ''uint64''" | "type_name (VFloat32 _) = ''float32''" | "type_name (VFloat64 _) = ''float64''"
| "type_name (VBool _) = ''bool''" | "type_name (VString _) = ''string''" | "type_name (VBytes _) = ''[]uint8''"
| "type_name (VTime _) = ''time.Time''" | "type_name (VOther t) = t"

text \<open>The value of an integral dynamic type, \<open>None\<close> for the other types.\<close>

fun integral :: "gval \<Rightarrow> int option" where
  "integral (VInt v) = Some (sint v)" | "integral (VInt8 v) = Some (sint v)" | "integral (VInt16 v) = Some (sint v)"
| "integral (VInt32 v) = Some (sint v)" | "integral (VInt64 v) = Some (sint v)" | "integral (VUint v) = Some (uint v)"
| "integral (VUint8 v) = Some (uint v)" | "integral (VUint16 v) = Some (uint v)" | "integral (VUint32 v) = Some (uint v)"
| "integral (VUint64 v) = Some (uint v)" | "integral _ = None"

definition wrap64 :: "int \<Rightarrow> int" where
  "wrap64 x = sint (of_int x :: int64)"

abbreviation (input) minInt16 :: int where "minInt16 \<equiv> - (2 ^ 15)"
abbreviation (input) maxInt16 :: int where "maxInt16 \<equiv> 2 ^ 15 - 1"
abbreviation (input) minInt32 :: int where "minInt32 \<equiv> - (2 ^ 31)"
abbreviation (input) maxInt32 :: int where "maxInt32 \<equiv> 2 ^ 31 - 1"
abbreviation (input) minInt64 :: int where "minInt64 \<equiv> - (2 ^ 63)"
abbreviation (input) maxInt64 :: int where "maxInt64 \<equiv> 2 ^ 63 - 1"

definition is_int64 :: "int \<Rightarrow> bool" where
  "is_int64 v \<longleftrightarrow> minInt64 \<le> v \<and> v \<le> maxInt64"

section \<open>Scaled integers\<close>

definition errInvalidDecimal :: gerr where "errInvalidDecimal = Msg ''invalid decimal value''"

definition overflow_text :: "string \<Rightarrow> int32 \<Rightarrow> gerr" where
  "overflow_text s scale = Msg (''firebird: numeric value '' @ s @ '' overflows scale '' @ formatInt (sint scale))"

definition numericOverflow :: "golib \<Rightarrow> gval \<Rightarrow> int32 \<Rightarrow> gerr" where
  "numericOverflow lib v scale = overflow_text (sprintV lib v) scale"

text \<open>The loop \<^verbatim>\<open>for i := 0; i > scale; i--\<close> runs \<^verbatim>\<open>-scale\<close> times.\<close>

fun scale_loop :: "nat \<Rightarrow> int32 \<Rightarrow> int \<Rightarrow> gerr + int" where
  "scale_loop 0 scale v = Inr v"
| "scale_loop (Suc k) scale v =
     (if v > go_quot maxInt64 10 \<or> v < go_quot minInt64 10 then Inl (overflow_text (formatInt v) scale)
      else scale_loop k scale (wrap64 (v * 10)))"

definition scaleIntegralInt64 :: "int \<Rightarrow> int32 \<Rightarrow> gerr + int" where
  "scaleIntegralInt64 v scale = (if sint scale \<ge> 0 then Inr v else scale_loop (nat (- sint scale)) scale v)"

section \<open>Decimal text\<close>

fun dec_mantissa :: "string \<Rightarrow> bool \<Rightarrow> string \<Rightarrow> int \<Rightarrow> gerr + (string \<times> int \<times> string)" where
  "dec_mantissa [] seenDot digits frac = Inr (digits, frac, [])"
| "dec_mantissa (ch # s) seenDot digits frac =
     (if is_digit ch then dec_mantissa s seenDot (digits @ [ch]) (if seenDot then frac + 1 else frac)
      else if ch = CHR ''.'' then
        (if seenDot then Inl errInvalidDecimal else dec_mantissa s True digits frac)
      else Inr (digits, frac, ch # s))"

definition atoi_error :: "string \<Rightarrow> gerr" where
  "atoi_error s = Msg (''strconv.Atoi: parsing '' @ [CHR 0x22] @ s @ [CHR 0x22] @ '': value out of range'')"

text \<open>The optional exponent: \<^verbatim>\<open>exp\<close> and what follows it.\<close>

definition dec_exponent :: "int \<Rightarrow> string \<Rightarrow> gerr + (int \<times> string)" where
  "dec_exponent exp s =
     (case s of
        [] \<Rightarrow> Inr (exp, s)
      | e # t \<Rightarrow>
          if e = CHR ''e'' \<or> e = CHR ''E'' then
            (let sgn = (case t of c # _ \<Rightarrow> if c = CHR ''+'' \<or> c = CHR ''-'' then [c] else [] | [] \<Rightarrow> []);
                 u = drop (length sgn) t; ds = takeWhile is_digit u; rest = dropWhile is_digit u in
             if ds = [] then Inl errInvalidDecimal
             else case atoi (sgn @ ds) of
                 None \<Rightarrow> Inl (atoi_error (sgn @ ds))
               | Some x \<Rightarrow> Inr (wrap64 (exp + x), rest))
          else Inr (exp, s))"

fun strip_zeros :: "string \<Rightarrow> string" where
  "strip_zeros (d # e # ds) = (if d = CHR ''0'' then strip_zeros (e # ds) else d # e # ds)"
| "strip_zeros ds = ds"

definition parseDecimalStringStrict :: "string \<Rightarrow> gerr + (bool \<times> string \<times> int)" where
  "parseDecimalStringStrict s0 =
     (let s = trimSpace s0 in
      if s = [] then Inl errInvalidDecimal
      else let negative = (hd s = CHR ''-''); t = (if hd s = CHR ''-'' \<or> hd s = CHR ''+'' then tl s else s) in
        if t = [] then Inl errInvalidDecimal
        else case dec_mantissa t False [] 0 of
            Inl e \<Rightarrow> Inl e
          | Inr (digits, frac, rest) \<Rightarrow>
              if digits = [] then Inl errInvalidDecimal
              else case dec_exponent (- frac) rest of
                  Inl e \<Rightarrow> Inl e
                | Inr (exp, rest') \<Rightarrow>
                    if rest' \<noteq> [] then Inl errInvalidDecimal else Inr (negative, strip_zeros digits, exp))"

definition pow10Big :: "int \<Rightarrow> int" where
  "pow10Big n = (if n \<le> 0 then 1 else 10 ^ nat n)"

definition decimalStringToScaledBigInt :: "string \<Rightarrow> int32 \<Rightarrow> gerr + int" where
  "decimalStringToScaledBigInt s scale =
     (case parseDecimalStringStrict s of
        Inl e \<Rightarrow> Inl e
      | Inr (negative, digits, exp) \<Rightarrow>
          let coeff = int (digits_val digits); shift = wrap64 (exp - sint scale) in
          if shift > 128 \<and> coeff \<noteq> 0 then Inl (overflow_text s scale)
          else let c = (if shift \<ge> 0 then coeff * pow10Big shift
                        else let divisor = pow10Big (wrap64 (- shift));
                                 quotient = go_quot coeff divisor; remainder = go_rem coeff divisor
                             in if remainder * 2 \<ge> divisor then quotient + 1 else quotient)
               in Inr (if negative \<and> c \<noteq> 0 then - c else c))"

definition decimalStringToScaledInt64 :: "string \<Rightarrow> int32 \<Rightarrow> gerr + int" where
  "decimalStringToScaledInt64 s scale =
     (case decimalStringToScaledBigInt s scale of
        Inl e \<Rightarrow> Inl e
      | Inr v \<Rightarrow> if \<not> is_int64 v then Inl (overflow_text s scale) else Inr v)"

definition cannot_convert :: "gval \<Rightarrow> string \<Rightarrow> gerr" where
  "cannot_convert v to = Msg (''firebird: cannot convert '' @ type_name v @ '' to '' @ to)"

fun numericInt64 :: "golib \<Rightarrow> gval \<Rightarrow> int32 \<Rightarrow> gerr + int" where
  "numericInt64 lib (VInt x) scale = scaleIntegralInt64 (sint x) scale"
| "numericInt64 lib (VInt8 x) scale = scaleIntegralInt64 (sint x) scale"
| "numericInt64 lib (VInt16 x) scale = scaleIntegralInt64 (sint x) scale"
| "numericInt64 lib (VInt32 x) scale = scaleIntegralInt64 (sint x) scale"
| "numericInt64 lib (VInt64 x) scale = scaleIntegralInt64 (sint x) scale"
| "numericInt64 lib (VUint x) scale =
     (if uint x > maxInt64 then Inl (numericOverflow lib (VUint x) scale) else scaleIntegralInt64 (uint x) scale)"
| "numericInt64 lib (VUint8 x) scale = scaleIntegralInt64 (uint x) scale"
| "numericInt64 lib (VUint16 x) scale = scaleIntegralInt64 (uint x) scale"
| "numericInt64 lib (VUint32 x) scale = scaleIntegralInt64 (uint x) scale"
| "numericInt64 lib (VUint64 x) scale =
     (if uint x > maxInt64 then Inl (numericOverflow lib (VUint64 x) scale) else scaleIntegralInt64 (uint x) scale)"
| "numericInt64 lib (VFloat32 x) scale = decimalStringToScaledInt64 (fmt_f lib (VFloat32 x)) scale"
| "numericInt64 lib (VFloat64 x) scale = decimalStringToScaledInt64 (fmt_f lib (VFloat64 x)) scale"
| "numericInt64 lib (VBool x) scale = (if x then scaleIntegralInt64 1 scale else Inr 0)"
| "numericInt64 lib (VString s) scale = decimalStringToScaledInt64 s scale"
| "numericInt64 lib (VBytes b) scale = decimalStringToScaledInt64 (string_of_bytes b) scale"
| "numericInt64 lib v scale = Inl (cannot_convert v ''numeric'')"

section \<open>Other conversions\<close>

fun toInt64 :: "golib \<Rightarrow> gval \<Rightarrow> int64" where
  "toInt64 lib (VInt x) = x" | "toInt64 lib (VInt8 x) = scast x" | "toInt64 lib (VInt16 x) = scast x"
| "toInt64 lib (VInt32 x) = scast x" | "toInt64 lib (VInt64 x) = x" | "toInt64 lib (VUint x) = x"
| "toInt64 lib (VUint8 x) = ucast x" | "toInt64 lib (VUint16 x) = ucast x" | "toInt64 lib (VUint32 x) = ucast x"
| "toInt64 lib (VUint64 x) = x" | "toInt64 lib (VFloat32 x) = float_to_int64 lib (VFloat32 x)"
| "toInt64 lib (VFloat64 x) = float_to_int64 lib (VFloat64 x)" | "toInt64 lib (VBool x) = (if x then 1 else 0)"
| "toInt64 lib _ = 0"

fun floatValue :: "golib \<Rightarrow> gval \<Rightarrow> gerr + uint64" where
  "floatValue lib (VFloat32 x) = Inr (float64_of lib (VFloat32 x))"
| "floatValue lib (VFloat64 x) = Inr x"
| "floatValue lib (VInt x) = Inr (float64_of lib (VInt x))"
| "floatValue lib (VInt32 x) = Inr (float64_of lib (VInt32 x))"
| "floatValue lib (VInt64 x) = Inr (float64_of lib (VInt64 x))"
| "floatValue lib (VString s) = (case parseFloat lib s of
      None \<Rightarrow> Inl (Msg (''firebird: cannot convert string '' @ [CHR 0x22] @ s @ [CHR 0x22] @ '' to FLOAT/DOUBLE parameter''))
    | Some f \<Rightarrow> Inr f)"
| "floatValue lib v = Inl (Msg (''firebird: unsupported type '' @ type_name v @ '' for FLOAT/DOUBLE parameter''))"

fun toBool :: "gval \<Rightarrow> bool" where
  "toBool (VBool x) = x"
| "toBool (VInt x) = (x \<noteq> 0)"
| "toBool (VInt64 x) = (x \<noteq> 0)"
| "toBool (VString x) = (x \<noteq> [] \<and> x \<noteq> ''0'' \<and> x \<noteq> ''false'')"
| "toBool _ = False"

fun timeValue :: "gval \<Rightarrow> gerr + gtime" where
  "timeValue (VTime t) = Inr t"
| "timeValue v = Inl (Msg (''firebird: unsupported type '' @ type_name v @ '' for DATE/TIME/TIMESTAMP parameter''))"

definition boolWireValue :: "bool \<Rightarrow> uint32" where
  "boolWireValue v = (if v then push_bit 24 1 else 0)"

fun toString :: "golib \<Rightarrow> gval \<Rightarrow> string" where
  "toString lib (VString x) = x"
| "toString lib (VBytes b) = string_of_bytes b"
| "toString lib (VInt x) = formatInt (sint x)" | "toString lib (VInt8 x) = formatInt (sint x)"
| "toString lib (VInt16 x) = formatInt (sint x)" | "toString lib (VInt32 x) = formatInt (sint x)"
| "toString lib (VInt64 x) = formatInt (sint x)" | "toString lib (VUint x) = formatInt (uint x)"
| "toString lib (VUint8 x) = formatInt (uint x)" | "toString lib (VUint16 x) = formatInt (uint x)"
| "toString lib (VUint32 x) = formatInt (uint x)" | "toString lib (VUint64 x) = formatInt (uint x)"
| "toString lib (VFloat32 x) = fmt_g lib (VFloat32 x)" | "toString lib (VFloat64 x) = fmt_g lib (VFloat64 x)"
| "toString lib v = sprintV lib v"

section \<open>Printing scaled integers\<close>

text \<open>\<^verbatim>\<open>int64ToString\<close> writes digits while the value is positive.\<close>

function pos_digits :: "int \<Rightarrow> string \<Rightarrow> string" where
  "pos_digits v acc = (if v > 0 then pos_digits (v div 10) (digit_char (nat (v mod 10)) # acc) else acc)"
  by pat_completeness auto
termination by (relation "measure (\<lambda>(v, acc). nat v)") auto

declare pos_digits.simps [simp del]

definition int64ToString :: "int64 \<Rightarrow> string" where
  "int64ToString v = (if v = 0 then ''0'' else pos_digits (sint v) [])"

definition addNeg :: "string \<Rightarrow> bool \<Rightarrow> string" where
  "addNeg s neg = (if neg then CHR ''-'' # s else s)"

definition zeroStrings :: "string list" where
  "zeroStrings = map (\<lambda>n. replicate n (CHR ''0'')) [0 ..< 21]"

definition repeatZeros :: "nat \<Rightarrow> string" where
  "repeatZeros n = (if n < length zeroStrings then zeroStrings ! n else replicate n (CHR ''0''))"

text \<open>\<^verbatim>\<open>place_point decPos s\<close> is the text part shared by \<^verbatim>\<open>scaledInt64\<close> and \<^verbatim>\<open>scaledBigInt\<close>.\<close>

definition place_point :: "nat \<Rightarrow> string \<Rightarrow> string" where
  "place_point decPos s =
     (if decPos \<ge> length s then ''0.'' @ repeatZeros (decPos - length s) @ s
      else take (length s - decPos) s @ ''.'' @ drop (length s - decPos) s)"

definition scaledInt64 :: "int64 \<Rightarrow> int32 \<Rightarrow> string" where
  "scaledInt64 v scale =
     (if sint scale \<ge> 0 then int64ToString v
      else let neg = sint v < 0; u = (if neg then - v else v); decPos = nat (- sint scale);
               s = formatNat (unat u)
           in addNeg (place_point decPos s) neg)"

definition scaledBigInt :: "int \<Rightarrow> int32 \<Rightarrow> string" where
  "scaledBigInt v scale =
     (if sint scale \<ge> 0 then formatInt v
      else let neg = v < 0; s = formatNat (nat (if neg then - v else v))
           in addNeg (place_point (nat (- sint scale)) s) neg)"

definition trimRightSpaces :: "byte list \<Rightarrow> byte list" where
  "trimRightSpaces b = rev (dropWhile (\<lambda>c. c = 0x20) (rev b))"

section \<open>INT128 (types_int128.go)\<close>

text \<open>\<^verbatim>\<open>v.Bytes()\<close> of a non-negative \<^verbatim>\<open>big.Int\<close>: big-endian without leading zeros.\<close>

function big_bytes :: "nat \<Rightarrow> byte list" where
  "big_bytes n = (if n = 0 then [] else big_bytes (n div 256) @ [of_nat (n mod 256)])"
  by pat_completeness auto
termination by (relation "measure id") auto

declare big_bytes.simps [simp del]

definition copy16 :: "byte list \<Rightarrow> byte list" where
  "copy16 b0 = (let b = (if length b0 > 16 then drop (length b0 - 16) b0 else b0) in replicate (16 - length b) 0 @ b)"

text \<open>\<^verbatim>\<open>big.Int.Bytes\<close> ignores the sign, so a value below \<open>- 2^128\<close> contributes its absolute value.\<close>

definition stringToInt128Err :: "string \<Rightarrow> int32 \<Rightarrow> gerr + byte list" where
  "stringToInt128Err s scale =
     (case decimalStringToScaledBigInt s scale of
        Inl e \<Rightarrow> Inl e
      | Inr v \<Rightarrow> Inr (if v \<ge> 0 then copy16 (big_bytes (nat \<bar>v\<bar>)) else copy16 (big_bytes (nat \<bar>v + 2 ^ 128\<bar>))))"

fun valueToInt128 :: "golib \<Rightarrow> gval \<Rightarrow> int32 \<Rightarrow> gerr + byte list" where
  "valueToInt128 lib (VInt v) scale = stringToInt128Err (formatInt (sint v)) scale"
| "valueToInt128 lib (VInt8 v) scale = stringToInt128Err (formatInt (sint v)) scale"
| "valueToInt128 lib (VInt16 v) scale = stringToInt128Err (formatInt (sint v)) scale"
| "valueToInt128 lib (VInt32 v) scale = stringToInt128Err (formatInt (sint v)) scale"
| "valueToInt128 lib (VInt64 v) scale = stringToInt128Err (formatInt (sint v)) scale"
| "valueToInt128 lib (VUint v) scale = stringToInt128Err (formatInt (uint v)) scale"
| "valueToInt128 lib (VUint8 v) scale = stringToInt128Err (formatInt (uint v)) scale"
| "valueToInt128 lib (VUint16 v) scale = stringToInt128Err (formatInt (uint v)) scale"
| "valueToInt128 lib (VUint32 v) scale = stringToInt128Err (formatInt (uint v)) scale"
| "valueToInt128 lib (VUint64 v) scale = stringToInt128Err (formatInt (uint v)) scale"
| "valueToInt128 lib (VFloat32 v) scale = stringToInt128Err (fmt_f lib (VFloat32 v)) scale"
| "valueToInt128 lib (VFloat64 v) scale = stringToInt128Err (fmt_f lib (VFloat64 v)) scale"
| "valueToInt128 lib (VBool b) scale = stringToInt128Err (if b then ''1'' else ''0'') scale"
| "valueToInt128 lib (VString s) scale = stringToInt128Err s scale"
| "valueToInt128 lib (VBytes b) scale = stringToInt128Err (string_of_bytes b) scale"
| "valueToInt128 lib v scale = Inl (cannot_convert v ''INT128'')"

text \<open>The decoder's reading of sixteen bytes (\<^verbatim>\<open>DecodeColumn\<close>): unsigned big-endian, minus \<open>2^128\<close> when the
  top bit is set.\<close>

definition big_of_bytes :: "byte list \<Rightarrow> int" where
  "big_of_bytes bs = foldl (\<lambda>acc b. acc * 256 + uint b) 0 bs"

definition int128_of_bytes :: "byte list \<Rightarrow> int" where
  "int128_of_bytes buf = (let v = big_of_bytes buf in if buf ! 0 AND 0x80 \<noteq> 0 then v - 2 ^ 128 else v)"

section \<open>Scaling is exact or refused\<close>

lemma wrap64_id: "is_int64 v \<Longrightarrow> wrap64 v = v"
  unfolding wrap64_def is_int64_def
  by (simp only: signed_of_int) (intro trans [OF of_int_eq_id [THEN fun_cong, unfolded id_apply]] signed_take_bit_int_eq_self, simp_all)

lemma go_quot_limits: "go_quot maxInt64 10 = 922337203685477580" "go_quot minInt64 10 = - 922337203685477580"
  by (simp_all add: go_quot_nonneg go_quot_neg)

lemma scale_step:
  "v > go_quot maxInt64 10 \<or> v < go_quot minInt64 10 \<longleftrightarrow> \<not> is_int64 (v * 10)"
  unfolding go_quot_limits is_int64_def by (simp, linarith)

lemma is_int64_smaller: "is_int64 (v * 10 ^ k) \<Longrightarrow> is_int64 v"
proof -
  assume a: "is_int64 (v * 10 ^ k)"
  have one: "(1::int) \<le> 10 ^ k" by simp
  show ?thesis
  proof (cases "0 \<le> v")
    case True
    then have "v * 1 \<le> v * 10 ^ k" using one by (intro mult_left_mono) auto
    with a True show ?thesis unfolding is_int64_def by linarith
  next
    case False
    then have "v * 10 ^ k \<le> v * 1" using one by (intro mult_left_mono_neg) auto
    with a False show ?thesis unfolding is_int64_def by linarith
  qed
qed

lemma scale_loop_exact:
  "is_int64 v \<Longrightarrow> if is_int64 (v * 10 ^ k) then scale_loop k scale v = Inr (v * 10 ^ k)
     else \<exists>e. scale_loop k scale v = Inl e"
proof (induction k arbitrary: v)
  case (Suc k)
  show ?case
  proof (cases "is_int64 (v * 10)")
    case True
    then have "scale_loop (Suc k) scale v = scale_loop k scale (v * 10)"
      using scale_step [of v] wrap64_id [OF True] by simp
    with Suc.IH [OF True] show ?thesis by (simp add: mult.assoc)
  next
    case False
    then have "\<not> is_int64 (v * 10 ^ Suc k)" using is_int64_smaller [of "v * 10" k] by (auto simp: mult.assoc)
    moreover have "\<exists>e. scale_loop (Suc k) scale v = Inl e" using False scale_step [of v] by simp
    ultimately show ?thesis by simp
  qed
qed simp

section \<open>Reading back what was printed\<close>

lemma dec_mantissa_digits:
  "list_all is_digit ds \<Longrightarrow>
     dec_mantissa (ds @ rest) dot acc fr = dec_mantissa rest dot (acc @ ds) (if dot then fr + int (length ds) else fr)"
  by (induction ds arbitrary: acc fr) (simp_all add: add.assoc)

lemma dec_mantissa_point:
  assumes "list_all is_digit ip" and "list_all is_digit fp"
  shows "dec_mantissa (ip @ CHR ''.'' # fp) False [] 0 = Inr (ip @ fp, int (length fp), [])"
  using dec_mantissa_digits [OF assms(1), of "CHR ''.'' # fp" False "[]" 0]
    dec_mantissa_digits [OF assms(2), of "[]" True ip 0] by simp

lemma digits_val_strip_zeros: "digits_val (strip_zeros ds) = digits_val ds"
proof (induction ds rule: strip_zeros.induct)
  case (1 d e ds)
  have "digits_val (CHR ''0'' # e # ds) = digits_val (e # ds)"
    using digits_val_zeros [of 1 "e # ds"] by simp
  with 1 show ?case by simp
qed simp_all

lemma digit_not_space: "is_digit c \<Longrightarrow> \<not> is_space c"
  by (auto simp: is_digit_def is_space_def Let_def)

text \<open>The grammar of printed decimals: a sign, digits, and optionally a point and digits.\<close>

lemma parse_signed:
  assumes "list_all is_digit ip" and "ip \<noteq> []" and "fp = [] \<or> list_all is_digit fp"
    and "t = (if fp = [] then ip else ip @ CHR ''.'' # fp)"
  shows "parseDecimalStringStrict (addNeg t neg) = Inr (neg, strip_zeros (ip @ fp), - int (length fp))"
proof -
  have ht: "is_digit (hd t)" "t \<noteq> []" "is_digit (last t)"
  proof -
    have "is_digit (hd ip)" "is_digit (last ip)" using assms(1,2) by (simp_all add: list_all_iff)
    moreover have "fp \<noteq> [] \<Longrightarrow> is_digit (last fp)" using assms(3) by (auto simp: list_all_iff)
    ultimately show "is_digit (hd t)" "t \<noteq> []" "is_digit (last t)" using assms(2,4) by auto
  qed
  have sp: "\<not> is_space (CHR ''-'')" by (simp add: is_space_def)
  have trim: "trimSpace (addNeg t neg) = addNeg t neg"
    using ht sp digit_not_space by (intro trimSpace_id) (auto simp: addNeg_def)
  have hd: "hd t \<noteq> CHR ''-''" "hd t \<noteq> CHR ''+''" using ht(1) by auto
  have m: "dec_mantissa t False [] 0 = Inr (ip @ fp, int (length fp), [])"
    using dec_mantissa_point [OF assms(1), of fp] dec_mantissa_digits [OF assms(1), of "[]" False "[]" 0] assms(3,4) by auto
  show ?thesis
    using trim hd ht(2) m assms(2) by (simp add: parseDecimalStringStrict_def Let_def addNeg_def dec_exponent_def)
qed

lemma repeatZeros_eq: "repeatZeros n = replicate n (CHR ''0'')"
  by (simp add: repeatZeros_def zeroStrings_def del: upt_conv_Cons)

lemma place_point_parts:
  assumes "list_all is_digit s" and "s \<noteq> []" and "0 < p"
  obtains ip fp where "place_point p s = ip @ CHR ''.'' # fp" and "list_all is_digit ip" and "list_all is_digit fp"
    and "ip \<noteq> []" and "fp \<noteq> []" and "length fp = p" and "digits_val (ip @ fp) = digits_val s"
proof (cases "p \<ge> length s")
  case True
  have "is_digit (CHR ''0'')" by (simp add: is_digit_def)
  moreover have "digits_val (''0'' @ replicate (p - length s) (CHR ''0'') @ s) = digits_val s"
    using digits_val_zeros [of "Suc (p - length s)" s] by (simp add: replicate_app_Cons_same)
  ultimately show ?thesis
    using True assms by (intro that [of "''0''" "replicate (p - length s) (CHR ''0'') @ s"])
      (auto simp: place_point_def repeatZeros_eq list_all_iff)
next
  case False
  then show ?thesis
    using assms by (intro that [of "take (length s - p) s" "drop (length s - p) s"])
      (auto simp: place_point_def list_all_iff dest: in_set_takeD in_set_dropD)
qed

text \<open>Printing with a scale and parsing at the same scale is the identity, for numbers of any size.\<close>

lemma scaledBigInt_round_trip:
  assumes "sint scale \<le> 0"
  shows "decimalStringToScaledBigInt (scaledBigInt v scale) scale = Inr v"
proof -
  define neg where "neg = (v < 0)"
  define s where "s = formatNat (nat \<bar>v\<bar>)"
  have s: "list_all is_digit s" "s \<noteq> []" "int (digits_val s) = \<bar>v\<bar>" by (simp_all add: s_def formatNat_digits)
  define p where "p = nat (- sint scale)"
  have lim: "int p = - sint scale" "is_int64 (- int p - sint scale)" using assms by (simp_all add: p_def is_int64_def)
  have "\<exists>ds. parseDecimalStringStrict (scaledBigInt v scale) = Inr (neg, ds, - int p) \<and> digits_val ds = digits_val s"
  proof (cases "p = 0")
    case True
    then have "scaledBigInt v scale = addNeg s neg"
      using lim(1) by (simp add: scaledBigInt_def formatInt_def addNeg_def neg_def s_def)
    with parse_signed [OF s(1,2), of "[]" s neg] True show ?thesis by (simp add: digits_val_strip_zeros)
  next
    case False
    obtain ip fp where ipfp: "place_point p s = ip @ CHR ''.'' # fp" "list_all is_digit ip" "list_all is_digit fp"
      "ip \<noteq> []" "fp \<noteq> []" "length fp = p" "digits_val (ip @ fp) = digits_val s"
      using False by (auto intro: place_point_parts [OF s(1,2)])
    have "scaledBigInt v scale = addNeg (ip @ CHR ''.'' # fp) neg"
      using False lim(1) ipfp(1) by (auto simp: scaledBigInt_def Let_def neg_def s_def p_def)
    with parse_signed [OF ipfp(2,4), of fp "ip @ CHR ''.'' # fp" neg] ipfp show ?thesis by (simp add: digits_val_strip_zeros)
  qed
  then obtain ds where ds: "parseDecimalStringStrict (scaledBigInt v scale) = Inr (neg, ds, - int p)"
    "digits_val ds = digits_val s" by blast
  have "wrap64 (- int p - sint scale) = 0" using wrap64_id [OF lim(2)] lim(1) by simp
  with ds s(3) show ?thesis
    by (simp add: decimalStringToScaledBigInt_def Let_def pow10Big_def neg_def)
qed

lemma unat_magnitude: "unat (if sint v < 0 then - v else v) = nat \<bar>sint (v :: int64)\<bar>"
proof (cases "sint v < 0")
  case True
  have r: "- (2 ^ 63) \<le> sint v" using sint_ge [of v] by simp
  have "uint (- v) = uint (of_int (- sint v) :: int64)" by simp
  also have "\<dots> = (- sint v) mod 2 ^ 64" by (simp only: unsigned_of_int) (simp add: take_bit_eq_mod)
  also have "\<dots> = - sint v" using True r by (intro mod_pos_pos_trivial) auto
  finally have "unat (- v) = nat (- sint v)" by (simp add: unat_eq_nat_uint)
  with True show ?thesis by simp
next
  case False
  moreover have "sint v < 2 ^ 64" using sint_less [of v] by simp
  ultimately have "uint v = sint v" by (simp add: not_less uint_sint take_bit_int_eq_self)
  with False show ?thesis by (simp add: unat_eq_nat_uint)
qed

lemma scaledInt64_big: "sint scale < 0 \<Longrightarrow> scaledInt64 v scale = scaledBigInt (sint v) scale"
  using unat_magnitude [of v] by (simp add: scaledInt64_def scaledBigInt_def Let_def abs_if split: if_splits)

lemma is_int64_sint: "is_int64 (sint (v :: int64))"
  using sint_ge [of v] sint_less [of v] by (simp add: is_int64_def)

lemma scaledInt64_round_trip:
  assumes "sint scale < 0"
  shows "decimalStringToScaledInt64 (scaledInt64 v scale) scale = Inr (sint v)"
  using assms scaledBigInt_round_trip [of scale "sint v"] is_int64_sint [of v]
  by (simp add: decimalStringToScaledInt64_def scaledInt64_big)

text \<open>Rounding: away from zero at the half, otherwise to the nearest.\<close>

lemma round_half_away:
  fixes coeff divisor :: int
  assumes "0 \<le> coeff" and "0 < divisor"
    and "c = (if go_rem coeff divisor * 2 \<ge> divisor then go_quot coeff divisor + 1 else go_quot coeff divisor)"
  shows "2 * (c * divisor - coeff) \<le> divisor" and "2 * (coeff - c * divisor) < divisor"
proof -
  define q m where "q = coeff div divisor" and "m = coeff mod divisor"
  have qm: "coeff = q * divisor + m" "0 \<le> m" "m < divisor" using assms(2) by (simp_all add: q_def m_def)
  have c: "c = (if m * 2 \<ge> divisor then q + 1 else q)"
    using assms by (simp add: go_quot_nonneg go_rem_nonneg q_def m_def)
  show "2 * (c * divisor - coeff) \<le> divisor" "2 * (coeff - c * divisor) < divisor"
    unfolding c using qm by (auto simp: algebra_simps)
qed

section \<open>INT128\<close>

lemma big_of_bytes_snoc [simp]: "big_of_bytes (bs @ [b]) = big_of_bytes bs * 256 + uint b"
  by (simp add: big_of_bytes_def)

lemma big_of_bytes_Nil [simp]: "big_of_bytes [] = 0"
  by (simp add: big_of_bytes_def)

lemma big_of_bytes_append: "big_of_bytes (xs @ ys) = big_of_bytes xs * 256 ^ length ys + big_of_bytes ys"
proof (induction ys rule: rev_induct)
  case (snoc y ys)
  have "big_of_bytes (xs @ ys @ [y]) = big_of_bytes ((xs @ ys) @ [y])" by simp
  then show ?case using snoc.IH by (simp only: big_of_bytes_snoc length_append_singleton) (simp add: algebra_simps)
qed simp

lemma big_of_bytes_bounds: "0 \<le> big_of_bytes bs \<and> big_of_bytes bs < 256 ^ length bs"
proof (induction bs rule: rev_induct)
  case (snoc b bs)
  have "uint b < 256" using uint_lt2p [of b] by simp
  with snoc show ?case by simp
qed simp

lemma big_of_bytes_zeros: "big_of_bytes (replicate k 0 @ bs) = big_of_bytes bs"
proof -
  have "big_of_bytes (replicate k 0) = 0"
    by (induction k) (simp_all add: big_of_bytes_def)
  then show ?thesis by (simp add: big_of_bytes_append)
qed

lemma big_of_big_bytes: "big_of_bytes (big_bytes n) = int n"
proof (induction n rule: big_bytes.induct)
  case (1 n)
  have "uint (of_nat (n mod 256) :: byte) = int (n mod 256)" by (simp add: unsigned_of_nat take_bit_nat_eq_self)
  moreover have "int (n div 256) * 256 + int (n mod 256) = int n"
    using div_mult_mod_eq [of n 256] by (metis of_nat_add of_nat_mult of_nat_numeral)
  ultimately show ?case using 1 by (cases "n = 0") (simp_all add: big_bytes.simps [of n] big_bytes.simps [of 0])
qed

lemma length_big_bytes: "n < 256 ^ k \<Longrightarrow> length (big_bytes n) \<le> k"
proof (induction n arbitrary: k rule: big_bytes.induct)
  case (1 n)
  show ?case
  proof (cases "n = 0")
    case False
    then obtain j where k: "k = Suc j" using "1.prems" by (cases k) auto
    then have "n div 256 < 256 ^ j" using "1.prems" by (simp add: less_mult_imp_div_less mult.commute)
    with "1.IH" [OF False] k False show ?thesis by (simp add: big_bytes.simps [of n])
  qed (simp add: big_bytes.simps [of 0])
qed

lemma copy16_props:
  assumes "n < 256 ^ 16"
  shows "length (copy16 (big_bytes n)) = 16" and "big_of_bytes (copy16 (big_bytes n)) = int n"
  using length_big_bytes [OF assms] by (simp_all add: copy16_def big_of_bytes_zeros big_of_big_bytes Let_def)

lemma sign_bit_byte: "(b :: byte) AND 0x80 \<noteq> 0 \<longleftrightarrow> 128 \<le> uint b"
proof -
  have "b AND 0x80 \<noteq> 0 \<longleftrightarrow> bit b 7"
    using and_exp_eq_0_iff_not_bit [of b 7] by simp
  also have "\<dots> \<longleftrightarrow> bit (uint b) 7" by (simp add: bit_uint_iff)
  also have "\<dots> \<longleftrightarrow> odd (uint b div 128)" by (simp add: bit_iff_odd)
  also have "\<dots> \<longleftrightarrow> 128 \<le> uint b"
  proof -
    define u where "u = uint b"
    have u: "0 \<le> u" "u < 256" using uint_lt2p [of b] by (simp_all add: u_def)
    show ?thesis unfolding u_def [symmetric]
    proof (cases "u < 128")
      case True
      with u have "u div 128 = 0" by (simp add: div_pos_pos_trivial)
      with True show "odd (u div 128) \<longleftrightarrow> 128 \<le> u" by simp
    next
      case False
      with u have "u div 128 = 1" by (intro int_div_pos_eq [of _ _ _ "u - 128"]) auto
      with False show "odd (u div 128) \<longleftrightarrow> 128 \<le> u" by simp
    qed
  qed
  finally show ?thesis .
qed

lemma int128_of_bytes_value:
  assumes "length bs = 16"
  shows "int128_of_bytes bs = (if big_of_bytes bs < 2 ^ 127 then big_of_bytes bs else big_of_bytes bs - 2 ^ 128)"
proof -
  obtain b cs where bs: "bs = b # cs" "length cs = 15" using assms by (cases bs) auto
  have v: "big_of_bytes bs = uint b * 256 ^ 15 + big_of_bytes cs"
    using big_of_bytes_append [of "[b]" cs] bs by (simp add: big_of_bytes_def)
  have cs: "0 \<le> big_of_bytes cs" "big_of_bytes cs < 256 ^ 15" using big_of_bytes_bounds [of cs] bs(2) by simp_all
  have "128 \<le> uint b \<longleftrightarrow> \<not> big_of_bytes bs < 2 ^ 127"
  proof
    assume "128 \<le> uint b"
    then have "128 * 256 ^ 15 \<le> uint b * 256 ^ 15" by (intro mult_right_mono) simp_all
    with v cs show "\<not> big_of_bytes bs < 2 ^ 127" by simp
  next
    assume "\<not> big_of_bytes bs < 2 ^ 127"
    show "128 \<le> uint b"
    proof (rule ccontr)
      assume "\<not> 128 \<le> uint b"
      then have "uint b * 256 ^ 15 \<le> 127 * 256 ^ 15" by (intro mult_right_mono) simp_all
      with v cs \<open>\<not> big_of_bytes bs < 2 ^ 127\<close> show False by simp
    qed
  qed
  then show ?thesis using sign_bit_byte [of b] by (auto simp: int128_of_bytes_def Let_def bs(1))
qed

text \<open>Values in range come back unchanged from the sixteen bytes; others come back reduced modulo \<open>2^128\<close>.\<close>

lemma int128_round_trip:
  assumes "decimalStringToScaledBigInt s scale = Inr v" and "- (2 ^ 127) \<le> v" and "v < 2 ^ 127"
  shows "\<exists>bs. stringToInt128Err s scale = Inr bs \<and> length bs = 16 \<and> int128_of_bytes bs = v"
proof -
  define n where "n = (if v \<ge> 0 then nat v else nat (v + 2 ^ 128))"
  have "n < 256 ^ 16" using assms(2,3) by (auto simp: n_def)
  note c = copy16_props [OF this]
  have "stringToInt128Err s scale = Inr (copy16 (big_bytes n))"
    using assms by (simp add: stringToInt128Err_def n_def)
  moreover have "int128_of_bytes (copy16 (big_bytes n)) = v"
  proof -
    have "int n = (if v \<ge> 0 then v else v + 2 ^ 128)" using assms(2) by (simp add: n_def)
    then show ?thesis using assms(2,3) by (auto simp: int128_of_bytes_value [OF c(1)] c(2))
  qed
  ultimately show ?thesis using c(1) by blast
qed

end
