(* ===== verification/Charset.thy ===== *)
theory Charset
  imports Errors
begin

text \<open>
  Character sets (\<^verbatim>\<open>internal/charset/charset.go\<close>): the Firebird identifiers and names, and the
  conversion of text between a Firebird character set and Go's UTF-8 strings.  ASCII and ISO8859_1 are
  converted by the package itself and modelled in full, with Go's UTF-8 decoding; the other encodings
  come from \<^verbatim>\<open>golang.org/x/text\<close> and are the parameter \<open>xtext\<close>, a decoder and an encoder per encoding.
\<close>

section \<open>UTF-8 as Go reads and writes it\<close>

definition cont_byte :: "nat \<Rightarrow> bool" where "cont_byte b \<longleftrightarrow> 0x80 \<le> b \<and> b \<le> 0xBF"

text \<open>\<^verbatim>\<open>utf8.DecodeRune\<close>: the rune and its width; an invalid sequence is \<^verbatim>\<open>RuneError\<close> of width one.\<close>

definition decodeRune :: "byte list \<Rightarrow> nat \<times> nat" where
  "decodeRune bs =
     (case map unat bs of
        [] \<Rightarrow> (0xFFFD, 0)
      | b0 # rest \<Rightarrow>
          if b0 < 0x80 then (b0, 1)
          else if 0xC2 \<le> b0 \<and> b0 \<le> 0xDF then
            (case rest of b1 # _ \<Rightarrow> if cont_byte b1 then ((b0 - 0xC0) * 64 + (b1 - 0x80), 2) else (0xFFFD, 1) | _ \<Rightarrow> (0xFFFD, 1))
          else if 0xE0 \<le> b0 \<and> b0 \<le> 0xEF then
            (case rest of
               b1 # b2 # _ \<Rightarrow>
                 if (if b0 = 0xE0 then 0xA0 else 0x80) \<le> b1 \<and> b1 \<le> (if b0 = 0xED then 0x9F else 0xBF) \<and> cont_byte b2
                 then ((b0 - 0xE0) * 4096 + (b1 - 0x80) * 64 + (b2 - 0x80), 3) else (0xFFFD, 1)
             | _ \<Rightarrow> (0xFFFD, 1))
          else if 0xF0 \<le> b0 \<and> b0 \<le> 0xF4 then
            (case rest of
               b1 # b2 # b3 # _ \<Rightarrow>
                 if (if b0 = 0xF0 then 0x90 else 0x80) \<le> b1 \<and> b1 \<le> (if b0 = 0xF4 then 0x8F else 0xBF) \<and> cont_byte b2 \<and> cont_byte b3
                 then ((b0 - 0xF0) * 262144 + (b1 - 0x80) * 4096 + (b2 - 0x80) * 64 + (b3 - 0x80), 4) else (0xFFFD, 1)
             | _ \<Rightarrow> (0xFFFD, 1))
          else (0xFFFD, 1))"

lemma decodeRune_width: "bs \<noteq> [] \<Longrightarrow> 0 < snd (decodeRune bs)"
  by (auto simp: decodeRune_def split: list.splits)

text \<open>\<^verbatim>\<open>for _, r := range s\<close>.\<close>

function range_runes :: "byte list \<Rightarrow> nat list" where
  "range_runes bs = (if bs = [] then [] else let (r, n) = decodeRune bs in r # range_runes (drop n bs))"
  by pat_completeness auto
termination
proof (relation "measure length", goal_cases)
  case (2 bs x r n)
  then have "0 < n" using decodeRune_width [of bs] by (metis snd_conv)
  with 2 show ?case by simp
qed simp

declare range_runes.simps [simp del]

text \<open>\<^verbatim>\<open>WriteRune\<close> for the two cases the package writes: a rune in \<^verbatim>\<open>0x80..0xFF\<close>, and \<^verbatim>\<open>RuneError\<close>.\<close>

definition writeLatinRune :: "byte \<Rightarrow> byte list" where
  "writeLatinRune c = [0xC0 OR drop_bit 6 c, 0x80 OR (c AND 0x3F)]"

definition runeErrorBytes :: "byte list" where "runeErrorBytes = [0xEF, 0xBF, 0xBD]"

fun hex_digits :: "nat \<Rightarrow> nat \<Rightarrow> string" where
  "hex_digits 0 n = []"
| "hex_digits (Suc k) n = hex_digits k (n div 16) @ [''0123456789ABCDEF'' ! (n mod 16)]"

text \<open>\<^verbatim>\<open>%U\<close>: at least four hexadecimal digits.\<close>

definition format_U :: "nat \<Rightarrow> string" where
  "format_U r = ''U+'' @ hex_digits (if r < 0x10000 then 4 else if r < 0x100000 then 5 else 6) r"

section \<open>Identifiers and names\<close>

abbreviation (input) IDNone :: int32 where "IDNone \<equiv> 0"
abbreviation (input) IDOctets :: int32 where "IDOctets \<equiv> 1"
abbreviation (input) IDASCII :: int32 where "IDASCII \<equiv> 2"
abbreviation (input) IDUnicodeFSS :: int32 where "IDUnicodeFSS \<equiv> 3"
abbreviation (input) IDUTF8 :: int32 where "IDUTF8 \<equiv> 4"
abbreviation (input) IDISO88591 :: int32 where "IDISO88591 \<equiv> 21"

definition charsets :: "(int32 \<times> string) list" where
  "charsets = [
     (0, ''NONE''), (1, ''OCTETS''), (2, ''ASCII''), (3, ''UNICODE_FSS''), (4, ''UTF8''),
     (5, ''SJIS_0208''), (6, ''EUCJ_0208''), (9, ''DOS737''), (10, ''DOS437''), (11, ''DOS850''),
     (12, ''DOS865''), (13, ''DOS860''), (14, ''DOS863''), (15, ''DOS775''), (16, ''DOS858''),
     (17, ''DOS862''), (18, ''DOS864''), (19, ''NEXT''), (21, ''ISO8859_1''), (22, ''ISO8859_2''),
     (23, ''ISO8859_3''), (34, ''ISO8859_4''), (35, ''ISO8859_5''), (36, ''ISO8859_6''), (37, ''ISO8859_7''),
     (38, ''ISO8859_8''), (39, ''ISO8859_9''), (40, ''ISO8859_13''), (44, ''KSC_5601''), (45, ''DOS852''),
     (46, ''DOS857''), (47, ''DOS861''), (48, ''DOS866''), (49, ''DOS869''), (50, ''CYRL''),
     (51, ''WIN1250''), (52, ''WIN1251''), (53, ''WIN1252''), (54, ''WIN1253''), (55, ''WIN1254''),
     (56, ''BIG_5''), (57, ''GB_2312''), (58, ''WIN1255''), (59, ''WIN1256''), (60, ''WIN1257''),
     (63, ''KOI8R''), (64, ''KOI8U''), (65, ''WIN1258''), (66, ''TIS620''), (67, ''GBK''),
     (68, ''CP943C''), (69, ''GB18030'')]"

definition win_aliases :: "nat \<Rightarrow> (string \<times> int32) list" where
  "win_aliases i = (case map_of (map (\<lambda>(a, b). (b, a)) charsets) (''WIN125'' @ formatNat i) of
      None \<Rightarrow> []
    | Some cid \<Rightarrow> [(''CP125'' @ formatNat i, cid), (''WINDOWS_125'' @ formatNat i, cid)])"

definition charsetByName :: "(string \<times> int32) list" where
  "charsetByName = map (\<lambda>(a, b). (b, a)) charsets
     @ [(''UTF_8'', IDUTF8), (''ISO_8859_1'', IDISO88591), (''ISO88591'', IDISO88591), (''LATIN1'', IDISO88591),
        (''LATIN_1'', IDISO88591)]
     @ concat (map win_aliases [0 ..< 9])"

definition normalizeName :: "string \<Rightarrow> string" where
  "normalizeName name = map (\<lambda>c. if c = CHR ''-'' then CHR ''_'' else c) (toUpper (trimSpace name))"

definition CharsetName :: "int32 \<Rightarrow> string" where
  "CharsetName cid = (case map_of charsets cid of Some name \<Rightarrow> name | None \<Rightarrow> ''NONE'')"

definition CharsetID :: "string \<Rightarrow> int32" where
  "CharsetID name = (case map_of charsetByName (normalizeName name) of Some cid \<Rightarrow> cid | None \<Rightarrow> 0)"

definition CanonicalName :: "string \<Rightarrow> string \<times> bool" where
  "CanonicalName name = (case map_of charsetByName (normalizeName name) of
      Some cid \<Rightarrow> (CharsetName cid, True) | None \<Rightarrow> (trimSpace name, False))"

definition encodings :: "(int32 \<times> string) list" where
  "encodings = [
     (5, ''japanese.ShiftJIS''), (6, ''japanese.EUCJP''), (10, ''charmap.CodePage437''),
     (11, ''charmap.CodePage850''), (12, ''charmap.CodePage865''), (13, ''charmap.CodePage860''),
     (14, ''charmap.CodePage863''), (16, ''charmap.CodePage858''), (17, ''charmap.CodePage862''),
     (22, ''charmap.ISO8859_2''), (23, ''charmap.ISO8859_3''), (34, ''charmap.ISO8859_4''),
     (35, ''charmap.ISO8859_5''), (36, ''charmap.ISO8859_6''), (37, ''charmap.ISO8859_7''),
     (38, ''charmap.ISO8859_8''), (39, ''charmap.ISO8859_9''), (40, ''charmap.ISO8859_13''),
     (44, ''korean.EUCKR''), (45, ''charmap.CodePage852''), (48, ''charmap.CodePage866''),
     (51, ''charmap.Windows1250''), (52, ''charmap.Windows1251''), (53, ''charmap.Windows1252''),
     (54, ''charmap.Windows1253''), (55, ''charmap.Windows1254''), (56, ''traditionalchinese.Big5''),
     (57, ''simplifiedchinese.GBK''), (58, ''charmap.Windows1255''), (59, ''charmap.Windows1256''),
     (60, ''charmap.Windows1257''), (63, ''charmap.KOI8R''), (64, ''charmap.KOI8U''),
     (65, ''charmap.Windows1258''), (66, ''charmap.Windows874''), (67, ''simplifiedchinese.GBK''),
     (69, ''simplifiedchinese.GB18030'')]"

definition encodingForID :: "int32 \<Rightarrow> string option" where
  "encodingForID cid = map_of encodings cid"

section \<open>Decoding and encoding\<close>

record xencoding =
  xdecode :: "byte list \<Rightarrow> gerr + byte list"
  xencode :: "byte list \<Rightarrow> gerr + byte list"

definition decodeASCIISlow :: "byte list \<Rightarrow> byte list" where
  "decodeASCIISlow data = concat (map (\<lambda>c. if c < 0x80 then [c] else runeErrorBytes) data)"

definition decodeASCII :: "byte list \<Rightarrow> byte list" where
  "decodeASCII data = (if list_ex (\<lambda>b. b \<ge> 0x80) data then decodeASCIISlow data else data)"

fun encodeASCII_loop :: "byte list \<Rightarrow> gerr option" where
  "encodeASCII_loop [] = None"
| "encodeASCII_loop (c # s) =
     (if c \<ge> 0x80 then Some (Msg (''charset ASCII cannot encode rune '' @ format_U (fst (decodeRune (c # s)))))
      else encodeASCII_loop s)"

definition encodeASCII :: "byte list \<Rightarrow> gerr + byte list" where
  "encodeASCII s = (case encodeASCII_loop s of Some e \<Rightarrow> Inl e | None \<Rightarrow> Inr s)"

definition decodeISO88591Slow :: "byte list \<Rightarrow> byte list" where
  "decodeISO88591Slow data = concat (map (\<lambda>c. if c < 0x80 then [c] else writeLatinRune c) data)"

definition decodeISO88591 :: "byte list \<Rightarrow> byte list" where
  "decodeISO88591 data = (if list_ex (\<lambda>b. b \<ge> 0x80) data then decodeISO88591Slow data else data)"

fun latin_bytes :: "nat list \<Rightarrow> gerr + byte list" where
  "latin_bytes [] = Inr []"
| "latin_bytes (r # rs) =
     (if r > 0xFF then Inl (Msg (''charset ISO8859_1 cannot encode rune '' @ format_U r))
      else case latin_bytes rs of Inl e \<Rightarrow> Inl e | Inr bs \<Rightarrow> Inr (of_nat r # bs))"

definition encodeISO88591Slow :: "byte list \<Rightarrow> gerr + byte list" where
  "encodeISO88591Slow s = latin_bytes (range_runes s)"

definition encodeISO88591 :: "byte list \<Rightarrow> gerr + byte list" where
  "encodeISO88591 s = (if list_ex (\<lambda>b. b \<ge> 0x80) s then encodeISO88591Slow s else Inr s)"

text \<open>Strings are handled as their bytes here; \<open>Decode\<close> and \<open>Encode\<close> convert at the boundary.\<close>

definition Decode :: "(string \<Rightarrow> xencoding) \<Rightarrow> int32 \<Rightarrow> byte list \<Rightarrow> string" where
  "Decode xtext cid data =
     (if data = [] then []
      else if cid \<in> {IDNone, IDOctets, IDUnicodeFSS, IDUTF8} then string_of_bytes data
      else if cid = IDASCII then string_of_bytes (decodeASCII data)
      else if cid = IDISO88591 then string_of_bytes (decodeISO88591 data)
      else case encodingForID cid of
          None \<Rightarrow> string_of_bytes data
        | Some enc \<Rightarrow> (case xdecode (xtext enc) data of Inr out \<Rightarrow> string_of_bytes out | Inl _ \<Rightarrow> string_of_bytes data))"

definition Encode :: "(string \<Rightarrow> xencoding) \<Rightarrow> int32 \<Rightarrow> string \<Rightarrow> gerr + byte list" where
  "Encode xtext cid s =
     (if s = [] then Inr []
      else if cid \<in> {IDNone, IDOctets, IDUnicodeFSS, IDUTF8} then Inr (bytes_of_string s)
      else if cid = IDASCII then encodeASCII (bytes_of_string s)
      else if cid = IDISO88591 then encodeISO88591 (bytes_of_string s)
      else case encodingForID cid of
          None \<Rightarrow> Inr (bytes_of_string s)
        | Some enc \<Rightarrow> (case xencode (xtext enc) (bytes_of_string s) of
              Inl err \<Rightarrow> Inl (Wrap (''charset '' @ CharsetName cid) err)
            | Inr out \<Rightarrow> Inr out))"

section \<open>Round trips\<close>

lemma writeLatinRune_decode:
  assumes "c \<ge> (0x80 :: byte)"
  shows "decodeRune (writeLatinRune c @ rest) = (unat c, 2)"
proof -
  have b: "128 \<le> unat c" "unat c < 256" using assms by (simp_all add: word_le_nat_alt)
  have lo: "unat (c AND 0x3F) = unat c mod 64"
  proof -
    have "c AND 0x3F = take_bit 6 c" using take_bit_eq_mask [of 6 c] by (simp add: mask_eq_exp_minus_1)
    then have "unat (c AND 0x3F) = take_bit 6 (unat c)" by (simp only: unsigned_take_bit_eq)
    then show ?thesis by (simp add: take_bit_eq_mod)
  qed
  have hi: "unat (drop_bit 6 c) = unat c div 64"
    unfolding unat_drop_bit_eq by (simp add: drop_bit_eq_div)
  have h: "unat (0xC0 OR drop_bit 6 c) = 192 + unat c div 64"
  proof -
    have "0xC0 AND drop_bit 6 c = 0"
      by (rule bit_word_eqI) (auto simp: bit_simps numeral_eq_Suc less_Suc_eq dest: bit_imp_le_length)
    then have "0xC0 OR drop_bit 6 c = 0xC0 + drop_bit 6 c" by (metis disjunctive_add_eq_or)
    moreover have "unat (drop_bit 6 c) < 4" using hi b by (simp add: less_mult_imp_div_less)
    ultimately show ?thesis using hi by (simp add: unat_word_ariths)
  qed
  have l: "unat (0x80 OR (c AND 0x3F)) = 128 + unat c mod 64"
  proof -
    have "0x80 AND (c AND 0x3F) = 0"
      by (rule bit_word_eqI) (auto simp: bit_simps numeral_eq_Suc less_Suc_eq)
    then have "0x80 OR (c AND 0x3F) = 0x80 + (c AND 0x3F)" by (metis disjunctive_add_eq_or)
    then show ?thesis using lo by (simp add: unat_word_ariths)
  qed
  have "2 \<le> unat c div 64" "unat c div 64 < 4" using b by (simp_all add: less_mult_imp_div_less div_le_mono [of 128 _ 64, simplified])
  moreover have "unat c mod 64 < 64" by simp
  ultimately show ?thesis using h l
    by (simp add: decodeRune_def writeLatinRune_def cont_byte_def)
qed

lemma range_runes_decoded:
  "range_runes (decodeISO88591Slow data) = map unat data"
proof (induction data)
  case Nil
  show ?case by (simp add: decodeISO88591Slow_def range_runes.simps [of "[]"])
next
  case (Cons c data)
  show ?case
  proof (cases "c < 0x80")
    case True
    then have "unat c < 128" by (simp add: word_less_nat_alt)
    then have "decodeRune (c # decodeISO88591Slow data) = (unat c, 1)" by (simp add: decodeRune_def)
    with True Cons show ?thesis
      by (simp add: decodeISO88591Slow_def range_runes.simps [of "c # _"])
  next
    case False
    then have "decodeRune (writeLatinRune c @ decodeISO88591Slow data) = (unat c, 2)"
      by (intro writeLatinRune_decode) (simp add: not_less)
    moreover have "drop 2 (writeLatinRune c @ decodeISO88591Slow data) = decodeISO88591Slow data"
      "writeLatinRune c @ decodeISO88591Slow data \<noteq> []" by (simp_all add: writeLatinRune_def)
    moreover have "decodeISO88591Slow (c # data) = writeLatinRune c @ decodeISO88591Slow data"
      using False by (simp add: decodeISO88591Slow_def)
    ultimately show ?thesis using Cons
      by (simp only: range_runes.simps [of "writeLatinRune c @ decodeISO88591Slow data"]) simp
  qed
qed

lemma latin_bytes_map: "latin_bytes (map unat (data :: byte list)) = Inr data"
proof (induction data)
  case (Cons c data)
  have "unat c < 256" by (rule unat_byte_less)
  then have "\<not> unat c > 0xFF" by linarith
  with Cons show ?case by simp
qed simp

lemma decodeISO88591Slow_high: "list_ex (\<lambda>b. b \<ge> 0x80) data \<Longrightarrow> list_ex (\<lambda>b. b \<ge> 0x80) (decodeISO88591Slow data)"
proof (induction data)
  case (Cons c data)
  have "0x80 \<le> (0xC0 OR drop_bit 6 c :: byte)"
  proof -
    have "bit (0xC0 OR drop_bit 6 c :: byte) 7" by (simp add: bit_simps)
    then have "(0xC0 OR drop_bit 6 c :: byte) AND 0x80 = 0x80"
      by (intro bit_word_eqI) (auto simp: bit_simps numeral_eq_Suc less_Suc_eq)
    then show ?thesis by (metis word_and_le2)
  qed
  then have w: "\<not> c < 0x80 \<Longrightarrow> list_ex (\<lambda>b. b \<ge> 0x80) (decodeISO88591Slow (c # data))"
    by (simp add: decodeISO88591Slow_def writeLatinRune_def)
  show ?case
  proof (cases "c < 0x80")
    case True
    with Cons show ?thesis by (auto simp: decodeISO88591Slow_def)
  qed (rule w)
qed simp

text \<open>ISO8859_1: every byte string survives decoding to UTF-8 and encoding back.\<close>

lemma latin1_round_trip: "encodeISO88591 (decodeISO88591 data) = Inr data"
proof (cases "list_ex (\<lambda>b. b \<ge> 0x80) data")
  case True
  with decodeISO88591Slow_high [OF True] show ?thesis
    by (simp add: encodeISO88591_def decodeISO88591_def encodeISO88591Slow_def range_runes_decoded latin_bytes_map)
qed (simp add: encodeISO88591_def decodeISO88591_def)

lemma decodeISO88591_Nil_iff: "decodeISO88591 data = [] \<longleftrightarrow> data = []"
  by (cases data) (auto simp: decodeISO88591_def decodeISO88591Slow_def writeLatinRune_def)

definition builtin_charset :: "int32 \<Rightarrow> bool" where
  "builtin_charset cid \<longleftrightarrow> cid \<in> {IDNone, IDOctets, IDUnicodeFSS, IDUTF8, IDISO88591} \<or> encodingForID cid = None \<and> cid \<noteq> IDASCII"

text \<open>The charsets the package converts without loss.\<close>

lemma Encode_Decode: "builtin_charset cid \<Longrightarrow> Encode xtext cid (Decode xtext cid data) = Inr data"
  using latin1_round_trip [of data] decodeISO88591_Nil_iff [of data]
  by (auto simp: builtin_charset_def Encode_def Decode_def dest: arg_cong [of _ _ length])

lemma encodeASCII_loop_None: "encodeASCII_loop s = None \<longleftrightarrow> list_all (\<lambda>c. c < 0x80) s"
  by (induction s) (auto simp: not_le)

lemma ascii_total: "encodeASCII s = Inr s \<or> (\<exists>e. encodeASCII s = Inl e) \<and> \<not> list_all (\<lambda>c. c < 0x80) s"
  using encodeASCII_loop_None [of s] by (auto simp: encodeASCII_def split: option.splits)

section \<open>Names\<close>

lemma charsets_distinct: "distinct (map fst charsets)" "distinct (map snd charsets)"
  by code_simp+

lemma charsets_normal: "list_all (\<lambda>(cid, name). normalizeName name = name) charsets"
  by code_simp

lemma map_of_swap:
  assumes "distinct (map snd xs)" and "(a, b) \<in> set xs"
  shows "map_of (map (\<lambda>(a, b). (b, a)) xs @ ys) b = Some a"
proof -
  have eq: "map fst (map (\<lambda>(a, b). (b, a)) xs) = map snd xs" by (induction xs) auto
  have "(b, a) \<in> set (map (\<lambda>(a, b). (b, a)) xs)" using assms(2) by force
  then have "map_of (map (\<lambda>(a, b). (b, a)) xs) b = Some a"
    using assms(1) by (intro map_of_is_SomeI) (simp_all only: eq)
  then show ?thesis by (simp add: map_add_Some_iff)
qed

text \<open>Every charset has one name, and its name gives it back.\<close>

lemma charset_names_round_trip:
  assumes "(cid, name) \<in> set charsets"
  shows "CharsetName cid = name" and "CharsetID name = cid"
proof -
  show "CharsetName cid = name"
    using map_of_is_SomeI [OF charsets_distinct(1) assms] by (simp add: CharsetName_def)
  have "normalizeName name = name" using charsets_normal assms by (auto simp: list_all_iff)
  then show "CharsetID name = cid"
    unfolding CharsetID_def charsetByName_def by (simp only: map_of_swap [OF charsets_distinct(2) assms] option.case)
qed

end
