(* ===== verification/ParamEncode.thy ===== *)
theory ParamEncode
  imports Writer Blr Numeric Charset
begin

text \<open>
  Parameter encoding (\<^verbatim>\<open>internal/wire/types_encode.go\<close>): the parameter message of \<^verbatim>\<open>op_execute\<close> is a null
  bitset followed by the images of the non-null values.  The source has two encoders, one for the pooled
  \<^verbatim>\<open>Writer\<close> and one for the 1024-byte \<^verbatim>\<open>StackWriter\<close>, and \<^verbatim>\<open>EncodeParamsOptimalErr\<close> chooses between them
  from an estimate.  The reference is the message itself (\<open>params_image\<close>), a function of the descriptors
  and values only; both encoders are shown to produce it.
\<close>

section \<open>Text parameters\<close>

definition text_too_long :: "nat \<Rightarrow> nat \<Rightarrow> gerr" where
  "text_too_long n len = Msg (''text parameter too long: encoded length '' @ formatNat n @ '' exceeds field length '' @ formatNat len)"

definition too_long_for :: "string \<Rightarrow> ColumnDescriptor \<Rightarrow> nat \<Rightarrow> int \<Rightarrow> gerr" where
  "too_long_for what desc n len = Msg (what @ '' parameter too long for charset '' @ CharsetName (charsetID desc)
     @ '': encoded length '' @ formatNat n @ '' exceeds field length '' @ formatInt len)"

text \<open>The bytes of a value bound to a text column: a byte slice as it is, anything else as a string in the
  column's character set.\<close>

definition text_bytes :: "golib \<Rightarrow> (string \<Rightarrow> xencoding) \<Rightarrow> ColumnDescriptor \<Rightarrow> gval \<Rightarrow> gerr + byte list" where
  "text_bytes lib xtext desc val =
     (case val of
        VString v \<Rightarrow> Encode xtext (charsetID desc) v
      | VBytes b \<Rightarrow> Inr b
      | _ \<Rightarrow> Encode xtext (charsetID desc) (toString lib val))"

text \<open>\<^verbatim>\<open>copyTextParam\<close> fills a field of \<open>n\<close> bytes; the result is the field's new content.\<close>

definition copyTextParam :: "golib \<Rightarrow> (string \<Rightarrow> xencoding) \<Rightarrow> nat \<Rightarrow> ColumnDescriptor \<Rightarrow> gval \<Rightarrow> gerr + byte list" where
  "copyTextParam lib xtext n desc val =
     (case text_bytes lib xtext desc val of
        Inl e \<Rightarrow> Inl e
      | Inr data \<Rightarrow>
          if length data > n
          then Inl (case val of VBytes raw \<Rightarrow> text_too_long (length raw) n
                    | _ \<Rightarrow> too_long_for ''text'' desc (length data) (int n))
          else Inr (data @ replicate (n - length data) 0x20))"

definition varyingPaddingByte :: "ColumnDescriptor \<Rightarrow> byte" where
  "varyingPaddingByte desc = (if SubType desc = IDOctets then 0x00 else 0x20)"

definition writeVaryingParam :: "ColumnDescriptor \<Rightarrow> byte list \<Rightarrow> Writer \<Rightarrow> gerr option \<times> Writer" where
  "writeVaryingParam desc data w =
     (if int (length data) > sint (Length desc)
      then (Some (too_long_for ''varying'' desc (length data) (sint (Length desc))), w)
      else let l = length data; pad = xdr_pad l; w0 = grow (4 + l + pad) w in
        (None, w_put (replicate pad (varyingPaddingByte desc)) (w_put data (w_put (putUint32 (of_nat l)) w0))))"

definition writeVaryingParamStack :: "ColumnDescriptor \<Rightarrow> byte list \<Rightarrow> StackWriter \<Rightarrow> gerr option \<times> StackWriter" where
  "writeVaryingParamStack desc data w =
     (if int (length data) > sint (Length desc)
      then (Some (too_long_for ''varying'' desc (length data) (sint (Length desc))), w)
      else let l = length data; pad = xdr_pad l in
        if sn w + 4 + l + pad > length (sbuf w) then (None, w\<lparr>overflow := True\<rparr>)
        else (None, s_put (replicate pad (varyingPaddingByte desc)) (s_put data (s_put (putUint32 (of_nat l)) w))))"

section \<open>One value\<close>

text \<open>The slice \<^verbatim>\<open>w.buf[w.n:w.n+length]\<close> of a negative length is a run-time panic.\<close>

definition slicePanic :: gerr where "slicePanic = Msg ''panic: slice bounds out of range''"

definition encodeValueStack ::
  "golib \<Rightarrow> (string \<Rightarrow> xencoding) \<Rightarrow> ColumnDescriptor \<Rightarrow> gval \<Rightarrow> StackWriter \<Rightarrow> gerr option \<times> StackWriter" where
  "encodeValueStack lib xtext desc val w =
     (let sqlType = baseType (SQLType desc) in
      if sqlType = SQLShort then
        (case numericInt64 lib val (Scale desc) of Inl e \<Rightarrow> (Some e, w) | Inr v \<Rightarrow>
          if v < minInt16 \<or> v > maxInt16 then (Some (numericOverflow lib val (Scale desc)), w)
          else (None, StackWriter_WriteInt32 (of_int v) w))
      else if sqlType = SQLLong then
        (case numericInt64 lib val (Scale desc) of Inl e \<Rightarrow> (Some e, w) | Inr v \<Rightarrow>
          if v < minInt32 \<or> v > maxInt32 then (Some (numericOverflow lib val (Scale desc)), w)
          else (None, StackWriter_WriteInt32 (of_int v) w))
      else if sqlType = SQLInt64 then
        (case numericInt64 lib val (Scale desc) of Inl e \<Rightarrow> (Some e, w) | Inr v \<Rightarrow>
          (None, StackWriter_WriteInt64 (of_int v) w))
      else if sqlType = SQLFloat then
        (case floatValue lib val of Inl e \<Rightarrow> (Some e, w) | Inr v \<Rightarrow> (None, StackWriter_WriteUInt32 (float32_of lib v) w))
      else if sqlType = SQLDouble then
        (case floatValue lib val of Inl e \<Rightarrow> (Some e, w) | Inr v \<Rightarrow>
          if sn w + 8 > length (sbuf w) then (None, w) else (None, s_put (putUint64 v) w))
      else if sqlType = SQLBoolean then (None, StackWriter_WriteUInt32 (boolWireValue (toBool val)) w)
      else if sqlType = SQLTypeDate then
        (case timeValue val of Inl e \<Rightarrow> (Some e, w) | Inr t \<Rightarrow> (None, StackWriter_WriteInt32 (DateToMJD t) w))
      else if sqlType = SQLTypeTime then
        (case timeValue val of Inl e \<Rightarrow> (Some e, w) | Inr t \<Rightarrow> (None, StackWriter_WriteUInt32 (TimeToTicks t) w))
      else if sqlType = SQLTimestamp then
        (case timeValue val of Inl e \<Rightarrow> (Some e, w) | Inr t \<Rightarrow>
          (None, StackWriter_WriteUInt32 (TimeToTicks t) (StackWriter_WriteInt32 (DateToMJD t) w)))
      else if sqlType = SQLText then
        (if sint (Length desc) < 0 then (Some slicePanic, w)
         else let len = nat (sint (Length desc)); pad = xdr_pad len in
           if sn w + len + pad > length (sbuf w) then (None, w\<lparr>overflow := True\<rparr>)
           else case copyTextParam lib xtext len desc val of
               Inl e \<Rightarrow> (Some e, w)
             | Inr field \<Rightarrow> (None, s_put (take pad zeroPad) (s_put field w)))
      else if sqlType = SQLVarying then
        (case text_bytes lib xtext desc val of Inl e \<Rightarrow> (Some e, w) | Inr data \<Rightarrow> writeVaryingParamStack desc data w)
      else if sqlType = SQLBlob then (None, StackWriter_WriteInt64 (toInt64 lib val) w)
      else if sqlType = SQLDec16 then (None, StackWriter_WriteString (toString lib val) w)
      else if sqlType = SQLDec34 then (None, StackWriter_WriteString (toString lib val) w)
      else if sqlType = SQLInt128 then
        (case valueToInt128 lib val (Scale desc) of Inl e \<Rightarrow> (Some e, w) | Inr data \<Rightarrow>
          if sn w + 16 > length (sbuf w) then (None, w\<lparr>overflow := True\<rparr>) else (None, s_put data w))
      else if sqlType = SQLTimestampTZ \<or> sqlType = SQLTimestampTZEx then
        (case timeValue val of Inl e \<Rightarrow> (Some e, w) | Inr tv \<Rightarrow>
          let (utc, off, offsetMinutes) = timezoneParts tv in
          (None, StackWriter_WriteInt32 offsetMinutes (StackWriter_WriteUInt32 (tzOffsetToID off)
            (StackWriter_WriteUInt32 (TimeToTicks utc) (StackWriter_WriteInt32 (DateToMJD utc) w)))))
      else if sqlType = SQLTimeTZ \<or> sqlType = SQLTimeTZEx then
        (case timeValue val of Inl e \<Rightarrow> (Some e, w) | Inr tv \<Rightarrow>
          let (utc, off, offsetMinutes) = timezoneParts tv in
          (None, StackWriter_WriteInt32 offsetMinutes (StackWriter_WriteUInt32 (tzOffsetToID off)
            (StackWriter_WriteUInt32 (TimeToTicks utc) w))))
      else (case val of
          VString v \<Rightarrow> (None, StackWriter_WriteString v w)
        | VBytes v \<Rightarrow> (None, StackWriter_WriteBuffer v w)
        | _ \<Rightarrow> (None, StackWriter_WriteString (toString lib val) w)))"

definition encodeValue ::
  "golib \<Rightarrow> (string \<Rightarrow> xencoding) \<Rightarrow> ColumnDescriptor \<Rightarrow> gval \<Rightarrow> Writer \<Rightarrow> gerr option \<times> Writer" where
  "encodeValue lib xtext desc val w =
     (let sqlType = baseType (SQLType desc) in
      if sqlType = SQLShort then
        (case numericInt64 lib val (Scale desc) of Inl e \<Rightarrow> (Some e, w) | Inr v \<Rightarrow>
          if v < minInt16 \<or> v > maxInt16 then (Some (numericOverflow lib val (Scale desc)), w)
          else (None, WriteInt32 (of_int v) w))
      else if sqlType = SQLLong then
        (case numericInt64 lib val (Scale desc) of Inl e \<Rightarrow> (Some e, w) | Inr v \<Rightarrow>
          if v < minInt32 \<or> v > maxInt32 then (Some (numericOverflow lib val (Scale desc)), w)
          else (None, WriteInt32 (of_int v) w))
      else if sqlType = SQLInt64 then
        (case numericInt64 lib val (Scale desc) of Inl e \<Rightarrow> (Some e, w) | Inr v \<Rightarrow> (None, WriteInt64 (of_int v) w))
      else if sqlType = SQLFloat then
        (case floatValue lib val of Inl e \<Rightarrow> (Some e, w) | Inr v \<Rightarrow> (None, WriteUInt32 (float32_of lib v) w))
      else if sqlType = SQLDouble then
        (case floatValue lib val of Inl e \<Rightarrow> (Some e, w) | Inr v \<Rightarrow> (None, w_put (putUint64 v) (grow 8 w)))
      else if sqlType = SQLBoolean then (None, WriteUInt32 (boolWireValue (toBool val)) w)
      else if sqlType = SQLTypeDate then
        (case timeValue val of Inl e \<Rightarrow> (Some e, w) | Inr t \<Rightarrow> (None, WriteInt32 (DateToMJD t) w))
      else if sqlType = SQLTypeTime then
        (case timeValue val of Inl e \<Rightarrow> (Some e, w) | Inr t \<Rightarrow> (None, WriteUInt32 (TimeToTicks t) w))
      else if sqlType = SQLTimestamp then
        (case timeValue val of Inl e \<Rightarrow> (Some e, w) | Inr t \<Rightarrow>
          (None, WriteUInt32 (TimeToTicks t) (WriteInt32 (DateToMJD t) w)))
      else if sqlType = SQLText then
        (if sint (Length desc) < 0 then (Some slicePanic, w)
         else let len = nat (sint (Length desc)); pad = xdr_pad len; w0 = grow (len + pad) w in
           case copyTextParam lib xtext len desc val of
             Inl e \<Rightarrow> (Some e, w0)
           | Inr field \<Rightarrow> (None, w_put (take pad zeroPad) (w_put field w0)))
      else if sqlType = SQLVarying then
        (case text_bytes lib xtext desc val of Inl e \<Rightarrow> (Some e, w) | Inr data \<Rightarrow> writeVaryingParam desc data w)
      else if sqlType = SQLBlob then (None, WriteInt64 (toInt64 lib val) w)
      else if sqlType = SQLDec16 then (None, WriteString (toString lib val) w)
      else if sqlType = SQLDec34 then (None, WriteString (toString lib val) w)
      else if sqlType = SQLInt128 then
        (case valueToInt128 lib val (Scale desc) of Inl e \<Rightarrow> (Some e, w) | Inr data \<Rightarrow> (None, w_put data (grow 16 w)))
      else if sqlType = SQLTimestampTZ \<or> sqlType = SQLTimestampTZEx then
        (case timeValue val of Inl e \<Rightarrow> (Some e, w) | Inr tv \<Rightarrow>
          let (utc, off, offsetMinutes) = timezoneParts tv in
          (None, WriteInt32 offsetMinutes (WriteUInt32 (tzOffsetToID off)
            (WriteUInt32 (TimeToTicks utc) (WriteInt32 (DateToMJD utc) w)))))
      else if sqlType = SQLTimeTZ \<or> sqlType = SQLTimeTZEx then
        (case timeValue val of Inl e \<Rightarrow> (Some e, w) | Inr tv \<Rightarrow>
          let (utc, off, offsetMinutes) = timezoneParts tv in
          (None, WriteInt32 offsetMinutes (WriteUInt32 (tzOffsetToID off) (WriteUInt32 (TimeToTicks utc) w))))
      else (case val of
          VString v \<Rightarrow> (None, WriteString v w)
        | VBytes v \<Rightarrow> (None, WriteBuffer v w)
        | _ \<Rightarrow> (None, WriteString (toString lib val) w)))"

section \<open>The estimate\<close>

definition pad_int :: "int \<Rightarrow> int" where "pad_int n = (4 - n) AND 3"

definition estimateValueSize :: "golib \<Rightarrow> ColumnDescriptor \<Rightarrow> gval \<Rightarrow> int" where
  "estimateValueSize lib desc val =
     (let sqlType = baseType (SQLType desc) in
      if sqlType \<in> {SQLShort, SQLLong, SQLFloat, SQLTypeDate, SQLTypeTime} then 4
      else if sqlType \<in> {SQLDouble, SQLTimestamp, SQLBlob, SQLInt64} then 8
      else if sqlType \<in> {SQLTimeTZ, SQLTimeTZEx} then 12
      else if sqlType \<in> {SQLTimestampTZ, SQLTimestampTZEx} then 16
      else if sqlType \<in> {SQLDec16, SQLDec34} then
        (let l = int (length (toString lib val)) in 4 + l + pad_int l)
      else if sqlType = SQLInt128 then 16
      else if sqlType = SQLText then sint (Length desc) + pad_int (sint (Length desc))
      else if sqlType = SQLVarying then
        (case val of
           VString v \<Rightarrow> 4 + int (length v) + pad_int (int (length v))
         | VBytes v \<Rightarrow> 4 + int (length v) + pad_int (int (length v))
         | _ \<Rightarrow> 4 + 32 + pad_int 32)
      else if sqlType = SQLBoolean then 4
      else 32)"

text \<open>\<^verbatim>\<open>(byteCount + 3) & ^3\<close> clears the low two bits.\<close>

definition bitsetLen :: "nat \<Rightarrow> nat" where
  "bitsetLen colCount = (let byteCount = (colCount + 7) div 8 in (byteCount + 3) div 4 * 4)"

record NamedValue =
  nvName :: string
  nvOrdinal :: nat
  nvValue :: gval

definition is_null_param :: "gval list \<Rightarrow> nat \<Rightarrow> bool" where
  "is_null_param vals i \<longleftrightarrow> i \<ge> length vals \<or> vals ! i = VNil"

definition EstimateParamSize :: "golib \<Rightarrow> ColumnDescriptor list \<Rightarrow> NamedValue list \<Rightarrow> int" where
  "EstimateParamSize lib descs vals =
     foldl (\<lambda>size (i, desc). if is_null_param (map nvValue vals) i then size
                             else size + estimateValueSize lib desc (nvValue (vals ! i)))
       (int (bitsetLen (length descs))) (zip [0 ..< length descs] descs)"

section \<open>The message\<close>

text \<open>\<^verbatim>\<open>w.buf[bitsetStart+byteIdx] |= 1 << bitIdx\<close>\<close>

definition set_null_bit :: "nat \<Rightarrow> nat \<Rightarrow> byte list \<Rightarrow> byte list" where
  "set_null_bit start i b = b[start + i div 8 := b ! (start + i div 8) OR push_bit (i mod 8) 1]"

definition reserveNullBitset :: "nat \<Rightarrow> Writer \<Rightarrow> nat \<times> Writer" where
  "reserveNullBitset colCount w =
     (let padded = bitsetLen colCount; w0 = grow padded w in (wn w0, w_put (replicate padded 0) w0))"

fun encode_loop ::
  "golib \<Rightarrow> (string \<Rightarrow> xencoding) \<Rightarrow> nat \<Rightarrow> gval list \<Rightarrow> nat \<Rightarrow> ColumnDescriptor list \<Rightarrow> Writer \<Rightarrow> gerr option \<times> Writer" where
  "encode_loop lib xtext start vals i [] w = (None, w)"
| "encode_loop lib xtext start vals i (desc # descs) w =
     (if is_null_param vals i
      then encode_loop lib xtext start vals (Suc i) descs (w\<lparr>wbuf := set_null_bit start i (wbuf w)\<rparr>)
      else case encodeValue lib xtext desc (vals ! i) w of
          (Some e, w') \<Rightarrow> (Some e, w')
        | (None, w') \<Rightarrow> encode_loop lib xtext start vals (Suc i) descs w')"

definition EncodeParamsErr ::
  "golib \<Rightarrow> (string \<Rightarrow> xencoding) \<Rightarrow> ColumnDescriptor list \<Rightarrow> gval list \<Rightarrow> Writer \<Rightarrow> gerr option \<times> Writer" where
  "EncodeParamsErr lib xtext descs vals w =
     (let (start, w') = reserveNullBitset (length descs) w in encode_loop lib xtext start vals 0 descs w')"

definition EncodeParams ::
  "golib \<Rightarrow> (string \<Rightarrow> xencoding) \<Rightarrow> ColumnDescriptor list \<Rightarrow> gval list \<Rightarrow> Writer \<Rightarrow> Writer" where
  "EncodeParams lib xtext descs vals w = snd (EncodeParamsErr lib xtext descs vals w)"

definition EncodeNamedParamsErr ::
  "golib \<Rightarrow> (string \<Rightarrow> xencoding) \<Rightarrow> ColumnDescriptor list \<Rightarrow> NamedValue list \<Rightarrow> Writer \<Rightarrow> gerr option \<times> Writer" where
  "EncodeNamedParamsErr lib xtext descs vals w =
     (let (start, w') = reserveNullBitset (length descs) w
      in encode_loop lib xtext start (map nvValue vals) 0 descs w')"

definition EncodeNamedParams ::
  "golib \<Rightarrow> (string \<Rightarrow> xencoding) \<Rightarrow> ColumnDescriptor list \<Rightarrow> NamedValue list \<Rightarrow> Writer \<Rightarrow> Writer" where
  "EncodeNamedParams lib xtext descs vals w = snd (EncodeNamedParamsErr lib xtext descs vals w)"

fun encode_loop_stack ::
  "golib \<Rightarrow> (string \<Rightarrow> xencoding) \<Rightarrow> nat \<Rightarrow> gval list \<Rightarrow> nat \<Rightarrow> ColumnDescriptor list \<Rightarrow> StackWriter \<Rightarrow> gerr option \<times> StackWriter" where
  "encode_loop_stack lib xtext start vals i [] w = (None, w)"
| "encode_loop_stack lib xtext start vals i (desc # descs) w =
     (if is_null_param vals i
      then encode_loop_stack lib xtext start vals (Suc i) descs (w\<lparr>sbuf := set_null_bit start i (sbuf w)\<rparr>)
      else case encodeValueStack lib xtext desc (vals ! i) w of
          (Some e, w') \<Rightarrow> (Some e, w')
        | (None, w') \<Rightarrow> encode_loop_stack lib xtext start vals (Suc i) descs w')"

definition EncodeNamedParamsStackErr ::
  "golib \<Rightarrow> (string \<Rightarrow> xencoding) \<Rightarrow> ColumnDescriptor list \<Rightarrow> NamedValue list \<Rightarrow> StackWriter \<Rightarrow> gerr option \<times> StackWriter" where
  "EncodeNamedParamsStackErr lib xtext descs vals w =
     (let padded = bitsetLen (length descs) in
      if sn w + padded > length (sbuf w) then (None, w\<lparr>overflow := True\<rparr>)
      else encode_loop_stack lib xtext (sn w) (map nvValue vals) 0 descs (s_put (replicate padded 0) w))"

text \<open>The result, the stack writer and the pool.  \<^verbatim>\<open>GetWriter\<close> and \<^verbatim>\<open>PutWriter\<close> bracket the fallback.\<close>

definition EncodeParamsOptimalErr ::
  "golib \<Rightarrow> (string \<Rightarrow> xencoding) \<Rightarrow> ColumnDescriptor list \<Rightarrow> NamedValue list \<Rightarrow> StackWriter \<Rightarrow> Writer list
     \<Rightarrow> (gerr + byte list) \<times> StackWriter \<times> Writer list" where
  "EncodeParamsOptimalErr lib xtext descs vals sw pool =
     (let fallback = (\<lambda>sw.
            let (w, pool') = GetWriter pool in
            case EncodeNamedParamsErr lib xtext descs vals w of
              (Some e, w') \<Rightarrow> (Inl e, sw, PutWriter w' pool')
            | (None, w') \<Rightarrow> (Inr (Bytes w'), sw, PutWriter w' pool')) in
      if EstimateParamSize lib descs vals \<le> 1024 then
        (case EncodeNamedParamsStackErr lib xtext descs vals (StackWriter_Reset sw) of
           (Some e, sw') \<Rightarrow> (Inl e, sw', pool)
         | (None, sw') \<Rightarrow> if \<not> Overflowed sw' then (Inr (StackWriter_Bytes sw'), sw', pool) else fallback sw')
      else fallback sw)"

definition EncodeParamsOptimal ::
  "golib \<Rightarrow> (string \<Rightarrow> xencoding) \<Rightarrow> ColumnDescriptor list \<Rightarrow> NamedValue list \<Rightarrow> StackWriter \<Rightarrow> Writer list \<Rightarrow> byte list" where
  "EncodeParamsOptimal lib xtext descs vals sw pool =
     (case fst (EncodeParamsOptimalErr lib xtext descs vals sw pool) of Inr data \<Rightarrow> data | Inl _ \<Rightarrow> [])"

section \<open>The reference message\<close>

text \<open>The image of one value: what the server expects for a column of that type, or why there is none.\<close>

definition ints32 :: "int32 list \<Rightarrow> byte list" where "ints32 vs = concat (map putUint32 vs)"

definition ranged :: "golib \<Rightarrow> ColumnDescriptor \<Rightarrow> gval \<Rightarrow> int \<Rightarrow> int \<Rightarrow> gerr + byte list" where
  "ranged lib desc val lo hi =
     (case numericInt64 lib val (Scale desc) of Inl e \<Rightarrow> Inl e | Inr v \<Rightarrow>
        if v < lo \<or> v > hi then Inl (numericOverflow lib val (Scale desc)) else Inr (ints32 [of_int v]))"

definition timed :: "gval \<Rightarrow> (gtime \<Rightarrow> int32 list) \<Rightarrow> gerr + byte list" where
  "timed val f = (case timeValue val of Inl e \<Rightarrow> Inl e | Inr t \<Rightarrow> Inr (ints32 (f t)))"

definition zoned :: "(gtime \<Rightarrow> int32 list) \<Rightarrow> gtime \<Rightarrow> int32 list" where
  "zoned f t = (let (utc, off, offsetMinutes) = timezoneParts t in f utc @ [tzOffsetToID off, offsetMinutes])"

definition text_image :: "golib \<Rightarrow> (string \<Rightarrow> xencoding) \<Rightarrow> ColumnDescriptor \<Rightarrow> gval \<Rightarrow> gerr + byte list" where
  "text_image lib xtext desc val =
     (if sint (Length desc) < 0 then Inl slicePanic
      else let len = nat (sint (Length desc)) in
        case copyTextParam lib xtext len desc val of Inl e \<Rightarrow> Inl e | Inr field \<Rightarrow> Inr (field @ replicate (xdr_pad len) 0))"

definition varying_image :: "golib \<Rightarrow> (string \<Rightarrow> xencoding) \<Rightarrow> ColumnDescriptor \<Rightarrow> gval \<Rightarrow> gerr + byte list" where
  "varying_image lib xtext desc val =
     (case text_bytes lib xtext desc val of Inl e \<Rightarrow> Inl e | Inr data \<Rightarrow>
        if int (length data) > sint (Length desc)
        then Inl (too_long_for ''varying'' desc (length data) (sint (Length desc)))
        else Inr (putUint32 (of_nat (length data)) @ data @ replicate (xdr_pad (length data)) (varyingPaddingByte desc)))"

definition string_image :: "string \<Rightarrow> byte list" where "string_image s = xdr_buffer (bytes_of_string s)"

definition value_image :: "golib \<Rightarrow> (string \<Rightarrow> xencoding) \<Rightarrow> ColumnDescriptor \<Rightarrow> gval \<Rightarrow> gerr + byte list" where
  "value_image lib xtext desc val =
     (let sqlType = baseType (SQLType desc) in
      if sqlType = SQLShort then ranged lib desc val minInt16 maxInt16
      else if sqlType = SQLLong then ranged lib desc val minInt32 maxInt32
      else if sqlType = SQLInt64 then
        (case numericInt64 lib val (Scale desc) of Inl e \<Rightarrow> Inl e | Inr v \<Rightarrow> Inr (putUint64 (of_int v)))
      else if sqlType = SQLFloat then
        (case floatValue lib val of Inl e \<Rightarrow> Inl e | Inr v \<Rightarrow> Inr (ints32 [float32_of lib v]))
      else if sqlType = SQLDouble then
        (case floatValue lib val of Inl e \<Rightarrow> Inl e | Inr v \<Rightarrow> Inr (putUint64 v))
      else if sqlType = SQLBoolean then Inr (ints32 [boolWireValue (toBool val)])
      else if sqlType = SQLTypeDate then timed val (\<lambda>t. [DateToMJD t])
      else if sqlType = SQLTypeTime then timed val (\<lambda>t. [TimeToTicks t])
      else if sqlType = SQLTimestamp then timed val (\<lambda>t. [DateToMJD t, TimeToTicks t])
      else if sqlType = SQLText then text_image lib xtext desc val
      else if sqlType = SQLVarying then varying_image lib xtext desc val
      else if sqlType = SQLBlob then Inr (putUint64 (toInt64 lib val))
      else if sqlType = SQLDec16 then Inr (string_image (toString lib val))
      else if sqlType = SQLDec34 then Inr (string_image (toString lib val))
      else if sqlType = SQLInt128 then valueToInt128 lib val (Scale desc)
      else if sqlType = SQLTimestampTZ \<or> sqlType = SQLTimestampTZEx then
        timed val (zoned (\<lambda>t. [DateToMJD t, TimeToTicks t]))
      else if sqlType = SQLTimeTZ \<or> sqlType = SQLTimeTZEx then timed val (zoned (\<lambda>t. [TimeToTicks t]))
      else (case val of VBytes b \<Rightarrow> Inr (xdr_buffer b) | _ \<Rightarrow> Inr (string_image (toString lib val))))"

fun null_bits :: "nat \<Rightarrow> bool list \<Rightarrow> byte list \<Rightarrow> byte list" where
  "null_bits i [] b = b"
| "null_bits i (f # fs) b = null_bits (Suc i) fs (if f then set_null_bit 0 i b else b)"

definition null_bitset :: "bool list \<Rightarrow> byte list" where
  "null_bitset fs = null_bits 0 fs (replicate (bitsetLen (length fs)) 0)"

fun value_images ::
  "golib \<Rightarrow> (string \<Rightarrow> xencoding) \<Rightarrow> gval list \<Rightarrow> nat \<Rightarrow> ColumnDescriptor list \<Rightarrow> gerr + byte list" where
  "value_images lib xtext vals i [] = Inr []"
| "value_images lib xtext vals i (desc # descs) =
     (if is_null_param vals i then value_images lib xtext vals (Suc i) descs
      else case value_image lib xtext desc (vals ! i) of
          Inl e \<Rightarrow> Inl e
        | Inr bs \<Rightarrow> (case value_images lib xtext vals (Suc i) descs of Inl e \<Rightarrow> Inl e | Inr rest \<Rightarrow> Inr (bs @ rest)))"

definition null_flags :: "gval list \<Rightarrow> nat \<Rightarrow> nat \<Rightarrow> bool list" where
  "null_flags vals i n = map (is_null_param vals) [i ..< i + n]"

definition params_image ::
  "golib \<Rightarrow> (string \<Rightarrow> xencoding) \<Rightarrow> ColumnDescriptor list \<Rightarrow> gval list \<Rightarrow> gerr + byte list" where
  "params_image lib xtext descs vals =
     (case value_images lib xtext vals 0 descs of
        Inl e \<Rightarrow> Inl e
      | Inr bs \<Rightarrow> Inr (null_bitset (null_flags vals 0 (length descs)) @ bs))"

section \<open>One value, both writers\<close>

definition produces :: "gerr option \<times> Writer \<Rightarrow> Writer \<Rightarrow> gerr + byte list \<Rightarrow> bool" where
  "produces res w img \<longleftrightarrow> wf_writer (snd res) \<and>
     (case img of Inl e \<Rightarrow> fst res = Some e | Inr bs \<Rightarrow> fst res = None \<and> Bytes (snd res) = Bytes w @ bs)"

lemma produces_if:
  "(P \<Longrightarrow> produces a w x) \<Longrightarrow> (\<not> P \<Longrightarrow> produces b w y) \<Longrightarrow> produces (if P then a else b) w (if P then x else y)"
  by simp

lemma length_copy16 [simp]: "length (copy16 b) = 16"
  by (simp add: copy16_def Let_def)

lemma stringToInt128Err_length: "stringToInt128Err s scale = Inr data \<Longrightarrow> length data = 16"
  by (auto simp: stringToInt128Err_def split: sum.splits if_splits)

lemma valueToInt128_length: "valueToInt128 lib val scale = Inr data \<Longrightarrow> length data = 16"
  by (cases val) (auto intro: stringToInt128Err_length)

lemma copyTextParam_length: "copyTextParam lib xtext n desc val = Inr field \<Longrightarrow> length field = n"
  by (auto simp: copyTextParam_def split: sum.splits if_splits)

lemma w_put2:
  assumes "wf_writer w"
  shows "wf_writer (w_put b (w_put a (grow (length a + length b) w)))"
    and "Bytes (w_put b (w_put a (grow (length a + length b) w))) = Bytes w @ a @ b"
proof -
  have nil: "w_put [] v = v" for v by (simp add: w_put_def overwrite_def)
  show "wf_writer (w_put b (w_put a (grow (length a + length b) w)))"
    "Bytes (w_put b (w_put a (grow (length a + length b) w))) = Bytes w @ a @ b"
    using w_put3 [OF assms, of "[]" b a] by (simp_all add: nil)
qed

lemma produces_text:
  assumes "wf_writer w"
  shows "produces
     (if sint (Length desc) < 0 then (Some slicePanic, w)
      else let len = nat (sint (Length desc)); pad = xdr_pad len; w0 = grow (len + pad) w in
        case copyTextParam lib xtext len desc val of
          Inl e \<Rightarrow> (Some e, w0) | Inr field \<Rightarrow> (None, w_put (take pad zeroPad) (w_put field w0))) w
     (text_image lib xtext desc val)"
proof (cases "copyTextParam lib xtext (nat (sint (Length desc))) desc val")
  case (Inl e)
  then show ?thesis using assms grow_props(1) [OF assms] by (simp add: produces_def text_image_def Let_def)
next
  case (Inr field)
  define n where "n = nat (sint (Length desc))"
  have "length field = n" using copyTextParam_length Inr by (simp add: n_def)
  then show ?thesis
    using w_put2 [OF assms, of "replicate (xdr_pad n) 0" field] Inr assms
    by (simp add: produces_def text_image_def Let_def take_zeroPad n_def [symmetric])
qed

lemma produces_varying:
  assumes "wf_writer w"
  shows "produces (case text_bytes lib xtext desc val of Inl e \<Rightarrow> (Some e, w) | Inr data \<Rightarrow> writeVaryingParam desc data w) w
     (varying_image lib xtext desc val)"
proof (cases "text_bytes lib xtext desc val")
  case (Inr data)
  show ?thesis
    using w_put3 [OF assms, of "replicate (xdr_pad (length data)) (varyingPaddingByte desc)" data "putUint32 (of_nat (length data))"]
      assms by (simp add: produces_def varying_image_def writeVaryingParam_def Let_def Inr)
qed (simp add: produces_def varying_image_def assms)

lemma w_put_int128:
  assumes "valueToInt128 lib val scale = Inr data" and "wf_writer w"
  shows "wf_writer (w_put data (grow 16 w))" and "Bytes (w_put data (grow 16 w)) = Bytes w @ data"
  using w_put1 [OF assms(2), of data] valueToInt128_length [OF assms(1)] by simp_all

text \<open>The pooled encoder appends the image of the value or reports the reason there is none.\<close>

lemma encodeValue_image:
  assumes "wf_writer w"
  shows "produces (encodeValue lib xtext desc val w) w (value_image lib xtext desc val)"
  unfolding encodeValue_def value_image_def Let_def [of "baseType (SQLType desc)"]
  using assms
  by (intro produces_if produces_text produces_varying)
    (auto simp: produces_def ranged_def timed_def zoned_def ints32_def WriteInt32_props WriteUInt32_eq WriteInt64_props
        WriteString_eq WriteBuffer_props string_image_def timezoneParts_def w_put_int128
        w_put1 [of _ "putUint64 _", simplified] split: sum.split gval.split prod.split)

text \<open>The stack encoder does the same unless it overflows; the one case without a claim is \<^verbatim>\<open>SQLDouble\<close>,
  which reports no overflow (see \<open>double_dropped\<close> below).\<close>

definition s_produces :: "gerr option \<times> StackWriter \<Rightarrow> StackWriter \<Rightarrow> gerr + byte list \<Rightarrow> bool" where
  "s_produces res w img \<longleftrightarrow> wf_stack (snd res) \<and> (overflow w \<longrightarrow> overflow (snd res)) \<and>
     (case fst res of
        Some e \<Rightarrow> img = Inl e
      | None \<Rightarrow> overflow (snd res) \<or> (\<exists>bs. img = Inr bs \<and> StackWriter_Bytes (snd res) = StackWriter_Bytes w @ bs))"

lemma s_produces_if:
  "(P \<Longrightarrow> s_produces a w x) \<Longrightarrow> (\<not> P \<Longrightarrow> s_produces b w y) \<Longrightarrow> s_produces (if P then a else b) w (if P then x else y)"
  by simp

lemma s_produces_ok:
  "wf_stack w' \<Longrightarrow> (overflow w \<Longrightarrow> overflow w') \<Longrightarrow> (\<not> overflow w' \<Longrightarrow> StackWriter_Bytes w' = StackWriter_Bytes w @ bs)
     \<Longrightarrow> s_produces (None, w') w (Inr bs)"
  by (auto simp: s_produces_def)

lemma s_produces_err: "wf_stack w \<Longrightarrow> s_produces (Some e, w) w (Inl e)"
  by (simp add: s_produces_def)

lemma s_produces_sum:
  assumes "wf_stack w" and "\<And>v. x = Inr v \<Longrightarrow> s_produces (f v) w (g v)"
  shows "s_produces (case x of Inl e \<Rightarrow> (Some e, w) | Inr v \<Rightarrow> f v) w (case x of Inl e \<Rightarrow> Inl e | Inr v \<Rightarrow> g v)"
  using assms by (cases x) (simp_all add: s_produces_err)

text \<open>A run of 32-bit words is written by the \<open>stacked\<close> instance of the writer contract.\<close>

lemma s_produces_ints:
  assumes "wf_stack w"
  shows "s_produces (None, stacked.write_fields (map FInt32 vs) w) w (Inr (ints32 vs))"
  using stacked.write_fields_wf [OF assms] stacked.write_fields_failed [of w] stacked.write_fields_content [OF assms, of "map FInt32 vs"]
  by (intro s_produces_ok) (auto simp: ints32_def comp_def)

lemmas s_produces_int1 = s_produces_ints [of _ "[_]", simplified]
lemmas s_produces_int2 = s_produces_ints [of _ "[_, _]", simplified]
lemmas s_produces_int3 = s_produces_ints [of _ "[_, _, _]", simplified]
lemmas s_produces_int4 = s_produces_ints [of _ "[_, _, _, _]", simplified]

lemma s_produces_int64:
  assumes "wf_stack w" shows "s_produces (None, StackWriter_WriteInt64 v w) w (Inr (putUint64 v))"
  using StackWriter_WriteInt64_props [OF assms] by (intro s_produces_ok) simp_all

lemma s_produces_buffer:
  assumes "wf_stack w" shows "s_produces (None, StackWriter_WriteBuffer b w) w (Inr (xdr_buffer b))"
  using StackWriter_WriteBuffer_props [OF assms] by (intro s_produces_ok) simp_all

lemma s_produces_string:
  assumes "wf_stack w" shows "s_produces (None, StackWriter_WriteString s w) w (Inr (string_image s))"
  using s_produces_buffer [OF assms] by (simp add: StackWriter_WriteString_eq string_image_def)

lemma s_produces_over: "wf_stack w \<Longrightarrow> s_produces (None, w\<lparr>overflow := True\<rparr>) w img"
  by (simp add: s_produces_def wf_stack_def)

lemma s_produces_put:
  assumes "wf_stack w" and "sn w + length bs \<le> length (sbuf w)"
  shows "s_produces (None, s_put bs w) w (Inr bs)"
  using s_put_props [OF assms] by (intro s_produces_ok) simp_all

lemma s_put2:
  assumes "wf_stack w" and "sn w + length a + length b \<le> length (sbuf w)"
  shows "s_produces (None, s_put b (s_put a w)) w (Inr (a @ b))"
proof -
  have nil: "s_put [] v = v" for v by (simp add: s_put_def overwrite_def)
  show ?thesis using s_put3 [OF assms(1), of a b "[]"] assms(2) by (intro s_produces_ok) (simp_all add: nil)
qed

lemma s_produces_text:
  assumes "wf_stack w"
  shows "s_produces
     (if sint (Length desc) < 0 then (Some slicePanic, w)
      else let len = nat (sint (Length desc)); pad = xdr_pad len in
        if sn w + len + pad > length (sbuf w) then (None, w\<lparr>overflow := True\<rparr>)
        else case copyTextParam lib xtext len desc val of
            Inl e \<Rightarrow> (Some e, w) | Inr field \<Rightarrow> (None, s_put (take pad zeroPad) (s_put field w))) w
     (text_image lib xtext desc val)"
proof (cases "sint (Length desc) < 0")
  case False
  define n where "n = nat (sint (Length desc))"
  show ?thesis
  proof (cases "copyTextParam lib xtext n desc val")
    case (Inr field)
    have "length field = n" using copyTextParam_length Inr .
    then show ?thesis
      using s_put2 [OF assms, of field "replicate (xdr_pad n) 0"] s_produces_over [OF assms] False Inr
      by (auto simp: text_image_def Let_def n_def [symmetric] take_zeroPad not_less)
  qed (use False s_produces_over [OF assms] s_produces_err [OF assms] in \<open>simp add: text_image_def Let_def n_def [symmetric]\<close>)
qed (simp add: text_image_def s_produces_err assms)

lemma s_produces_varying:
  assumes "wf_stack w"
  shows "s_produces (case text_bytes lib xtext desc val of Inl e \<Rightarrow> (Some e, w) | Inr data \<Rightarrow> writeVaryingParamStack desc data w) w
     (varying_image lib xtext desc val)"
  unfolding varying_image_def
proof (rule s_produces_sum [OF assms])
  fix data :: "byte list"
  define pads where "pads = replicate (xdr_pad (length data)) (varyingPaddingByte desc)"
  have "s_produces (None, s_put pads (s_put data (s_put (putUint32 (of_nat (length data))) w))) w
      (Inr (putUint32 (of_nat (length data)) @ data @ pads))" if "\<not> sn w + 4 + length data + xdr_pad (length data) > length (sbuf w)"
    using s_put3 [OF assms, of "putUint32 (of_nat (length data))" data pads] that
    by (intro s_produces_ok) (simp_all add: pads_def)
  then show "s_produces (writeVaryingParamStack desc data w) w
      (if int (length data) > sint (Length desc) then Inl (too_long_for ''varying'' desc (length data) (sint (Length desc)))
       else Inr (putUint32 (of_nat (length data)) @ data @ replicate (xdr_pad (length data)) (varyingPaddingByte desc)))"
    by (simp add: writeVaryingParamStack_def Let_def pads_def [symmetric] s_produces_err s_produces_over assms)
qed

lemma s_produces_int128:
  assumes "wf_stack w"
  shows "s_produces (case valueToInt128 lib val scale of Inl e \<Rightarrow> (Some e, w) | Inr data \<Rightarrow>
      if sn w + 16 > length (sbuf w) then (None, w\<lparr>overflow := True\<rparr>) else (None, s_put data w)) w (valueToInt128 lib val scale)"
proof (cases "valueToInt128 lib val scale")
  case (Inr data)
  then show ?thesis using valueToInt128_length [OF Inr] s_produces_put [OF assms, of data] s_produces_over [OF assms] by simp
qed (simp add: s_produces_err assms)

lemma encodeValueStack_image:
  assumes "wf_stack w" and "baseType (SQLType desc) \<noteq> SQLDouble"
  shows "s_produces (encodeValueStack lib xtext desc val w) w (value_image lib xtext desc val)"
  unfolding encodeValueStack_def value_image_def Let_def [of "baseType (SQLType desc)"] if_not_P [OF assms(2)]
    ranged_def timed_def zoned_def timezoneParts_def StackWriter_WriteUInt32_eq
  by (intro s_produces_if s_produces_int128 s_produces_sum s_produces_text s_produces_varying assms(1))
    (auto simp: s_produces_int1 s_produces_int2 s_produces_int3 s_produces_int4 s_produces_int64 s_produces_string
      s_produces_buffer s_produces_err s_produces_over s_produces_put assms(1) split: gval.split)

section \<open>The whole message\<close>

lemma length_set_null_bit [simp]: "length (set_null_bit start i b) = length b"
  by (simp add: set_null_bit_def)

lemma length_null_bits [simp]: "length (null_bits i fs b) = length b"
  by (induction fs arbitrary: i b) simp_all

lemma set_null_bit_mid:
  "i div 8 < length b \<Longrightarrow> set_null_bit (length pre) i (pre @ b @ rest) = pre @ set_null_bit 0 i b @ rest"
  by (simp add: set_null_bit_def nth_append list_update_append)

lemma take_set_null_bit: "start + i div 8 < n \<Longrightarrow> n \<le> length b \<Longrightarrow> take n (set_null_bit start i b) = set_null_bit start i (take n b)"
  by (simp add: set_null_bit_def take_update_swap)

lemma mark_writer:
  assumes "wf_writer w" and "Bytes w = pre @ b @ rest" and "i div 8 < length b"
  shows "wf_writer (w\<lparr>wbuf := set_null_bit (length pre) i (wbuf w)\<rparr>)"
    and "Bytes (w\<lparr>wbuf := set_null_bit (length pre) i (wbuf w)\<rparr>) = pre @ set_null_bit 0 i b @ rest"
proof -
  have "length (Bytes w) = wn w" using assms(1) by (simp add: wf_writer_def Bytes_def)
  then have "length pre + i div 8 < wn w" using assms(2,3) by simp
  then show "Bytes (w\<lparr>wbuf := set_null_bit (length pre) i (wbuf w)\<rparr>) = pre @ set_null_bit 0 i b @ rest"
    using assms by (simp add: Bytes_def wf_writer_def take_set_null_bit set_null_bit_mid)
qed (use assms in \<open>simp add: wf_writer_def\<close>)

lemma mark_stack:
  assumes "wf_stack w" and "StackWriter_Bytes w = pre @ b @ rest" and "i div 8 < length b"
  shows "wf_stack (w\<lparr>sbuf := set_null_bit (length pre) i (sbuf w)\<rparr>)"
    and "StackWriter_Bytes (w\<lparr>sbuf := set_null_bit (length pre) i (sbuf w)\<rparr>) = pre @ set_null_bit 0 i b @ rest"
proof -
  have "length (StackWriter_Bytes w) = sn w" using assms(1) by (simp add: wf_stack_def StackWriter_Bytes_def)
  then have "length pre + i div 8 < sn w" using assms(2,3) by simp
  then show "StackWriter_Bytes (w\<lparr>sbuf := set_null_bit (length pre) i (sbuf w)\<rparr>) = pre @ set_null_bit 0 i b @ rest"
    using assms by (simp add: StackWriter_Bytes_def wf_stack_def take_set_null_bit set_null_bit_mid)
qed (use assms in \<open>simp add: wf_stack_def\<close>)

lemma null_flags_Suc: "null_flags vals i (Suc n) = is_null_param vals i # null_flags vals (Suc i) n"
  by (simp add: null_flags_def upt_conv_Cons del: upt_Suc)

lemma null_flags_0 [simp]: "null_flags vals i 0 = []"
  by (simp add: null_flags_def)

definition message_ok :: "gerr option \<times> Writer \<Rightarrow> gerr + byte list \<Rightarrow> bool" where
  "message_ok res img \<longleftrightarrow> wf_writer (snd res) \<and>
     (case img of Inl e \<Rightarrow> fst res = Some e | Inr msg \<Rightarrow> fst res = None \<and> Bytes (snd res) = msg)"

definition around :: "byte list \<Rightarrow> gerr + byte list \<Rightarrow> gerr + byte list" where
  "around pre img = (case img of Inl e \<Rightarrow> Inl e | Inr bs \<Rightarrow> Inr (pre @ bs))"

lemma around_simps [simp]: "around pre (Inl e) = Inl e" "around pre (Inr bs) = Inr (pre @ bs)"
  by (simp_all add: around_def)

lemma encode_loop_image:
  assumes "wf_writer w" and "Bytes w = pre @ b @ rest" and "i + length descs \<le> 8 * length b"
  shows "message_ok (encode_loop lib xtext (length pre) vals i descs w)
    (around (pre @ null_bits i (null_flags vals i (length descs)) b @ rest) (value_images lib xtext vals i descs))"
  using assms
proof (induction descs arbitrary: i w b rest)
  case (Cons d ds)
  show ?case
  proof (cases "is_null_param vals i")
    case True
    have i: "i div 8 < length b" using Cons.prems(3) by (simp add: less_mult_imp_div_less)
    note m = mark_writer [OF Cons.prems(1,2) i]
    show ?thesis using Cons.IH [OF m, of "Suc i"] Cons.prems(3) True by (simp add: null_flags_Suc)
  next
    case False
    note v = encodeValue_image [OF Cons.prems(1), of lib xtext d "vals ! i"]
    show ?thesis
    proof (cases "value_image lib xtext d (vals ! i)")
      case (Inl e)
      then show ?thesis using v False by (cases "encodeValue lib xtext d (vals ! i) w") (simp add: produces_def message_ok_def)
    next
      case (Inr bs)
      obtain w' where e: "encodeValue lib xtext d (vals ! i) w = (None, w')" and w': "wf_writer w'" "Bytes w' = pre @ b @ (rest @ bs)"
        using v Inr Cons.prems(2) by (cases "encodeValue lib xtext d (vals ! i) w") (auto simp: produces_def)
      show ?thesis
        using Cons.IH [OF w', of "Suc i"] Cons.prems(3) False e Inr
        by (cases "value_images lib xtext vals (Suc i) ds") (simp_all add: null_flags_Suc)
    qed
  qed
qed (simp add: message_ok_def)

lemma bitsetLen_enough: "n \<le> 8 * bitsetLen n"
  unfolding bitsetLen_def Let_def by presburger

text \<open>The pooled encoder writes the reference message or reports the first error of its values.\<close>

lemma EncodeParamsErr_image:
  assumes "wf_writer w"
  shows "message_ok (EncodeParamsErr lib xtext descs vals w) (around (Bytes w) (params_image lib xtext descs vals))"
proof -
  let ?n = "bitsetLen (length descs)"
  let ?w = "w_put (replicate ?n 0) (grow ?n w)"
  have w: "wf_writer ?w" "Bytes ?w = Bytes w @ replicate ?n 0 @ []"
    using w_put1 [OF assms, of "replicate ?n 0"] by simp_all
  have start: "wn (grow ?n w) = length (Bytes w)"
    using grow_props(3) [OF assms] assms by (simp add: Bytes_def wf_writer_def)
  show ?thesis
    using encode_loop_image [OF w, of 0 descs lib xtext vals] bitsetLen_enough [of "length descs"]
    by (cases "value_images lib xtext vals 0 descs")
      (simp_all add: EncodeParamsErr_def reserveNullBitset_def Let_def start params_image_def null_bitset_def null_flags_def)
qed

lemma EncodeNamedParamsErr_eq: "EncodeNamedParamsErr lib xtext descs nvs = EncodeParamsErr lib xtext descs (map nvValue nvs)"
  by (simp add: fun_eq_iff EncodeNamedParamsErr_def EncodeParamsErr_def)

text \<open>The stack encoder: what it returns without overflow is the message; an error it reports is one of the
  values' errors (not necessarily the first, since a text column that does not fit is skipped unread).\<close>

definition s_message_ok :: "gerr option \<times> StackWriter \<Rightarrow> gerr + byte list \<Rightarrow> bool" where
  "s_message_ok res img \<longleftrightarrow> wf_stack (snd res) \<and>
     (case fst res of
        Some e \<Rightarrow> (\<exists>e'. img = Inl e')
      | None \<Rightarrow> overflow (snd res) \<or> img = Inr (StackWriter_Bytes (snd res)))"

lemma encode_loop_stack_overflow:
  assumes "wf_stack w" and "overflow w" and "\<forall>d\<in>set descs. baseType (SQLType d) \<noteq> SQLDouble"
  shows "overflow (snd (encode_loop_stack lib xtext start vals i descs w))"
  using assms
proof (induction descs arbitrary: i w)
  case (Cons d ds)
  have m: "wf_stack (w\<lparr>sbuf := set_null_bit start i (sbuf w)\<rparr>)" using Cons.prems(1) by (simp add: wf_stack_def)
  have d: "baseType (SQLType d) \<noteq> SQLDouble" using Cons.prems(3) by simp
  show ?case
    using encodeValueStack_image [OF Cons.prems(1) d, of lib xtext "vals ! i"] Cons.prems Cons.IH m
    by (auto simp: s_produces_def split: prod.split option.split)
qed simp

lemma encode_loop_stack_image:
  assumes "wf_stack w" and "overflow w \<or> StackWriter_Bytes w = pre @ b @ rest" and "i + length descs \<le> 8 * length b"
    and "\<forall>d\<in>set descs. baseType (SQLType d) \<noteq> SQLDouble"
  shows "s_message_ok (encode_loop_stack lib xtext (length pre) vals i descs w)
    (around (pre @ null_bits i (null_flags vals i (length descs)) b @ rest) (value_images lib xtext vals i descs))"
  using assms
proof (induction descs arbitrary: i w b rest)
  case (Cons d ds)
  show ?case
  proof (cases "is_null_param vals i")
    case True
    let ?w = "w\<lparr>sbuf := set_null_bit (length pre) i (sbuf w)\<rparr>"
    have i: "i div 8 < length b" using Cons.prems(3) by (simp add: less_mult_imp_div_less)
    have "wf_stack ?w" using Cons.prems(1) by (simp add: wf_stack_def)
    moreover have "overflow ?w \<or> StackWriter_Bytes ?w = pre @ set_null_bit 0 i b @ rest"
      using Cons.prems(2) mark_stack(2) [OF Cons.prems(1) _ i] by auto
    ultimately show ?thesis using Cons.IH [of ?w "set_null_bit 0 i b" rest "Suc i"] Cons.prems(3,4) True by (simp add: null_flags_Suc)
  next
    case False
    have "baseType (SQLType d) \<noteq> SQLDouble" using Cons.prems(4) by simp
    note v = encodeValueStack_image [OF Cons.prems(1) this, of lib xtext "vals ! i"]
    obtain err w' where e: "encodeValueStack lib xtext d (vals ! i) w = (err, w')" by (cases "encodeValueStack lib xtext d (vals ! i) w")
    show ?thesis
    proof (cases err)
      case (Some x)
      then show ?thesis using v e False by (simp add: s_produces_def s_message_ok_def)
    next
      case None
      have w': "wf_stack w'" using v e by (simp add: s_produces_def)
      have o: "overflow w' \<or> (\<exists>bs. value_image lib xtext d (vals ! i) = Inr bs \<and> StackWriter_Bytes w' = pre @ b @ rest @ bs)"
        using v e None Cons.prems(2) by (auto simp: s_produces_def)
      show ?thesis
      proof (cases "value_image lib xtext d (vals ! i)")
        case (Inl x)
        have "s_message_ok (encode_loop_stack lib xtext (length pre) vals (Suc i) ds w')
            (around (pre @ null_bits (Suc i) (null_flags vals (Suc i) (length ds)) b @ rest) (value_images lib xtext vals (Suc i) ds))"
          using Cons.IH [OF w', of b rest "Suc i"] o Inl Cons.prems(3,4) by simp
        moreover have "overflow (snd (encode_loop_stack lib xtext (length pre) vals (Suc i) ds w'))"
          using o Inl Cons.prems(4) by (intro encode_loop_stack_overflow [OF w']) simp_all
        ultimately show ?thesis using False None e Inl by (auto simp: s_message_ok_def split: option.splits)
      next
        case (Inr bs)
        have "overflow w' \<or> StackWriter_Bytes w' = pre @ b @ (rest @ bs)" using o Inr by auto
        then show ?thesis
          using Cons.IH [OF w', of b "rest @ bs" "Suc i"] Cons.prems(3,4) False None e Inr
          by (cases "value_images lib xtext vals (Suc i) ds") (simp_all add: null_flags_Suc)
      qed
    qed
  qed
qed (auto simp: s_message_ok_def)

lemma EncodeNamedParamsStackErr_image:
  assumes "wf_stack w" and "StackWriter_Bytes w = []" and "\<not> overflow w"
    and "\<forall>d\<in>set descs. baseType (SQLType d) \<noteq> SQLDouble"
  shows "s_message_ok (EncodeNamedParamsStackErr lib xtext descs nvs w) (params_image lib xtext descs (map nvValue nvs))"
proof -
  let ?n = "bitsetLen (length descs)"
  have sn: "sn w = 0" using assms(1,2) by (auto simp: StackWriter_Bytes_def wf_stack_def stackCap_def)
  show ?thesis
  proof (cases "sn w + ?n > length (sbuf w)")
    case True
    then show ?thesis using assms(1) by (simp add: EncodeNamedParamsStackErr_def Let_def s_message_ok_def wf_stack_def)
  next
    case False
    let ?w = "s_put (replicate ?n 0) w"
    have "wf_stack ?w" "overflow ?w \<or> StackWriter_Bytes ?w = [] @ replicate ?n 0 @ []"
      using s_put_props [OF assms(1), of "replicate ?n 0"] False assms(2) by simp_all
    from encode_loop_stack_image [OF this, of 0 descs lib xtext "map nvValue nvs"] show ?thesis
      using False assms(4) bitsetLen_enough [of "length descs"] sn
      by (cases "value_images lib xtext (map nvValue nvs) 0 descs")
        (simp_all add: EncodeNamedParamsStackErr_def Let_def params_image_def null_bitset_def null_flags_def)
  qed
qed

lemma wf_GetWriter:
  assumes "\<forall>w\<in>set pool. wf_writer w" and "GetWriter pool = (w, pool')"
  shows "wf_writer w" and "Bytes w = []" and "\<forall>w\<in>set pool'. wf_writer w"
  using assms wf_Reset [OF wf_NewWriter] by (auto simp: GetWriter_def split: list.splits)

text \<open>Which encoder runs makes no difference: the result is the message, or an error when there is none.\<close>

lemma EncodeParamsOptimalErr_image:
  assumes "wf_stack sw" and "\<forall>w\<in>set pool. wf_writer w" and "\<forall>d\<in>set descs. baseType (SQLType d) \<noteq> SQLDouble"
  shows "case params_image lib xtext descs (map nvValue nvs) of
      Inl e \<Rightarrow> (\<exists>e'. fst (EncodeParamsOptimalErr lib xtext descs nvs sw pool) = Inl e')
    | Inr msg \<Rightarrow> fst (EncodeParamsOptimalErr lib xtext descs nvs sw pool) = Inr msg"
proof -
  obtain w pool' where g: "GetWriter pool = (w, pool')" by (cases "GetWriter pool")
  note w = wf_GetWriter [OF assms(2) g]
  have p: "message_ok (EncodeNamedParamsErr lib xtext descs nvs w) (around (Bytes w) (params_image lib xtext descs (map nvValue nvs)))"
    unfolding EncodeNamedParamsErr_eq by (rule EncodeParamsErr_image [OF w(1)])
  have r: "wf_stack (StackWriter_Reset sw)" "StackWriter_Bytes (StackWriter_Reset sw) = []" "\<not> overflow (StackWriter_Reset sw)"
    using assms(1) by (simp_all add: wf_stack_def StackWriter_Reset_def StackWriter_Bytes_def)
  note q = EncodeNamedParamsStackErr_image [OF r assms(3), of lib xtext nvs]
  obtain e1 w1 where 1: "EncodeNamedParamsErr lib xtext descs nvs w = (e1, w1)" by (cases "EncodeNamedParamsErr lib xtext descs nvs w")
  obtain e2 w2 where 2: "EncodeNamedParamsStackErr lib xtext descs nvs (StackWriter_Reset sw) = (e2, w2)"
    by (cases "EncodeNamedParamsStackErr lib xtext descs nvs (StackWriter_Reset sw)")
  show ?thesis
    using p q unfolding EncodeParamsOptimalErr_def Let_def g 1 2 w(2)
    by (auto simp: 1 message_ok_def s_message_ok_def Overflowed_def split: option.splits sum.splits)
qed

section \<open>The null bitset\<close>

lemma set_null_bit_bit:
  assumes "i div 8 < length b" and "j div 8 < length b"
  shows "bit (set_null_bit 0 i b ! (j div 8)) (j mod 8) \<longleftrightarrow> j = i \<or> bit (b ! (j div 8)) (j mod 8)"
proof -
  have eq: "j = i \<longleftrightarrow> j div 8 = i div 8 \<and> j mod 8 = i mod 8" by (metis div_mult_mod_eq)
  have "bit (push_bit (i mod 8) 1 :: byte) (j mod 8) \<longleftrightarrow> j mod 8 = i mod 8"
    by (auto simp: bit_exp_iff)
  then show ?thesis using assms by (cases "j div 8 = i div 8") (auto simp: set_null_bit_def eq nth_list_update bit_or_iff)
qed

lemma null_bits_bit:
  assumes "i + length fs \<le> 8 * length b" and "j < 8 * length b"
  shows "bit (null_bits i fs b ! (j div 8)) (j mod 8) \<longleftrightarrow>
    bit (b ! (j div 8)) (j mod 8) \<or> i \<le> j \<and> j < i + length fs \<and> fs ! (j - i)"
  using assms
proof (induction fs arbitrary: i b)
  case (Cons f fs)
  have "i div 8 < length b" "j div 8 < length b" using Cons.prems by (simp_all add: less_mult_imp_div_less)
  note s = set_null_bit_bit [OF this]
  show ?case using Cons.IH [of "Suc i" "if f then set_null_bit 0 i b else b"] Cons.prems s
    by (cases "j = i") (auto simp: nth_Cons' Suc_le_eq)
qed auto

text \<open>Bit \<open>j\<close> of the bitset is the flag of column \<open>j\<close>; the padding bits are clear.\<close>

lemma null_bitset_bit:
  assumes "j < 8 * bitsetLen (length fs)"
  shows "bit (null_bitset fs ! (j div 8)) (j mod 8) \<longleftrightarrow> j < length fs \<and> fs ! j"
  using null_bits_bit [of 0 fs "replicate (bitsetLen (length fs)) 0" j] assms bitsetLen_enough [of "length fs"]
  by (auto simp: null_bitset_def less_mult_imp_div_less)

lemma length_null_bitset [simp]: "length (null_bitset fs) = bitsetLen (length fs)"
  by (simp add: null_bitset_def)

section \<open>A DOUBLE that does not fit\<close>

lemma encodeValueStack_double:
  assumes "baseType (SQLType desc) = SQLDouble" and "floatValue lib val = Inr x" and "sn w + 8 > length (sbuf w)"
  shows "encodeValueStack lib xtext desc val w = (None, w)"
  using assms by (simp add: encodeValueStack_def)

text \<open>The estimate counts 36 bytes for a value that is rendered into a VARCHAR; when its text is longer, the
  stack writer can be full to fewer than eight bytes, and the DOUBLE that follows is then left out of the
  message with neither an error nor the overflow flag.\<close>

lemma double_is_lost:
  assumes wf: "wf_stack sw"
    and v: "baseType (SQLType dv) = SQLVarying" "charsetID dv = IDUTF8" "1012 \<le> sint (Length dv)"
    and d: "baseType (SQLType dd) = SQLDouble"
    and nv: "nvValue a = VTime t" "length (sprintV lib (VTime t)) = 1012" "nvValue b = VFloat64 x"
  shows "\<exists>msg. params_image lib xtext [dv, dd] [VTime t, VFloat64 x] = Inr (msg @ putUint64 x)
     \<and> fst (EncodeParamsOptimalErr lib xtext [dv, dd] [a, b] sw pool) = Inr msg"
proof -
  define data where "data = bytes_of_string (sprintV lib (VTime t))"
  have len: "length data = 1012" using nv(2) by (simp add: data_def)
  have pad: "xdr_pad 1012 = 0" by (simp add: xdr_pad_def)
  have ne: "sprintV lib (VTime t) \<noteq> []" using nv(2) by auto
  have tb: "text_bytes lib xtext dv (VTime t) = Inr data"
    using v(2) ne by (simp add: text_bytes_def Encode_def data_def)
  have bl: "bitsetLen (Suc (Suc 0)) = 4" by (simp add: bitsetLen_def)
  define r where "r = StackWriter_Reset sw"
  have r: "wf_stack r" "StackWriter_Bytes r = []" "sn r = 0" "\<not> overflow r" "length (sbuf r) = 1024"
    using wf by (simp_all add: wf_stack_def r_def StackWriter_Reset_def StackWriter_Bytes_def stackCap_def)
  define w1 where "w1 = s_put (replicate 4 0) r"
  note p1 = s_put_props [OF r(1), of "replicate 4 0", folded w1_def]
  have w1: "wf_stack w1" "StackWriter_Bytes w1 = replicate 4 0" "sn w1 = 4" "\<not> overflow w1" "length (sbuf w1) = 1024"
    using p1 r by (simp_all add: wf_stack_def stackCap_def)
  define w2 where "w2 = s_put [] (s_put data (s_put (putUint32 (of_nat 1012)) w1))"
  note p2 = s_put3 [OF w1(1), of "putUint32 (of_nat 1012)" data "[]", folded w2_def]
  have w2: "wf_stack w2" "StackWriter_Bytes w2 = replicate 4 0 @ putUint32 (of_nat 1012) @ data" "\<not> overflow w2" "sn w2 = 1020"
    using p2 w1 len by (simp_all add: w2_def s_put_def)
  have len2: "length (sbuf w2) = 1024" using w2(1) by (simp add: wf_stack_def stackCap_def)
  have e1: "encodeValueStack lib xtext dv (VTime t) w1 = (None, w2)"
    using v(1,3) len pad w1(3,5) by (simp add: encodeValueStack_def tb writeVaryingParamStack_def w2_def)
  have e2: "encodeValueStack lib xtext dd (VFloat64 x) w2 = (None, w2)"
    using w2(4) len2 by (intro encodeValueStack_double [OF d]) simp_all
  have est: "EstimateParamSize lib [dv, dd] [a, b] \<le> 1024"
    using v(1) d nv by (simp add: EstimateParamSize_def estimateValueSize_def is_null_param_def bitsetLen_def pad_int_def)
  have st: "EncodeNamedParamsStackErr lib xtext [dv, dd] [a, b] r = (None, w2)"
    using r(3,5) nv e1 e2 by (simp add: EncodeNamedParamsStackErr_def Let_def bl is_null_param_def w1_def [symmetric])
  have "fst (EncodeParamsOptimalErr lib xtext [dv, dd] [a, b] sw pool) = Inr (StackWriter_Bytes w2)"
    using est st w2(3) by (simp add: EncodeParamsOptimalErr_def Let_def r_def [symmetric] Overflowed_def)
  moreover have "params_image lib xtext [dv, dd] [VTime t, VFloat64 x] = Inr ((replicate 4 0 @ putUint32 (of_nat 1012) @ data) @ putUint64 x)"
    using v(1,3) d len pad tb
    by (simp add: params_image_def is_null_param_def value_image_def varying_image_def null_flags_def null_bitset_def bl upt_rec)
  ultimately show ?thesis using w2(2) by auto
qed

end
