(* ===== verification/Decfloat.thy ===== *)
theory Decfloat
  imports Numeric
begin

text \<open>
  DECFLOAT(16) and DECFLOAT(34) (\<^verbatim>\<open>internal/wire/types_decfloat.go\<close>): decoding of the IEEE 754-2008
  decimal interchange formats with densely packed decimal (DPD) digits, and the text form of the
  result.  Shifts and masks of unsigned values are written as \<open>div\<close> and \<open>mod\<close>.  The reference is the
  encoder of the standard; decoding what it encodes gives the same sign, coefficient and exponent.
\<close>

section \<open>Densely packed decimals\<close>

definition dpdBit :: "int \<Rightarrow> nat \<Rightarrow> int" where
  "dpdBit dpd i = dpd div 2 ^ i mod 2"

definition dpdToInt :: "int \<Rightarrow> int option" where
  "dpdToInt dpd =
     (let b0 = dpdBit dpd 0; b1 = dpdBit dpd 1; b2 = dpdBit dpd 2; b3 = dpdBit dpd 3; b4 = dpdBit dpd 4;
          b5 = dpdBit dpd 5; b6 = dpdBit dpd 6; b7 = dpdBit dpd 7; b8 = dpdBit dpd 8; b9 = dpdBit dpd 9;
          num = (\<lambda>d2 d1 d0. Some (d2 * 100 + d1 * 10 + d0)) in
      if b3 = 0 then num (b9 * 4 + b8 * 2 + b7) (b6 * 4 + b5 * 2 + b4) (b2 * 4 + b1 * 2 + b0)
      else if b3 = 1 \<and> b2 = 0 \<and> b1 = 0 then num (b9 * 4 + b8 * 2 + b7) (b6 * 4 + b5 * 2 + b4) (8 + b0)
      else if b3 = 1 \<and> b2 = 0 \<and> b1 = 1 then num (b9 * 4 + b8 * 2 + b7) (8 + b4) (b6 * 4 + b5 * 2 + b0)
      else if b3 = 1 \<and> b2 = 1 \<and> b1 = 0 then num (8 + b7) (b6 * 4 + b5 * 2 + b4) (b9 * 4 + b8 * 2 + b0)
      else if b6 = 0 \<and> b5 = 0 \<and> b3 = 1 \<and> b2 = 1 \<and> b1 = 1 then num (8 + b7) (8 + b4) (b9 * 4 + b8 * 2 + b0)
      else if b6 = 0 \<and> b5 = 1 \<and> b3 = 1 \<and> b2 = 1 \<and> b1 = 1 then num (8 + b7) (b9 * 4 + b8 * 2 + b4) (8 + b0)
      else if b6 = 1 \<and> b5 = 0 \<and> b3 = 1 \<and> b2 = 1 \<and> b1 = 1 then num (b9 * 4 + b8 * 2 + b7) (8 + b4) (8 + b0)
      else if b6 = 1 \<and> b5 = 1 \<and> b3 = 1 \<and> b2 = 1 \<and> b1 = 1 then num (8 + b7) (8 + b4) (8 + b0)
      else None)"

fun dpd_values :: "nat \<Rightarrow> int \<Rightarrow> int list \<Rightarrow> int list option" where
  "dpd_values 0 bits vals = Some vals"
| "dpd_values (Suc i) bits vals =
     (case dpdToInt (bits mod 1024) of None \<Rightarrow> None | Some v \<Rightarrow> dpd_values i (bits div 1024) (v # vals))"

definition calcDPDSignificand :: "int \<Rightarrow> int \<Rightarrow> nat \<Rightarrow> int option" where
  "calcDPDSignificand prefix dpdBits numBits =
     (case dpd_values (numBits div 10) dpdBits [] of
        None \<Rightarrow> None
      | Some vals \<Rightarrow> Some (foldl (\<lambda>result v. result * 1000 + v) prefix vals))"

section \<open>Text of a decimal\<close>

definition trim_right :: "char \<Rightarrow> string \<Rightarrow> string" where
  "trim_right c s = rev (dropWhile (\<lambda>x. x = c) (rev s))"

definition format_exp :: "string \<Rightarrow> int \<Rightarrow> string" where
  "format_exp coeff adjExp =
     (let mant = (if length coeff > 1
                  then (let b = trim_right (CHR ''0'') (hd coeff # CHR ''.'' # tl coeff)
                        in if last b = CHR ''.'' then butlast b else b)
                  else [hd coeff])
      in mant @ ''E'' @ (if adjExp \<ge> 0 then ''+'' else []) @ formatInt adjExp)"

definition format_plain :: "string \<Rightarrow> int \<Rightarrow> string" where
  "format_plain coeff exponent =
     (let dotPos = int (length coeff) + exponent;
          buf = (if dotPos \<le> 0 then ''0.'' @ replicate (nat (- dotPos)) (CHR ''0'') @ coeff
                 else if dotPos \<ge> int (length coeff) then coeff @ replicate (nat dotPos - length coeff) (CHR ''0'')
                 else take (nat dotPos) coeff @ ''.'' @ drop (nat dotPos) coeff)
      in buf)"

text \<open>The sign is written first; the trailing-zero loop of the exponential form stops at the point or at
  the leading digit, never at the sign.\<close>

definition formatDecimalCoefficient :: "int \<Rightarrow> int \<Rightarrow> bool \<Rightarrow> string" where
  "formatDecimalCoefficient digits exponent negative =
     (if digits = 0 then (if negative then ''-0'' else ''0'')
      else let coeff = formatNat (nat digits);
               adjExp = exponent + int (length coeff) - 1;
               sgn = (if negative then ''-'' else []) in
        if adjExp < - 6 \<or> adjExp > int (length coeff) + 2 then sgn @ format_exp coeff adjExp
        else let result = sgn @ format_plain coeff exponent in
          if CHR ''.'' \<in> set result then trim_right (CHR ''.'') (trim_right (CHR ''0'') result) else result)"

section \<open>Decoding\<close>

definition decfloat64BytesToString :: "byte list \<Rightarrow> string" where
  "decfloat64BytesToString data =
     (if length data < 8 then []
      else let b0 = uint (data ! 0); b1 = uint (data ! 1);
               sign = b0 div 128 mod 2 \<noteq> 0;
               cf = b0 div 4 mod 32;
               exponent = b0 mod 4 * 64 + b1 div 4 mod 64;
               dpdBits = big_of_bytes (take 8 data) mod 2 ^ 50;
               finish = (\<lambda>prefix expo. case calcDPDSignificand prefix dpdBits 50 of
                           None \<Rightarrow> [] | Some digits \<Rightarrow> formatDecimalCoefficient digits (expo - 398) sign) in
        if cf = 0x1f then ''NaN''
        else if cf = 0x1e then (if sign then ''-Infinity'' else ''Infinity'')
        else if cf div 8 = 0 then finish (cf mod 8) exponent
        else if cf div 8 = 1 then finish (cf mod 8) (exponent + 0x100)
        else if cf div 8 = 2 then finish (cf mod 8) (exponent + 0x200)
        else if cf div 2 = 12 then finish (8 + cf mod 2) exponent
        else if cf div 2 = 13 then finish (8 + cf mod 2) (exponent + 0x100)
        else if cf div 2 = 14 then finish (8 + cf mod 2) (exponent + 0x200)
        else [])"

definition decfloat128BytesToString :: "byte list \<Rightarrow> string" where
  "decfloat128BytesToString data =
     (if length data < 16 then []
      else let b0 = uint (data ! 0); b1 = uint (data ! 1); b2 = uint (data ! 2);
               sign = b0 div 128 mod 2 \<noteq> 0;
               cf = b0 mod 128 * 1024 + b1 * 4 + b2 div 64;
               dpdBits = big_of_bytes (take 16 data) mod 2 ^ 110;
               finish = (\<lambda>prefix expo. case calcDPDSignificand prefix dpdBits 110 of
                           None \<Rightarrow> [] | Some digits \<Rightarrow> formatDecimalCoefficient digits (expo - 6176) sign) in
        if cf div 4096 mod 32 = 31 then ''NaN''
        else if cf div 4096 mod 32 = 30 then (if sign then ''-Infinity'' else ''Infinity'')
        else if cf div 32768 mod 4 = 0 then finish (cf div 4096 mod 8) (cf mod 4096)
        else if cf div 32768 mod 4 = 1 then finish (cf div 4096 mod 8) (0x1000 + cf mod 4096)
        else if cf div 32768 mod 4 = 2 then finish (cf div 4096 mod 8) (0x2000 + cf mod 4096)
        else if cf div 8192 mod 16 = 12 then finish (8 + cf div 4096 mod 2) (cf mod 4096)
        else if cf div 8192 mod 16 = 13 then finish (8 + cf div 4096 mod 2) (0x1000 + cf mod 4096)
        else if cf div 8192 mod 16 = 14 then finish (8 + cf div 4096 mod 2) (0x2000 + cf mod 4096)
        else [])"

definition decfloat64ToString :: "uint64 \<Rightarrow> string" where
  "decfloat64ToString bits = decfloat64BytesToString (putUint64 bits)"

definition decfloat128ToString :: "uint64 \<Rightarrow> uint64 \<Rightarrow> string" where
  "decfloat128ToString hi lo = decfloat128BytesToString (putUint64 hi @ putUint64 lo)"

definition decfloatToString :: "byte list \<Rightarrow> nat \<Rightarrow> string" where
  "decfloatToString data precision =
     (if precision = 16 then decfloat64ToString (be64 (take 8 data))
      else decfloat128ToString (be64 (take 8 data)) (be64 (take 8 (drop 8 data))))"

section \<open>The encoder of the standard\<close>

text \<open>Three digits in ten bits (Cowlishaw's DPD).\<close>

definition dpd_digits :: "int \<Rightarrow> int \<Rightarrow> int \<Rightarrow> int" where
  "dpd_digits d2 d1 d0 =
     (if d2 < 8 \<and> d1 < 8 \<and> d0 < 8 then d2 * 128 + d1 * 16 + d0
      else if d2 < 8 \<and> d1 < 8 then d2 * 128 + d1 * 16 + 8 + d0 mod 2
      else if d2 < 8 \<and> d0 < 8 then d2 * 128 + (d0 div 2 * 2 + d1 mod 2) * 16 + 10 + d0 mod 2
      else if d1 < 8 \<and> d0 < 8 then (d0 div 2 * 2 + d2 mod 2) * 128 + d1 * 16 + 12 + d0 mod 2
      else if d0 < 8 then (d0 div 2 * 2 + d2 mod 2) * 128 + d1 mod 2 * 16 + 14 + d0 mod 2
      else if d1 < 8 then (d1 div 2 * 2 + d2 mod 2) * 128 + (2 + d1 mod 2) * 16 + 14 + d0 mod 2
      else if d2 < 8 then d2 * 128 + (4 + d1 mod 2) * 16 + 14 + d0 mod 2
      else d2 mod 2 * 128 + (6 + d1 mod 2) * 16 + 14 + d0 mod 2)"

definition dpd_encode :: "int \<Rightarrow> int" where
  "dpd_encode n = dpd_digits (n div 100) (n div 10 mod 10) (n mod 10)"

text \<open>Ten bits as a number, and their positions.\<close>

definition word10 :: "bool \<Rightarrow> bool \<Rightarrow> bool \<Rightarrow> bool \<Rightarrow> bool \<Rightarrow> bool \<Rightarrow> bool \<Rightarrow> bool \<Rightarrow> bool \<Rightarrow> bool \<Rightarrow> int" where
  "word10 b9 b8 b7 b6 b5 b4 b3 b2 b1 b0 =
     of_bool b9 * 512 + of_bool b8 * 256 + of_bool b7 * 128 + of_bool b6 * 64 + of_bool b5 * 32 + of_bool b4 * 16
       + of_bool b3 * 8 + of_bool b2 * 4 + of_bool b1 * 2 + of_bool b0"

lemma word10_bounds: "0 \<le> word10 b9 b8 b7 b6 b5 b4 b3 b2 b1 b0" "word10 b9 b8 b7 b6 b5 b4 b3 b2 b1 b0 < 1024"
  by (auto simp: word10_def of_bool_def)

lemma dpdBit_steps: "dpdBit x 0 = x mod 2" "dpdBit x (Suc i) = dpdBit (x div 2) i"
  by (simp_all add: dpdBit_def zdiv_zmult2_eq)

lemma bit_step: "(x * 2 + of_bool b) mod 2 = (of_bool b :: int)" "(x * 2 + of_bool b) div 2 = (x :: int)"
  by (cases b; simp)+

lemma word10_nest: "word10 b9 b8 b7 b6 b5 b4 b3 b2 b1 b0 =
    ((((((((((0 * 2 + of_bool b9) * 2 + of_bool b8) * 2 + of_bool b7) * 2 + of_bool b6) * 2 + of_bool b5) * 2 + of_bool b4) * 2
      + of_bool b3) * 2 + of_bool b2) * 2 + of_bool b1) * 2 + of_bool b0)"
  by (simp add: word10_def)

lemma word10_bits:
  "dpdBit (word10 b9 b8 b7 b6 b5 b4 b3 b2 b1 b0) 0 = of_bool b0" "dpdBit (word10 b9 b8 b7 b6 b5 b4 b3 b2 b1 b0) 1 = of_bool b1"
  "dpdBit (word10 b9 b8 b7 b6 b5 b4 b3 b2 b1 b0) 2 = of_bool b2" "dpdBit (word10 b9 b8 b7 b6 b5 b4 b3 b2 b1 b0) 3 = of_bool b3"
  "dpdBit (word10 b9 b8 b7 b6 b5 b4 b3 b2 b1 b0) 4 = of_bool b4" "dpdBit (word10 b9 b8 b7 b6 b5 b4 b3 b2 b1 b0) 5 = of_bool b5"
  "dpdBit (word10 b9 b8 b7 b6 b5 b4 b3 b2 b1 b0) 6 = of_bool b6" "dpdBit (word10 b9 b8 b7 b6 b5 b4 b3 b2 b1 b0) 7 = of_bool b7"
  "dpdBit (word10 b9 b8 b7 b6 b5 b4 b3 b2 b1 b0) 8 = of_bool b8" "dpdBit (word10 b9 b8 b7 b6 b5 b4 b3 b2 b1 b0) 9 = of_bool b9"
  unfolding word10_nest One_nat_def numeral_eq_Suc pred_numeral_simps BitM.simps dpdBit_steps bit_step
  by simp_all

lemma digit_cases:
  assumes "0 \<le> d" and "d \<le> (9 :: int)"
  obtains (small) a b c where "d = of_bool a * 4 + of_bool b * 2 + of_bool c" "d < 8" "d mod 2 = of_bool c"
      "d div 2 * 2 = of_bool a * 4 + of_bool b * 2"
    | (big) c where "d = 8 + of_bool c" "\<not> d < 8" "d mod 2 = of_bool c"
proof -
  have "d = 0 \<or> d = 1 \<or> d = 2 \<or> d = 3 \<or> d = 4 \<or> d = 5 \<or> d = 6 \<or> d = 7 \<or> d = 8 \<or> d = 9"
    using assms by presburger
  then show thesis
    using big [of False] big [of True] small [of False False False] small [of False False True] small [of False True False]
      small [of False True True] small [of True False False] small [of True False True] small [of True True False]
      small [of True True True] by (elim disjE) simp_all
qed

lemma dpdToInt_word: "dpdToInt (word10 b9 b8 b7 b6 b5 b4 b3 b2 b1 b0) =
    (let n = (\<lambda>x y z. of_bool x * 4 + of_bool y * 2 + of_bool z); m = (\<lambda>z. 8 + of_bool z);
         num = (\<lambda>d2 d1 d0. Some (d2 * 100 + d1 * 10 + d0)) in
     if \<not> b3 then num (n b9 b8 b7) (n b6 b5 b4) (n b2 b1 b0)
     else if \<not> b2 \<and> \<not> b1 then num (n b9 b8 b7) (n b6 b5 b4) (m b0)
     else if \<not> b2 then num (n b9 b8 b7) (m b4) (n b6 b5 b0)
     else if \<not> b1 then num (m b7) (n b6 b5 b4) (n b9 b8 b0)
     else if \<not> b6 \<and> \<not> b5 then num (m b7) (m b4) (n b9 b8 b0)
     else if \<not> b6 then num (m b7) (n b9 b8 b4) (m b0)
     else if \<not> b5 then num (n b9 b8 b7) (m b4) (m b0)
     else num (m b7) (m b4) (m b0))"
  unfolding dpdToInt_def word10_bits Let_def by (cases b3; cases b2; cases b1; cases b6; cases b5) simp_all

lemma dpd_digits_round_trip:
  assumes "0 \<le> d2" "d2 \<le> 9" "0 \<le> d1" "d1 \<le> 9" "0 \<le> d0" "d0 \<le> 9"
  shows "dpdToInt (dpd_digits d2 d1 d0) = Some (d2 * 100 + d1 * 10 + d0)
    \<and> 0 \<le> dpd_digits d2 d1 d0 \<and> dpd_digits d2 d1 d0 < 1024"
proof -
  have word: ?thesis if "dpd_digits d2 d1 d0 = word10 b9 b8 b7 b6 b5 b4 b3 b2 b1 b0"
    and "dpdToInt (word10 b9 b8 b7 b6 b5 b4 b3 b2 b1 b0) = Some (d2 * 100 + d1 * 10 + d0)"
    for b9 b8 b7 b6 b5 b4 b3 b2 b1 b0
    using that word10_bounds by simp
  show ?thesis
  proof (cases rule: digit_cases [OF assms(1,2), case_names small big])
    case D2: (small a b c)
    show ?thesis
    proof (cases rule: digit_cases [OF assms(3,4), case_names small big])
      case D1: (small e f g)
      show ?thesis
      proof (cases rule: digit_cases [OF assms(5,6), case_names small big])
        case D0: (small i j k)
        show ?thesis
        proof (rule word [of a b c e f g False i j k])
          show "dpd_digits d2 d1 d0 = word10 a b c e f g False i j k"
            unfolding dpd_digits_def word10_def by (simp only: D2(2-) D1(2-) D0(2-) simp_thms if_True if_False) (simp add: D2(1) D1(1) D0(1) algebra_simps)
          show "dpdToInt (word10 a b c e f g False i j k) = Some (d2 * 100 + d1 * 10 + d0)"
            unfolding dpdToInt_word Let_def D2(1) D1(1) D0(1) by (simp only: simp_thms if_True if_False)
        qed
      next
        case D0: (big k)
        show ?thesis
        proof (rule word [of a b c e f g True False False k])
          show "dpd_digits d2 d1 d0 = word10 a b c e f g True False False k"
            unfolding dpd_digits_def word10_def by (simp only: D2(2-) D1(2-) D0(2-) simp_thms if_True if_False) (simp add: D2(1) D1(1) D0(1) algebra_simps)
          show "dpdToInt (word10 a b c e f g True False False k) = Some (d2 * 100 + d1 * 10 + d0)"
            unfolding dpdToInt_word Let_def D2(1) D1(1) D0(1) by (simp only: simp_thms if_True if_False)
        qed
      qed
    next
      case D1: (big g)
      show ?thesis
      proof (cases rule: digit_cases [OF assms(5,6), case_names small big])
        case D0: (small i j k)
        show ?thesis
        proof (rule word [of a b c i j g True False True k])
          show "dpd_digits d2 d1 d0 = word10 a b c i j g True False True k"
            unfolding dpd_digits_def word10_def by (simp only: D2(2-) D1(2-) D0(2-) simp_thms if_True if_False) (simp add: D2(1) D1(1) D0(1) algebra_simps)
          show "dpdToInt (word10 a b c i j g True False True k) = Some (d2 * 100 + d1 * 10 + d0)"
            unfolding dpdToInt_word Let_def D2(1) D1(1) D0(1) by (simp only: simp_thms if_True if_False)
        qed
      next
        case D0: (big k)
        show ?thesis
        proof (rule word [of a b c True False g True True True k])
          show "dpd_digits d2 d1 d0 = word10 a b c True False g True True True k"
            unfolding dpd_digits_def word10_def by (simp only: D2(2-) D1(2-) D0(2-) simp_thms if_True if_False) (simp add: D2(1) D1(1) D0(1) algebra_simps)
          show "dpdToInt (word10 a b c True False g True True True k) = Some (d2 * 100 + d1 * 10 + d0)"
            unfolding dpdToInt_word Let_def D2(1) D1(1) D0(1) by (simp only: simp_thms if_True if_False)
        qed
      qed
    qed
  next
    case D2: (big c)
    show ?thesis
    proof (cases rule: digit_cases [OF assms(3,4), case_names small big])
      case D1: (small e f g)
      show ?thesis
      proof (cases rule: digit_cases [OF assms(5,6), case_names small big])
        case D0: (small i j k)
        show ?thesis
        proof (rule word [of i j c e f g True True False k])
          show "dpd_digits d2 d1 d0 = word10 i j c e f g True True False k"
            unfolding dpd_digits_def word10_def by (simp only: D2(2-) D1(2-) D0(2-) simp_thms if_True if_False) (simp add: D2(1) D1(1) D0(1) algebra_simps)
          show "dpdToInt (word10 i j c e f g True True False k) = Some (d2 * 100 + d1 * 10 + d0)"
            unfolding dpdToInt_word Let_def D2(1) D1(1) D0(1) by (simp only: simp_thms if_True if_False)
        qed
      next
        case D0: (big k)
        show ?thesis
        proof (rule word [of e f c False True g True True True k])
          show "dpd_digits d2 d1 d0 = word10 e f c False True g True True True k"
            unfolding dpd_digits_def word10_def by (simp only: D2(2-) D1(2-) D0(2-) simp_thms if_True if_False) (simp add: D2(1) D1(1) D0(1) algebra_simps)
          show "dpdToInt (word10 e f c False True g True True True k) = Some (d2 * 100 + d1 * 10 + d0)"
            unfolding dpdToInt_word Let_def D2(1) D1(1) D0(1) by (simp only: simp_thms if_True if_False)
        qed
      qed
    next
      case D1: (big g)
      show ?thesis
      proof (cases rule: digit_cases [OF assms(5,6), case_names small big])
        case D0: (small i j k)
        show ?thesis
        proof (rule word [of i j c False False g True True True k])
          show "dpd_digits d2 d1 d0 = word10 i j c False False g True True True k"
            unfolding dpd_digits_def word10_def by (simp only: D2(2-) D1(2-) D0(2-) simp_thms if_True if_False) (simp add: D2(1) D1(1) D0(1) algebra_simps)
          show "dpdToInt (word10 i j c False False g True True True k) = Some (d2 * 100 + d1 * 10 + d0)"
            unfolding dpdToInt_word Let_def D2(1) D1(1) D0(1) by (simp only: simp_thms if_True if_False)
        qed
      next
        case D0: (big k)
        show ?thesis
        proof (rule word [of False False c True True g True True True k])
          show "dpd_digits d2 d1 d0 = word10 False False c True True g True True True k"
            unfolding dpd_digits_def word10_def by (simp only: D2(2-) D1(2-) D0(2-) simp_thms if_True if_False) (simp add: D2(1) D1(1) D0(1) algebra_simps)
          show "dpdToInt (word10 False False c True True g True True True k) = Some (d2 * 100 + d1 * 10 + d0)"
            unfolding dpdToInt_word Let_def D2(1) D1(1) D0(1) by (simp only: simp_thms if_True if_False)
        qed
      qed
    qed
  qed
qed

lemma dpd_round_trip:
  assumes "0 \<le> n" and "n < 1000"
  shows "dpdToInt (dpd_encode n) = Some n" and "0 \<le> dpd_encode n" and "dpd_encode n < 1024"
proof -
  have d: "0 \<le> n div 100" "n div 100 \<le> 9" using assms by (simp_all add: pos_imp_zdiv_nonneg_iff)
  have "n div 10 mod 10 = n div 10 - 10 * (n div 100)"
    using zdiv_zmult2_eq [of 10 n 10] minus_mult_div_eq_mod [of "n div 10" 10] by simp
  moreover have "n mod 10 = n - 10 * (n div 10)" by (simp add: minus_mult_div_eq_mod)
  ultimately have n: "n div 100 * 100 + n div 10 mod 10 * 10 + n mod 10 = n" by linarith
  have m: "0 \<le> n div 10 mod 10" "n div 10 mod 10 \<le> 9" "0 \<le> n mod 10" "n mod 10 \<le> 9"
    using pos_mod_bound [of 10 "n div 10"] pos_mod_bound [of 10 n] by simp_all
  from dpd_digits_round_trip [OF d m] n
  show "dpdToInt (dpd_encode n) = Some n" "0 \<le> dpd_encode n" "dpd_encode n < 1024"
    by (simp_all add: dpd_encode_def)
qed

text \<open>The trailing significand: the low \<open>3 k\<close> digits in \<open>10 k\<close> bits.\<close>

fun dpd_pack :: "nat \<Rightarrow> int \<Rightarrow> int" where
  "dpd_pack 0 n = 0"
| "dpd_pack (Suc k) n = dpd_pack k (n div 1000) * 1024 + dpd_encode (n mod 1000)"

lemma dpd_pack_bounds: "0 \<le> dpd_pack k n \<and> dpd_pack k n < 1024 ^ k"
proof (induction k arbitrary: n)
  case (Suc k)
  have "0 \<le> dpd_encode (n mod 1000)" "dpd_encode (n mod 1000) < 1024" by (rule dpd_round_trip; simp)+
  moreover have "0 \<le> dpd_pack k (n div 1000)" "dpd_pack k (n div 1000) + 1 \<le> 1024 ^ k" using Suc [of "n div 1000"] by auto
  ultimately show ?case by simp
qed simp

fun chunks :: "nat \<Rightarrow> int \<Rightarrow> int list \<Rightarrow> int list" where
  "chunks 0 n acc = acc"
| "chunks (Suc k) n acc = chunks k (n div 1000) (n mod 1000 # acc)"

lemma dpd_values_pack: "dpd_values k (dpd_pack k n) acc = Some (chunks k n acc)"
proof (induction k arbitrary: n acc)
  case (Suc k)
  have e: "0 \<le> dpd_encode (n mod 1000)" "dpd_encode (n mod 1000) < 1024" "dpdToInt (dpd_encode (n mod 1000)) = Some (n mod 1000)"
    by (rule dpd_round_trip; simp)+
  define p e' where "p = dpd_pack k (n div 1000)" and "e' = dpd_encode (n mod 1000)"
  have "(p * 1024 + e') mod 1024 = e'" "(p * 1024 + e') div 1024 = p"
    using e by (simp_all add: e'_def [symmetric] mod_pos_pos_trivial div_pos_pos_trivial)
  then show ?case using Suc e by (simp add: p_def e'_def)
qed simp

lemma foldl_chunks: "foldl (\<lambda>result v. result * 1000 + v) p (chunks k n acc)
    = foldl (\<lambda>result v. result * 1000 + v) (p * 1000 ^ k + n mod 1000 ^ k) acc"
proof (induction k arbitrary: n acc)
  case (Suc k)
  have "n mod (1000 * 1000 ^ k) = n div 1000 mod 1000 ^ k * 1000 + n mod 1000"
    using mod_mult2_eq' [of n 1000 "1000 ^ k"] by (simp add: zmod_zmult2_eq)
  then have "(p * 1000 ^ k + n div 1000 mod 1000 ^ k) * 1000 + n mod 1000 = p * 1000 ^ Suc k + n mod 1000 ^ Suc k"
    by (simp add: algebra_simps)
  then show ?case using Suc [of "n div 1000" "n mod 1000 # acc"] by (simp only: chunks.simps foldl_Cons)
qed simp

lemma calcDPDSignificand_pack:
  "calcDPDSignificand p (dpd_pack k n) (10 * k) = Some (p * 1000 ^ k + n mod 1000 ^ k)"
  by (simp add: calcDPDSignificand_def dpd_values_pack foldl_chunks)

section \<open>decimal64\<close>

lemma uint_byte_at: "uint (ucast (drop_bit k (w :: uint64)) :: byte) = uint w div 2 ^ k mod 256"
proof -
  have "uint (ucast (drop_bit k w) :: byte) = take_bit 8 (drop_bit k (uint w))"
    by (simp add: bit_eq_iff bit_simps unsigned_ucast_eq)
  then show ?thesis by (simp add: take_bit_eq_mod drop_bit_eq_div)
qed

lemma byte_join: "0 < k \<Longrightarrow> (u :: int) div (256 * k) * 256 + u div k mod 256 = u div k"
  using zdiv_zmult2_eq [of 256 u k] div_mult_mod_eq [of "u div k" 256] by (simp add: mult.commute)

lemma big_of_bytes_putUint64: "big_of_bytes (putUint64 w) = uint w"
proof -
  define u where "u = uint w"
  have u: "0 \<le> u" "u < 2 ^ 64" using uint_lt2p [of w] by (simp_all add: u_def)
  have b: "uint (ucast w :: byte) = u mod 256" using uint_byte_at [of 0 w] by (simp add: u_def)
  have top: "u div 2 ^ 56 mod 256 = u div 2 ^ 56"
    using u by (intro mod_pos_pos_trivial) (simp_all add: pos_imp_zdiv_nonneg_iff div_less_iff_less_mult)
  have "big_of_bytes (putUint64 w) = ((((((((0 * 256 + u div 2 ^ 56 mod 256) * 256 + u div 2 ^ 48 mod 256) * 256 + u div 2 ^ 40 mod 256) * 256
      + u div 2 ^ 32 mod 256) * 256 + u div 2 ^ 24 mod 256) * 256 + u div 2 ^ 16 mod 256) * 256 + u div 2 ^ 8 mod 256) * 256 + u mod 256)"
    unfolding big_of_bytes_def putUint64_def foldl_Cons foldl_Nil uint_byte_at b u_def [symmetric] ..
  also have "\<dots> = u"
    unfolding mult_zero_left add_0 top
    using byte_join [of "2 ^ 48" u] byte_join [of "2 ^ 40" u] byte_join [of "2 ^ 32" u] byte_join [of "2 ^ 24" u]
      byte_join [of "2 ^ 16" u] byte_join [of "2 ^ 8" u] byte_join [of 1 u] by simp
  finally show ?thesis by (simp add: u_def)
qed

text \<open>The interchange format: sign, five combination bits (the top of the exponent and the leading digit),
  the low eight bits of the exponent, five groups of three digits.\<close>

definition dec64_comb :: "int \<Rightarrow> int \<Rightarrow> int" where
  "dec64_comb ehi p = (if p < 8 then ehi * 8 + p else 24 + ehi * 2 + (p - 8))"

definition dec64_encode :: "bool \<Rightarrow> int \<Rightarrow> int \<Rightarrow> uint64" where
  "dec64_encode neg c e =
     (let E = e + 398 in
      of_int (of_bool neg * 2 ^ 63 + dec64_comb (E div 256) (c div 10 ^ 15) * 2 ^ 58 + E mod 256 * 2 ^ 50 + dpd_pack 5 c))"

lemma dec64_comb_range:
  assumes "0 \<le> ehi" and "ehi \<le> 2" and "0 \<le> p" and "p \<le> 9"
  shows "0 \<le> dec64_comb ehi p" and "dec64_comb ehi p \<le> 29"
  using assms by (auto simp: dec64_comb_def)

lemma dec64_comb_cases:
  assumes "0 \<le> ehi" and "ehi \<le> 2" and "0 \<le> p" and "p \<le> 9" and "cf = dec64_comb ehi p"
  shows "cf \<noteq> 0x1f" and "cf \<noteq> 0x1e"
    and "p < 8 \<Longrightarrow> cf div 8 = ehi \<and> cf mod 8 = p"
    and "\<not> p < 8 \<Longrightarrow> cf div 8 = 3 \<and> cf div 2 = 12 + ehi \<and> 8 + cf mod 2 = p"
proof -
  have e: "ehi = 0 \<or> ehi = 1 \<or> ehi = 2" using assms(1,2) by presburger
  show "cf \<noteq> 0x1f" "cf \<noteq> 0x1e" using dec64_comb_range [OF assms(1-4)] assms(5) by auto
  show "cf div 8 = ehi \<and> cf mod 8 = p" if "p < 8"
    using that assms(3,5) by (simp add: dec64_comb_def div_pos_pos_trivial mod_pos_pos_trivial)
  show "cf div 8 = 3 \<and> cf div 2 = 12 + ehi \<and> 8 + cf mod 2 = p" if "\<not> p < 8"
  proof -
    have "p = 8 \<or> p = 9" using that assms(4) by presburger
    with e assms(5) show ?thesis by (elim disjE) (simp_all add: dec64_comb_def)
  qed
qed

lemma dec64_dispatch:
  assumes "0 \<le> ehi" and "ehi \<le> 2" and "0 \<le> p" and "p \<le> 9" and "cf = dec64_comb ehi p"
  shows "(if cf = 0x1f then a else if cf = 0x1e then b
      else if cf div 8 = 0 then F (cf mod 8) elo
      else if cf div 8 = 1 then F (cf mod 8) (elo + 0x100)
      else if cf div 8 = 2 then F (cf mod 8) (elo + 0x200)
      else if cf div 2 = 12 then F (8 + cf mod 2) elo
      else if cf div 2 = 13 then F (8 + cf mod 2) (elo + 0x100)
      else if cf div 2 = 14 then F (8 + cf mod 2) (elo + 0x200)
      else d) = F p (elo + ehi * 256 :: int)"
proof -
  note f = dec64_comb_cases [OF assms]
  have "ehi = 0 \<or> ehi = 1 \<or> ehi = 2" using assms(1,2) by presburger
  then show ?thesis using f(1,2) f(3) f(4) by (cases "p < 8") (elim disjE; simp)+
qed

lemma split_field: "0 \<le> (x :: int) \<Longrightarrow> x < k \<Longrightarrow> (y * k + x) div k = y \<and> (y * k + x) mod k = x"
  by (simp add: div_pos_pos_trivial mod_pos_pos_trivial)

lemma div_mod_swap: "0 < a \<Longrightarrow> 0 < b \<Longrightarrow> (x :: int) mod (a * b) div a = x div a mod b"
  by (simp add: zmod_zmult2_eq)

lemma dec64_decode:
  assumes "0 \<le> c" and "c < 10 ^ 16" and "- 398 \<le> e" and "e \<le> 369"
  shows "decfloat64ToString (dec64_encode neg c e) = formatDecimalCoefficient c e neg"
proof -
  define E ehi elo p cf t s where "E = e + 398" and "ehi = E div 256" and "elo = E mod 256" and "p = c div 10 ^ 15"
    and "cf = dec64_comb ehi p" and "t = dpd_pack 5 c" and "s = (of_bool neg :: int)"
  have ehi: "0 \<le> ehi" "ehi \<le> 2"
    using assms(3,4) unfolding ehi_def E_def by (simp_all add: pos_imp_zdiv_nonneg_iff div_less_iff_less_mult flip: zle_add1_eq_le [of _ 2])
  have elo: "0 \<le> elo" "elo < 256" by (simp_all add: elo_def)
  have p: "0 \<le> p" "p \<le> 9"
    using assms(1,2) unfolding p_def by (simp_all add: pos_imp_zdiv_nonneg_iff div_less_iff_less_mult flip: zle_add1_eq_le [of _ 9])
  have cf: "0 \<le> cf" "cf < 32" using dec64_comb_range [OF ehi p] by (simp_all add: cf_def)
  have t: "0 \<le> t" "t < 2 ^ 50" using dpd_pack_bounds [of 5 c] by (simp_all add: t_def)
  have s: "0 \<le> s" "s \<le> 1" by (simp_all add: s_def)
  define u where "u = ((s * 32 + cf) * 256 + elo) * 2 ^ 50 + t"
  have w: "uint (dec64_encode neg c e) = u"
  proof -
    have "dec64_encode neg c e = of_int u"
      unfolding dec64_encode_def Let_def E_def [symmetric] ehi_def [symmetric] elo_def [symmetric] p_def [symmetric]
        cf_def [symmetric] t_def [symmetric] s_def [symmetric] u_def by (rule arg_cong [where f = of_int]) simp
    moreover have "0 \<le> u" "u < 2 ^ 64" using s cf elo t by (simp_all add: u_def)
    ultimately show ?thesis by (simp only: unsigned_of_int) (simp add: take_bit_int_eq_self)
  qed
  have low: "u mod 2 ^ 50 = t" "u div 2 ^ 50 = (s * 32 + cf) * 256 + elo"
    using split_field [OF t, of "(s * 32 + cf) * 256 + elo"] by (simp_all add: u_def)
  have top: "u div 2 ^ 56 = (s * 32 + cf) * 4 + elo div 64"
  proof -
    have "u div 2 ^ 56 = (u div 2 ^ 50) div 64" by (simp flip: zdiv_zmult2_eq)
    also have "\<dots> = ((s * 32 + cf) * 4 * 64 + elo) div 64" unfolding low by (simp add: algebra_simps)
    finally show ?thesis by simp
  qed
  have elo4: "0 \<le> elo div 64" "elo div 64 < 4" using elo by (simp_all add: pos_imp_zdiv_nonneg_iff div_less_iff_less_mult)
  have b0: "uint (putUint64 (dec64_encode neg c e) ! 0) = (s * 32 + cf) * 4 + elo div 64"
    using s cf elo4 unfolding putUint64_def nth_Cons_0 uint_byte_at w top by (intro mod_pos_pos_trivial) auto
  have b1: "uint (putUint64 (dec64_encode neg c e) ! 1) = u div 2 ^ 48 mod 256"
    unfolding putUint64_def by (simp only: nth_Cons_Suc nth_Cons_0 One_nat_def uint_byte_at w)
  have b1': "u div 2 ^ 48 mod 256 div 4 mod 64 = elo mod 64"
  proof -
    have "u div 2 ^ 48 mod 256 div 4 = u div 2 ^ 48 div 4 mod 64"
      using div_mod_swap [of 4 64 "u div 2 ^ 48"] by simp
    also have "u div 2 ^ 48 div 4 = u div 2 ^ 50" by (simp flip: zdiv_zmult2_eq)
    also have "u div 2 ^ 50 = elo + (s * 32 + cf) * 4 * 64" unfolding low by simp
    finally show ?thesis by (simp only: mod_mult_self1 mod_mod_trivial)
  qed
  define d0 where "d0 = (s * 32 + cf) * 4 + elo div 64"
  have d0: "d0 = s * 128 + (cf * 4 + elo div 64)" "d0 = (s * 32 + cf) * 4 + elo div 64" by (simp_all add: d0_def)
  have sgn: "d0 div 128 mod 2 \<noteq> 0 \<longleftrightarrow> neg"
    using split_field [of "cf * 4 + elo div 64" 128 s] cf elo4 by (auto simp: d0(1) s_def)
  have comb: "d0 div 4 mod 32 = cf" "d0 mod 4 = elo div 64"
    using split_field [OF elo4, of "s * 32 + cf"] split_field [OF cf, of s] by (simp_all add: d0_def)
  have expo: "elo div 64 * 64 + elo mod 64 = elo" by simp
  have sig: "calcDPDSignificand p t 50 = Some c"
    using calcDPDSignificand_pack [of p 5 c] by (simp add: t_def p_def)
  have c: "E = ehi * 256 + elo" by (simp add: ehi_def elo_def)
  have len: "\<not> length (putUint64 (dec64_encode neg c e)) < 8" "take 8 (putUint64 (dec64_encode neg c e)) = putUint64 (dec64_encode neg c e)"
    by (simp_all add: putUint64_def)
  define F where "F = (\<lambda>prefix expo. case calcDPDSignificand prefix t 50 of
      None \<Rightarrow> [] | Some digits \<Rightarrow> formatDecimalCoefficient digits (expo - 398) neg)"
  have "decfloat64BytesToString (putUint64 (dec64_encode neg c e)) =
     (if cf = 0x1f then ''NaN''
      else if cf = 0x1e then (if neg then ''-Infinity'' else ''Infinity'')
      else if cf div 8 = 0 then F (cf mod 8) elo
      else if cf div 8 = 1 then F (cf mod 8) (elo + 0x100)
      else if cf div 8 = 2 then F (cf mod 8) (elo + 0x200)
      else if cf div 2 = 12 then F (8 + cf mod 2) elo
      else if cf div 2 = 13 then F (8 + cf mod 2) (elo + 0x100)
      else if cf div 2 = 14 then F (8 + cf mod 2) (elo + 0x200)
      else [])"
    unfolding decfloat64BytesToString_def Let_def b0 b1 b1' d0_def [symmetric] sgn comb expo len(2) big_of_bytes_putUint64 w low(1)
      F_def if_not_P [OF len(1)] ..
  also have "\<dots> = F p (elo + ehi * 256)"
    by (rule dec64_dispatch [OF ehi p cf_def])
  also have "\<dots> = formatDecimalCoefficient c e neg"
  proof -
    have "elo + ehi * 256 - 398 = e" using c unfolding E_def by linarith
    then show ?thesis by (simp add: F_def sig)
  qed
  finally show ?thesis by (simp only: decfloat64ToString_def)
qed

end
