(* ===== verification/RowDecode.thy ===== *)
theory RowDecode
  imports ParamEncode Decfloat
begin

text \<open>
  Row decoding (\<^verbatim>\<open>internal/wire/types_decode.go\<close>): a row of protocol 13 and later is a null bitset followed by
  the images of the non-null columns.  The reference is a server's row, a list of optional cells with their
  images (\<open>row_image\<close>); decoding it gives each cell's Go value.  Decoding arbitrary bytes is total, never
  writes to the connection and does not depend on how the stream was cut into segments.
\<close>

definition DecodeColumn ::
  "(uint32 \<Rightarrow> location) \<Rightarrow> (string \<Rightarrow> xencoding) \<Rightarrow> ColumnDescriptor \<Rightarrow> Reader \<Rightarrow> gval \<times> Reader" where
  "DecodeColumn res xtext desc r =
     (let sqlType = baseType (SQLType desc) in
      if sqlType = SQLShort then
        (let (v, r1) = ReadInt32 r in
         (if sint (Scale desc) < 0 then VString (scaledInt64 (scast (ucast v :: 16 word)) (Scale desc)) else VInt16 (ucast v), r1))
      else if sqlType = SQLLong then
        (let (v, r1) = ReadInt32 r in
         (if sint (Scale desc) < 0 then VString (scaledInt64 (scast v) (Scale desc)) else VInt32 v, r1))
      else if sqlType = SQLInt64 then
        (let (v, r1) = ReadInt64 r in
         (if sint (Scale desc) < 0 then VString (scaledInt64 v (Scale desc)) else VInt64 v, r1))
      else if sqlType = SQLFloat then (let (bits, r1) = ReadUInt32 r in (VFloat32 bits, r1))
      else if sqlType = SQLDouble then
        (let (buf, r1) = readView 8 r in if rerr r1 \<noteq> None then (VFloat64 0, r1) else (VFloat64 (be64 buf), r1))
      else if sqlType = SQLBoolean then (let (v, r1) = ReadInt32 r in (VBool (v \<noteq> 0), r1))
      else if sqlType = SQLTypeDate then (let (mjd, r1) = ReadInt32 r in (VTime (MJDToDate mjd), r1))
      else if sqlType = SQLTypeTime then (let (ticks, r1) = ReadUInt32 r in (VTime (TicksToTime ticks), r1))
      else if sqlType = SQLTimestamp then
        (let (mjd, r1) = ReadInt32 r; (ticks, r2) = ReadUInt32 r1 in (VTime (TimestampToTime mjd ticks), r2))
      else if sqlType = SQLTimeTZ \<or> sqlType = SQLTimeTZEx then
        (let (ticks, r1) = ReadUInt32 r; (tz, r2) = ReadUInt32 r1; (off, r3) = ReadInt32 r2
         in (VTime (TimeTZExToTime res ticks tz off), r3))
      else if sqlType = SQLTimestampTZ \<or> sqlType = SQLTimestampTZEx then
        (let (mjd, r1) = ReadInt32 r; (ticks, r2) = ReadUInt32 r1; (tz, r3) = ReadUInt32 r2; (off, r4) = ReadInt32 r3
         in (VTime (TimestampTZExToTime res mjd ticks tz off), r4))
      else if sqlType = SQLText then
        (if sint (Length desc) \<le> 0 then (VString [], r)
         else let len = nat (sint (Length desc)); (view, r1) = readView (len + xdr_pad len) r in
           if rerr r1 \<noteq> None then (VString [], r1)
           else let result = take len view in
             if SubType desc = IDOctets then (VBytes result, r1)
             else let trimmed = trimRightSpaces result in
               if SubType desc = IDNone then (VBytes trimmed, r1)
               else (VString (Decode xtext (charsetID desc) trimmed), r1))
      else if sqlType = SQLVarying then
        (let (data, r1) = ReadBuffer r in
         if rerr r1 \<noteq> None then (VString [], r1)
         else if SubType desc = IDOctets \<or> SubType desc = IDNone then (VBytes data, r1)
         else (VString (Decode xtext (charsetID desc) data), r1))
      else if sqlType = SQLBlob then (let (blobID, r1) = ReadInt64 r in (VInt64 blobID, r1))
      else if sqlType = SQLDec16 then
        (let (buf, r1) = readView 8 r in if rerr r1 \<noteq> None then (VString [], r1) else (VString (decfloatToString buf 16), r1))
      else if sqlType = SQLDec34 then
        (let (buf, r1) = readView 16 r in if rerr r1 \<noteq> None then (VString [], r1) else (VString (decfloatToString buf 34), r1))
      else if sqlType = SQLInt128 then
        (let (buf, r1) = readView 16 r in
         if rerr r1 \<noteq> None then (VString [], r1)
         else let v = int128_of_bytes buf in
           (VString (if sint (Scale desc) < 0 then scaledBigInt v (Scale desc) else formatInt v), r1))
      else (let (s, r1) = ReadString r in (VString s, r1)))"

definition readNullBitsetInto :: "nat \<Rightarrow> byte list \<Rightarrow> Reader \<Rightarrow> byte list \<times> Reader" where
  "readNullBitsetInto colCount buf r = readFull (take (bitsetLen colCount) buf) r"

definition IsNull :: "byte list \<Rightarrow> nat \<Rightarrow> bool" where
  "IsNull bitset idx \<longleftrightarrow>
     \<not> idx div 8 \<ge> length bitset \<and> (bitset ! (idx div 8)) AND push_bit (idx mod 8) 1 \<noteq> 0"

fun decode_columns ::
  "(uint32 \<Rightarrow> location) \<Rightarrow> (string \<Rightarrow> xencoding) \<Rightarrow> byte list \<Rightarrow> nat \<Rightarrow> ColumnDescriptor list \<Rightarrow> Reader \<Rightarrow> gval list \<times> Reader" where
  "decode_columns res xtext bitset i [] r = ([], r)"
| "decode_columns res xtext bitset i (desc # descs) r =
     (let (v, r1) = (if IsNull bitset i then (VNil, r) else DecodeColumn res xtext desc r);
          (vs, r2) = decode_columns res xtext bitset (Suc i) descs r1
      in (v # vs, r2))"

text \<open>The scratch \<open>nullBuf\<close> is overwritten unless the read fails.  The result is the row, or the reader's
  error (the caller then discards the row).\<close>

definition DecodeRow ::
  "(uint32 \<Rightarrow> location) \<Rightarrow> (string \<Rightarrow> xencoding) \<Rightarrow> ColumnDescriptor list \<Rightarrow> byte list \<Rightarrow> gval list \<Rightarrow> Reader
     \<Rightarrow> (gerr + gval list) \<times> Reader" where
  "DecodeRow res xtext descs nullBuf row r =
     (if length row < length descs
      then (Inl (Msg (''row buffer has '' @ formatNat (length row) @ '' columns, need '' @ formatNat (length descs))), r)
      else let byteCount = (length descs + 7) div 8; padded = bitsetLen (length descs);
               buf = (if length nullBuf < padded then replicate padded 0 else take padded nullBuf);
               (filled, r1) = readNullBitsetInto (length descs) buf r;
               (vs, r2) = decode_columns res xtext (take byteCount filled) 0 descs r1
           in (case rerr r2 of Some e \<Rightarrow> Inl e | None \<Rightarrow> Inr (vs @ drop (length descs) row), r2))"

section \<open>Arbitrary input\<close>

lemma sane_DecodeColumn: "sane (DecodeColumn res xtext desc)"
  unfolding DecodeColumn_def [abs_def] Let_def ReadUInt32_eq
  by (intro sane_if sane_bind sane_reads)

lemma uniform_DecodeColumn: "uniform (DecodeColumn res xtext desc)"
  unfolding DecodeColumn_def [abs_def] Let_def ReadUInt32_eq
  by (intro uniform_err_if uniform_if uniform_bind uniform_reads)

lemma decode_columns_eq:
  "decode_columns res xtext bitset i (desc # descs) =
     (\<lambda>r. case (if IsNull bitset i then Pair VNil r else DecodeColumn res xtext desc r) of (v, r1) \<Rightarrow>
        (case decode_columns res xtext bitset (Suc i) descs r1 of (vs, r2) \<Rightarrow> (v # vs, r2)))"
  "decode_columns res xtext bitset i [] = Pair []"
  by (simp_all add: fun_eq_iff Let_def)

lemma sane_decode_columns: "sane (decode_columns res xtext bitset i descs)"
proof (induction descs arbitrary: i)
  case (Cons d ds)
  show ?case unfolding decode_columns_eq by (intro sane_bind sane_if sane_pure sane_DecodeColumn Cons.IH)
qed (simp add: decode_columns_eq sane_pure)

lemma uniform_decode_columns: "uniform (decode_columns res xtext bitset i descs)"
proof (induction descs arbitrary: i)
  case (Cons d ds)
  show ?case unfolding decode_columns_eq by (intro uniform_bind uniform_if uniform_pure uniform_DecodeColumn Cons.IH)
qed (simp add: decode_columns_eq uniform_pure)

lemma sane_readFull: "sane (readFull buf)"
  unfolding readFull_def [abs_def] by (intro sane_if sane_guarded sane_reads sane_sane0)

lemma uniform_readFull: "uniform (readFull buf)"
proof -
  have "uniform (\<lambda>r. if rerr r \<noteq> None then (buf, r) else
      let (view, r') = readView (length buf) r in if rerr r' \<noteq> None then (buf, r') else (view, r'))"
    by (intro uniform_err_if uniform_guarded uniform_reads)
  then show ?thesis by (cases "buf = []") (simp_all add: readFull_def [abs_def] uniform_pure)
qed

lemma sane_result: "sane (\<lambda>r. (case rerr r of Some e \<Rightarrow> Inl e | None \<Rightarrow> Inr x, r))"
  by (simp add: sane_def)

lemma uniform_result: "uniform (\<lambda>r. (case rerr r of Some e \<Rightarrow> Inl e | None \<Rightarrow> Inr x, r))"
  by (simp add: uniform_def obs_eq_rerr)

text \<open>Whatever bytes arrive, a row is decoded or refused without touching the outgoing side, and an error that
  was already recorded stays; and the outcome depends on the bytes, not on their segmentation.\<close>

lemma sane_DecodeRow: "sane (DecodeRow res xtext descs nullBuf row)"
  unfolding DecodeRow_def [abs_def] Let_def readNullBitsetInto_def [abs_def]
  by (intro sane_if sane_pure sane_bind sane_readFull sane_decode_columns sane_result)

lemma uniform_DecodeRow: "uniform (DecodeRow res xtext descs nullBuf row)"
  unfolding DecodeRow_def [abs_def] Let_def readNullBitsetInto_def [abs_def]
  by (intro uniform_if uniform_pure uniform_bind uniform_readFull uniform_decode_columns uniform_result)

section \<open>The null bitset\<close>

lemma IsNull_bit: "idx div 8 < length bitset \<Longrightarrow> IsNull bitset idx \<longleftrightarrow> bit (bitset ! (idx div 8)) (idx mod 8)"
proof -
  assume "idx div 8 < length bitset"
  moreover have "x AND push_bit k 1 \<noteq> 0 \<longleftrightarrow> bit x k" if "k < 8" for x :: byte and k
    using that by (simp add: and_exp_eq_0_iff_not_bit)
  ultimately show ?thesis by (simp add: IsNull_def)
qed

text \<open>The decoder recovers the flags of the encoder.\<close>

lemma IsNull_null_bitset:
  assumes "i < length fs"
  shows "IsNull (take ((length fs + 7) div 8) (null_bitset fs)) i \<longleftrightarrow> fs ! i"
proof -
  have "i div 8 < Suc (i div 8)" "Suc (i div 8) = (i + 8) div 8" by simp_all
  moreover have "(i + 8) div 8 \<le> (length fs + 7) div 8" by (rule div_le_mono) (use assms in simp)
  ultimately have i: "i div 8 < (length fs + 7) div 8" by linarith
  have le: "(length fs + 7) div 8 \<le> bitsetLen (length fs)" unfolding bitsetLen_def Let_def by presburger
  have "i < 8 * bitsetLen (length fs)" using assms bitsetLen_enough [of "length fs"] by linarith
  then show ?thesis using null_bitset_bit [of i fs] assms i le by (simp add: IsNull_bit)
qed

section \<open>A server's row\<close>

text \<open>A cell is what the server stores in a column, in the representation of its SQL type.\<close>

datatype cell =
    CInt int
  | CBits32 uint32
  | CBits64 uint64
  | CBool bool
  | CDate int32
  | CTime uint32
  | CStamp int32 uint32
  | CTimeTZ uint32 uint32 int32
  | CStampTZ int32 uint32 uint32 int32
  | CText "byte list"
  | CVarying "byte list"
  | CDecfloat "byte list"
  | CInt128 int
  | COther string

definition fits :: "nat \<Rightarrow> int \<Rightarrow> bool" where
  "fits w i \<longleftrightarrow> - (2 ^ (w - 1)) \<le> i \<and> i < 2 ^ (w - 1)"

text \<open>Two's complement, big endian, in \<open>k\<close> bytes.\<close>

fun twos_bytes :: "nat \<Rightarrow> int \<Rightarrow> byte list" where
  "twos_bytes 0 i = []"
| "twos_bytes (Suc k) i = twos_bytes k (i div 256) @ [of_int i]"

fun cell_image :: "int32 \<Rightarrow> cell \<Rightarrow> byte list" where
  "cell_image ty (CInt i) = (if ty = SQLInt64 then putUint64 (of_int i) else putUint32 (of_int i))"
| "cell_image ty (CBits32 b) = putUint32 b"
| "cell_image ty (CBits64 b) = putUint64 b"
| "cell_image ty (CBool b) = [if b then 1 else 0, 0, 0, 0]"
| "cell_image ty (CDate d) = putUint32 d"
| "cell_image ty (CTime t) = putUint32 t"
| "cell_image ty (CStamp d t) = putUint32 d @ putUint32 t"
| "cell_image ty (CTimeTZ t z f) = putUint32 t @ putUint32 z @ putUint32 f"
| "cell_image ty (CStampTZ d t z f) = putUint32 d @ putUint32 t @ putUint32 z @ putUint32 f"
| "cell_image ty (CText b) = b @ replicate (xdr_pad (length b)) 0"
| "cell_image ty (CVarying b) = xdr_buffer b"
| "cell_image ty (CDecfloat b) = b"
| "cell_image ty (CInt128 i) = twos_bytes 16 i"
| "cell_image ty (COther s) = xdr_buffer (bytes_of_string s)"

text \<open>Which cells a column can hold.\<close>

definition named_types :: "int32 set" where
  "named_types = {SQLShort, SQLLong, SQLInt64, SQLFloat, SQLDouble, SQLBoolean, SQLTypeDate, SQLTypeTime, SQLTimestamp,
     SQLTimeTZ, SQLTimeTZEx, SQLTimestampTZ, SQLTimestampTZEx, SQLText, SQLVarying, SQLBlob, SQLDec16, SQLDec34, SQLInt128}"

fun cell_ok :: "ColumnDescriptor \<Rightarrow> cell \<Rightarrow> bool" where
  "cell_ok d (CInt i) = (baseType (SQLType d) = SQLShort \<and> fits 16 i \<or> baseType (SQLType d) = SQLLong \<and> fits 32 i
     \<or> baseType (SQLType d) = SQLInt64 \<and> fits 64 i)"
| "cell_ok d (CBits32 b) = (baseType (SQLType d) = SQLFloat)"
| "cell_ok d (CBits64 b) = (baseType (SQLType d) = SQLDouble \<or> baseType (SQLType d) = SQLBlob)"
| "cell_ok d (CBool b) = (baseType (SQLType d) = SQLBoolean)"
| "cell_ok d (CDate x) = (baseType (SQLType d) = SQLTypeDate)"
| "cell_ok d (CTime x) = (baseType (SQLType d) = SQLTypeTime)"
| "cell_ok d (CStamp x y) = (baseType (SQLType d) = SQLTimestamp)"
| "cell_ok d (CTimeTZ x y z) = (baseType (SQLType d) = SQLTimeTZ \<or> baseType (SQLType d) = SQLTimeTZEx)"
| "cell_ok d (CStampTZ x y z u) = (baseType (SQLType d) = SQLTimestampTZ \<or> baseType (SQLType d) = SQLTimestampTZEx)"
| "cell_ok d (CText b) = (baseType (SQLType d) = SQLText \<and> int (length b) = sint (Length d))"
| "cell_ok d (CVarying b) = (baseType (SQLType d) = SQLVarying \<and> length b \<le> maxWireBufferLen)"
| "cell_ok d (CDecfloat b) = (baseType (SQLType d) = SQLDec16 \<and> length b = 8 \<or> baseType (SQLType d) = SQLDec34 \<and> length b = 16)"
| "cell_ok d (CInt128 i) = (baseType (SQLType d) = SQLInt128 \<and> fits 128 i)"
| "cell_ok d (COther s) = (baseType (SQLType d) \<notin> named_types \<and> length s \<le> maxWireBufferLen)"

definition text_value :: "(string \<Rightarrow> xencoding) \<Rightarrow> ColumnDescriptor \<Rightarrow> byte list \<Rightarrow> gval" where
  "text_value xtext d b = (if b = [] then VString []
     else if SubType d = IDOctets then VBytes b
     else if SubType d = IDNone then VBytes (trimRightSpaces b)
     else VString (Decode xtext (charsetID d) (trimRightSpaces b)))"

fun cell_value :: "(uint32 \<Rightarrow> location) \<Rightarrow> (string \<Rightarrow> xencoding) \<Rightarrow> ColumnDescriptor \<Rightarrow> cell \<Rightarrow> gval" where
  "cell_value res xtext d (CInt i) =
     (if sint (Scale d) < 0 then VString (scaledInt64 (of_int i) (Scale d))
      else if baseType (SQLType d) = SQLShort then VInt16 (of_int i)
      else if baseType (SQLType d) = SQLLong then VInt32 (of_int i) else VInt64 (of_int i))"
| "cell_value res xtext d (CBits32 b) = VFloat32 b"
| "cell_value res xtext d (CBits64 b) = (if baseType (SQLType d) = SQLDouble then VFloat64 b else VInt64 b)"
| "cell_value res xtext d (CBool b) = VBool b"
| "cell_value res xtext d (CDate x) = VTime (MJDToDate x)"
| "cell_value res xtext d (CTime x) = VTime (TicksToTime x)"
| "cell_value res xtext d (CStamp x y) = VTime (TimestampToTime x y)"
| "cell_value res xtext d (CTimeTZ x y z) = VTime (TimeTZExToTime res x y z)"
| "cell_value res xtext d (CStampTZ x y z u) = VTime (TimestampTZExToTime res x y z u)"
| "cell_value res xtext d (CText b) = text_value xtext d b"
| "cell_value res xtext d (CVarying b) =
     (if SubType d = IDOctets \<or> SubType d = IDNone then VBytes b else VString (Decode xtext (charsetID d) b))"
| "cell_value res xtext d (CDecfloat b) = VString (decfloatToString b (if baseType (SQLType d) = SQLDec16 then 16 else 34))"
| "cell_value res xtext d (CInt128 i) =
     VString (if sint (Scale d) < 0 then scaledBigInt i (Scale d) else formatInt i)"
| "cell_value res xtext d (COther s) = VString s"

lemma length_twos_bytes [simp]: "length (twos_bytes k i) = k"
  by (induction k arbitrary: i) simp_all

lemma big_of_twos_bytes: "big_of_bytes (twos_bytes k i) = i mod 256 ^ k"
proof (induction k arbitrary: i)
  case (Suc k)
  have "uint (of_int i :: byte) = i mod 256" by (simp add: unsigned_of_int take_bit_eq_mod)
  moreover have "i mod (256 * 256 ^ k) = (i div 256) mod 256 ^ k * 256 + i mod 256"
    by (simp add: zmod_zmult2_eq)
  ultimately show ?case using Suc by simp
qed simp

lemma mod_pow_shift: "- P \<le> i \<Longrightarrow> i < 0 \<Longrightarrow> (i :: int) mod P = i + P"
  by (metis add.commute add_increasing2 add_less_same_cancel1 le_add_same_cancel1 le_minus_iff minus_le_iff mod_add_self1 mod_pos_pos_trivial neg_le_iff_le add.left_neutral add_left_mono ab_left_minus)

lemma int128_of_twos_bytes:
  assumes "fits 128 i"
  shows "int128_of_bytes (twos_bytes 16 i) = i"
proof -
  define P H :: int where "P = 2 ^ 128" and "H = 2 ^ 127"
  have PH: "256 ^ 16 = P" "P = 2 * H" "0 < H" by (simp_all add: P_def H_def)
  have i: "- H \<le> i" "i < H" using assms by (simp_all add: fits_def H_def)
  have v: "int128_of_bytes (twos_bytes 16 i) = (if i mod P < H then i mod P else i mod P - P)"
    using int128_of_bytes_value [OF length_twos_bytes, of i]
    unfolding big_of_twos_bytes PH(1) P_def [symmetric] H_def [symmetric] .
  show ?thesis
  proof (cases "i < 0")
    case True
    then have "i mod P = i + P" using i PH by (intro mod_pow_shift) simp_all
    then show ?thesis using v i PH by auto
  next
    case False
    then have "i mod P = i" using i PH by (intro mod_pos_pos_trivial) simp_all
    then show ?thesis using v i by simp
  qed
qed

lemma reads_1: "reads m bs v \<Longrightarrow> reads (\<lambda>r. case m r of (x, r') \<Rightarrow> (g x, r')) bs (g v)"
  using reads_bind [OF _ reads_pure, of m bs v g] by simp

lemma reads_2:
  "reads m bs v \<Longrightarrow> reads m' cs w \<Longrightarrow>
     reads (\<lambda>r. case m r of (x, r1) \<Rightarrow> (case m' r1 of (y, r2) \<Rightarrow> (g x y, r2))) (bs @ cs) (g v w)"
  by (rule reads_bind [where k = "\<lambda>x r1. case m' r1 of (y, r2) \<Rightarrow> (g x y, r2)"], assumption, rule reads_1)

lemma reads_3:
  "reads m bs v \<Longrightarrow> reads m' cs w \<Longrightarrow> reads m'' ds x \<Longrightarrow>
     reads (\<lambda>r. case m r of (a, r1) \<Rightarrow> (case m' r1 of (b, r2) \<Rightarrow> (case m'' r2 of (c, r3) \<Rightarrow> (g a b c, r3)))) (bs @ cs @ ds) (g v w x)"
  by (rule reads_bind [where k = "\<lambda>a r1. case m' r1 of (b, r2) \<Rightarrow> (case m'' r2 of (c, r3) \<Rightarrow> (g a b c, r3))"], assumption, rule reads_2)

lemma reads_4:
  "reads m bs v \<Longrightarrow> reads m' cs w \<Longrightarrow> reads m'' ds x \<Longrightarrow> reads n es y \<Longrightarrow>
     reads (\<lambda>r. case m r of (a, r1) \<Rightarrow> (case m' r1 of (b, r2) \<Rightarrow> (case m'' r2 of (c, r3) \<Rightarrow> (case n r3 of (d, r4) \<Rightarrow> (g a b c d, r4)))))
       (bs @ cs @ ds @ es) (g v w x y)"
  by (rule reads_bind [where k = "\<lambda>a r1. case m' r1 of (b, r2) \<Rightarrow> (case m'' r2 of (c, r3) \<Rightarrow> (case n r3 of (d, r4) \<Rightarrow> (g a b c d, r4)))"], assumption, rule reads_3)

text \<open>A read whose failure is answered with a default value.\<close>

lemma reads_default:
  "reads m bs v \<Longrightarrow> reads (\<lambda>r. case m r of (x, r1) \<Rightarrow> if rerr r1 \<noteq> None then f r1 else (g x, r1)) bs (g v)"
  using reads_guarded [OF _ reads_pure, of m bs v f g] by (simp add: Let_def)

lemma fits_word: "fits 16 i \<Longrightarrow> sint (of_int i :: 16 word) = i" "fits 32 i \<Longrightarrow> sint (of_int i :: 32 word) = i"
  by (simp_all add: fits_def signed_of_int signed_take_bit_int_eq_self)

lemma cast_short: "fits 16 i \<Longrightarrow> scast (ucast (of_int i :: int32) :: 16 word) = (of_int i :: int64)"
proof -
  assume "fits 16 i"
  moreover have "ucast (of_int i :: int32) = (of_int i :: 16 word)" by (rule bit_word_eqI) (simp add: bit_simps)
  ultimately show ?thesis using fits_word(1) [of i] by (metis of_int_sint)
qed

lemma reads_bool: "reads ReadInt32 [if b then 1 else 0, 0, 0, 0] (if b then 0x01000000 else 0)"
proof -
  have "putUint32 (if b then 0x01000000 else 0) = [if b then 1 else 0, 0, 0, 0]" by (cases b) (simp_all add: putUint32_def drop_bit_eq_div)
  then show ?thesis using reads_ReadInt32 [of "if b then 0x01000000 else 0"] by simp
qed

lemma reads_text:
  assumes "b \<noteq> []"
  shows "reads (\<lambda>r. case readView (length b + xdr_pad (length b)) r of (view, r1) \<Rightarrow>
      if rerr r1 \<noteq> None then f r1 else (g (take (length b) view), r1)) (b @ replicate (xdr_pad (length b)) 0) (g b)"
  using reads_default [OF reads_view [of "b @ replicate (xdr_pad (length b)) 0"], of "length b + xdr_pad (length b)" f
      "\<lambda>view. g (take (length b) view)"] by simp

lemmas column_reads = reads_1 [OF reads_ReadInt32] reads_1 [OF reads_ReadInt64] reads_1 [OF reads_bool]
  reads_2 [OF reads_ReadInt32 reads_ReadInt32] reads_3 [OF reads_ReadInt32 reads_ReadInt32 reads_ReadInt32]
  reads_4 [OF reads_ReadInt32 reads_ReadInt32 reads_ReadInt32 reads_ReadInt32]

lemma reads_DecodeColumn_CInt:
  assumes "cell_ok d (CInt i)"
  shows "reads (DecodeColumn res xtext d) (cell_image (baseType (SQLType d)) (CInt i)) (cell_value res xtext d (CInt i))"
proof -
  have eqs: "(ucast (of_int i :: int32) :: 16 word) = of_int i" for i by (rule bit_word_eqI) (simp add: bit_simps)
  have long: "fits 32 i \<Longrightarrow> scast (of_int i :: int32) = (of_int i :: int64)"
    using fits_word(2) [of i] by (metis of_int_sint)
  note s = column_reads(1) [of _ "of_int i"] column_reads(2) [of _ "of_int i"]
  consider "baseType (SQLType d) = SQLShort" "fits 16 i" | "baseType (SQLType d) = SQLLong" "fits 32 i" | "baseType (SQLType d) = SQLInt64"
    using assms by auto
  then show ?thesis
  proof cases
    case 1
    show ?thesis
      using s(1) [of "\<lambda>v. if sint (Scale d) < 0 then VString (scaledInt64 (scast (ucast v :: 16 word)) (Scale d)) else VInt16 (ucast v)"] 1
      by (cases "sint (Scale d) < 0") (simp_all add: DecodeColumn_def [abs_def] Let_def eqs cast_short [unfolded eqs])
  next
    case 2
    show ?thesis
      using s(1) [of "\<lambda>v. if sint (Scale d) < 0 then VString (scaledInt64 (scast v) (Scale d)) else VInt32 v"] 2
      by (cases "sint (Scale d) < 0") (simp_all add: DecodeColumn_def [abs_def] Let_def long)
  next
    case 3
    show ?thesis
      using s(2) [of "\<lambda>v. if sint (Scale d) < 0 then VString (scaledInt64 v (Scale d)) else VInt64 v"] 3
      by (cases "sint (Scale d) < 0") (simp_all add: DecodeColumn_def [abs_def] Let_def)
  qed
qed

lemma reads_DecodeColumn_CText:
  assumes "cell_ok d (CText b)"
  shows "reads (DecodeColumn res xtext d) (cell_image (baseType (SQLType d)) (CText b)) (cell_value res xtext d (CText b))"
proof (cases "b = []")
  case True
  then show ?thesis using assms reads_pure [of "VString []"] by (simp add: DecodeColumn_def [abs_def] Let_def text_value_def xdr_pad_def)
next
  case False
  have l: "nat (sint (Length d)) = length b" "\<not> sint (Length d) \<le> 0" using assms False by (cases b; auto)+
  note t = reads_text [OF False, of "\<lambda>r. (VString [], r)" "\<lambda>x. if SubType d = IDOctets then VBytes x
    else if SubType d = IDNone then VBytes (trimRightSpaces x) else VString (Decode xtext (charsetID d) (trimRightSpaces x))"]
  show ?thesis using t assms False l
    by (simp add: DecodeColumn_def [abs_def] Let_def text_value_def if_distrib [of "\<lambda>x. (x, _)"] cong: if_cong)
qed

text \<open>Every cell a column can hold is decoded to its value.\<close>

lemma reads_DecodeColumn:
  assumes "cell_ok d c"
  shows "reads (DecodeColumn res xtext d) (cell_image (baseType (SQLType d)) c) (cell_value res xtext d c)"
proof (cases c)
  case (CInt i)
  then show ?thesis using reads_DecodeColumn_CInt assms by simp
next
  case (CText b)
  then show ?thesis using reads_DecodeColumn_CText assms by simp
next
  case (CBits64 b)
  have "be64 (putUint64 b) = b" by simp
  with CBits64 assms reads_default [OF reads_view [OF length_putUint64 [of b]], of "\<lambda>r. (VFloat64 0, r)" "\<lambda>x. VFloat64 (be64 x)"]
    column_reads(2) [of VInt64 b]
  show ?thesis by (auto simp: DecodeColumn_def [abs_def] Let_def)
next
  case (CVarying b)
  have "reads ReadBuffer (xdr_buffer b) b" using CVarying assms by (simp add: reads_ReadBuffer_xdr)
  from reads_default [OF this, of "\<lambda>r. (VString [], r)" "\<lambda>x. if SubType d = IDOctets \<or> SubType d = IDNone then VBytes x
      else VString (Decode xtext (charsetID d) x)"] CVarying assms
  show ?thesis by (simp add: DecodeColumn_def [abs_def] Let_def if_distrib [of "\<lambda>x. (x, _)"] cong: if_cong)
next
  case (CDecfloat b)
  note t = reads_default [OF reads_view [of b "length b"], of "\<lambda>r. (VString [], r)"
      "\<lambda>x. VString (decfloatToString x (if baseType (SQLType d) = SQLDec16 then 16 else 34))"]
  show ?thesis using t CDecfloat assms
    by (cases "baseType (SQLType d) = SQLDec16") (auto simp: DecodeColumn_def [abs_def] Let_def cong: if_cong)
next
  case (CInt128 i)
  then have "int128_of_bytes (twos_bytes 16 i) = i" using assms int128_of_twos_bytes by simp
  with CInt128 assms reads_default [OF reads_view [of "twos_bytes 16 i" 16], of "\<lambda>r. (VString [], r)"
      "\<lambda>x. VString (if sint (Scale d) < 0 then scaledBigInt (int128_of_bytes x) (Scale d) else formatInt (int128_of_bytes x))"]
  show ?thesis unfolding DecodeColumn_def [abs_def] Let_def
    by (cases "sint (Scale d) < 0") (simp_all del: twos_bytes.simps)
next
  case (CBool b)
  then show ?thesis using assms column_reads(3) [of "\<lambda>v. VBool (v \<noteq> 0)" b] by (cases b) (simp_all add: DecodeColumn_def [abs_def] Let_def)
next
  case (COther s)
  then show ?thesis using assms reads_1 [OF reads_ReadString, of s VString] by (simp add: DecodeColumn_def [abs_def] Let_def named_types_def)
qed (use assms column_reads(1,4-6) in \<open>auto simp: DecodeColumn_def [abs_def] Let_def ReadUInt32_eq\<close>)

section \<open>Whole rows\<close>

fun cells_image :: "ColumnDescriptor list \<Rightarrow> cell option list \<Rightarrow> byte list" where
  "cells_image (d # ds) (c # cs) = (case c of None \<Rightarrow> [] | Some x \<Rightarrow> cell_image (baseType (SQLType d)) x) @ cells_image ds cs"
| "cells_image _ _ = []"

definition row_image :: "ColumnDescriptor list \<Rightarrow> cell option list \<Rightarrow> byte list" where
  "row_image descs cells = null_bitset (map (\<lambda>c. c = None) cells) @ cells_image descs cells"

definition row_ok :: "ColumnDescriptor list \<Rightarrow> cell option list \<Rightarrow> bool" where
  "row_ok descs cells \<longleftrightarrow> list_all2 (\<lambda>d c. case c of None \<Rightarrow> True | Some x \<Rightarrow> cell_ok d x) descs cells"

definition row_value :: "(uint32 \<Rightarrow> location) \<Rightarrow> (string \<Rightarrow> xencoding) \<Rightarrow> ColumnDescriptor list \<Rightarrow> cell option list \<Rightarrow> gval list" where
  "row_value res xtext descs cells = map2 (\<lambda>d c. case c of None \<Rightarrow> VNil | Some x \<Rightarrow> cell_value res xtext d x) descs cells"

lemma reads_decode_columns:
  assumes "row_ok descs cells" and "\<And>k. k < length cells \<Longrightarrow> IsNull bitset (i + k) \<longleftrightarrow> cells ! k = None"
  shows "reads (decode_columns res xtext bitset i descs) (cells_image descs cells) (row_value res xtext descs cells)"
  using assms
proof (induction descs arbitrary: cells i)
  case Nil
  then show ?case using reads_pure by (simp add: row_ok_def row_value_def decode_columns_eq)
next
  case (Cons d ds)
  then obtain c cs where cells: "cells = c # cs" "row_ok ds cs" "case c of None \<Rightarrow> True | Some x \<Rightarrow> cell_ok d x"
    by (cases cells) (auto simp: row_ok_def)
  have nul: "IsNull bitset i \<longleftrightarrow> c = None" using Cons.prems(2) [of 0] cells by simp
  have "IsNull bitset (Suc i + k) \<longleftrightarrow> cs ! k = None" if "k < length cs" for k
    using Cons.prems(2) [of "Suc k"] that cells by simp
  with cells have ih: "reads (decode_columns res xtext bitset (Suc i) ds) (cells_image ds cs) (row_value res xtext ds cs)"
    by (intro Cons.IH) simp_all
  have "reads (\<lambda>r. if IsNull bitset i then Pair VNil r else DecodeColumn res xtext d r)
      (case c of None \<Rightarrow> [] | Some x \<Rightarrow> cell_image (baseType (SQLType d)) x)
      (case c of None \<Rightarrow> VNil | Some x \<Rightarrow> cell_value res xtext d x)"
    using nul cells(3) reads_pure [of VNil] reads_DecodeColumn [of d] by (cases c) simp_all
  from reads_2 [OF this ih, of Cons] show ?case by (simp add: decode_columns_eq cells row_value_def del: decode_columns.simps)
qed

lemma reads_readFull: "length bs = length buf \<Longrightarrow> reads (readFull buf) bs bs"
  using reads_cong [OF reads_default [OF reads_view [of bs "length buf"], of "\<lambda>r. (buf, r)" "\<lambda>x. x"], of "readFull buf"]
    reads_pure [of "[]"] by (cases "buf = []") (auto simp: readFull_def [abs_def] Let_def)

lemma reads_result: "reads (\<lambda>r. (case rerr r of Some e \<Rightarrow> Inl e | None \<Rightarrow> Inr x, r)) [] (Inr x)"
  by (simp add: reads_def)

text \<open>A row sent by the server is decoded to the values of its cells, with \<^verbatim>\<open>nil\<close> for the null ones.\<close>

lemma reads_DecodeRow:
  assumes "row_ok descs cells" and "length descs \<le> length row"
  shows "reads (DecodeRow res xtext descs nullBuf row) (row_image descs cells)
    (Inr (row_value res xtext descs cells @ drop (length descs) row))"
proof -
  let ?fs = "map (\<lambda>c. c = None) cells"
  have len: "length cells = length descs" using assms(1) by (simp add: row_ok_def list_all2_lengthD)
  define buf where "buf = take (bitsetLen (length descs))
      (if length nullBuf < bitsetLen (length descs) then replicate (bitsetLen (length descs)) 0 else take (bitsetLen (length descs)) nullBuf)"
  have "length (null_bitset ?fs) = length buf" by (simp add: buf_def len)
  from reads_readFull [OF this] have 1: "reads (readFull buf) (null_bitset ?fs) (null_bitset ?fs)" .
  define n where "n = (length descs + 7) div 8"
  have "IsNull (take n (null_bitset ?fs)) (0 + k) \<longleftrightarrow> cells ! k = None" if "k < length cells" for k
    using IsNull_null_bitset [of k ?fs] that by (simp add: n_def len)
  from reads_decode_columns [OF assms(1) this]
  have 2: "reads (decode_columns res xtext (take n (null_bitset ?fs)) 0 descs) (cells_image descs cells) (row_value res xtext descs cells)" .
  have "reads (\<lambda>r. case readFull buf r of (filled, r1) \<Rightarrow>
      (case decode_columns res xtext (take n filled) 0 descs r1 of (vs, r2) \<Rightarrow>
        (case rerr r2 of Some e \<Rightarrow> Inl e | None \<Rightarrow> Inr (vs @ drop (length descs) row), r2)))
      (null_bitset ?fs @ cells_image descs cells @ []) (Inr (row_value res xtext descs cells @ drop (length descs) row))"
    by (rule reads_bind [OF 1], rule reads_bind [OF 2], rule reads_result)
  then show ?thesis
    using assms(2) by (simp add: DecodeRow_def [abs_def] Let_def readNullBitsetInto_def buf_def n_def row_image_def)
qed

end
