(* ===== verification/Response.thy ===== *)
theory Response
  imports Writer
begin

text \<open>
  Server responses: the status-vector parser of \<^verbatim>\<open>internal/wire/status.go\<close> with its fast path, and the
  messages of \<^verbatim>\<open>internal/wire/response.go\<close>.  The parsing loop terminates for every input, and parses
  back what a server encodes.
\<close>

section \<open>The status vector parser\<close>

text \<open>\<open>cursor\<close> is the pointer \<^verbatim>\<open>current\<close> of the source: nil, or the last entry of one of the two lists.\<close>

datatype cursor = CurNone | CurErr | CurWarn

record sv_state =
  svec :: StatusVector
  scur :: cursor
  sWarning :: bool

definition upd_last :: "('a \<Rightarrow> 'a) \<Rightarrow> 'a list \<Rightarrow> 'a list" where
  "upd_last f xs = (if xs = [] then [] else butlast xs @ [f (last xs)])"

definition upd_current :: "(GDSError \<Rightarrow> GDSError) \<Rightarrow> sv_state \<Rightarrow> sv_state" where
  "upd_current f st = (case scur st of
      CurNone \<Rightarrow> st
    | CurErr \<Rightarrow> st\<lparr>svec := (svec st)\<lparr>Errors := upd_last f (Errors (svec st))\<rparr>\<rparr>
    | CurWarn \<Rightarrow> st\<lparr>svec := (svec st)\<lparr>Warnings := upd_last f (Warnings (svec st))\<rparr>\<rparr>)"

definition sv_gds :: "int32 \<Rightarrow> sv_state \<Rightarrow> sv_state" where
  "sv_gds code st =
     (let st1 = st\<lparr>sWarning := False\<rparr> in
      if code \<noteq> 0
      then st1\<lparr>svec := (svec st)\<lparr>Errors := Errors (svec st) @ [newGDSError code]\<rparr>, scur := CurErr\<rparr>
      else st1\<lparr>scur := CurNone\<rparr>)"

definition sv_warning :: "int32 \<Rightarrow> sv_state \<Rightarrow> sv_state" where
  "sv_warning code st =
     (let st1 = st\<lparr>sWarning := True\<rparr> in
      if code \<noteq> 0
      then st1\<lparr>svec := (svec st)\<lparr>Warnings := Warnings (svec st) @ [newGDSError code]\<rparr>, scur := CurWarn\<rparr>
      else st1\<lparr>scur := CurNone\<rparr>)"

definition add_text :: "string \<Rightarrow> GDSError \<Rightarrow> GDSError" where
  "add_text s e = e\<lparr>Message := (if Message e = [] then s else Message e @ '': '' @ s),
     Params := Params e @ [PString s]\<rparr>"

definition add_number :: "int32 \<Rightarrow> GDSError \<Rightarrow> GDSError" where
  "add_number n e = e\<lparr>Params := Params e @ [PInt32 n]\<rparr>"

definition sv_sqlstate :: "string \<Rightarrow> sv_state \<Rightarrow> sv_state" where
  "sv_sqlstate s st =
     (if sWarning st \<and> Warnings (svec st) \<noteq> []
      then st\<lparr>svec := (svec st)\<lparr>Warnings := upd_last (\<lambda>e. e\<lparr>SQLState_field := s\<rparr>) (Warnings (svec st))\<rparr>\<rparr>
      else if \<not> sWarning st \<and> Errors (svec st) \<noteq> []
      then st\<lparr>svec := (svec st)\<lparr>Errors := upd_last (\<lambda>e. e\<lparr>SQLState_field := s\<rparr>) (Errors (svec st))\<rparr>\<rparr>
      else st)"

text \<open>The body of the parsing loop after the tag.  A failed read leaves the vector as it is; the loop
  then returns it.\<close>

definition sv_arg :: "(Reader \<Rightarrow> 'a \<times> Reader) \<Rightarrow> ('a \<Rightarrow> sv_state \<Rightarrow> sv_state) \<Rightarrow> sv_state \<Rightarrow> Reader \<Rightarrow> sv_state \<times> Reader" where
  "sv_arg m upd st r = (let (x, r') = m r in if rerr r' \<noteq> None then (st, r') else (upd x st, r'))"

definition sv_step :: "int32 \<Rightarrow> sv_state \<Rightarrow> Reader \<Rightarrow> sv_state \<times> Reader" where
  "sv_step tag st r =
     (if tag = IscArgGds then sv_arg ReadInt32 sv_gds st r
      else if tag = IscArgWarning then sv_arg ReadInt32 sv_warning st r
      else if tag = IscArgString \<or> tag = IscArgCstring \<or> tag = IscArgInterpreted
      then sv_arg ReadString (\<lambda>s. upd_current (add_text s)) st r
      else if tag = IscArgNumber then sv_arg ReadInt32 (\<lambda>n. upd_current (add_number n)) st r
      else if tag = IscArgSQLState then sv_arg ReadString sv_sqlstate st r
      else sv_arg ReadInt32 (\<lambda>_ st. st) st r)"

lemma sv_arg_pending:
  assumes "\<And>x r'. m r = (x, r') \<Longrightarrow> pending r' \<le> pending r"
  shows "pending (snd (sv_arg m upd st r)) \<le> pending r"
  using assms by (auto simp: sv_arg_def Let_def split: prod.splits)

lemma ReadBuffer_pending: "ReadBuffer r = (b, r') \<Longrightarrow> pending r' \<le> pending r"
proof -
  assume rb: "ReadBuffer r = (b, r')"
  obtain raw r1 where r1: "ReadInt32 r = (raw, r1)" by (cases "ReadInt32 r")
  define len where "len = buffer_len_fixup raw"
  obtain data r2 where r2: "readView (len + xdr_pad len) r1 = (data, r2)"
    by (cases "readView (len + xdr_pad len) r1")
  have err: "pending (r1\<lparr>rerr := e\<rparr>) = pending r1" for e by (simp add: pending_def)
  have "r' \<in> {r1, r1\<lparr>rerr := Some (buffer_too_long len)\<rparr>, r2}"
    using rb r1 r2 by (auto simp: ReadBuffer_def Let_def len_def split: if_splits)
  then show ?thesis using ReadInt32_pending(1) [OF r1] readView_pending(1) [OF r2] err by auto
qed

lemma ReadString_pending: "ReadString r = (s, r') \<Longrightarrow> pending r' \<le> pending r"
  using ReadBuffer_pending [of r] by (auto simp: ReadString_def Let_def split: prod.splits if_splits)

lemma sv_step_pending: "pending (snd (sv_step tag st r)) \<le> pending r"
  unfolding sv_step_def
  by (auto intro!: sv_arg_pending dest: ReadInt32_pending(1) ReadString_pending)

function sv_loop :: "sv_state \<Rightarrow> Reader \<Rightarrow> StatusVector \<times> Reader" where
  "sv_loop st r =
     (let (tag, r1) = ReadInt32 r in
      if rerr r1 \<noteq> None \<or> tag = IscArgEnd then (svec st, r1)
      else let (st', r2) = sv_step tag st r1 in
        if rerr r2 \<noteq> None then (svec st, r2) else sv_loop st' r2)"
  by pat_completeness auto
termination
proof (relation "measure (\<lambda>(st, r). pending r)", goal_cases)
  case (2 st r x tag r1 xa st' r2)
  then have "ReadInt32 r = (tag, r1)" "rerr r1 = None" "sv_step tag st r1 = (st', r2)" by auto
  then show ?case
    using ReadInt32_pending(2) [of r tag r1] sv_step_pending [of tag st r1] by simp
qed simp

declare sv_loop.simps [simp del]

definition sv_start :: sv_state where
  "sv_start = \<lparr>svec = emptyStatusVector, scur = CurNone, sWarning = False\<rparr>"

definition readStatusVectorSlow :: "Reader \<Rightarrow> StatusVector \<times> Reader" where
  "readStatusVectorSlow r = sv_loop sv_start r"

definition success_pattern :: "byte list" where
  "success_pattern = [0, 0, 0, 1, 0, 0, 0, 0, 0, 0, 0, 0]"

definition readStatusVector :: "Reader \<Rightarrow> StatusVector \<times> Reader" where
  "readStatusVector r =
     (let (peek, r1) = peekBytes 12 r in
      if peek = success_pattern then (emptyStatusVector, advance 12 r1)
      else readStatusVectorSlow r1)"

section \<open>Response messages (response.go)\<close>

record GenericResponse =
  Handle :: int32
  BlobID :: int64
  Data :: "byte list"
  Status :: StatusVector

record FetchResponse =
  FetchStatus :: int32
  FetchMessages :: int32

definition emptyResponse :: GenericResponse where
  "emptyResponse = \<lparr>Handle = 0, BlobID = 0, Data = [], Status = emptyStatusVector\<rparr>"

text \<open>\<^verbatim>\<open>Data\<close> is the content of the reader's auxiliary buffer right after the read.\<close>

definition readGenericResponse :: "Reader \<Rightarrow> GenericResponse \<times> Reader" where
  "readGenericResponse r =
     (let (h, r1) = ReadInt32 r; (b, r2) = ReadInt64 r1; (data, r3) = ReadBuffer r2;
          resp = emptyResponse\<lparr>Handle := h, BlobID := b\<rparr> in
      if rerr r3 \<noteq> None then (resp, r3)
      else let r4 = (if data \<noteq> [] then r3\<lparr>auxBuf := data\<rparr> else r3);
               (sv, r5) = readStatusVector r4
           in (resp\<lparr>Data := data, Status := sv\<rparr>, r5))"

definition readFetchResponse :: "Reader \<Rightarrow> FetchResponse \<times> Reader" where
  "readFetchResponse r =
     (let (s, r1) = ReadInt32 r; (m, r2) = ReadInt32 r1 in (\<lparr>FetchStatus = s, FetchMessages = m\<rparr>, r2))"

definition readSQLResponse :: "Reader \<Rightarrow> int32 \<times> Reader" where
  "readSQLResponse r = ReadInt32 r"

definition unexpected_opcode :: "int32 \<Rightarrow> gerr" where
  "unexpected_opcode op = Msg (''firebird: unexpected opcode '' @ formatInt (sint op)
     @ '', expected op_response ('' @ formatInt (sint opResponse) @ '')'')"

definition ReadResponse :: "Reader \<Rightarrow> (GenericResponse \<times> gerr option) \<times> Reader" where
  "ReadResponse r =
     (let (op, r1) = ReadOpcode r in
      if rerr r1 \<noteq> None then ((emptyResponse, rerr r1), r1)
      else if op = opResponse then
        let (resp, r2) = readGenericResponse r1 in
        if rerr r2 \<noteq> None then ((resp, rerr r2), r2)
        else if HasError (Status resp) then ((resp, Some (StatusErr (Status resp))), r2)
        else ((resp, None), r2)
      else ((emptyResponse, Some (unexpected_opcode op)), r1))"

section \<open>What a server encodes\<close>

datatype wire_entry = WireEntry (we_warning: bool) (we_code: int32) (we_params: "gparam list") (we_state: "string option")

fun enc_param :: "gparam \<Rightarrow> byte list" where
  "enc_param (PString s) = putUint32 IscArgString @ xdr_buffer (bytes_of_string s)"
| "enc_param (PInt32 n) = putUint32 IscArgNumber @ putUint32 n"

definition enc_sqlstate :: "string option \<Rightarrow> byte list" where
  "enc_sqlstate st = (case st of None \<Rightarrow> [] | Some s \<Rightarrow> putUint32 IscArgSQLState @ xdr_buffer (bytes_of_string s))"

definition enc_entry :: "wire_entry \<Rightarrow> byte list" where
  "enc_entry w = putUint32 (if we_warning w then IscArgWarning else IscArgGds) @ putUint32 (we_code w)
     @ concat (map enc_param (we_params w)) @ enc_sqlstate (we_state w)"

text \<open>A vector without errors opens with a zero code.\<close>

definition enc_status :: "wire_entry list \<Rightarrow> byte list" where
  "enc_status ws = (if list_all we_warning ws then putUint32 IscArgGds @ putUint32 0 else [])
     @ concat (map enc_entry ws) @ putUint32 IscArgEnd"

fun param_ok :: "gparam \<Rightarrow> bool" where
  "param_ok (PString s) = (length s \<le> maxWireBufferLen)"
| "param_ok (PInt32 n) = True"

definition entry_ok :: "wire_entry \<Rightarrow> bool" where
  "entry_ok w \<longleftrightarrow> we_code w \<noteq> 0 \<and> list_all param_ok (we_params w) \<and>
     (case we_state w of None \<Rightarrow> True | Some s \<Rightarrow> length s \<le> maxWireBufferLen)"

text \<open>What the driver should report for an entry: its code, its arguments in order, its SQLSTATE, and
  the non-empty texts joined.\<close>

fun join_texts :: "string \<Rightarrow> gparam list \<Rightarrow> string" where
  "join_texts m [] = m"
| "join_texts m (PString s # ps) = join_texts (if m = [] then s else m @ '': '' @ s) ps"
| "join_texts m (PInt32 n # ps) = join_texts m ps"

definition entry_value :: "wire_entry \<Rightarrow> GDSError" where
  "entry_value w = \<lparr>Code = we_code w, SQLState_field = (case we_state w of None \<Rightarrow> [] | Some s \<Rightarrow> s),
     Message = join_texts [] (we_params w), Params = we_params w\<rparr>"

definition status_value :: "wire_entry list \<Rightarrow> StatusVector" where
  "status_value ws = \<lparr>Errors = map entry_value (filter (\<lambda>w. \<not> we_warning w) ws),
     Warnings = map entry_value (filter we_warning ws)\<rparr>"

section \<open>Parsing it back\<close>

lemma reads_sv_arg: "reads m bs x \<Longrightarrow> reads (sv_arg m upd st) bs (upd x st)"
  using reads_guarded [OF _ reads_pure, of m bs x "\<lambda>r. (st, r)" "\<lambda>x. upd x st"]
  by (simp add: sv_arg_def [abs_def])

lemma reads_sv_loop_step:
  assumes "tag \<noteq> IscArgEnd" and "reads (sv_step tag st) bs st'" and "reads (sv_loop st') cs v"
  shows "reads (sv_loop st) (putUint32 tag @ bs @ cs) v"
  unfolding reads_def
proof (intro allI impI)
  fix r zs assume r: "wf_reader r" "rerr r = None" "stream r = (putUint32 tag @ bs @ cs) @ zs"
  then have "stream r = putUint32 tag @ (bs @ cs @ zs)" by simp
  with reads_ReadInt32 r(1,2) obtain r1 where r1: "ReadInt32 r = (tag, r1)" "wf_reader r1"
    "rerr r1 = None" "stream r1 = bs @ (cs @ zs)" "outside r1 = outside r" by (rule readsD)
  from assms(2) r1(2,3,4) obtain r2 where r2: "sv_step tag st r1 = (st', r2)" "wf_reader r2"
    "rerr r2 = None" "stream r2 = cs @ zs" "outside r2 = outside r1" by (rule readsD)
  from assms(3) r2(2,3,4) obtain r3 where "sv_loop st' r2 = (v, r3)" "wf_reader r3"
    "rerr r3 = None" "stream r3 = zs" "outside r3 = outside r2" by (rule readsD)
  with assms(1) r1 r2 show "\<exists>r'. sv_loop st r = (v, r') \<and> wf_reader r' \<and> rerr r' = None
    \<and> stream r' = zs \<and> outside r' = outside r" by (simp add: sv_loop.simps [of st r])
qed

lemma reads_sv_loop_end: "reads (sv_loop st) (putUint32 IscArgEnd) (svec st)"
  unfolding reads_def
proof (intro allI impI)
  fix r zs assume r: "wf_reader r" "rerr r = None" "stream r = putUint32 IscArgEnd @ zs"
  with reads_ReadInt32 obtain r1 where "ReadInt32 r = (IscArgEnd, r1)" "wf_reader r1"
    "rerr r1 = None" "stream r1 = zs" "outside r1 = outside r" by (rule readsD)
  then show "\<exists>r'. sv_loop st r = (svec st, r') \<and> wf_reader r' \<and> rerr r' = None
    \<and> stream r' = zs \<and> outside r' = outside r" by (simp add: sv_loop.simps [of st r])
qed

lemma reads_sv_gds: "reads (sv_step IscArgGds st) (putUint32 code) (sv_gds code st)"
  using reads_sv_arg [OF reads_ReadInt32] by (simp add: sv_step_def [abs_def])

lemma reads_sv_warning: "reads (sv_step IscArgWarning st) (putUint32 code) (sv_warning code st)"
  using reads_sv_arg [OF reads_ReadInt32] by (simp add: sv_step_def [abs_def])

lemma reads_sv_string:
  "length s \<le> maxWireBufferLen \<Longrightarrow>
     reads (sv_step IscArgString st) (xdr_buffer (bytes_of_string s)) (upd_current (add_text s) st)"
  using reads_sv_arg [OF reads_ReadString, of s "\<lambda>s. upd_current (add_text s)"]
  by (simp add: sv_step_def [abs_def])

lemma reads_sv_number:
  "reads (sv_step IscArgNumber st) (putUint32 n) (upd_current (add_number n) st)"
  using reads_sv_arg [OF reads_ReadInt32, of "\<lambda>n. upd_current (add_number n)"]
  by (simp add: sv_step_def [abs_def])

lemma reads_sv_sqlstate:
  "length s \<le> maxWireBufferLen \<Longrightarrow>
     reads (sv_step IscArgSQLState st) (xdr_buffer (bytes_of_string s)) (sv_sqlstate s st)"
  using reads_sv_arg [OF reads_ReadString, of s sv_sqlstate] by (simp add: sv_step_def [abs_def])

fun add_param :: "gparam \<Rightarrow> GDSError \<Rightarrow> GDSError" where
  "add_param (PString s) = add_text s"
| "add_param (PInt32 n) = add_number n"

lemma reads_params:
  assumes "list_all param_ok ps" and "reads (sv_loop (fold (\<lambda>p. upd_current (add_param p)) ps st)) cs v"
  shows "reads (sv_loop st) (concat (map enc_param ps) @ cs) v"
  using assms
proof (induction ps arbitrary: st)
  case (Cons p ps)
  then have IH: "reads (sv_loop (upd_current (add_param p) st)) (concat (map enc_param ps) @ cs) v" by simp
  show ?case
  proof (cases p)
    case (PString s)
    with reads_sv_loop_step [OF _ reads_sv_string IH [unfolded PString add_param.simps]] Cons.prems
    show ?thesis by simp
  next
    case (PInt32 n)
    with reads_sv_loop_step [OF _ reads_sv_number IH [unfolded PInt32 add_param.simps]]
    show ?thesis by simp
  qed
qed simp

lemma upd_last_snoc [simp]: "upd_last f (xs @ [x]) = xs @ [f x]"
  by (simp add: upd_last_def)

lemma fold_params_value:
  "fold add_param ps e = e\<lparr>Message := join_texts (Message e) ps, Params := Params e @ ps\<rparr>"
proof (induction ps arbitrary: e)
  case (Cons p ps)
  show ?case by (cases p) (simp_all add: Cons.IH add_text_def add_number_def)
qed simp

lemma fold_upd_current:
  "fold (\<lambda>p. upd_current (add_param p)) ps \<lparr>svec = \<lparr>Errors = es @ [e], Warnings = ws\<rparr>, scur = CurErr, sWarning = b\<rparr>
    = \<lparr>svec = \<lparr>Errors = es @ [fold add_param ps e], Warnings = ws\<rparr>, scur = CurErr, sWarning = b\<rparr>"
  by (induction ps arbitrary: e) (simp_all add: upd_current_def)

lemma fold_upd_current_warn:
  "fold (\<lambda>p. upd_current (add_param p)) ps \<lparr>svec = \<lparr>Errors = es, Warnings = ws @ [e]\<rparr>, scur = CurWarn, sWarning = b\<rparr>
    = \<lparr>svec = \<lparr>Errors = es, Warnings = ws @ [fold add_param ps e]\<rparr>, scur = CurWarn, sWarning = b\<rparr>"
  by (induction ps arbitrary: e) (simp_all add: upd_current_def)

text \<open>One entry appends its value to the list it belongs to, whatever the state before it.\<close>

lemma reads_entry:
  assumes "entry_ok w"
    and rest: "\<And>c b. reads (sv_loop \<lparr>svec = \<lparr>Errors = es @ (if we_warning w then [] else [entry_value w]),
        Warnings = ws @ (if we_warning w then [entry_value w] else [])\<rparr>, scur = c, sWarning = b\<rparr>) cs v"
  shows "reads (sv_loop \<lparr>svec = \<lparr>Errors = es, Warnings = ws\<rparr>, scur = c0, sWarning = b0\<rparr>) (enc_entry w @ cs) v"
proof -
  let ?e = "newGDSError (we_code w)"
  let ?p = "fold add_param (we_params w) ?e"
  let ?st0 = "\<lparr>svec = \<lparr>Errors = es, Warnings = ws\<rparr>, scur = c0, sWarning = b0\<rparr>"
  define st1 where "st1 = (if we_warning w
    then \<lparr>svec = \<lparr>Errors = es, Warnings = ws @ [?e]\<rparr>, scur = CurWarn, sWarning = True\<rparr>
    else \<lparr>svec = \<lparr>Errors = es @ [?e], Warnings = ws\<rparr>, scur = CurErr, sWarning = False\<rparr>)"
  define st2 where "st2 = (if we_warning w
    then \<lparr>svec = \<lparr>Errors = es, Warnings = ws @ [?p]\<rparr>, scur = CurWarn, sWarning = True\<rparr>
    else \<lparr>svec = \<lparr>Errors = es @ [?p], Warnings = ws\<rparr>, scur = CurErr, sWarning = False\<rparr>)"
  have p: "?p\<lparr>SQLState_field := (case we_state w of None \<Rightarrow> [] | Some s \<Rightarrow> s)\<rparr> = entry_value w"
    and p0: "we_state w = None \<Longrightarrow> ?p = entry_value w"
    by (simp_all add: fold_params_value newGDSError_def entry_value_def)
  have code: "we_code w \<noteq> 0" and params: "list_all param_ok (we_params w)" using assms(1) by (simp_all add: entry_ok_def)
  have hd: "reads (sv_step (if we_warning w then IscArgWarning else IscArgGds) ?st0) (putUint32 (we_code w)) st1"
    using reads_sv_warning [of ?st0 "we_code w"] reads_sv_gds [of ?st0 "we_code w"] code
    by (simp add: st1_def sv_gds_def sv_warning_def Let_def)
  have ps: "fold (\<lambda>p. upd_current (add_param p)) (we_params w) st1 = st2"
    by (simp add: st1_def st2_def fold_upd_current fold_upd_current_warn)
  have tl: "reads (sv_loop st2) (enc_sqlstate (we_state w) @ cs) v"
  proof (cases "we_state w")
    case None
    then show ?thesis using rest [of "scur st2" "sWarning st2"] p0 by (simp add: st2_def enc_sqlstate_def split: if_splits)
  next
    case (Some s)
    then have "length s \<le> maxWireBufferLen" using assms(1) by (simp add: entry_ok_def)
    from reads_sv_loop_step [OF _ reads_sv_sqlstate [OF this], of st2 cs v]
      rest [of "scur st2" "sWarning st2"] p Some show ?thesis
      by (simp add: st2_def enc_sqlstate_def sv_sqlstate_def split: if_splits)
  qed
  from reads_sv_loop_step [OF _ hd reads_params [OF params tl [folded ps]]]
  show ?thesis by (simp add: enc_entry_def)
qed

lemma reads_entries:
  assumes "list_all entry_ok entries"
  shows "reads (sv_loop \<lparr>svec = \<lparr>Errors = es, Warnings = ws\<rparr>, scur = c, sWarning = b\<rparr>)
    (concat (map enc_entry entries) @ putUint32 IscArgEnd)
    \<lparr>Errors = es @ map entry_value (filter (\<lambda>w. \<not> we_warning w) entries),
     Warnings = ws @ map entry_value (filter we_warning entries)\<rparr>"
  using assms
proof (induction entries arbitrary: es ws c b)
  case Nil
  show ?case using reads_sv_loop_end [of "\<lparr>svec = \<lparr>Errors = es, Warnings = ws\<rparr>, scur = c, sWarning = b\<rparr>"] by simp
next
  case (Cons w entries)
  let ?v = "\<lparr>Errors = es @ map entry_value (filter (\<lambda>w. \<not> we_warning w) (w # entries)),
     Warnings = ws @ map entry_value (filter we_warning (w # entries))\<rparr>"
  have ok: "entry_ok w" "list_all entry_ok entries" using Cons.prems by simp_all
  have "reads (sv_loop \<lparr>svec = \<lparr>Errors = es @ (if we_warning w then [] else [entry_value w]),
      Warnings = ws @ (if we_warning w then [entry_value w] else [])\<rparr>, scur = c', sWarning = b'\<rparr>)
    (concat (map enc_entry entries) @ putUint32 IscArgEnd) ?v" for c' b'
    using Cons.IH [OF ok(2), of "es @ (if we_warning w then [] else [entry_value w])"
        "ws @ (if we_warning w then [entry_value w] else [])" c' b'] by (simp split: if_splits)
  from reads_entry [OF ok(1) this] show ?case by simp
qed

lemma reads_readStatusVectorSlow:
  assumes "list_all entry_ok ws"
  shows "reads readStatusVectorSlow (enc_status ws) (status_value ws)"
proof -
  have es: "reads (sv_loop \<lparr>svec = \<lparr>Errors = [], Warnings = []\<rparr>, scur = CurNone, sWarning = False\<rparr>)
      (concat (map enc_entry ws) @ putUint32 IscArgEnd) (status_value ws)"
    using reads_entries [OF assms, of "[]" "[]" CurNone False] by (simp add: status_value_def)
  let ?st0 = "\<lparr>svec = \<lparr>Errors = [], Warnings = []\<rparr>, scur = CurNone, sWarning = False\<rparr>"
  have z: "reads (sv_step IscArgGds ?st0) (putUint32 0) ?st0"
    using reads_sv_gds [of ?st0 0] by (simp add: sv_gds_def)
  have zs: "reads (sv_loop ?st0) (putUint32 IscArgGds @ putUint32 0 @ concat (map enc_entry ws) @ putUint32 IscArgEnd)
      (status_value ws)"
    by (rule reads_sv_loop_step [OF _ z es]) simp
  from es zs
  show ?thesis
    by (simp add: readStatusVectorSlow_def [abs_def] sv_start_def emptyStatusVector_def enc_status_def)
qed

text \<open>With at least the twelve bytes of the fast path on the stream, the fast path changes nothing:
  \<^verbatim>\<open>readStatusVector\<close> parses what \<^verbatim>\<open>readStatusVectorSlow\<close> parses.\<close>

lemma length_success_pattern [simp]: "length success_pattern = 12"
  by (simp add: success_pattern_def)

lemma success_pattern_eq: "success_pattern = putUint32 IscArgGds @ putUint32 0 @ putUint32 IscArgEnd"
  by (simp add: success_pattern_def putUint32_def)

lemma reads_slow_success: "reads readStatusVectorSlow success_pattern emptyStatusVector"
  using reads_readStatusVectorSlow [of "[]"]
  by (simp add: enc_status_def success_pattern_eq status_value_def emptyStatusVector_def)

lemma uniform_sv_arg: "uniform m \<Longrightarrow> uniform (sv_arg m upd st)"
  unfolding sv_arg_def [abs_def] by (intro uniform_guarded uniform_pure)

lemma uniform_sv_step: "uniform (sv_step tag st)"
  unfolding sv_step_def [abs_def] by (intro uniform_if uniform_sv_arg uniform_ReadInt32 uniform_ReadString)

lemma uniform_sv_loop: "uniform (sv_loop st)"
proof (rule uniformI)
  show "\<exists>v r' s'. sv_loop st r = (v, r') \<and> sv_loop st s = (v, s') \<and> obs_eq r' s'" if "obs_eq r s" for r s
    using that
  proof (induction st r arbitrary: s rule: sv_loop.induct)
    case (1 st r)
    from uniform_ReadInt32 "1.prems" obtain tag r1 s1 where
      m: "ReadInt32 r = (tag, r1)" "ReadInt32 s = (tag, s1)" "obs_eq r1 s1" by (rule uniformD)
    note e = obs_eq_rerr [OF m(3)]
    show ?case
    proof (cases "rerr r1 \<noteq> None \<or> tag = IscArgEnd")
      case True
      with m e show ?thesis by (simp add: sv_loop.simps [of st r] sv_loop.simps [of st s])
    next
      case False
      from uniform_sv_step m(3) obtain st' r2 s2 where
        st: "sv_step tag st r1 = (st', r2)" "sv_step tag st s1 = (st', s2)" "obs_eq r2 s2" by (rule uniformD)
      note e2 = obs_eq_rerr [OF st(3)]
      show ?thesis
      proof (cases "rerr r2 = None")
        case True
        then have nn: "\<not> rerr r2 \<noteq> None" by simp
        with "1.IH" [OF m(1) [symmetric] refl False st(1) [symmetric] refl nn st(3)] m e False st e2 show ?thesis
          by (simp add: sv_loop.simps [of st r] sv_loop.simps [of st s])
      next
        case err: False
        with m e False st e2 show ?thesis by (simp add: sv_loop.simps [of st r] sv_loop.simps [of st s])
      qed
    qed
  qed
qed

lemma uniform_readStatusVectorSlow: "uniform readStatusVectorSlow"
  using uniform_sv_loop by (simp add: readStatusVectorSlow_def [abs_def])

lemma advance_ok:
  assumes "wf_reader r" and "n \<le> length (window r)"
  shows "wf_reader (advance n r)" and "stream (advance n r) = drop n (stream r)"
    and "rerr (advance n r) = rerr r" and "outside (advance n r) = outside r"
  using stream_advance [OF assms] by (simp_all add: advance_def outside_def)

text \<open>The fast path: after a peek that delivered twelve bytes both parsers agree.\<close>

lemma readStatusVector_fast:
  assumes "wf_reader r" and "rerr r = None" and "12 \<le> length (stream r)"
  shows "\<exists>v r' s'. readStatusVector r = (v, r') \<and> readStatusVectorSlow r = (v, s') \<and> obs_eq r' s'"
proof -
  obtain r1 where r1: "peekBytes 12 r = (take 12 (stream r), r1)" "wf_reader r1" "rerr r1 = None"
    "stream r1 = stream r" "outside r1 = outside r" "12 \<le> length (window r1)"
    by (rule peekBytes_ok [OF assms])
  then have eq: "obs_eq r1 r" using assms by (simp add: obs_eq_def outside_def)
  from uniform_readStatusVectorSlow eq obtain v r' s' where
    u: "readStatusVectorSlow r1 = (v, r')" "readStatusVectorSlow r = (v, s')" "obs_eq r' s'" by (rule uniformD)
  show ?thesis
  proof (cases "take 12 (stream r) = success_pattern")
    case False
    with r1 u show ?thesis by (simp add: readStatusVector_def)
  next
    case True
    then have st: "stream r = success_pattern @ drop 12 (stream r)" by (metis append_take_drop_id)
    from reads_slow_success assms(1,2) st obtain t where
      t: "readStatusVectorSlow r = (emptyStatusVector, t)" "wf_reader t" "rerr t = None"
        "stream t = drop 12 (stream r)" "outside t = outside r" by (rule readsD)
    have "readStatusVector r = (emptyStatusVector, advance 12 r1)"
      using True r1 by (simp add: readStatusVector_def)
    moreover have "obs_eq (advance 12 r1) t"
      using advance_ok [OF r1(2,6)] r1 t by (simp add: obs_eq_def outside_def)
    ultimately show ?thesis using t by auto
  qed
qed

lemma length_enc_entry: "8 \<le> length (enc_entry w)"
  by (simp add: enc_entry_def)

lemma length_enc_status: "12 \<le> length (enc_status ws)"
proof (cases "list_all we_warning ws")
  case False
  then obtain w vs where "ws = w # vs" by (cases ws) auto
  then show ?thesis using length_enc_entry [of w] False by (simp add: enc_status_def)
qed (simp add: enc_status_def)

lemma reads_readStatusVector:
  assumes "list_all entry_ok ws"
  shows "reads readStatusVector (enc_status ws) (status_value ws)"
  unfolding reads_def
proof (intro allI impI)
  fix r zs assume r: "wf_reader r" "rerr r = None" "stream r = enc_status ws @ zs"
  then have len: "12 \<le> length (stream r)" using length_enc_status [of ws] by simp
  obtain r1 where r1: "peekBytes 12 r = (take 12 (stream r), r1)" "wf_reader r1" "rerr r1 = None"
    "stream r1 = stream r" "outside r1 = outside r" "12 \<le> length (window r1)"
    by (rule peekBytes_ok [OF r(1,2) len])
  from reads_readStatusVectorSlow [OF assms] r obtain s where
    s: "readStatusVectorSlow r = (status_value ws, s)" "wf_reader s" "rerr s = None" "stream s = zs"
    "outside s = outside r" by (rule readsD)
  from readStatusVector_fast [OF r(1,2) len] s(1) obtain r' where
    r': "readStatusVector r = (status_value ws, r')" "obs_eq r' s" by auto
  have "outside r' = outside r"
  proof (cases "take 12 (stream r) = success_pattern")
    case True
    then have "r' = advance 12 r1" using r'(1) r1(1) by (simp add: readStatusVector_def)
    then show ?thesis using advance_ok [OF r1(2,6)] r1(5) by simp
  next
    case False
    then have "readStatusVectorSlow r1 = (status_value ws, r')" using r'(1) r1(1) by (simp add: readStatusVector_def)
    with reads_readStatusVectorSlow [OF assms] r1(2,3,4,5) r(3) show ?thesis by (metis readsD Pair_inject)
  qed
  with r' s show "\<exists>r'. readStatusVector r = (status_value ws, r') \<and> wf_reader r' \<and> rerr r' = None
    \<and> stream r' = zs \<and> outside r' = outside r" by (auto simp: obs_eq_def)
qed

text \<open>The twelve-byte peek is a requirement: a complete vector of fewer bytes at the end of the stream,
  which the slow parser reads, fails.\<close>

lemma readStatusVector_short:
  assumes "wf_reader r" and "rerr r = None" and "length (stream r) < 12"
  shows "\<exists>r'. readStatusVector r = (emptyStatusVector, r') \<and> rerr r' = Some (net_failure (rd r))"
proof -
  obtain r1 where r1: "peekBytes 12 r = ([], r1)" "wf_reader r1" "rerr r1 = Some (net_failure (rd r))"
    by (rule peekBytes_fail [OF assms])
  have "ReadInt32 r1 = (0, r1)" using r1(3) by (simp add: ReadInt32_def readView_sticky)
  then have "readStatusVectorSlow r1 = (emptyStatusVector, r1)"
    using r1(3) by (simp add: readStatusVectorSlow_def sv_loop.simps [of sv_start r1]) (simp add: sv_start_def)
  then show ?thesis using r1 by (simp add: readStatusVector_def success_pattern_def)
qed

section \<open>Segmentation independence and safety of the responses\<close>

lemma uniform_readStatusVector: "uniform readStatusVector"
proof (rule uniformI)
  fix r s assume rs: "obs_eq r s"
  from uniform_peekBytes rs obtain pk r1 s1 where
    pk: "peekBytes 12 r = (pk, r1)" "peekBytes 12 s = (pk, s1)" "obs_eq r1 s1" by (rule uniformD)
  show "\<exists>v r' s'. readStatusVector r = (v, r') \<and> readStatusVector s = (v, s') \<and> obs_eq r' s'"
  proof (cases "pk = success_pattern")
    case False
    from uniform_readStatusVectorSlow pk(3) obtain v r' s' where
      "readStatusVectorSlow r1 = (v, r')" "readStatusVectorSlow s1 = (v, s')" "obs_eq r' s'" by (rule uniformD)
    with False pk show ?thesis by (simp add: readStatusVector_def)
  next
    case True
    have wf: "wf_reader r" "wf_reader s" and e: "rerr r = rerr s" using rs by (simp_all add: obs_eq_def)
    have ne: "pk \<noteq> []" using True by (auto simp: success_pattern_def)
    have none: "rerr r = None"
    proof (rule ccontr)
      assume "rerr r \<noteq> None"
      then have "peekBytes 12 r = ([], r)" by (simp add: peekBytes_def)
      with pk(1) ne show False by simp
    qed
    with e have none_s: "rerr s = None" by simp
    have "12 \<le> length (stream r)"
    proof (rule ccontr)
      assume "\<not> 12 \<le> length (stream r)"
      then have "length (stream r) < 12" by simp
      from peekBytes_fail [OF wf(1) none this] pk(1) ne show False by (metis Pair_inject)
    qed
    moreover from this have "12 \<le> length (stream s)" using rs none by (simp add: obs_eq_def)
    ultimately have "12 \<le> length (window r1)" "12 \<le> length (window s1)"
      using peekBytes_ok [OF wf(1) none] peekBytes_ok [OF wf(2) none_s] pk(1,2) by (metis Pair_inject)+
    then have "obs_eq (advance 12 r1) (advance 12 s1)"
      using pk(3) advance_ok [of r1 12] advance_ok [of s1 12] by (simp add: obs_eq_def outside_def)
    with True pk show ?thesis by (simp add: readStatusVector_def)
  qed
qed

lemma uniform_pre: "uniform m \<Longrightarrow> (\<And>r s. obs_eq r s \<Longrightarrow> obs_eq (f r) (f s)) \<Longrightarrow> uniform (\<lambda>r. m (f r))"
  unfolding uniform_def by blast

lemma obs_eq_auxBuf: "obs_eq r s \<Longrightarrow> obs_eq (r\<lparr>auxBuf := d\<rparr>) (s\<lparr>auxBuf := d\<rparr>)"
  by (simp add: obs_eq_def wf_reader_def stream_def window_def)

lemma uniform_readGenericResponse: "uniform readGenericResponse"
  unfolding readGenericResponse_def [abs_def] Let_def
  by (intro uniform_bind uniform_ReadInt32 uniform_ReadInt64 uniform_ReadBuffer uniform_err_if uniform_pure
      uniform_bind [OF uniform_pre [OF uniform_readStatusVector]])
    (simp add: obs_eq_auxBuf)

lemma uniform_ret_err: "uniform (\<lambda>r. ((v, rerr r), r))"
  by (simp add: uniform_def obs_eq_rerr)

lemma uniform_ReadResponse: "uniform ReadResponse"
  unfolding ReadResponse_def [abs_def] Let_def
  by (intro uniform_bind uniform_ReadOpcode uniform_err_if uniform_ret_err uniform_if uniform_pure
      uniform_readGenericResponse)

lemma sane_sv_arg: "sane m \<Longrightarrow> sane (sv_arg m upd st)"
  unfolding sv_arg_def [abs_def] by (intro sane_guarded sane_pure sane_sane0)

lemma sane_sv_step: "sane (sv_step tag st)"
  unfolding sv_step_def [abs_def] by (intro sane_if sane_sv_arg sane_reads)

lemma sane_sv_loop: "sane (sv_loop st)"
  unfolding sane_def
proof (intro allI)
  fix r v r'
  show "wf_reader r \<longrightarrow> sv_loop st r = (v, r') \<longrightarrow>
    wf_reader r' \<and> same_out r r' \<and> (rerr r \<noteq> None \<longrightarrow> rerr r' = rerr r)"
  proof (induction st r arbitrary: v r' rule: sv_loop.induct)
    case (1 st r)
    obtain tag r1 where m: "ReadInt32 r = (tag, r1)" by (cases "ReadInt32 r")
    obtain st' r2 where m2: "sv_step tag st r1 = (st', r2)" by (cases "sv_step tag st r1")
    show ?case
    proof (intro impI)
      assume wf: "wf_reader r" and run: "sv_loop st r = (v, r')"
      note m1 = saneD [OF sane_ReadInt32 wf m]
      note s1 = saneD [OF sane_sv_step m1(1) m2]
      show "wf_reader r' \<and> same_out r r' \<and> (rerr r \<noteq> None \<longrightarrow> rerr r' = rerr r)"
      proof (cases "rerr r1 \<noteq> None \<or> tag = IscArgEnd \<or> rerr r2 \<noteq> None")
        case True
        then have "r' = r1 \<or> r' = r2" using run m m2 by (auto simp: sv_loop.simps [of st r] split: if_splits)
        with m1 s1 same_out_trans [OF m1(2) s1(2)] show ?thesis by auto
      next
        case False
        then have "sv_loop st' r2 = (v, r')" using run m m2 by (simp add: sv_loop.simps [of st r])
        with "1.IH" [OF m [symmetric] refl _ m2 [symmetric] refl] False s1(1)
        have "wf_reader r'" "same_out r2 r'" by auto
        with m1 s1 False same_out_trans [OF same_out_trans [OF m1(2) s1(2)]] show ?thesis by auto
      qed
    qed
  qed
qed

lemma sane_readStatusVectorSlow: "sane readStatusVectorSlow"
  using sane_sv_loop by (simp add: readStatusVectorSlow_def [abs_def])

lemma sane_readStatusVector: "sane readStatusVector"
  unfolding sane_def
proof (intro allI impI)
  fix r v r' assume wf: "wf_reader r" and run: "readStatusVector r = (v, r')"
  obtain b r1 where e: "ensure 12 r = (b, r1)" by (cases "ensure 12 r")
  have r1: "wf_reader r1 \<and> same_out r r1 \<and> (rerr r \<noteq> None \<longrightarrow> r1 = r) \<and> (b \<longrightarrow> 12 \<le> length (window r1) \<and> rerr r = None)"
  proof (cases "rerr r = None")
    case False
    with e wf show ?thesis by auto
  next
    case True
    with ensure_ok [OF wf True, of 12] ensure_fail [OF wf True, of 12] e show ?thesis
      by (cases "12 \<le> length (stream r)") auto
  qed
  show "wf_reader r' \<and> same_out r r' \<and> (rerr r \<noteq> None \<longrightarrow> rerr r' = rerr r)"
  proof (cases "fst (peekBytes 12 r) = success_pattern")
    case True
    then have b: b and "r' = advance 12 r1"
      using run e by (auto simp: readStatusVector_def peekBytes_def success_pattern_def split: if_splits bool.splits)
    with r1 advance_ok [of r1 12] show ?thesis by (auto simp: same_out_def advance_def)
  next
    case False
    then have "readStatusVectorSlow r1 = (v, r')"
      using run e by (auto simp: readStatusVector_def peekBytes_def split: if_splits bool.splits)
    from saneD [OF sane_readStatusVectorSlow _ this] r1 same_out_trans show ?thesis by blast
  qed
qed

lemma sane_pre:
  assumes "sane m" and "\<And>r. wf_reader r \<Longrightarrow> wf_reader (f r) \<and> same_out r (f r) \<and> rerr (f r) = rerr r"
  shows "sane (\<lambda>r. m (f r))"
  unfolding sane_def
proof (intro allI impI)
  fix r v r' assume wf: "wf_reader r" and run: "m (f r) = (v, r')"
  note f = assms(2) [OF wf]
  note m = saneD [OF assms(1) _ run]
  show "wf_reader r' \<and> same_out r r' \<and> (rerr r \<noteq> None \<longrightarrow> rerr r' = rerr r)"
    using f m by (metis same_out_trans)
qed

lemma sane_readGenericResponse: "sane readGenericResponse"
  unfolding readGenericResponse_def [abs_def] Let_def
  by (intro sane_bind sane_reads sane_if sane_bind [OF sane_pre [OF sane_readStatusVector]])
    (simp add: wf_reader_def same_out_def)

lemma sane_ret_err: "sane (\<lambda>r. ((v, rerr r), r))"
  by (simp add: sane_def)

lemma sane_ReadResponse: "sane ReadResponse"
  unfolding ReadResponse_def [abs_def] Let_def
  by (intro sane_bind sane_reads sane_if sane_ret_err sane_readGenericResponse)

section \<open>Response messages on a stream\<close>

definition enc_response :: "int32 \<Rightarrow> int64 \<Rightarrow> byte list \<Rightarrow> wire_entry list \<Rightarrow> byte list" where
  "enc_response h b d ws = putUint32 opResponse @ putUint32 h @ putUint64 b @ xdr_buffer d @ enc_status ws"

definition response_value :: "int32 \<Rightarrow> int64 \<Rightarrow> byte list \<Rightarrow> wire_entry list \<Rightarrow> GenericResponse" where
  "response_value h b d ws = \<lparr>Handle = h, BlobID = b, Data = d, Status = status_value ws\<rparr>"

lemma reads_pre:
  assumes "reads m bs v"
    and "\<And>r. wf_reader r \<Longrightarrow> rerr r = None \<Longrightarrow> wf_reader (f r) \<and> stream (f r) = stream r \<and> outside (f r) = outside r \<and> rerr (f r) = None"
  shows "reads (\<lambda>r. m (f r)) bs v"
  using assms unfolding reads_def by metis

lemma reads_err_if: "reads g bs v \<Longrightarrow> reads (\<lambda>r. if rerr r \<noteq> None then f r else g r) bs v"
  by (erule reads_cong) simp

lemma reads_readGenericResponse:
  assumes "length d \<le> maxWireBufferLen" and "list_all entry_ok ws"
  shows "reads readGenericResponse (putUint32 h @ putUint64 b @ xdr_buffer d @ enc_status ws) (response_value h b d ws)"
proof -
  have sv: "reads (\<lambda>r. readStatusVector (if d \<noteq> [] then r\<lparr>auxBuf := d\<rparr> else r)) (enc_status ws) (status_value ws)"
    by (rule reads_pre [OF reads_readStatusVector [OF assms(2)]])
      (simp add: wf_reader_def stream_def window_def outside_def)
  from reads_bind [OF this reads_pure, of "\<lambda>sv. emptyResponse\<lparr>Handle := h, BlobID := b, Data := d, Status := sv\<rparr>"]
  have tl: "reads (\<lambda>r. case readStatusVector (if d \<noteq> [] then r\<lparr>auxBuf := d\<rparr> else r) of (sv, r5) \<Rightarrow>
        (emptyResponse\<lparr>Handle := h, BlobID := b, Data := d, Status := sv\<rparr>, r5))
      (enc_status ws) (response_value h b d ws)"
    by (simp only: append_Nil2) (simp add: response_value_def emptyResponse_def)
  show ?thesis
    unfolding readGenericResponse_def [abs_def] Let_def
    by (rule reads_bind [OF reads_ReadInt32], rule reads_bind [OF reads_ReadInt64],
        rule reads_bind [OF reads_ReadBuffer_xdr [OF assms(1)]], rule reads_err_if, rule tl)
qed

text \<open>The result of a response: an error exactly when the server reported one.\<close>

definition response_error :: "wire_entry list \<Rightarrow> gerr option" where
  "response_error ws = (if list_all we_warning ws then None else Some (StatusErr (status_value ws)))"

lemma HasError_status_value: "list_all entry_ok ws \<Longrightarrow> HasError (status_value ws) \<longleftrightarrow> \<not> list_all we_warning ws"
  by (induction ws) (auto simp: HasError_def status_value_def entry_value_def entry_ok_def split: list.splits)

lemma reads_ReadResponse:
  assumes "length d \<le> maxWireBufferLen" and "list_all entry_ok ws"
  shows "reads ReadResponse (enc_response h b d ws) (response_value h b d ws, response_error ws)"
proof -
  have st: "HasError (Status (response_value h b d ws)) \<longleftrightarrow> \<not> list_all we_warning ws"
    using HasError_status_value [OF assms(2)] by (simp add: response_value_def)
  have tl: "reads (\<lambda>r. if HasError (Status (response_value h b d ws))
      then ((response_value h b d ws, Some (StatusErr (Status (response_value h b d ws)))), r)
      else ((response_value h b d ws, None), r)) [] (response_value h b d ws, response_error ws)"
    using reads_pure st by (auto simp: response_error_def response_value_def)
  have "reads (\<lambda>r. case readGenericResponse r of (resp, r2) \<Rightarrow>
       if rerr r2 \<noteq> None then ((resp, rerr r2), r2)
       else if HasError (Status resp) then ((resp, Some (StatusErr (Status resp))), r2)
       else ((resp, None), r2))
     ((putUint32 h @ putUint64 b @ xdr_buffer d @ enc_status ws) @ []) (response_value h b d ws, response_error ws)"
    by (rule reads_bind [OF reads_readGenericResponse [OF assms]], rule reads_err_if, rule tl)
  then have k: "reads (\<lambda>r. if opResponse = opResponse then case readGenericResponse r of (resp, r2) \<Rightarrow>
       if rerr r2 \<noteq> None then ((resp, rerr r2), r2)
       else if HasError (Status resp) then ((resp, Some (StatusErr (Status resp))), r2)
       else ((resp, None), r2) else ((emptyResponse, Some (unexpected_opcode opResponse)), r))
     (putUint32 h @ putUint64 b @ xdr_buffer d @ enc_status ws) (response_value h b d ws, response_error ws)"
    by simp
  have op: "reads ReadOpcode (putUint32 opResponse) opResponse" by (rule reads_ReadOpcode_plain) simp
  show ?thesis
    unfolding ReadResponse_def [abs_def] Let_def enc_response_def
    by (rule reads_bind [OF op], rule reads_err_if, rule k)
qed

lemma reads_readFetchResponse:
  "reads readFetchResponse (putUint32 s @ putUint32 m) \<lparr>FetchStatus = s, FetchMessages = m\<rparr>"
  using reads_bind [where k = "\<lambda>s r. case ReadInt32 r of (m, r2) \<Rightarrow> (\<lparr>FetchStatus = s, FetchMessages = m\<rparr>, r2)",
      OF reads_ReadInt32 [of s] reads_bind [OF reads_ReadInt32 [of m] reads_pure,
        of "\<lambda>m. \<lparr>FetchStatus = s, FetchMessages = m\<rparr>"]]
  by (simp add: readFetchResponse_def [abs_def] Let_def)

end
