(* ===== verification/Params.thy ===== *)
theory Params
  imports Protocol Strconv
begin

text \<open>
  Parameter buffers: the database parameter buffer builder of \<^verbatim>\<open>internal/wire/dpb.go\<close> (version 2,
  tags with 32-bit lengths) and the transaction parameter buffer builder of \<^verbatim>\<open>internal/wire/tpb.go\<close>.
\<close>

section \<open>DPB\<close>

abbreviation (input) IscDpbUserName :: byte where "IscDpbUserName \<equiv> 28"
abbreviation (input) IscDpbPassword :: byte where "IscDpbPassword \<equiv> 29"
abbreviation (input) IscDpbLcCtype :: byte where "IscDpbLcCtype \<equiv> 48"
abbreviation (input) IscDpbSQLDialect :: byte where "IscDpbSQLDialect \<equiv> 63"
abbreviation (input) IscDpbUtf8Filename :: byte where "IscDpbUtf8Filename \<equiv> 77"
abbreviation (input) IscDpbAuthBlock :: byte where "IscDpbAuthBlock \<equiv> 79"
abbreviation (input) IscDpbClientVersion :: byte where "IscDpbClientVersion \<equiv> 80"
abbreviation (input) IscDpbRemoteProtocol :: byte where "IscDpbRemoteProtocol \<equiv> 81"
abbreviation (input) IscDpbHostName :: byte where "IscDpbHostName \<equiv> 82"
abbreviation (input) IscDpbOsUser :: byte where "IscDpbOsUser \<equiv> 83"
abbreviation (input) IscDpbSpecificAuthData :: byte where "IscDpbSpecificAuthData \<equiv> 84"
abbreviation (input) IscDpbAuthPluginList :: byte where "IscDpbAuthPluginList \<equiv> 85"
abbreviation (input) IscDpbAuthPluginName :: byte where "IscDpbAuthPluginName \<equiv> 86"
abbreviation (input) IscDpbConfig :: byte where "IscDpbConfig \<equiv> 87"
abbreviation (input) IscDpbProcessID :: byte where "IscDpbProcessID \<equiv> 89"
abbreviation (input) IscDpbProcessName :: byte where "IscDpbProcessName \<equiv> 90"
abbreviation (input) IscDpbSessionTimeZone :: byte where "IscDpbSessionTimeZone \<equiv> 91"
abbreviation (input) IscDpbSetBind :: byte where "IscDpbSetBind \<equiv> 93"

record DPBBuilder = dpb_buf :: "byte list"

definition NewDPBBuilder :: DPBBuilder where
  "NewDPBBuilder = \<lparr>dpb_buf = [] @ [IscDpbVersion2]\<rparr>"

text \<open>\<^verbatim>\<open>Reset\<close> reslices to one byte; the buffer of a builder always has its version byte.\<close>

definition DPB_Reset :: "DPBBuilder \<Rightarrow> DPBBuilder" where
  "DPB_Reset b = b\<lparr>dpb_buf := (take 1 (dpb_buf b))[0 := IscDpbVersion2]\<rparr>"

definition dpb_len :: "nat \<Rightarrow> byte list" where
  "dpb_len n = [of_nat n, of_nat (n div 2 ^ 8), of_nat (n div 2 ^ 16), of_nat (n div 2 ^ 24)]"

definition DPB_WriteString :: "byte \<Rightarrow> string \<Rightarrow> DPBBuilder \<Rightarrow> DPBBuilder" where
  "DPB_WriteString tag v b = b\<lparr>dpb_buf := (dpb_buf b @ tag # dpb_len (length v)) @ bytes_of_string v\<rparr>"

definition DPB_WriteMarker :: "byte \<Rightarrow> DPBBuilder \<Rightarrow> DPBBuilder" where
  "DPB_WriteMarker tag b = b\<lparr>dpb_buf := dpb_buf b @ [tag, 0, 0, 0, 0]\<rparr>"

definition DPB_WriteByteTag :: "byte \<Rightarrow> byte \<Rightarrow> DPBBuilder \<Rightarrow> DPBBuilder" where
  "DPB_WriteByteTag tag v b = b\<lparr>dpb_buf := dpb_buf b @ [tag, 1, 0, 0, 0, v]\<rparr>"

definition DPB_WriteBytes :: "byte \<Rightarrow> byte list \<Rightarrow> DPBBuilder \<Rightarrow> DPBBuilder" where
  "DPB_WriteBytes tag v b = b\<lparr>dpb_buf := (dpb_buf b @ tag # dpb_len (length v)) @ v\<rparr>"

definition DPB_Bytes :: "DPBBuilder \<Rightarrow> byte list" where "DPB_Bytes b = dpb_buf b"

section \<open>TPB\<close>

abbreviation (input) IscTpbConsistency :: byte where "IscTpbConsistency \<equiv> 1"
abbreviation (input) IscTpbConcurrency :: byte where "IscTpbConcurrency \<equiv> 2"
abbreviation (input) IscTpbWait :: byte where "IscTpbWait \<equiv> 6"
abbreviation (input) IscTpbNowait :: byte where "IscTpbNowait \<equiv> 7"
abbreviation (input) IscTpbRead :: byte where "IscTpbRead \<equiv> 8"
abbreviation (input) IscTpbWrite :: byte where "IscTpbWrite \<equiv> 9"
abbreviation (input) IscTpbReadCommitted :: byte where "IscTpbReadCommitted \<equiv> 15"
abbreviation (input) IscTpbAutocommit :: byte where "IscTpbAutocommit \<equiv> 16"
abbreviation (input) IscTpbRecVersion :: byte where "IscTpbRecVersion \<equiv> 17"
abbreviation (input) IscTpbNoRecVersion :: byte where "IscTpbNoRecVersion \<equiv> 18"
abbreviation (input) IscTpbLockTimeout :: byte where "IscTpbLockTimeout \<equiv> 21"
abbreviation (input) IscTpbReadConsistency :: byte where "IscTpbReadConsistency \<equiv> 22"
abbreviation (input) IscTpbAtSnapshotNumber :: byte where "IscTpbAtSnapshotNumber \<equiv> 23"

record TPBBuilder = tpb_buf :: "byte list"

definition NewTPBBuilder :: TPBBuilder where
  "NewTPBBuilder = \<lparr>tpb_buf = [] @ [IscTpbVersion3]\<rparr>"

definition TPB_Reset :: "TPBBuilder \<Rightarrow> TPBBuilder" where
  "TPB_Reset b = b\<lparr>tpb_buf := (take 1 (tpb_buf b))[0 := IscTpbVersion3]\<rparr>"

definition WriteTag :: "byte \<Rightarrow> TPBBuilder \<Rightarrow> TPBBuilder" where
  "WriteTag tag b = b\<lparr>tpb_buf := tpb_buf b @ [tag]\<rparr>"

definition TPB_Bytes :: "TPBBuilder \<Rightarrow> byte list" where "TPB_Bytes b = tpb_buf b"

section \<open>The server's reading of a DPB\<close>

function parse_dpb_items :: "byte list \<Rightarrow> (byte \<times> byte list) list option" where
  "parse_dpb_items [] = Some []"
| "parse_dpb_items (tag # rest) =
     (if length rest < 4 then None
      else let n = unat (le32 rest); body = drop 4 rest in
        if length body < n then None
        else (case parse_dpb_items (drop n body) of None \<Rightarrow> None
              | Some items \<Rightarrow> Some ((tag, take n body) # items)))"
  by pat_completeness auto
termination by (relation "measure length") auto

definition parse_dpb :: "byte list \<Rightarrow> (byte \<times> byte list) list option" where
  "parse_dpb bs = (case bs of v # rest \<Rightarrow> if v = IscDpbVersion2 then parse_dpb_items rest else None | [] \<Rightarrow> None)"

definition dpb_item :: "byte \<times> byte list \<Rightarrow> byte list" where
  "dpb_item it = fst it # dpb_len (length (snd it)) @ snd it"

lemma byte_of_len:
  assumes "n < 2 ^ 32"
  shows "(ucast (drop_bit k (of_nat n :: uint32)) :: byte) = of_nat (n div 2 ^ k)"
proof -
  have "n div 2 ^ k < 2 ^ 32" using assms by (meson div_le_dividend le_less_trans)
  moreover have "drop_bit k (of_nat n :: uint32) = of_nat (n div 2 ^ k)"
    using assms calculation
    by (simp add: word_unat_eq_iff unat_drop_bit_eq unsigned_of_nat take_bit_nat_eq_self drop_bit_nat_def
        del: drop_bit_eq_div)
  ultimately show ?thesis by (simp add: unsigned_of_nat take_bit_nat_eq_self)
qed

lemma dpb_len_LE32: "n < 2 ^ 32 \<Longrightarrow> dpb_len n = putLE32 (of_nat n)"
  using byte_of_len [of n 0] byte_of_len [of n 8] byte_of_len [of n 16] byte_of_len [of n 24]
  by (simp add: dpb_len_def putLE32_def)

lemma parse_dpb_item:
  assumes "length (snd it) < 2 ^ 32"
  shows "parse_dpb_items (dpb_item it @ rest) =
    (case parse_dpb_items rest of None \<Rightarrow> None | Some items \<Rightarrow> Some (it # items))"
  using assms by (simp add: dpb_item_def dpb_len_LE32 Let_def unat_of_nat split: option.splits)

lemma parse_dpb_item_list:
  "list_all (\<lambda>it. length (snd it) < 2 ^ 32) items \<Longrightarrow> parse_dpb_items (concat (map dpb_item items)) = Some items"
  by (induction items) (simp_all add: parse_dpb_item)

text \<open>A builder holds its version byte and a list of items; every write appends one.\<close>

definition dpb_holds :: "DPBBuilder \<Rightarrow> (byte \<times> byte list) list \<Rightarrow> bool" where
  "dpb_holds b items \<longleftrightarrow> dpb_buf b = IscDpbVersion2 # concat (map dpb_item items)"

lemma dpb_holds_New: "dpb_holds NewDPBBuilder []"
  by (simp add: dpb_holds_def NewDPBBuilder_def)

lemma dpb_holds_Reset: "dpb_holds b items \<Longrightarrow> dpb_holds (DPB_Reset b) []"
  by (simp add: dpb_holds_def DPB_Reset_def)

lemma dpb_holds_write:
  assumes "dpb_holds b items"
  shows "dpb_holds (DPB_WriteString tag s b) (items @ [(tag, bytes_of_string s)])"
    and "dpb_holds (DPB_WriteMarker tag b) (items @ [(tag, [])])"
    and "dpb_holds (DPB_WriteByteTag tag v b) (items @ [(tag, [v])])"
    and "dpb_holds (DPB_WriteBytes tag d b) (items @ [(tag, d)])"
  using assms
  by (simp_all add: dpb_holds_def DPB_WriteString_def DPB_WriteMarker_def DPB_WriteByteTag_def DPB_WriteBytes_def
      dpb_item_def dpb_len_def)

lemma dpb_holds_parse:
  "dpb_holds b items \<Longrightarrow> list_all (\<lambda>it. length (snd it) < 2 ^ 32) items \<Longrightarrow> parse_dpb (DPB_Bytes b) = Some items"
  by (simp add: dpb_holds_def parse_dpb_def DPB_Bytes_def parse_dpb_item_list)

end
