(* ===== verification/Wire_Properties.thy ===== *)
theory Wire_Properties
  imports RowDecode Response Info Params
begin

text \<open>
  The properties of the wire codecs: responses, describe buffers, BLR, parameter blocks, parameter messages
  and rows, and the conversions of dates, numbers and text.  Each is proved from the lemmas of the component
  theories and, where it has hypotheses, applied once at a concrete input.
\<close>

section \<open>A reader whose input is already buffered\<close>

definition buffered :: "byte list \<Rightarrow> Reader" where
  "buffered bs = \<lparr>rd = NewConn [] [], rerr = None, rbuf = bs, rstart = 0, rend = length bs, auxBuf = []\<rparr>"

definition segmented :: "byte list list \<Rightarrow> Reader" where
  "segmented bss = \<lparr>rd = NewConn (map Recv bss) [], rerr = None, rbuf = [0], rstart = 0, rend = 0, auxBuf = []\<rparr>"

lemma buffered_props [simp]:
  "wf_reader (buffered bs)" "rerr (buffered bs) = None" "stream (buffered bs) = bs" "net_failure (rd (buffered bs)) = ErrUnexpectedEOF"
  by (simp_all add: buffered_def wf_reader_def stream_def window_def net_stream_def NewConn_def net_failure_def decrypt_def)

lemma segmented_props [simp]:
  "wf_reader (segmented bss)" "rerr (segmented bss) = None"
  "[] \<notin> set bss \<Longrightarrow> stream (segmented bss) = concat bss" "[] \<notin> set bss \<Longrightarrow> net_failure (rd (segmented bss)) = ErrUnexpectedEOF"
proof -
  have d: "[] \<notin> set bss \<Longrightarrow> deliv (map Recv bss) = concat bss" by (induction bss) auto
  have f: "[] \<notin> set bss \<Longrightarrow> first_failure (map Recv bss) = ErrUnexpectedEOF" by (induction bss) auto
  show "wf_reader (segmented bss)" "rerr (segmented bss) = None"
    "[] \<notin> set bss \<Longrightarrow> stream (segmented bss) = concat bss" "[] \<notin> set bss \<Longrightarrow> net_failure (rd (segmented bss)) = ErrUnexpectedEOF"
    using d f by (simp_all add: segmented_def wf_reader_def stream_def window_def net_stream_def NewConn_def net_failure_def decrypt_def)
qed

text \<open>Instances of the parameters: no named zone, identity text encodings, and a trivial number formatter.\<close>

definition demo_res :: "uint32 \<Rightarrow> location" where "demo_res tz = utcLocation"

definition demo_xtext :: "string \<Rightarrow> xencoding" where "demo_xtext name = \<lparr>xdecode = Inr, xencode = Inr\<rparr>"

definition demo_lib :: golib where
  "demo_lib = \<lparr>fmt_f = (\<lambda>_. ''0''), fmt_g = (\<lambda>_. ''0''), sprintV = (\<lambda>_. replicate 1012 (CHR ''x'')),
     float_to_int64 = (\<lambda>_. 0), float64_of = (\<lambda>_. 0), float32_of = (\<lambda>_. 0), parseFloat = (\<lambda>_. None)\<rparr>"

section \<open>Responses\<close>

text \<open>C15. A generic response sent by a server (handle, blob id, data, and a status vector with errors, warnings,
  arguments and SQLSTATEs) is parsed to exactly those parts, with a \<^verbatim>\<open>StatusError\<close> when it carries an error;
  what follows it on the stream is left untouched and nothing is sent.\<close>

theorem response_round_trip:
  assumes "wf_reader r" and "rerr r = None" and "stream r = enc_response h b d ws @ zs"
    and "length d \<le> maxWireBufferLen" and "list_all entry_ok ws"
  shows "\<exists>r'. ReadResponse r = ((response_value h b d ws, response_error ws), r') \<and> rerr r' = None \<and> stream r' = zs
     \<and> conn_out (rd r') = conn_out (rd r)"
proof -
  from reads_ReadResponse [OF assms(4,5)] assms(1-3) obtain r' where
    "ReadResponse r = ((response_value h b d ws, response_error ws), r')" "rerr r' = None" "stream r' = zs" "outside r' = outside r"
    by (rule readsD)
  then show ?thesis by (auto simp: outside_def)
qed

definition demo_entries :: "wire_entry list" where
  "demo_entries = [WireEntry False 335544569 [PString ''T'', PInt32 3] (Some ''42000'')]"

lemma response_round_trip_witness:
  "\<exists>r'. ReadResponse (buffered (enc_response 7 0 [1, 2] demo_entries @ [9]))
     = ((response_value 7 0 [1, 2] demo_entries, response_error demo_entries), r') \<and> rerr r' = None \<and> stream r' = [9]"
proof -
  have "list_all entry_ok demo_entries" by (simp add: maxWireBufferLen_def demo_entries_def entry_ok_def)
  then have "\<exists>r'. ReadResponse (buffered (enc_response 7 0 [1, 2] demo_entries @ [9]))
     = ((response_value 7 0 [1, 2] demo_entries, response_error demo_entries), r') \<and> rerr r' = None \<and> stream r' = [9]
     \<and> conn_out (rd r') = conn_out (rd (buffered (enc_response 7 0 [1, 2] demo_entries @ [9])))"
    by (intro response_round_trip) (simp_all add: maxWireBufferLen_def)
  then show ?thesis by blast
qed

text \<open>The parse of a response does not depend on how the network cut the bytes: two readers with the same
  remaining bytes and the same eventual failure give the same response and the same error, and agree again
  afterwards.\<close>

theorem response_segmentation:
  assumes "obs_eq r s"
  shows "fst (ReadResponse r) = fst (ReadResponse s) \<and> obs_eq (snd (ReadResponse r)) (snd (ReadResponse s))"
  using uniform_ReadResponse assms by (simp add: uniform_def)

lemma response_segmentation_witness:
  "fst (ReadResponse (buffered [0, 0, 0, 9, 1])) = fst (ReadResponse (segmented [[0, 0], [0, 9, 1]]))"
proof -
  have "obs_eq (buffered [0, 0, 0, 9, 1]) (segmented [[0, 0], [0, 9, 1]])"
    by (simp add: obs_eq_def del: segmented_props(3,4)) (simp add: segmented_props(3,4))
  from response_segmentation [OF this] show ?thesis by simp
qed

text \<open>C25. Whatever bytes a server sends, parsing a response ends, leaves the reader well formed, sends
  nothing, and does not replace an error that was already recorded.\<close>

theorem response_hostile_input:
  assumes "wf_reader r" and "ReadResponse r = (v, r')"
  shows "wf_reader r' \<and> conn_out (rd r') = conn_out (rd r) \<and> (rerr r \<noteq> None \<longrightarrow> rerr r' = rerr r)"
  using saneD [OF sane_ReadResponse assms] by (simp add: same_out_def)

lemma response_hostile_input_witness:
  "wf_reader (snd (ReadResponse (buffered [255, 255, 255])))"
  using response_hostile_input [OF buffered_props(1), of "[255, 255, 255]" "fst (ReadResponse (buffered [255, 255, 255]))"
      "snd (ReadResponse (buffered [255, 255, 255]))"] by simp

text \<open>C26. The twelve-byte fast path of \<^verbatim>\<open>readStatusVector\<close> is only an optimisation: with twelve bytes available it
  returns what the general parser returns and leaves an equivalent reader.\<close>

theorem status_fast_path:
  assumes "wf_reader r" and "rerr r = None" and "12 \<le> length (stream r)"
  shows "\<exists>v r' s'. readStatusVector r = (v, r') \<and> readStatusVectorSlow r = (v, s') \<and> obs_eq r' s'"
  using assms by (rule readStatusVector_fast)

lemma status_fast_path_witness:
  "fst (readStatusVector (buffered (replicate 12 1))) = fst (readStatusVectorSlow (buffered (replicate 12 1)))"
  using status_fast_path [OF buffered_props(1,2), of "replicate 12 1"] by auto

text \<open>The fast path peeks at twelve bytes before it looks at any of them, so a vector that is complete in
  fewer (the lone terminator of four bytes, for one) fails with the transport's error although the general
  parser accepts it.\<close>

theorem status_short_vector:
  assumes "wf_reader r" and "rerr r = None" and "stream r = putUint32 IscArgEnd"
  shows "(\<exists>r'. readStatusVector r = (emptyStatusVector, r') \<and> rerr r' = Some (net_failure (rd r)))
     \<and> (\<exists>r'. readStatusVectorSlow r = (emptyStatusVector, r') \<and> rerr r' = None)"
proof
  show "\<exists>r'. readStatusVector r = (emptyStatusVector, r') \<and> rerr r' = Some (net_failure (rd r))"
    using assms by (intro readStatusVector_short) simp_all
  have "reads readStatusVectorSlow (putUint32 IscArgEnd) emptyStatusVector"
    using reads_entries [of "[]" "[]" "[]" CurNone False]
    by (simp add: readStatusVectorSlow_def [abs_def] sv_start_def emptyStatusVector_def)
  from this assms(1,2) show "\<exists>r'. readStatusVectorSlow r = (emptyStatusVector, r') \<and> rerr r' = None"
    by (rule readsD [where zs = "[]"]) (use assms(3) in auto)
qed

lemma status_short_vector_witness:
  "\<exists>r'. readStatusVector (buffered (putUint32 IscArgEnd)) = (emptyStatusVector, r') \<and> rerr r' = Some ErrUnexpectedEOF"
  using status_short_vector [OF buffered_props(1-3)] by simp

section \<open>Rows and parameters\<close>

text \<open>C7. A row sent by the server is decoded to the values of its cells in column order, \<^verbatim>\<open>nil\<close> exactly for the
  null ones, for every SQL type; the rest of the stream is untouched.\<close>

theorem row_round_trip:
  assumes "wf_reader r" and "rerr r = None" and "stream r = row_image descs cells @ zs"
    and "row_ok descs cells" and "length descs \<le> length row"
  shows "\<exists>r'. DecodeRow res xtext descs nullBuf row r = (Inr (row_value res xtext descs cells @ drop (length descs) row), r')
     \<and> rerr r' = None \<and> stream r' = zs"
  using reads_DecodeRow [OF assms(4,5), of res xtext nullBuf] assms(1-3) by (rule readsD) auto

definition demo_descs :: "ColumnDescriptor list" where
  "demo_descs = [emptyColumn\<lparr>SQLType := SQLLong\<rparr>, emptyColumn\<lparr>SQLType := SQLVarying, SubType := IDUTF8, Length := 10\<rparr>,
     emptyColumn\<lparr>SQLType := SQLTimestamp\<rparr>]"

definition demo_cells :: "cell option list" where
  "demo_cells = [Some (CInt (- 5)), None, Some (CStamp 60000 7)]"

lemma row_round_trip_witness:
  "\<exists>r'. DecodeRow demo_res demo_xtext demo_descs [] (replicate 3 VNil) (buffered (row_image demo_descs demo_cells @ [8]))
     = (Inr [VInt32 (- 5), VNil, VTime (TimestampToTime 60000 7)], r') \<and> stream r' = [8]"
proof -
  have "row_ok demo_descs demo_cells" by (simp add: row_ok_def demo_descs_def demo_cells_def baseType_def fits_def emptyColumn_def)
  then have "\<exists>r'. DecodeRow demo_res demo_xtext demo_descs [] (replicate 3 VNil) (buffered (row_image demo_descs demo_cells @ [8]))
      = (Inr (row_value demo_res demo_xtext demo_descs demo_cells @ drop (length demo_descs) (replicate 3 VNil)), r')
      \<and> rerr r' = None \<and> stream r' = [8]"
    by (intro row_round_trip) (simp_all add: demo_descs_def)
  moreover have "row_value demo_res demo_xtext demo_descs demo_cells @ drop (length demo_descs) (replicate 3 VNil)
      = [VInt32 (- 5), VNil, VTime (TimestampToTime 60000 7)]"
    by (simp add: demo_descs_def demo_cells_def row_value_def emptyColumn_def baseType_def)
  ultimately show ?thesis by auto
qed

text \<open>Decoding a row from arbitrary bytes does not depend on their segmentation.\<close>

theorem row_segmentation:
  assumes "obs_eq r s"
  shows "fst (DecodeRow res xtext descs nullBuf row r) = fst (DecodeRow res xtext descs nullBuf row s)"
  using uniform_DecodeRow assms by (simp add: uniform_def)

lemma row_segmentation_witness:
  "fst (DecodeRow demo_res demo_xtext demo_descs [] (replicate 3 VNil) (buffered [0, 0, 0, 9, 1]))
     = fst (DecodeRow demo_res demo_xtext demo_descs [] (replicate 3 VNil) (segmented [[0, 0], [0, 9, 1]]))"
proof -
  have "obs_eq (buffered [0, 0, 0, 9, 1]) (segmented [[0, 0], [0, 9, 1]])"
    by (simp add: obs_eq_def del: segmented_props(3,4)) (simp add: segmented_props(3,4))
  from row_segmentation [OF this] show ?thesis .
qed

text \<open>C8. \<^verbatim>\<open>EncodeParamsErr\<close> implements the parameter message: it appends the null bitset and the images of the
  non-null values to what the writer held, or returns the error of the first value that has no image.\<close>

theorem params_refine:
  assumes "wf_writer w"
  shows "case params_image lib xtext descs vals of
      Inl e \<Rightarrow> fst (EncodeParamsErr lib xtext descs vals w) = Some e
    | Inr msg \<Rightarrow> fst (EncodeParamsErr lib xtext descs vals w) = None
        \<and> Bytes (snd (EncodeParamsErr lib xtext descs vals w)) = Bytes w @ msg"
  using EncodeParamsErr_image [OF assms, of lib xtext descs vals] by (auto simp: message_ok_def around_def split: sum.splits)

definition demo_desc :: ColumnDescriptor where "demo_desc = emptyColumn\<lparr>SQLType := SQLLong, Scale := - 2\<rparr>"

lemma params_refine_witness:
  "Bytes (snd (EncodeParamsErr demo_lib demo_xtext [demo_desc, demo_desc] [VInt64 3] \<lparr>wbuf = [0], wn = 0\<rparr>))
     = [2, 0, 0, 0] @ putUint32 300"
proof -
  have p: "params_image demo_lib demo_xtext [demo_desc, demo_desc] [VInt64 3] = Inr ([2, 0, 0, 0] @ putUint32 300)"
    by code_simp
  show ?thesis using params_refine [of "\<lparr>wbuf = [0], wn = 0\<rparr>" demo_lib demo_xtext "[demo_desc, demo_desc]" "[VInt64 3]"] p
    by (simp add: wf_writer_def Bytes_def)
qed





section \<open>Descriptions and messages\<close>

text \<open>A describe buffer that lists the columns and parameters of a statement is parsed to exactly those
  descriptors, in order, for up to the limit of columns.\<close>

theorem describe_round_trip:
  assumes "list_all out_ok outs" and "list_all in_ok ins" and "length outs \<le> maxSQLDescribeColumns"
    and "length ins \<le> maxSQLDescribeColumns"
  shows "ParseSQLDescribeInfo gc (enc_describe ty outs ins) = (ty, outs, ins)"
proof -
  obtain c c' where "parseSQLDescribeChunk gc (enc_describe ty outs ins) emptyDescribeState =
    (False, \<lparr>stmtType = ty, outputs = outs, inputs = ins, numOutputs = length outs, numInputs = length ins,
       doneOutputs = length outs, doneInputs = length ins, capOutputs = c, capInputs = c'\<rparr>)"
    using describe_all [OF assms] by blast
  then show ?thesis by (simp add: ParseSQLDescribeInfo_def)
qed

definition demo_outs :: "ColumnDescriptor list" where
  "demo_outs = [emptyColumn\<lparr>FieldName := ''ID'', AliasName := ''ID'', SQLType := SQLLong, Length := 4\<rparr>]"

lemma describe_round_trip_witness:
  "ParseSQLDescribeInfo (\<lambda>a b. a + b) (enc_describe 1 demo_outs []) = (1, demo_outs, [])"
  by (rule describe_round_trip) (simp_all add: demo_outs_def out_ok_def emptyColumn_def maxSQLDescribeColumns_def)

text \<open>Whatever a server puts in a describe buffer, the number of descriptors the driver allocates stays within
  the limit.\<close>

theorem describe_bounded:
  assumes "length (outputs st) \<le> maxSQLDescribeColumns" and "length (inputs st) \<le> maxSQLDescribeColumns"
    and "parseSQLDescribeChunk gc buf st = (tr, st')"
  shows "length (outputs st') \<le> maxSQLDescribeColumns \<and> length (inputs st') \<le> maxSQLDescribeColumns"
proof -
  have "describe_inv NoSection NoCursor st" using assms(1,2) by (simp add: describe_inv_def)
  from describe_inv_loop [OF this] assms(3) obtain sec cur where "describe_inv sec cur st'"
    unfolding parseSQLDescribeChunk_def by blast
  then show ?thesis by (simp add: describe_inv_def)
qed

lemma describe_bounded_witness:
  "length (outputs (snd (parseSQLDescribeChunk (\<lambda>a b. a + b) [4, 255, 255, 255] emptyDescribeState))) \<le> maxSQLDescribeColumns"
  using describe_bounded [of emptyDescribeState "\<lambda>a b. a + b" "[4, 255, 255, 255]"
      "fst (parseSQLDescribeChunk (\<lambda>a b. a + b) [4, 255, 255, 255] emptyDescribeState)"
      "snd (parseSQLDescribeChunk (\<lambda>a b. a + b) [4, 255, 255, 255] emptyDescribeState)"]
  by (simp add: emptyDescribeState_def)

text \<open>The BLR built for a parameter list, read back by a BLR parser, has for each parameter the type the
  encoder writes, each followed by its null indicator.\<close>

theorem param_blr_describes:
  assumes "length descs \<le> maxSQLDescribeColumns"
  shows "parse_message (BuildParamBLR descs) = Some (with_nulls (map param_type descs))"
  using assms by (rule parse_BuildParamBLR)

lemma param_blr_describes_witness:
  "parse_message (BuildParamBLR demo_outs) = Some (with_nulls (map param_type demo_outs))"
  by (rule param_blr_describes) (simp add: demo_outs_def maxSQLDescribeColumns_def)

text \<open>The same for the BLR of the output columns.\<close>

theorem column_blr_describes:
  assumes "length descs \<le> maxSQLDescribeColumns"
  shows "parse_message (BuildBLR descs) = Some (with_nulls (map column_type descs))"
  using assms by (rule parse_BuildBLR)

lemma column_blr_describes_witness:
  "parse_message (BuildBLR demo_outs) = Some (with_nulls (map column_type demo_outs))"
  by (rule column_blr_describes) (simp add: demo_outs_def maxSQLDescribeColumns_def)

text \<open>Record counts reported by the server are read back, up to the sign-extended 32 bits the code keeps.\<close>

theorem record_counts_round_trip:
  assumes "count_ok (selectCount rc)" and "count_ok (insertCount rc)" and "count_ok (updateCount rc)"
    and "count_ok (deleteCount rc)"
  shows "ParseRecordCounts (enc_counts rc @ rest) = rc"
  using assms by (rule ParseRecordCounts_enc)

lemma record_counts_round_trip_witness:
  "ParseRecordCounts (enc_counts \<lparr>selectCount = 1, insertCount = 2, updateCount = 300, deleteCount = 4\<rparr> @ [1])
     = \<lparr>selectCount = 1, insertCount = 2, updateCount = 300, deleteCount = 4\<rparr>"
  by (rule record_counts_round_trip) (simp_all add: count_ok_def)

section \<open>Values\<close>





text \<open>The zone caches are transparent: resolving a zone id gives the same location on a hit and on a miss, and
  every state of the caches that the resolver can reach stays consistent.\<close>

theorem zone_cache_transparent:
  assumes "cache_ok named known c" and "Resolve named known tz c = (loc, c')"
  shows "loc = zone_of named known tz \<and> cache_ok named known c'"
  using Resolve_transparent [OF assms] by blast

lemma zone_cache_transparent_witness:
  "fst (Resolve (\<lambda>_. []) (\<lambda>_. False) 65535 emptyTzCache) = utcLocation"
proof -
  let ?c = emptyTzCache
  have "cache_ok (\<lambda>_. []) (\<lambda>_. False) ?c" by (rule cache_ok_empty)
  from zone_cache_transparent [OF this, of 65535 "fst (Resolve (\<lambda>_. []) (\<lambda>_. False) 65535 ?c)" "snd (Resolve (\<lambda>_. []) (\<lambda>_. False) 65535 ?c)"]
  show ?thesis by (simp add: zone_of_def)
qed

text \<open>C29. Scaling an integer parameter to a NUMERIC column is exact, or refused: the product by the power of ten is
  returned when it fits in 64 bits, and an error otherwise; it never wraps.\<close>

theorem scaling_exact:
  assumes "is_int64 v" and "sint scale < 0"
  shows "if is_int64 (v * 10 ^ nat (- sint scale)) then scaleIntegralInt64 v scale = Inr (v * 10 ^ nat (- sint scale))
     else \<exists>e. scaleIntegralInt64 v scale = Inl e"
  using scale_loop_exact [OF assms(1), of "nat (- sint scale)" scale] assms(2) by (simp add: scaleIntegralInt64_def)

lemma scaling_exact_witness: "scaleIntegralInt64 12 (- 3) = Inr 12000"
  using scaling_exact [of 12 "- 3"] by (simp add: is_int64_def)



text \<open>An INT128 parameter in range is read back unchanged from its sixteen bytes.\<close>

theorem int128_bytes_round_trip:
  assumes "decimalStringToScaledBigInt s scale = Inr v" and "- (2 ^ 127) \<le> v" and "v < 2 ^ 127"
  shows "\<exists>bs. stringToInt128Err s scale = Inr bs \<and> length bs = 16 \<and> int128_of_bytes bs = v"
  using assms by (rule int128_round_trip)

lemma int128_bytes_round_trip_witness: "\<exists>bs. stringToInt128Err ''-1'' 0 = Inr bs \<and> length bs = 16 \<and> int128_of_bytes bs = - 1"
proof -
  have "decimalStringToScaledBigInt ''-1'' 0 = Inr (- 1)" by code_simp
  from int128_bytes_round_trip [OF this] show ?thesis by simp
qed

text \<open>Text decoded from a built-in character set is encoded back to the same bytes.\<close>

theorem charset_round_trip:
  assumes "builtin_charset cid"
  shows "Encode xtext cid (Decode xtext cid data) = Inr data"
  using assms by (rule Encode_Decode)

lemma charset_round_trip_witness: "Encode demo_xtext IDISO88591 (Decode demo_xtext IDISO88591 [0x41, 0xF1]) = Inr [0x41, 0xF1]"
  by (rule charset_round_trip) (simp add: builtin_charset_def)

text \<open>A DECFLOAT(16) in the interchange format of the standard (sign, combination field, biased exponent, DPD
  groups) is rendered from exactly its sign, coefficient and exponent.\<close>

theorem decfloat16_decodes:
  assumes "0 \<le> c" and "c < 10 ^ 16" and "- 398 \<le> e" and "e \<le> 369"
  shows "decfloat64ToString (dec64_encode neg c e) = formatDecimalCoefficient c e neg"
  using assms by (rule dec64_decode)

lemma decfloat16_decodes_witness: "decfloat64ToString (dec64_encode True 1234 (- 2)) = ''-12.34''"
proof -
  have "formatDecimalCoefficient 1234 (- 2) True = ''-12.34''" by code_simp
  with decfloat16_decodes [of 1234 "- 2" True] show ?thesis by simp
qed

end
