(* ===== verification/WireConn.thy ===== *)
theory WireConn
  imports Writer Response Info Blr Charset
begin

text \<open>
  \<^verbatim>\<open>WireConnection\<close> (\<^verbatim>\<open>internal/wire/database.go\<close>, \<^verbatim>\<open>transaction.go\<close>, \<^verbatim>\<open>statement.go\<close>): the connection state and its
  request/response operations.  An operation is a state transformer that returns an error or a value.  The
  socket is the one inside the reader (\<open>rd\<close>), so that reads and writes act on the same connection; mutexes and
  deadlines have no counterpart in the sequential model.

  The protocol answers every request with one response, in order.  With lazy send a free request is not
  waited for: its response is owed, and counted in \<^verbatim>\<open>deferredCount\<close>.  The central invariant is that the
  count is right: what the operations leave unread is what they count as owed (\<open>balanced\<close>).
\<close>

section \<open>State\<close>

definition maxFreeHandles :: nat where "maxFreeHandles = 8"

record WireConnection =
  wc_reader :: Reader
  wc_writer :: Writer
  dbHandle :: int32
  protocolVersion :: uint32
  wc_charset :: string
  noneCharsetID :: int32
  lazySend :: bool
  deferredCount :: nat
  nullBuf :: "byte list"
  freeHandles :: "int32 list"
  freeCount :: nat

type_synonym 'a wop = "(WireConnection, gerr + 'a) state"

abbreviation wc_conn :: "WireConnection \<Rightarrow> Conn" where "wc_conn wc \<equiv> rd (wc_reader wc)"

definition ProtocolVersion :: "WireConnection \<Rightarrow> uint32" where "ProtocolVersion wc = protocolVersion wc"

section \<open>Requests\<close>

text \<open>The successive \<^verbatim>\<open>wc.writer.Write...\<close> calls of an operation.\<close>

fun put_field :: "field \<Rightarrow> Writer \<Rightarrow> Writer" where
  "put_field (FInt32 v) w = WriteInt32 v w"
| "put_field (FInt64 v) w = WriteInt64 v w"
| "put_field (FBuffer b) w = WriteBuffer b w"
| "put_field (FString s) w = WriteString s w"

definition write_all :: "field list \<Rightarrow> unit wop" where
  "write_all fs = State (\<lambda>wc. (Inr (), wc\<lparr>wc_writer := fold put_field fs (wc_writer wc)\<rparr>))"

definition write_raw :: "byte list \<Rightarrow> unit wop" where
  "write_raw bs = State (\<lambda>wc. (Inr (), wc\<lparr>wc_writer := WriteRaw bs (wc_writer wc)\<rparr>))"

definition wc_flush :: "unit wop" where
  "wc_flush = State (\<lambda>wc.
     let (err, w', c') = Flush (wc_writer wc) (wc_conn wc);
         wc' = wc\<lparr>wc_writer := w', wc_reader := (wc_reader wc)\<lparr>rd := c'\<rparr>\<rparr>
     in (case err of Some e \<Rightarrow> Inl e | None \<Rightarrow> Inr (), wc'))"

section \<open>Responses\<close>

definition wc_ReadResponse :: "GenericResponse wop" where
  "wc_ReadResponse = State (\<lambda>wc.
     let ((resp, err), r') = ReadResponse (wc_reader wc)
     in (case err of Some e \<Rightarrow> Inl e | None \<Rightarrow> Inr resp, wc\<lparr>wc_reader := r'\<rparr>))"

text \<open>\<^verbatim>\<open>consumeDeferred\<close> decrements the count only after a response without error.\<close>

fun consume_loop :: "nat \<Rightarrow> Reader \<Rightarrow> gerr option \<times> nat \<times> Reader" where
  "consume_loop 0 r = (None, 0, r)"
| "consume_loop (Suc n) r =
     (case ReadResponse r of
        ((_, Some e), r') \<Rightarrow> (Some e, Suc n, r')
      | ((_, None), r') \<Rightarrow> consume_loop n r')"

definition consumeDeferred :: "unit wop" where
  "consumeDeferred = State (\<lambda>wc.
     let (err, n, r') = consume_loop (deferredCount wc) (wc_reader wc)
     in (case err of Some e \<Rightarrow> Inl e | None \<Rightarrow> Inr (), wc\<lparr>wc_reader := r', deferredCount := n\<rparr>))"

definition readResponse :: "GenericResponse wop" where
  "readResponse = bindE (mapErr (Wrap ''consume deferred'') consumeDeferred) (\<lambda>_. wc_ReadResponse)"

text \<open>The shape of most operations: write, flush, read the response, each error wrapped with the operation's name.\<close>

definition round_trip :: "string \<Rightarrow> field list \<Rightarrow> GenericResponse wop" where
  "round_trip name fs =
     bindE (write_all fs) (\<lambda>_.
     bindE (mapErr (Wrap (name @ '': flush'')) wc_flush) (\<lambda>_.
     mapErr (Wrap name) readResponse))"

section \<open>Database operations (database.go)\<close>

definition InfoDatabase :: "byte list \<Rightarrow> int32 \<Rightarrow> byte list wop" where
  "InfoDatabase items bufferLength =
     bindE (round_trip ''op_info_database'' [FInt32 opInfoDatabase, FInt32 0, FInt32 0, FBuffer items, FInt32 bufferLength])
       (\<lambda>resp. okE (Data resp))"

text \<open>Closing a socket that is already closed is an error of the socket.\<close>

definition close_conn :: "unit wop" where
  "close_conn = State (\<lambda>wc.
     (if conn_closed (wc_conn wc) then Inl ErrNetClosed else Inr (),
      wc\<lparr>wc_reader := (wc_reader wc)\<lparr>rd := Conn_Close (wc_conn wc)\<rparr>\<rparr>))"

definition CloseTransport :: "unit wop" where "CloseTransport = close_conn"

text \<open>Run an operation and go on whatever it returned.\<close>

definition tryE :: "('s, 'a) state \<Rightarrow> ('a \<Rightarrow> ('s, 'b) state) \<Rightarrow> ('s, 'b) state" where
  "tryE m k = State_Monad.bind m k"

definition Detach :: "unit wop" where
  "Detach =
     bindE (write_all [FInt32 opDetach]) (\<lambda>_.
     bindE (State (\<lambda>wc. (Inr (), wc\<lparr>wc_writer := WriteInt32 (dbHandle wc) (wc_writer wc)\<rparr>))) (\<lambda>_.
     tryE wc_flush (\<lambda>fl. case fl of
       Inl e \<Rightarrow> tryE close_conn (\<lambda>_. throwE (Wrap ''op_detach: flush'' e))
     | Inr _ \<Rightarrow> tryE readResponse (\<lambda>rr. case rr of
         Inl e \<Rightarrow> tryE close_conn (\<lambda>_. throwE (Wrap ''op_detach'' e))
       | Inr _ \<Rightarrow> bindE (write_all [FInt32 opDisconnect]) (\<lambda>_. tryE wc_flush (\<lambda>_. close_conn))))))"

definition Cancel :: "uint32 \<Rightarrow> unit wop" where
  "Cancel kind =
     (if kind = CancelAbort then close_conn
      else State (\<lambda>wc.
        let (err, w', c') = Flush (fold put_field [FInt32 opCancel, FInt32 kind] NewWriter) (wc_conn wc)
        in (case err of Some e \<Rightarrow> Inl e | None \<Rightarrow> Inr (), wc\<lparr>wc_reader := (wc_reader wc)\<lparr>rd := c'\<rparr>\<rparr>)))"

section \<open>Transactions (transaction.go)\<close>

definition Transaction :: "byte list \<Rightarrow> int32 wop" where
  "Transaction tpb = bindE (round_trip ''op_transaction'' [FInt32 opTransaction, FInt32 0, FBuffer tpb]) (\<lambda>resp. okE (Handle resp))"

definition Commit :: "int32 \<Rightarrow> unit wop" where
  "Commit txHandle = bindE (round_trip ''op_commit'' [FInt32 opCommit, FInt32 txHandle]) (\<lambda>_. okE ())"

definition Rollback :: "int32 \<Rightarrow> unit wop" where
  "Rollback txHandle = bindE (round_trip ''op_rollback'' [FInt32 opRollback, FInt32 txHandle]) (\<lambda>_. okE ())"

definition CommitRetaining :: "int32 \<Rightarrow> unit wop" where
  "CommitRetaining txHandle = bindE (round_trip ''op_commit_retaining'' [FInt32 opCommitRetaining, FInt32 txHandle]) (\<lambda>_. okE ())"

definition InfoTransaction :: "int32 \<Rightarrow> byte list \<Rightarrow> int32 \<Rightarrow> byte list wop" where
  "InfoTransaction txHandle items bufferLength =
     bindE (round_trip ''op_info_transaction'' [FInt32 opInfoTransaction, FInt32 txHandle, FInt32 0, FBuffer items, FInt32 bufferLength])
       (\<lambda>resp. okE (Data resp))"

section \<open>Statements (statement.go)\<close>

definition prepare_fields :: "int32 \<Rightarrow> int32 \<Rightarrow> string \<Rightarrow> int32 \<Rightarrow> byte list \<Rightarrow> field list" where
  "prepare_fields txHandle stmtHandle sql bufferLength items =
     [FInt32 opPrepareStatement, FInt32 txHandle, FInt32 stmtHandle, FInt32 SQLDialectCurrent, FString sql, FBuffer items, FInt32 bufferLength]"

definition PrepareStatementWithItems :: "int32 \<Rightarrow> int32 \<Rightarrow> string \<Rightarrow> int32 \<Rightarrow> byte list \<Rightarrow> byte list wop" where
  "PrepareStatementWithItems txHandle stmtHandle sql bufferLength items =
     bindE (round_trip ''op_prepare_statement'' (prepare_fields txHandle stmtHandle sql bufferLength items)) (\<lambda>resp. okE (Data resp))"

text \<open>The handle is part of the result even when the prepare failed (\<^verbatim>\<open>return stmtHandle, nil, err\<close>); it is 0 otherwise.\<close>

definition AllocateAndPrepareWithItems ::
  "int32 \<Rightarrow> string \<Rightarrow> int32 \<Rightarrow> byte list \<Rightarrow> (WireConnection, int32 \<times> (gerr + byte list)) state" where
  "AllocateAndPrepareWithItems txHandle sql bufferLength items = State (\<lambda>wc.
     if freeCount wc > 0 then
       (let n = freeCount wc - 1; stmtHandle = freeHandles wc ! n in
        case run_state (PrepareStatementWithItems txHandle stmtHandle sql bufferLength items) (wc\<lparr>freeCount := n\<rparr>) of
          (Inl e, wc') \<Rightarrow> ((0, Inl (Wrap ''prepare (reuse handle)'' e)), wc')
        | (Inr data, wc') \<Rightarrow> ((stmtHandle, Inr data), wc'))
     else
       (case run_state (bindE (write_all ([FInt32 opAllocateStatement, FInt32 (dbHandle wc)]
                 @ prepare_fields txHandle (ucast InvalidObject) sql bufferLength items)) (\<lambda>_. wc_flush)) wc of
          (Inl e, wc1) \<Rightarrow> ((0, Inl (Wrap ''allocate+prepare: flush'' e)), wc1)
        | (Inr _, wc1) \<Rightarrow>
            (case run_state readResponse wc1 of
               (Inl e, wc2) \<Rightarrow> ((0, Inl (Wrap ''allocate+prepare: allocate'' e)), wc2)
             | (Inr allocResp, wc2) \<Rightarrow>
                 (case run_state wc_ReadResponse wc2 of
                    (Inl e, wc3) \<Rightarrow> ((Handle allocResp, Inl (Wrap ''allocate+prepare: prepare'' e)), wc3)
                  | (Inr prepResp, wc3) \<Rightarrow> ((Handle allocResp, Inr (Data prepResp)), wc3)))))"

definition AllocateAndPrepare :: "int32 \<Rightarrow> string \<Rightarrow> int32 \<Rightarrow> (WireConnection, int32 \<times> (gerr + byte list)) state" where
  "AllocateAndPrepare txHandle sql bufferLength = AllocateAndPrepareWithItems txHandle sql bufferLength PrepareInfoItems"

definition FreeStatement :: "int32 \<Rightarrow> uint32 \<Rightarrow> unit wop" where
  "FreeStatement stmtHandle option =
     bindE (write_all [FInt32 opFreeStatement, FInt32 stmtHandle, FInt32 option]) (\<lambda>_.
     bindE (mapErr (Wrap ''op_free_statement: flush'') wc_flush) (\<lambda>_. State (\<lambda>wc.
       if lazySend wc then (Inr (), wc\<lparr>deferredCount := deferredCount wc + 1\<rparr>)
       else run_state (bindE (mapErr (Wrap ''op_free_statement'') wc_ReadResponse) (\<lambda>_. okE ())) wc)))"

definition RecycleStatement :: "int32 \<Rightarrow> bool \<Rightarrow> unit wop" where
  "RecycleStatement stmtHandle hasCursor =
     bindE (if hasCursor then FreeStatement stmtHandle DSQLClose else okE ()) (\<lambda>_. State (\<lambda>wc.
       if freeCount wc < maxFreeHandles
       then (Inr (), wc\<lparr>freeHandles := (freeHandles wc)[freeCount wc := stmtHandle], freeCount := freeCount wc + 1\<rparr>)
       else run_state (FreeStatement stmtHandle DSQLDrop) wc))"

fun drain_loop :: "nat \<Rightarrow> WireConnection \<Rightarrow> WireConnection" where
  "drain_loop 0 wc = wc"
| "drain_loop (Suc n) wc = drain_loop n (snd (run_state (FreeStatement (freeHandles wc ! n) DSQLDrop) (wc\<lparr>freeCount := n\<rparr>)))"

definition DrainStatementPool :: "unit wop" where
  "DrainStatementPool = State (\<lambda>wc. (Inr (), drain_loop (freeCount wc) wc))"

definition InfoSQL :: "int32 \<Rightarrow> byte list \<Rightarrow> int32 \<Rightarrow> byte list wop" where
  "InfoSQL stmtHandle items bufferLength =
     bindE (round_trip ''op_info_sql'' [FInt32 opInfoSQL, FInt32 stmtHandle, FInt32 0, FBuffer items, FInt32 bufferLength])
       (\<lambda>resp. okE (Data resp))"

definition applyNoneCharset :: "int32 \<Rightarrow> ColumnDescriptor list \<Rightarrow> ColumnDescriptor list" where
  "applyNoneCharset noneID descs =
     (if noneID = IDNone then descs
      else map (\<lambda>d. if SubType d = IDNone \<and> (baseType (SQLType d) = SQLText \<or> baseType (SQLType d) = SQLVarying)
                    then d\<lparr>SubType := noneID, SubTypeFromNone := True\<rparr> else d) descs)"

section \<open>Reading makes progress\<close>

text \<open>No reader operation increases the input that is left, and a response that arrives decreases it.\<close>

definition shrinks :: "(Reader \<Rightarrow> 'a \<times> Reader) \<Rightarrow> bool" where
  "shrinks m \<longleftrightarrow> (\<forall>r. pending (snd (m r)) \<le> pending r)"

lemma shrinksD: "shrinks m \<Longrightarrow> m r = (v, r') \<Longrightarrow> pending r' \<le> pending r"
  unfolding shrinks_def by (metis snd_conv)

lemma shrinksI: "(\<And>r v r'. m r = (v, r') \<Longrightarrow> pending r' \<le> pending r) \<Longrightarrow> shrinks m"
  unfolding shrinks_def by (metis prod.collapse)

lemma shrinks_pure: "shrinks (Pair v)"
  by (simp add: shrinks_def)

lemma shrinks_bind: "shrinks m \<Longrightarrow> (\<And>x. shrinks (k x)) \<Longrightarrow> shrinks (\<lambda>r. case m r of (x, r') \<Rightarrow> k x r')"
  unfolding shrinks_def by (auto split: prod.split) (metis le_trans snd_conv)

lemma shrinks_if: "shrinks m \<Longrightarrow> shrinks m' \<Longrightarrow> shrinks (\<lambda>r. if P r then m r else m' r)"
  by (simp add: shrinks_def)

lemma shrinks_ReadInt32: "shrinks ReadInt32"
  by (rule shrinksI) (rule ReadInt32_pending(1))

lemma shrinks_readView: "shrinks (readView n)"
  by (rule shrinksI) (rule readView_pending(1))

lemma shrinks_ReadInt64: "shrinks ReadInt64"
  unfolding ReadInt64_def [abs_def] Let_def by (intro shrinks_bind shrinks_readView shrinks_if shrinks_pure)

lemma shrinks_ReadBuffer: "shrinks ReadBuffer"
  by (rule shrinksI) (rule ReadBuffer_pending)

lemma shrinks_ReadString: "shrinks ReadString"
  by (rule shrinksI) (rule ReadString_pending)

lemma ReadOpcode_pending:
  "ReadOpcode r = (op, r') \<Longrightarrow> pending r' \<le> pending r \<and> (rerr r' = None \<longrightarrow> pending r' < pending r)"
proof (induction r rule: ReadOpcode.induct)
  case (1 r)
  obtain x r1 where x: "ReadInt32 r = (x, r1)" by (cases "ReadInt32 r")
  note p = ReadInt32_pending [OF x]
  show ?case
  proof (cases "rerr r1 \<noteq> None \<or> x \<noteq> opDummy")
    case True
    then show ?thesis using "1.prems" x p by (auto simp: ReadOpcode.simps [of r])
  next
    case False
    then have "ReadOpcode r1 = (op, r')" using "1.prems" x by (simp add: ReadOpcode.simps [of r])
    with "1.IH" [OF x [symmetric] refl False] p False show ?thesis by auto
  qed
qed

lemma shrinks_ReadOpcode: "shrinks ReadOpcode"
  by (rule shrinksI) (simp add: ReadOpcode_pending)

lemmas shrinks_reads = shrinks_pure shrinks_readView shrinks_ReadInt32 shrinks_ReadInt64 shrinks_ReadBuffer
  shrinks_ReadString shrinks_ReadOpcode

lemma shrinks_sv_loop: "shrinks (sv_loop st)"
proof (rule shrinksI)
  show "pending r' \<le> pending r" if "sv_loop st r = (v, r')" for r v r'
    using that
  proof (induction st r rule: sv_loop.induct)
    case (1 st r)
    obtain tag r1 where t: "ReadInt32 r = (tag, r1)" by (cases "ReadInt32 r")
    obtain st2 r2 where s: "sv_step tag st r1 = (st2, r2)" by (cases "sv_step tag st r1")
    have "pending r1 \<le> pending r" "pending r2 \<le> pending r1"
      using ReadInt32_pending(1) [OF t] sv_step_pending [of tag st r1] s by simp_all
    moreover have "r' = r1 \<or> r' = r2 \<or> (rerr r1 = None \<and> tag \<noteq> IscArgEnd \<and> rerr r2 = None \<and> sv_loop st2 r2 = (v, r'))"
      using "1.prems" t s by (auto simp: sv_loop.simps [of st r] split: if_splits)
    ultimately show ?case using "1.IH" [OF t [symmetric] refl _ s [symmetric] refl] by fastforce
  qed
qed

lemma shrinks_readStatusVector: "shrinks readStatusVector"
proof (rule shrinksI)
  fix r v r' assume v: "readStatusVector r = (v, r')"
  obtain b r1 where e: "ensure 12 r = (b, r1)" by (cases "ensure 12 r")
  have p: "\<exists>bs. peekBytes 12 r = (bs, r1)" using e by (cases b) (simp_all add: peekBytes_def)
  have "pending (advance 12 r1) \<le> pending r1" by (simp add: advance_def pending_def)
  moreover have "pending r1 \<le> pending r" using ensure_pending [OF e] by simp
  moreover have "r' = advance 12 r1 \<or> sv_loop sv_start r1 = (v, r')"
    using v p by (auto simp: readStatusVector_def readStatusVectorSlow_def split: if_splits)
  ultimately show "pending r' \<le> pending r" using shrinksD [OF shrinks_sv_loop] by fastforce
qed

lemma pending_auxBuf [simp]: "pending (r\<lparr>auxBuf := b\<rparr>) = pending r"
  by (simp add: pending_def)

lemma shrinks_readGenericResponse: "shrinks readGenericResponse"
proof -
  have "shrinks (\<lambda>r. readStatusVector (if data \<noteq> [] then r\<lparr>auxBuf := data\<rparr> else r))" for data :: "byte list"
  proof -
    have "pending (snd (readStatusVector (r\<lparr>auxBuf := data\<rparr>))) \<le> pending r" "pending (snd (readStatusVector r)) \<le> pending r" for r
      using shrinks_readStatusVector [unfolded shrinks_def, rule_format, of "r\<lparr>auxBuf := data\<rparr>"]
        shrinks_readStatusVector [unfolded shrinks_def, rule_format, of r] by simp_all
    then show ?thesis by (simp add: shrinks_def)
  qed
  then show ?thesis
    unfolding readGenericResponse_def [abs_def] Let_def by (intro shrinks_bind shrinks_reads shrinks_if)
qed

lemma ReadResponse_pending:
  assumes "ReadResponse r = ((resp, err), r')"
  shows "pending r' \<le> pending r" and "err = None \<Longrightarrow> pending r' < pending r"
proof -
  obtain op r1 where op: "ReadOpcode r = (op, r1)" by (cases "ReadOpcode r")
  obtain g r2 where g: "readGenericResponse r1 = (g, r2)" by (cases "readGenericResponse r1")
  note p = ReadOpcode_pending [OF op] shrinksD [OF shrinks_readGenericResponse g]
  show "pending r' \<le> pending r" "err = None \<Longrightarrow> pending r' < pending r"
    using assms op g p by (auto simp: ReadResponse_def split: if_splits)
qed

lemma consume_loop_pending: "consume_loop n r = (err, n', r') \<Longrightarrow> pending r' \<le> pending r"
proof (induction n arbitrary: r)
  case (Suc n)
  obtain resp e r1 where r1: "ReadResponse r = ((resp, e), r1)" by (metis surj_pair)
  show ?case using Suc r1 ReadResponse_pending(1) [OF r1] by (cases e) (fastforce simp: dest: order.trans)+
qed simp

lemma Flush_conn_in: "Flush w c = (err, w', c') \<Longrightarrow> conn_in c' = conn_in c"
  by (auto simp: Flush_def Conn_Write_def sock_write_def XORKeyStream_def Let_def split: if_splits option.splits list.splits prod.splits)

lemma wc_flush_pending:
  assumes "run_state wc_flush wc = (res, wc')"
  shows "pending (wc_reader wc') = pending (wc_reader wc)"
proof -
  obtain err w' c' where "Flush (wc_writer wc) (wc_conn wc) = (err, w', c')" by (metis surj_pair)
  then show ?thesis using assms Flush_conn_in by (auto simp: wc_flush_def pending_def)
qed

lemma wc_ReadResponse_pending:
  assumes "run_state wc_ReadResponse wc = (res, wc')"
  shows "pending (wc_reader wc') \<le> pending (wc_reader wc)" and "res = Inr x \<Longrightarrow> pending (wc_reader wc') < pending (wc_reader wc)"
proof -
  obtain resp err r' where r: "ReadResponse (wc_reader wc) = ((resp, err), r')" by (metis surj_pair)
  show "pending (wc_reader wc') \<le> pending (wc_reader wc)" "res = Inr x \<Longrightarrow> pending (wc_reader wc') < pending (wc_reader wc)"
    using assms r ReadResponse_pending [OF r] by (auto simp: wc_ReadResponse_def split: option.splits)
qed

lemma readResponse_pending:
  assumes "run_state readResponse wc = (res, wc')"
  shows "pending (wc_reader wc') \<le> pending (wc_reader wc)" and "res = Inr x \<Longrightarrow> pending (wc_reader wc') < pending (wc_reader wc)"
proof -
  obtain err n r1 where c: "consume_loop (deferredCount wc) (wc_reader wc) = (err, n, r1)" by (metis surj_pair)
  let ?wc = "wc\<lparr>wc_reader := r1, deferredCount := n\<rparr>"
  obtain res2 wc2 where q: "run_state wc_ReadResponse ?wc = (res2, wc2)" by (metis surj_pair)
  note p = consume_loop_pending [OF c] wc_ReadResponse_pending [OF q]
  show "pending (wc_reader wc') \<le> pending (wc_reader wc)" "res = Inr x \<Longrightarrow> pending (wc_reader wc') < pending (wc_reader wc)"
    using assms c q p by (auto simp: readResponse_def consumeDeferred_def split: option.splits sum.splits)
qed

lemma round_trip_pending:
  assumes "run_state (round_trip name fs) wc = (res, wc')"
  shows "pending (wc_reader wc') \<le> pending (wc_reader wc)" and "res = Inr x \<Longrightarrow> pending (wc_reader wc') < pending (wc_reader wc)"
proof -
  let ?wc = "wc\<lparr>wc_writer := fold put_field fs (wc_writer wc)\<rparr>"
  obtain f wc1 where f: "run_state wc_flush ?wc = (f, wc1)" by (metis surj_pair)
  obtain g wc2 where g: "run_state readResponse wc1 = (g, wc2)" by (metis surj_pair)
  note p = wc_flush_pending [OF f] readResponse_pending [OF g]
  show "pending (wc_reader wc') \<le> pending (wc_reader wc)" "res = Inr x \<Longrightarrow> pending (wc_reader wc') < pending (wc_reader wc)"
    using assms f g p by (auto simp: round_trip_def write_all_def split: sum.splits)
qed

section \<open>Describe with continuations\<close>

text \<open>The loop asks for a continuation until the buffer is complete.  Each round consumes a response, so it ends
  for every server.\<close>

function describe_more ::
  "(nat \<Rightarrow> nat \<Rightarrow> nat) \<Rightarrow> int32 \<Rightarrow> byte list \<Rightarrow> int32 \<Rightarrow> bool \<Rightarrow> describeState \<Rightarrow> WireConnection
     \<Rightarrow> (gerr + describeState) \<times> WireConnection" where
  "describe_more gc stmtHandle items bufferLength truncated st wc =
     (if \<not> truncated then (Inr st, wc)
      else let prevDone = doneOutputs st + doneInputs st;
               contItems = itemsWithSqldaStart items (int (doneOutputs st) + 1) (int (doneInputs st) + 1) in
        case run_state (InfoSQL stmtHandle contItems bufferLength) wc of
          (Inl e, wc') \<Rightarrow> (Inl (Wrap ''describe continuation'' e), wc')
        | (Inr data, wc') \<Rightarrow>
            let (truncated', st') = parseSQLDescribeChunk gc data st in
            if truncated' \<and> doneOutputs st' + doneInputs st' = prevDone
            then (Inl (Msg (''describe continuation made no progress (outputs '' @ formatNat (doneOutputs st') @ ''/'' @ formatNat (numOutputs st')
                   @ '', inputs '' @ formatNat (doneInputs st') @ ''/'' @ formatNat (numInputs st') @ '')'')), wc')
            else describe_more gc stmtHandle items bufferLength truncated' st' wc')"
  by pat_completeness auto
termination
proof (relation "measure (\<lambda>(gc, h, it, bl, tr, st, wc). pending (wc_reader wc))", goal_cases)
  case (2 gc h it bl tr st wc pd ci res wc' data pr tr' st')
  obtain g wc1 where g: "run_state (round_trip ''op_info_sql'' [FInt32 opInfoSQL, FInt32 h, FInt32 0, FBuffer ci, FInt32 bl]) wc = (g, wc1)"
    by (metis surj_pair)
  show ?case using 2 g round_trip_pending(2) [OF g] by (auto simp: InfoSQL_def split: sum.splits)
qed simp

declare describe_more.simps [simp del]

definition CompleteSQLDescribe ::
  "(nat \<Rightarrow> nat \<Rightarrow> nat) \<Rightarrow> int32 \<Rightarrow> byte list \<Rightarrow> byte list \<Rightarrow> int32 \<Rightarrow> (int32 \<times> ColumnDescriptor list \<times> ColumnDescriptor list) wop" where
  "CompleteSQLDescribe gc stmtHandle buf items bufferLength = State (\<lambda>wc.
     let (truncated, st) = parseSQLDescribeChunk gc buf emptyDescribeState in
     case describe_more gc stmtHandle items bufferLength truncated st wc of
       (Inl e, wc') \<Rightarrow> (Inl e, wc')
     | (Inr st', wc') \<Rightarrow> (Inr (stmtType st', applyNoneCharset (noneCharsetID wc') (outputs st'), applyNoneCharset (noneCharsetID wc') (inputs st')), wc'))"

end
