(* ===== verification/WireSync.thy ===== *)
theory WireSync
  imports WireConn
begin

text \<open>
  Request/response accounting of \<^verbatim>\<open>WireConnection\<close>.  A server answers every request with one response, in order;
  \<open>serves wc rs zs\<close> says that the responses \<open>rs\<close> are what the connection will read next.  \<open>accounts q m\<close> says
  that \<open>m\<close>, which sends \<open>q\<close> requests, leaves unread exactly what it adds to \<^verbatim>\<open>deferredCount\<close>: responses
  consumed plus responses owed afterwards equal responses owed before plus requests sent.  It holds on the
  error paths too: a deferred response that carries an error is not subtracted from the count, which is
  balanced by the operation's own response, left unread.
\<close>

section \<open>A server's responses\<close>

type_synonym srv_resp = "int32 \<times> int64 \<times> byte list \<times> wire_entry list"

fun enc_resp :: "srv_resp \<Rightarrow> byte list" where
  "enc_resp (h, b, d, ws) = enc_response h b d ws"

fun resp_ok :: "srv_resp \<Rightarrow> bool" where
  "resp_ok (h, b, d, ws) \<longleftrightarrow> length d \<le> maxWireBufferLen \<and> list_all entry_ok ws"

fun resp_result :: "srv_resp \<Rightarrow> GenericResponse \<times> gerr option" where
  "resp_result (h, b, d, ws) = (response_value h b d ws, response_error ws)"

definition rx_ready :: "WireConnection \<Rightarrow> srv_resp list \<Rightarrow> byte list \<Rightarrow> bool" where
  "rx_ready wc rs zs \<longleftrightarrow> wf_reader (wc_reader wc) \<and> rerr (wc_reader wc) = None \<and> \<not> conn_closed (wc_conn wc)
     \<and> conn_wfail (wc_conn wc) = [] \<and> stream (wc_reader wc) = concat (map enc_resp rs) @ zs \<and> list_all resp_ok rs"

definition serves :: "WireConnection \<Rightarrow> srv_resp list \<Rightarrow> byte list \<Rightarrow> bool" where
  "serves wc rs zs \<longleftrightarrow> rx_ready wc rs zs \<and> wf_writer (wc_writer wc) \<and> Bytes (wc_writer wc) = []"

definition accounts :: "nat \<Rightarrow> (WireConnection, 'a) state \<Rightarrow> bool" where
  "accounts q m \<longleftrightarrow> (\<forall>wc rs zs. serves wc rs zs \<longrightarrow> deferredCount wc + q \<le> length rs \<longrightarrow>
     (\<exists>c. serves (snd (run_state m wc)) (drop c rs) zs \<and> deferredCount (snd (run_state m wc)) + c = deferredCount wc + q))"

lemma accountsI:
  assumes "\<And>wc rs zs. serves wc rs zs \<Longrightarrow> deferredCount wc + q \<le> length rs \<Longrightarrow>
    \<exists>res wc' c. run_state m wc = (res, wc') \<and> serves wc' (drop c rs) zs \<and> deferredCount wc' + c = deferredCount wc + q"
  shows "accounts q m"
  unfolding accounts_def using assms by fastforce

lemma accountsD:
  assumes "accounts q m" and "serves wc rs zs" and "deferredCount wc + q \<le> length rs"
  obtains res wc' c where "run_state m wc = (res, wc')" and "serves wc' (drop c rs) zs"
    and "deferredCount wc' + c = deferredCount wc + q"
  using assms unfolding accounts_def by (metis prod.collapse)

section \<open>Combinators\<close>

lemma run_tryE [simp]: "run_state (tryE m k) s = (case run_state m s of (x, s') \<Rightarrow> run_state (k x) s')"
  by (simp add: tryE_def split: prod.split)

lemma accounts_ok: "accounts 0 (okE x)"
  by (rule accountsI) (auto intro: exI [of _ 0])

lemma accounts_try:
  assumes "accounts p m" and "\<And>x. accounts q (k x)"
  shows "accounts (p + q) (tryE m k)"
proof (rule accountsI)
  fix wc rs zs assume s: "serves wc rs zs" "deferredCount wc + (p + q) \<le> length rs"
  then have "deferredCount wc + p \<le> length rs" by simp
  from accountsD [OF assms(1) s(1) this] obtain x wc1 c where
    1: "run_state m wc = (x, wc1)" "serves wc1 (drop c rs) zs" "deferredCount wc1 + c = deferredCount wc + p" .
  have "deferredCount wc1 + q \<le> length (drop c rs)" using s(2) 1(3) by simp
  from accountsD [OF assms(2) 1(2) this] obtain y wc2 d where
    2: "run_state (k x) wc1 = (y, wc2)" "serves wc2 (drop d (drop c rs)) zs" "deferredCount wc2 + d = deferredCount wc1 + q" .
  show "\<exists>res wc' c. run_state (tryE m k) wc = (res, wc') \<and> serves wc' (drop c rs) zs \<and> deferredCount wc' + c = deferredCount wc + (p + q)"
    using 1 2 by (intro exI [of _ y] exI [of _ wc2] exI [of _ "d + c"]) (simp add: add.commute)
qed

lemma bindE_try: "bindE m k = tryE m (\<lambda>x. case x of Inl e \<Rightarrow> throwE e | Inr a \<Rightarrow> k a)"
  by (simp add: bindE_def tryE_def)

lemma accounts_throw: "accounts 0 (throwE e)"
  by (rule accountsI) (auto intro: exI [of _ 0])

lemma accounts_then_pure:
  assumes "accounts q m"
  shows "accounts q (bindE m (\<lambda>x. okE (f x)))"
proof -
  have "accounts 0 (case x of Inl e \<Rightarrow> throwE e | Inr a \<Rightarrow> okE (f a))" for x
    by (simp add: accounts_ok accounts_throw split: sum.split)
  from accounts_try [OF assms this] show ?thesis by (simp add: bindE_try)
qed

lemma accounts_mapErr: "accounts q m \<Longrightarrow> accounts q (mapErr f m)"
  using accounts_try [of q m 0 "\<lambda>x. case x of Inl e \<Rightarrow> throwE (f e) | Inr a \<Rightarrow> okE a"]
  by (simp add: mapErr_def tryE_def accounts_ok accounts_throw split: sum.split)

section \<open>Reading\<close>

lemma reads_resp: "resp_ok x \<Longrightarrow> reads ReadResponse (enc_resp x) (resp_result x)"
  by (cases x) (simp add: reads_ReadResponse)

lemma rx_read:
  assumes "rx_ready wc (x # rs) zs"
  obtains r' where "ReadResponse (wc_reader wc) = (resp_result x, r')" and "rx_ready (wc\<lparr>wc_reader := r'\<rparr>) rs zs"
proof -
  have "wf_reader (wc_reader wc)" "rerr (wc_reader wc) = None" "stream (wc_reader wc) = enc_resp x @ (concat (map enc_resp rs) @ zs)" "resp_ok x"
    using assms by (simp_all add: rx_ready_def)
  from readsD [OF reads_resp [OF this(4)] this(1-3)] obtain r' where
    "ReadResponse (wc_reader wc) = (resp_result x, r')" "wf_reader r'" "rerr r' = None" "stream r' = concat (map enc_resp rs) @ zs"
    "outside r' = outside (wc_reader wc)" .
  with assms show ?thesis by (intro that) (auto simp: rx_ready_def outside_def)
qed

lemma serves_read:
  assumes "serves wc (x # rs) zs"
  obtains r' where "ReadResponse (wc_reader wc) = (resp_result x, r')" and "serves (wc\<lparr>wc_reader := r'\<rparr>) rs zs"
  using assms by (auto simp: serves_def elim: rx_read)

lemma serves_deferred: "serves (wc\<lparr>deferredCount := n\<rparr>) rs zs = serves wc rs zs"
  by (simp add: serves_def rx_ready_def)

lemma accounts_wc_ReadResponse: "accounts 1 wc_ReadResponse"
proof (rule accountsI)
  fix wc rs zs assume s: "serves wc rs zs" "deferredCount wc + 1 \<le> length rs"
  then obtain x rs' where rs: "rs = x # rs'" by (cases rs) auto
  obtain r' where "ReadResponse (wc_reader wc) = (resp_result x, r')" "serves (wc\<lparr>wc_reader := r'\<rparr>) rs' zs"
    using serves_read s(1) rs by blast
  then show "\<exists>res wc' c. run_state wc_ReadResponse wc = (res, wc') \<and> serves wc' (drop c rs) zs \<and> deferredCount wc' + c = deferredCount wc + 1"
    by (cases "resp_result x") (auto simp: wc_ReadResponse_def rs intro!: exI [of _ 1])
qed

text \<open>Draining the deferred responses: all of them, or up to the first that carries an error.\<close>

lemma consume_loop_counts:
  assumes "serves wc rs zs" and "n \<le> length rs"
  shows "\<exists>err m r' c. consume_loop n (wc_reader wc) = (err, m, r') \<and> serves (wc\<lparr>wc_reader := r'\<rparr>) (drop c rs) zs
     \<and> m + c = n + (if err = None then 0 else 1) \<and> (err = None \<longrightarrow> m = 0)"
  using assms
proof (induction n arbitrary: wc rs)
  case 0
  then show ?case by (auto intro: exI [of _ 0])
next
  case (Suc n)
  then obtain x rs' where rs: "rs = x # rs'" by (cases rs) auto
  obtain r' where r': "ReadResponse (wc_reader wc) = (resp_result x, r')" "serves (wc\<lparr>wc_reader := r'\<rparr>) rs' zs"
    using serves_read Suc.prems(1) rs by blast
  obtain g e where x: "resp_result x = (g, e)" by (cases "resp_result x")
  show ?case
  proof (cases e)
    case None
    have "n \<le> length rs'" using Suc.prems(2) rs by simp
    from Suc.IH [OF r'(2) this] obtain err m r2 c where
      "consume_loop n r' = (err, m, r2)" "serves (wc\<lparr>wc_reader := r2\<rparr>) (drop c rs') zs"
      "m + c = n + (if err = None then 0 else 1)" "err = None \<longrightarrow> m = 0" by auto
    then show ?thesis using r' x None rs by (intro exI [of _ err] exI [of _ m] exI [of _ r2] exI [of _ "Suc c"]) auto
  next
    case (Some err)
    then show ?thesis using r' x rs by (intro exI [of _ "Some err"] exI [of _ "Suc n"] exI [of _ r'] exI [of _ 1]) auto
  qed
qed

lemma accounts_readResponse: "accounts 1 readResponse"
proof (rule accountsI)
  fix wc rs zs assume s: "serves wc rs zs" "deferredCount wc + 1 \<le> length rs"
  then have "deferredCount wc \<le> length rs" by simp
  from consume_loop_counts [OF s(1) this] obtain err m r' c where c: "consume_loop (deferredCount wc) (wc_reader wc) = (err, m, r')"
    "serves (wc\<lparr>wc_reader := r'\<rparr>) (drop c rs) zs" "m + c = deferredCount wc + (if err = None then 0 else 1)" "err = None \<longrightarrow> m = 0" by blast
  let ?wc = "wc\<lparr>wc_reader := r', deferredCount := m\<rparr>"
  have sv: "serves ?wc (drop c rs) zs" using c(2) by (simp add: serves_deferred)
  show "\<exists>res wc' c. run_state readResponse wc = (res, wc') \<and> serves wc' (drop c rs) zs \<and> deferredCount wc' + c = deferredCount wc + 1"
  proof (cases err)
    case None
    have "deferredCount ?wc + 1 \<le> length (drop c rs)" using s(2) c(3,4) None by simp
    from accountsD [OF accounts_wc_ReadResponse sv this] obtain res wc2 d where
      "run_state wc_ReadResponse ?wc = (res, wc2)" "serves wc2 (drop d (drop c rs)) zs" "deferredCount wc2 + d = deferredCount ?wc + 1" .
    then show ?thesis
      using c None by (intro exI [of _ res] exI [of _ wc2] exI [of _ "d + c"]) (simp add: readResponse_def consumeDeferred_def add.commute)
  next
    case (Some e)
    then show ?thesis using c sv by (simp add: readResponse_def consumeDeferred_def) (intro exI [of _ c], simp)
  qed
qed

section \<open>Sending\<close>

lemma put_field_pooled: "put_field f w = pooled.write_field f w"
  by (cases f) simp_all

lemma fold_put_field: "fold put_field fs w = pooled.write_fields fs w"
  by (induction fs arbitrary: w) (simp_all add: put_field_pooled)

lemma Flush_ready:
  assumes "\<not> conn_closed c" and "conn_wfail c = []"
  obtains c' where "Flush w c = (None, w\<lparr>wn := 0\<rparr>, c')" and "conn_in c' = conn_in c" and "cryptR c' = cryptR c"
    and "conn_closed c' = conn_closed c" and "conn_wfail c' = []" and "conn_out c' = conn_out c @ encrypted c (Bytes w)"
proof -
  obtain err w' c' where f: "Flush w c = (err, w', c')" by (metis surj_pair)
  have "err = None" "w' = w\<lparr>wn := 0\<rparr>" "conn_in c' = conn_in c" "cryptR c' = cryptR c" "conn_closed c' = conn_closed c" "conn_wfail c' = []"
    using f assms
    by (auto simp: Flush_def Conn_Write_def sock_write_def XORKeyStream_def Let_def split: if_splits option.splits list.splits prod.splits)
  moreover have "conn_out c' = conn_out c @ encrypted c (Bytes w)"
    using Flush_sends(1) [of w c w' c'] f \<open>err = None\<close> assms(1) by simp
  ultimately show ?thesis using f that by blast
qed

text \<open>Sending succeeds, appends the (encrypted) request to the outgoing bytes, and touches nothing else.\<close>

lemma wc_flush_ready:
  assumes "rx_ready wc rs zs" and "wf_writer (wc_writer wc)"
  obtains wc' where "run_state wc_flush wc = (Inr (), wc')" and "serves wc' rs zs" and "deferredCount wc' = deferredCount wc"
    and "lazySend wc' = lazySend wc" and "freeCount wc' = freeCount wc" and "freeHandles wc' = freeHandles wc"
    and "dbHandle wc' = dbHandle wc" and "protocolVersion wc' = protocolVersion wc" and "nullBuf wc' = nullBuf wc"
    and "noneCharsetID wc' = noneCharsetID wc"
    and "conn_out (wc_conn wc') = conn_out (wc_conn wc) @ encrypted (wc_conn wc) (Bytes (wc_writer wc))"
proof -
  have "\<not> conn_closed (wc_conn wc)" "conn_wfail (wc_conn wc) = []" using assms(1) by (simp_all add: rx_ready_def)
  then obtain c' where c': "Flush (wc_writer wc) (wc_conn wc) = (None, (wc_writer wc)\<lparr>wn := 0\<rparr>, c')" "conn_in c' = conn_in (wc_conn wc)"
    "cryptR c' = cryptR (wc_conn wc)" "conn_closed c' = conn_closed (wc_conn wc)" "conn_wfail c' = []"
    "conn_out c' = conn_out (wc_conn wc) @ encrypted (wc_conn wc) (Bytes (wc_writer wc))" by (rule Flush_ready)
  let ?wc = "wc\<lparr>wc_writer := (wc_writer wc)\<lparr>wn := 0\<rparr>, wc_reader := (wc_reader wc)\<lparr>rd := c'\<rparr>\<rparr>"
  have "stream ((wc_reader wc)\<lparr>rd := c'\<rparr>) = stream (wc_reader wc)"
    using c' by (simp add: stream_def net_stream_def window_def)
  then have "serves ?wc rs zs"
    using assms c' by (simp add: serves_def rx_ready_def wf_reader_def Bytes_def wf_writer_def)
  moreover have "run_state wc_flush wc = (Inr (), ?wc)" using c'(1) by (simp add: wc_flush_def)
  ultimately show ?thesis using c'(6) by (intro that [of ?wc]) simp_all
qed

lemma send_ready:
  assumes "serves wc rs zs"
  obtains wc' where "run_state (bindE (write_all fs) (\<lambda>_. wc_flush)) wc = (Inr (), wc')" and "serves wc' rs zs"
    and "deferredCount wc' = deferredCount wc" and "lazySend wc' = lazySend wc"
    and "freeCount wc' = freeCount wc" and "freeHandles wc' = freeHandles wc"
    and "conn_out (wc_conn wc') = conn_out (wc_conn wc) @ encrypted (wc_conn wc) (concat (map field_image fs))"
proof -
  let ?wc = "wc\<lparr>wc_writer := fold put_field fs (wc_writer wc)\<rparr>"
  have w: "wf_writer (wc_writer wc)" "Bytes (wc_writer wc) = []" using assms by (simp_all add: serves_def)
  have "rx_ready ?wc rs zs" using assms by (simp add: serves_def rx_ready_def)
  moreover have "wf_writer (wc_writer ?wc)" using pooled.write_fields_wf [OF w(1)] by (simp add: fold_put_field)
  ultimately obtain wc' where wc': "run_state wc_flush ?wc = (Inr (), wc')" "serves wc' rs zs" "deferredCount wc' = deferredCount ?wc"
    "lazySend wc' = lazySend ?wc" "freeCount wc' = freeCount ?wc" "freeHandles wc' = freeHandles ?wc"
    "conn_out (wc_conn wc') = conn_out (wc_conn ?wc) @ encrypted (wc_conn ?wc) (Bytes (wc_writer ?wc))" by (rule wc_flush_ready)
  moreover have "Bytes (wc_writer ?wc) = concat (map field_image fs)"
    using pooled.write_fields_content [OF w(1)] w(2) by (simp add: fold_put_field)
  ultimately show ?thesis by (intro that [of wc']) (simp_all add: write_all_def)
qed

lemma accounts_round_trip: "accounts 1 (round_trip name fs)"
proof (rule accountsI)
  fix wc rs zs assume s: "serves wc rs zs" "deferredCount wc + 1 \<le> length rs"
  obtain wc1 where 1: "run_state (bindE (write_all fs) (\<lambda>_. wc_flush)) wc = (Inr (), wc1)" "serves wc1 rs zs" "deferredCount wc1 = deferredCount wc"
    using send_ready [OF s(1), of fs] by metis
  have "deferredCount wc1 + 1 \<le> length rs" using s(2) 1(3) by simp
  from accountsD [OF accounts_mapErr [OF accounts_readResponse] 1(2) this, of "Wrap name"] obtain res wc2 c where
    "run_state (mapErr (Wrap name) readResponse) wc1 = (res, wc2)" "serves wc2 (drop c rs) zs" "deferredCount wc2 + c = deferredCount wc1 + 1" .
  moreover have "run_state (bindE (write_all fs) (\<lambda>_. mapErr f wc_flush)) wc = (Inr (), wc1)" for f
    using 1(1) by (simp add: write_all_def)
  ultimately show "\<exists>res wc' c. run_state (round_trip name fs) wc = (res, wc') \<and> serves wc' (drop c rs) zs \<and> deferredCount wc' + c = deferredCount wc + 1"
    using 1(3) by (auto simp: round_trip_def write_all_def)
qed

lemmas accounts_request = accounts_then_pure [OF accounts_round_trip]

lemma accounts_database: "accounts 1 (InfoDatabase items n)"
  unfolding InfoDatabase_def by (rule accounts_request)

lemma accounts_transaction:
  "accounts 1 (Transaction tpb)" "accounts 1 (Commit h)" "accounts 1 (Rollback h)" "accounts 1 (CommitRetaining h)"
  "accounts 1 (InfoTransaction h items n)"
  unfolding Transaction_def Commit_def Rollback_def CommitRetaining_def InfoTransaction_def by (rule accounts_request)+

lemma accounts_statement: "accounts 1 (PrepareStatementWithItems h s sql n items)" "accounts 1 (InfoSQL s items n)"
  unfolding PrepareStatementWithItems_def InfoSQL_def by (rule accounts_request)+

text \<open>Freeing a statement under lazy send reads nothing and owes one more response.\<close>

lemma accounts_FreeStatement: "accounts 1 (FreeStatement h opt)"
proof (rule accountsI)
  fix wc rs zs assume s: "serves wc rs zs" "deferredCount wc + 1 \<le> length rs"
  let ?fs = "[FInt32 opFreeStatement, FInt32 h, FInt32 opt]"
  obtain wc1 where 1: "run_state (bindE (write_all ?fs) (\<lambda>_. wc_flush)) wc = (Inr (), wc1)" "serves wc1 rs zs" "deferredCount wc1 = deferredCount wc"
    using send_ready [OF s(1), of ?fs] by metis
  have f: "run_state wc_flush (wc\<lparr>wc_writer := fold put_field ?fs (wc_writer wc)\<rparr>) = (Inr (), wc1)" using 1(1) by (simp add: write_all_def)
  have len: "deferredCount wc1 + 1 \<le> length rs" using s(2) 1(3) by simp
  have "accounts 1 (bindE (mapErr (Wrap ''op_free_statement'') wc_ReadResponse) (\<lambda>_. okE ()))"
    by (intro accounts_then_pure accounts_mapErr accounts_wc_ReadResponse)
  from accountsD [OF this 1(2) len] obtain res wc2 c where
    2: "run_state (bindE (mapErr (Wrap ''op_free_statement'') wc_ReadResponse) (\<lambda>_. okE ())) wc1 = (res, wc2)" "serves wc2 (drop c rs) zs"
    "deferredCount wc2 + c = deferredCount wc1 + 1" .
  show "\<exists>res wc' c. run_state (FreeStatement h opt) wc = (res, wc') \<and> serves wc' (drop c rs) zs \<and> deferredCount wc' + c = deferredCount wc + 1"
  proof (cases "lazySend wc1")
    case True
    then show ?thesis using 1 f by (simp add: FreeStatement_def write_all_def serves_deferred)
  next
    case False
    then show ?thesis using 1 2 f by (auto simp: FreeStatement_def write_all_def)
  qed
qed

section \<open>Sequences of operations\<close>

text \<open>The single-request operations of a connection.\<close>

datatype wire_op =
    DoTransaction "byte list" | DoCommit int32 | DoRollback int32 | DoCommitRetaining int32
  | DoInfoDatabase "byte list" int32 | DoInfoTransaction int32 "byte list" int32
  | DoPrepare int32 int32 string int32 "byte list" | DoInfoSQL int32 "byte list" int32 | DoFree int32 uint32

fun run_op :: "wire_op \<Rightarrow> WireConnection \<Rightarrow> WireConnection" where
  "run_op (DoTransaction tpb) wc = snd (run_state (Transaction tpb) wc)"
| "run_op (DoCommit h) wc = snd (run_state (Commit h) wc)"
| "run_op (DoRollback h) wc = snd (run_state (Rollback h) wc)"
| "run_op (DoCommitRetaining h) wc = snd (run_state (CommitRetaining h) wc)"
| "run_op (DoInfoDatabase items n) wc = snd (run_state (InfoDatabase items n) wc)"
| "run_op (DoInfoTransaction h items n) wc = snd (run_state (InfoTransaction h items n) wc)"
| "run_op (DoPrepare t h sql n items) wc = snd (run_state (PrepareStatementWithItems t h sql n items) wc)"
| "run_op (DoInfoSQL h items n) wc = snd (run_state (InfoSQL h items n) wc)"
| "run_op (DoFree h opt) wc = snd (run_state (FreeStatement h opt) wc)"

lemma run_op_counts:
  assumes "serves wc rs zs" and "deferredCount wc + 1 \<le> length rs"
  shows "\<exists>c. serves (run_op op wc) (drop c rs) zs \<and> deferredCount (run_op op wc) + c = deferredCount wc + 1"
  using assms accounts_transaction accounts_statement accounts_database accounts_FreeStatement
  by (cases op) (auto simp: accounts_def)

text \<open>After any sequence of operations, whatever failed on the way, the responses left on the stream are exactly
  those the connection counts as owed, followed by those of requests yet to be made.\<close>

lemma run_ops_synchronised:
  assumes "serves wc rs zs" and "deferredCount wc + length ops \<le> length rs"
  shows "\<exists>c. serves (fold run_op ops wc) (drop c rs) zs \<and> deferredCount (fold run_op ops wc) + c = deferredCount wc + length ops"
  using assms
proof (induction ops arbitrary: wc rs)
  case (Cons op ops)
  then have "deferredCount wc + 1 \<le> length rs" by simp
  from run_op_counts [OF Cons.prems(1) this, of op] obtain c where
    c: "serves (run_op op wc) (drop c rs) zs" "deferredCount (run_op op wc) + c = deferredCount wc + 1" by blast
  have "deferredCount (run_op op wc) + length ops \<le> length (drop c rs)" using c(2) Cons.prems(2) by simp
  from Cons.IH [OF c(1) this] obtain d where
    "serves (fold run_op ops (run_op op wc)) (drop d (drop c rs)) zs"
    "deferredCount (fold run_op ops (run_op op wc)) + d = deferredCount (run_op op wc) + length ops" by blast
  then show ?case using c(2) by (intro exI [of _ "d + c"]) (simp add: add.commute)
qed (auto intro: exI [of _ 0])

section \<open>A failed allocate\<close>

text \<open>\<^verbatim>\<open>AllocateAndPrepareWithItems\<close> sends two requests; when the allocate is refused it returns with the response of
  the prepare still on the stream and not counted: the connection is one response behind.\<close>

lemma allocate_desync:
  assumes "serves wc (bad # next # rs) zs" and "deferredCount wc = 0" and "freeCount wc = 0"
    and "snd (resp_result bad) = Some e"
  shows "\<exists>wc'. run_state (AllocateAndPrepareWithItems tx sql n items) wc = ((0, Inl (Wrap ''allocate+prepare: allocate'' e)), wc')
     \<and> serves wc' (next # rs) zs \<and> deferredCount wc' = 0"
proof -
  let ?fs = "[FInt32 opAllocateStatement, FInt32 (dbHandle wc)] @ prepare_fields tx (ucast InvalidObject) sql n items"
  obtain wc1 where 1: "run_state (bindE (write_all ?fs) (\<lambda>_. wc_flush)) wc = (Inr (), wc1)" "serves wc1 (bad # next # rs) zs" "deferredCount wc1 = deferredCount wc"
    using send_ready [OF assms(1), of ?fs] by metis
  obtain r' where r': "ReadResponse (wc_reader wc1) = (resp_result bad, r')" "serves (wc1\<lparr>wc_reader := r'\<rparr>) (next # rs) zs"
    by (rule serves_read [OF 1(2)])
  have "wc1\<lparr>wc_reader := wc_reader wc1, deferredCount := 0\<rparr> = wc1" using 1(3) assms(2) by simp
  then have "run_state readResponse wc1 = (Inl e, wc1\<lparr>wc_reader := r'\<rparr>)"
    using r'(1) 1(3) assms(2,4) by (cases "resp_result bad") (simp add: readResponse_def consumeDeferred_def wc_ReadResponse_def)
  then show ?thesis using 1 r'(2) assms(2,3) by (simp add: AllocateAndPrepareWithItems_def)
qed

section \<open>The pool of statement handles\<close>

text \<open>The handles in the pool, oldest first.\<close>

definition pooled_handles :: "WireConnection \<Rightarrow> int32 list" where
  "pooled_handles wc = take (freeCount wc) (freeHandles wc)"

definition wf_pool :: "WireConnection \<Rightarrow> bool" where
  "wf_pool wc \<longleftrightarrow> length (freeHandles wc) = maxFreeHandles \<and> freeCount wc \<le> maxFreeHandles"

lemma wc_flush_pool: "run_state wc_flush wc = (res, wc') \<Longrightarrow> freeHandles wc' = freeHandles wc \<and> freeCount wc' = freeCount wc"
  by (auto simp: wc_flush_def split: prod.splits)

lemma readResponse_pool: "run_state readResponse wc = (res, wc') \<Longrightarrow> freeHandles wc' = freeHandles wc \<and> freeCount wc' = freeCount wc"
  by (auto simp: readResponse_def consumeDeferred_def wc_ReadResponse_def split: prod.splits sum.splits option.splits)

lemma wc_ReadResponse_pool: "run_state wc_ReadResponse wc = (res, wc') \<Longrightarrow> freeHandles wc' = freeHandles wc \<and> freeCount wc' = freeCount wc"
  by (auto simp: wc_ReadResponse_def split: prod.splits)

lemma FreeStatement_pool:
  "run_state (FreeStatement h opt) wc = (res, wc') \<Longrightarrow> freeHandles wc' = freeHandles wc \<and> freeCount wc' = freeCount wc"
  by (auto simp: FreeStatement_def write_all_def split: prod.splits sum.splits if_splits dest!: wc_flush_pool wc_ReadResponse_pool)

lemma round_trip_pool:
  "run_state (round_trip name fs) wc = (res, wc') \<Longrightarrow> freeHandles wc' = freeHandles wc \<and> freeCount wc' = freeCount wc"
  by (auto simp: round_trip_def write_all_def split: prod.splits sum.splits dest!: wc_flush_pool readResponse_pool)

text \<open>Recycling pushes the handle while there is room, and otherwise leaves the pool as it was.\<close>

lemma RecycleStatement_pool:
  assumes "wf_pool wc" and "run_state (RecycleStatement h hasCursor) wc = (Inr (), wc')"
  shows "wf_pool wc'" and "pooled_handles wc' = (if freeCount wc < maxFreeHandles then pooled_handles wc @ [h] else pooled_handles wc)"
proof -
  obtain x wc1 where 1: "run_state (if hasCursor then FreeStatement h DSQLClose else okE ()) wc = (x, wc1)" by (metis surj_pair)
  have p1: "freeHandles wc1 = freeHandles wc" "freeCount wc1 = freeCount wc"
    using 1 FreeStatement_pool [of h DSQLClose wc] by (auto split: if_splits)
  obtain y wc2 where 2: "run_state (FreeStatement h DSQLDrop) wc1 = (y, wc2)" by (metis surj_pair)
  note p2 = FreeStatement_pool [OF 2]
  have len: "length (freeHandles wc) = maxFreeHandles" "freeCount wc \<le> maxFreeHandles" using assms(1) by (simp_all add: wf_pool_def)
  show "wf_pool wc'"
    using assms 1 2 p1 p2 len by (auto simp: RecycleStatement_def wf_pool_def split: sum.splits if_splits)
  show "pooled_handles wc' = (if freeCount wc < maxFreeHandles then pooled_handles wc @ [h] else pooled_handles wc)"
    using assms 1 2 p1 p2 len
    by (auto simp: RecycleStatement_def pooled_handles_def take_Suc_conv_app_nth split: sum.splits if_splits)
qed

text \<open>A prepare takes the most recently recycled handle, if there is one.\<close>

lemma AllocateAndPrepare_pool:
  assumes "wf_pool wc" and "run_state (AllocateAndPrepareWithItems tx sql n items) wc = ((h, res), wc')"
  shows "wf_pool wc'" and "freeCount wc > 0 \<Longrightarrow> pooled_handles wc' = butlast (pooled_handles wc)"
    and "freeCount wc > 0 \<Longrightarrow> res = Inr data \<Longrightarrow> h = last (pooled_handles wc)"
    and "freeCount wc = 0 \<Longrightarrow> pooled_handles wc' = []"
proof -
  have len: "length (freeHandles wc) = maxFreeHandles" "freeCount wc \<le> maxFreeHandles" using assms(1) by (simp_all add: wf_pool_def)
  have keep: "freeHandles wc' = freeHandles wc" "freeCount wc' = freeCount wc - 1"
    using assms(2)
    by (auto simp: AllocateAndPrepareWithItems_def PrepareStatementWithItems_def write_all_def Let_def split: if_splits prod.splits sum.splits
        dest!: round_trip_pool wc_flush_pool readResponse_pool wc_ReadResponse_pool)
  show "wf_pool wc'" using len keep by (simp add: wf_pool_def)
  show "pooled_handles wc' = butlast (pooled_handles wc)" if "freeCount wc > 0"
    using keep len by (simp add: pooled_handles_def butlast_take)
  show "pooled_handles wc' = []" if "freeCount wc = 0" using keep that by (simp add: pooled_handles_def)
  show "h = last (pooled_handles wc)" if pos: "freeCount wc > 0" and res: "res = Inr data"
  proof -
    have "h = freeHandles wc ! (freeCount wc - 1)"
      using assms(2) pos res by (auto simp: AllocateAndPrepareWithItems_def Let_def split: prod.splits sum.splits)
    then show ?thesis using len pos by (subst last_conv_nth) (auto simp: pooled_handles_def min_def)
  qed
qed

end
