(* ===== verification/Exec.thy ===== *)
theory Exec
  imports WireSync RowDecode
begin

text \<open>
  Execution and fetch (\<^verbatim>\<open>internal/wire/execute.go\<close>).  \<^verbatim>\<open>FetchRowsReuse\<close> keeps the rows of a batch in one backing array
  that it doubles as rows arrive, re-slicing the earlier rows; the model keeps the array, and the rows
  returned are shown to be the rows the server sent, whatever the reused buffer held.
\<close>

section \<open>Requests with raw data\<close>

definition appends :: "unit wop \<Rightarrow> byte list \<Rightarrow> bool" where
  "appends m bs \<longleftrightarrow> (\<forall>wc. wf_writer (wc_writer wc) \<longrightarrow>
     (\<exists>w'. run_state m wc = (Inr (), wc\<lparr>wc_writer := w'\<rparr>) \<and> wf_writer w' \<and> Bytes w' = Bytes (wc_writer wc) @ bs))"

definition version_fields :: "uint32 \<Rightarrow> field list" where
  "version_fields v = (if v \<ge> 16 then [FInt32 0] else []) @ (if v \<ge> 18 then [FInt32 0] else [])"

definition write_params :: "byte list \<Rightarrow> unit wop" where
  "write_params params =
     (if length params > 0 then bindE (write_all [FInt32 1]) (\<lambda>_. write_raw params) else write_all [FInt32 0])"

definition write_version :: "unit wop" where
  "write_version = State (\<lambda>wc. run_state (write_all (version_fields (protocolVersion wc))) wc)"

definition writeExecuteOp :: "int32 \<Rightarrow> int32 \<Rightarrow> byte list \<Rightarrow> byte list \<Rightarrow> unit wop" where
  "writeExecuteOp stmtHandle txHandle blr params =
     bindE (write_all [FInt32 opExecute, FInt32 stmtHandle, FInt32 txHandle, FBuffer blr, FInt32 0]) (\<lambda>_.
     bindE (write_params params) (\<lambda>_. write_version))"

definition Execute :: "int32 \<Rightarrow> int32 \<Rightarrow> byte list \<Rightarrow> byte list \<Rightarrow> unit wop" where
  "Execute stmtHandle txHandle blr params =
     bindE (writeExecuteOp stmtHandle txHandle blr params) (\<lambda>_.
     bindE (mapErr (Wrap ''op_execute: flush'') wc_flush) (\<lambda>_.
     bindE (mapErr (Wrap ''op_execute'') readResponse) (\<lambda>_. okE ())))"

text \<open>Both responses are read before either error is looked at.\<close>

definition ExecuteAndCommitRetaining :: "int32 \<Rightarrow> int32 \<Rightarrow> byte list \<Rightarrow> byte list \<Rightarrow> unit wop" where
  "ExecuteAndCommitRetaining stmtHandle txHandle blr params =
     bindE (writeExecuteOp stmtHandle txHandle blr params) (\<lambda>_.
     bindE (write_all [FInt32 opCommitRetaining, FInt32 txHandle]) (\<lambda>_.
     bindE (mapErr (Wrap ''execute+commit_retaining: flush'') wc_flush) (\<lambda>_.
     tryE readResponse (\<lambda>execRes.
     tryE wc_ReadResponse (\<lambda>commitRes.
       case execRes of
         Inl execErr \<Rightarrow> throwE (Wrap ''execute+commit_retaining: execute'' execErr)
       | Inr _ \<Rightarrow> (case commitRes of
           Inl commitErr \<Rightarrow> throwE (Wrap ''execute+commit_retaining: commit_retaining'' commitErr)
         | Inr _ \<Rightarrow> okE ()))))))"

section \<open>Singleton statements\<close>

definition on_reader :: "(Reader \<Rightarrow> 'a \<times> Reader) \<Rightarrow> (WireConnection, 'a) state" where
  "on_reader m = State (\<lambda>wc. let (x, r') = m (wc_reader wc) in (x, wc\<lparr>wc_reader := r'\<rparr>))"

text \<open>A read followed by the test of the reader's error.\<close>

definition checked :: "string \<Rightarrow> (Reader \<Rightarrow> 'a \<times> Reader) \<Rightarrow> 'a wop" where
  "checked what m = State (\<lambda>wc. let (x, r') = m (wc_reader wc) in
     (case rerr r' of Some e \<Rightarrow> Inl (Wrap what e) | None \<Rightarrow> Inr x, wc\<lparr>wc_reader := r'\<rparr>))"

definition status_result :: "string \<Rightarrow> GenericResponse \<Rightarrow> unit wop" where
  "status_result name resp = (if HasError (Status resp) then throwE (Wrap name (StatusErr (Status resp))) else okE ())"

definition unexpected :: "string \<Rightarrow> int32 \<Rightarrow> string \<Rightarrow> gerr" where
  "unexpected name op expected = Msg (name @ '': unexpected opcode '' @ formatInt (sint op) @ '', expected '' @ expected)"

definition op_text :: "int32 \<Rightarrow> string" where "op_text op = formatInt (sint op)"

text \<open>The messages and the row that \<^verbatim>\<open>op_sql_response\<close> carries.\<close>

definition read_sql_row ::
  "(uint32 \<Rightarrow> location) \<Rightarrow> (string \<Rightarrow> xencoding) \<Rightarrow> ColumnDescriptor list \<Rightarrow> (int32 \<times> gval list) wop" where
  "read_sql_row res xtext outs = State (\<lambda>wc.
     let (msgs, r1) = readSQLResponse (wc_reader wc);
         (decoded, r2) = (if sint msgs > 0
            then (let (d, r2) = DecodeRow res xtext outs (nullBuf wc) (replicate (length outs) VNil) r1 in (d, r2))
            else (Inr [], r1));
         wc' = wc\<lparr>wc_reader := r2\<rparr>
     in case decoded of
          Inl e \<Rightarrow> (Inl (Wrap ''op_execute2: decode row'' e), wc')
        | Inr row \<Rightarrow> (case rerr r2 of
            Some e \<Rightarrow> (Inl (Wrap ''op_execute2: read sql_response'' e), wc')
          | None \<Rightarrow> (Inr (msgs, row), wc')))"

definition Execute2 ::
  "(uint32 \<Rightarrow> location) \<Rightarrow> (string \<Rightarrow> xencoding) \<Rightarrow> int32 \<Rightarrow> int32 \<Rightarrow> byte list \<Rightarrow> byte list \<Rightarrow> byte list
     \<Rightarrow> ColumnDescriptor list \<Rightarrow> (int32 \<times> gval list) wop" where
  "Execute2 res xtext stmtHandle txHandle inBLR params outBLR outs =
     bindE (write_all [FInt32 opExecute2, FInt32 stmtHandle, FInt32 txHandle, FBuffer inBLR, FInt32 0]) (\<lambda>_.
     bindE (write_params params) (\<lambda>_.
     bindE (write_all [FBuffer outBLR, FInt32 0]) (\<lambda>_.
     bindE write_version (\<lambda>_.
     bindE (mapErr (Wrap ''op_execute2: flush'') wc_flush) (\<lambda>_.
     bindE (mapErr (Wrap ''op_execute2: consume deferred'') consumeDeferred) (\<lambda>_.
     bindE (checked ''op_execute2: read opcode'' ReadOpcode) (\<lambda>op.
     if op = opSQLResponse then
       bindE (read_sql_row res xtext outs) (\<lambda>(msgs, row).
       bindE (checked ''op_execute2: read response opcode'' ReadOpcode) (\<lambda>op2.
       if op2 \<noteq> opResponse then throwE (unexpected ''op_execute2'' op2 (''op_response ('' @ op_text opResponse @ '')''))
       else bindE (checked ''op_execute2: read response'' readGenericResponse) (\<lambda>resp.
            bindE (status_result ''op_execute2'' resp) (\<lambda>_. okE (msgs, row)))))
     else if op = opResponse then
       bindE (checked ''op_execute2: read response'' readGenericResponse) (\<lambda>resp.
       bindE (status_result ''op_execute2'' resp) (\<lambda>_. okE (0, [])))
     else throwE (unexpected ''op_execute2'' op (op_text opSQLResponse @ '' or '' @ op_text opResponse)))))))))"

section \<open>Fetch\<close>

definition fetchServerError :: "gerr wop" where
  "fetchServerError = State (\<lambda>wc. let (resp, r') = readGenericResponse (wc_reader wc) in
     (Inr (case rerr r' of
        Some e \<Rightarrow> Wrap ''op_fetch: read error response'' e
      | None \<Rightarrow> if HasError (Status resp) then Wrap ''op_fetch'' (StatusErr (Status resp))
                else Msg ''op_fetch: server returned op_response without error status''),
      wc\<lparr>wc_reader := r'\<rparr>))"

text \<open>The values of a batch: \<open>vals\<close> is the whole backing array (up to its capacity), row \<open>i\<close> the slice
  \<^verbatim>\<open>allValues[i*numCols : (i+1)*numCols]\<close>.\<close>

definition row_slice :: "nat \<Rightarrow> gval list \<Rightarrow> nat \<Rightarrow> gval list" where
  "row_slice numCols vals i = take numCols (drop (i * numCols) vals)"

definition put_row :: "nat \<Rightarrow> nat \<Rightarrow> gval list \<Rightarrow> gval list \<Rightarrow> gval list" where
  "put_row numCols i row vals = take (i * numCols) vals @ row @ drop (i * numCols + numCols) vals"

definition newCapacity :: "nat \<Rightarrow> nat \<Rightarrow> nat \<Rightarrow> nat" where
  "newCapacity maxRows rowCapacity rowIdx =
     (let c1 = (if rowCapacity * 2 = 0 then 1 else rowCapacity * 2);
          c2 = (if maxRows > 0 \<and> c1 > maxRows then maxRows else c1)
      in if c2 \<le> rowIdx then rowIdx + 1 else c2)"

definition grow_values :: "nat \<Rightarrow> nat \<Rightarrow> nat \<Rightarrow> nat \<times> gval list \<Rightarrow> nat \<times> gval list" where
  "grow_values numCols maxRows rowIdx cv = (case cv of (rowCapacity, vals) \<Rightarrow>
     if numCols > 0 \<and> rowIdx \<ge> rowCapacity
     then (let c = newCapacity maxRows rowCapacity rowIdx
           in (c, take (rowIdx * numCols) vals @ replicate (c * numCols - rowIdx * numCols) VNil))
     else (rowCapacity, vals))"

lemma shrinks_DecodeColumn: "shrinks (DecodeColumn res xtext desc)"
  unfolding DecodeColumn_def [abs_def] Let_def ReadUInt32_eq by (intro shrinks_if shrinks_bind shrinks_reads)

lemma shrinks_decode_columns: "shrinks (decode_columns res xtext bitset i descs)"
proof (induction descs arbitrary: i)
  case (Cons d ds)
  show ?case unfolding decode_columns_eq by (intro shrinks_bind shrinks_if shrinks_pure shrinks_DecodeColumn Cons.IH)
qed (simp add: decode_columns_eq shrinks_pure)

lemma shrinks_readFull: "shrinks (readFull buf)"
  unfolding readFull_def [abs_def] Let_def by (intro shrinks_if shrinks_bind shrinks_reads)

lemma shrinks_DecodeRow: "shrinks (DecodeRow res xtext descs nb row)"
  unfolding DecodeRow_def [abs_def] Let_def readNullBitsetInto_def [abs_def]
  by (intro shrinks_if shrinks_pure shrinks_bind shrinks_readFull shrinks_decode_columns) (simp add: shrinks_def)

lemma shrinks_readFetchResponse: "shrinks readFetchResponse"
  unfolding readFetchResponse_def [abs_def] Let_def by (intro shrinks_bind shrinks_reads)

text \<open>The receive loop.  A slice beyond the capacity of the array would be a panic.\<close>

function fetch_loop ::
  "(uint32 \<Rightarrow> location) \<Rightarrow> (string \<Rightarrow> xencoding) \<Rightarrow> ColumnDescriptor list \<Rightarrow> nat \<Rightarrow> nat \<Rightarrow> nat \<times> gval list
     \<Rightarrow> WireConnection \<Rightarrow> (gerr + (nat \<times> gval list \<times> bool)) \<times> WireConnection" where
  "fetch_loop res xtext descs maxRows rowIdx cv wc =
     (let (op, r1) = ReadOpcode (wc_reader wc); wc1 = wc\<lparr>wc_reader := r1\<rparr> in
      case rerr r1 of Some e \<Rightarrow> (Inl (Wrap ''op_fetch: read opcode'' e), wc1)
      | None \<Rightarrow>
        if op \<noteq> opFetchResponse then
          (if op = opResponse then (case run_state fetchServerError wc1 of (Inr e, wc2) \<Rightarrow> (Inl e, wc2) | (Inl e, wc2) \<Rightarrow> (Inl e, wc2))
           else (Inl (unexpected ''op_fetch'' op (op_text opFetchResponse)), wc1))
        else let (resp, r2) = readFetchResponse r1; wc2 = wc\<lparr>wc_reader := r2\<rparr> in
          case rerr r2 of Some e \<Rightarrow> (Inl (Wrap ''op_fetch: read response'' e), wc2)
          | None \<Rightarrow>
            if FetchMessages resp = 0 then (Inr (rowIdx, snd cv, FetchStatus resp = 100), wc2)
            else let numCols = length descs; (cap, vals) = grow_values numCols maxRows rowIdx cv in
              if numCols > 0 \<and> (rowIdx + 1) * numCols > length vals then (Inl slicePanic, wc2)
              else let (decoded, r3) = DecodeRow res xtext descs (nullBuf wc) (row_slice numCols vals rowIdx) r2;
                       wc3 = wc\<lparr>wc_reader := r3\<rparr> in
                case decoded of
                  Inl e \<Rightarrow> (Inl (Wrap ''op_fetch: decode row'' e), wc3)
                | Inr row \<Rightarrow> fetch_loop res xtext descs maxRows (rowIdx + 1) (cap, put_row numCols rowIdx row vals) wc3)"
  by pat_completeness auto
termination
proof (relation "measure (\<lambda>(res, xtext, descs, m, i, cv, wc). pending (wc_reader wc))", goal_cases)
  case (2 res xtext descs maxRows rowIdx cv wc x op r1 wc1 y resp r2 wc2 numCols z cap vals u decoded r3 wc3 row)
  have op: "ReadOpcode (wc_reader wc) = (op, r1)" and r1: "rerr r1 = None" and f: "readFetchResponse r1 = (resp, r2)"
    and d: "DecodeRow res xtext descs (nullBuf wc) (row_slice numCols vals rowIdx) r2 = (decoded, r3)" and wc3: "wc3 = wc\<lparr>wc_reader := r3\<rparr>"
    using 2 by auto
  have "pending r1 < pending (wc_reader wc)" using ReadOpcode_pending [OF op] r1 by simp
  moreover have "pending r2 \<le> pending r1" using shrinksD [OF shrinks_readFetchResponse f] .
  moreover have "pending r3 \<le> pending r2" using shrinksD [OF shrinks_DecodeRow d] .
  ultimately show ?case using wc3 by simp
qed simp

declare fetch_loop.simps [simp del]

definition initial_values :: "nat \<Rightarrow> nat \<Rightarrow> gval list \<Rightarrow> nat \<times> gval list" where
  "initial_values numCols maxRows valuesBuf =
     (let initialRows = min maxRows 8 in
      if numCols = 0 then (maxRows, valuesBuf)
      else let rowCapacity = length valuesBuf div numCols in
        if rowCapacity \<ge> initialRows then (rowCapacity, valuesBuf)
        else (initialRows, replicate (initialRows * numCols) VNil))"

definition FetchRowsReuse ::
  "(uint32 \<Rightarrow> location) \<Rightarrow> (string \<Rightarrow> xencoding) \<Rightarrow> int32 \<Rightarrow> byte list \<Rightarrow> ColumnDescriptor list \<Rightarrow> int32 \<Rightarrow> gval list
     \<Rightarrow> (gval list list \<times> gval list \<times> bool) wop" where
  "FetchRowsReuse res xtext stmtHandle blr descs fetchSize valuesBuf =
     bindE (write_all [FInt32 opFetch, FInt32 stmtHandle, FBuffer blr, FInt32 0, FInt32 fetchSize]) (\<lambda>_.
     bindE (mapErr (Wrap ''op_fetch: flush'') wc_flush) (\<lambda>_.
     bindE (mapErr (Wrap ''op_fetch: consume deferred'') consumeDeferred) (\<lambda>_.
     State (\<lambda>wc.
       let numCols = length descs; maxRows = nat (sint fetchSize) in
       case fetch_loop res xtext descs maxRows 0 (initial_values numCols maxRows valuesBuf) wc of
         (Inl e, wc') \<Rightarrow> (Inl e, wc')
       | (Inr (n, vals, eof), wc') \<Rightarrow> (Inr (map (row_slice numCols vals) [0 ..< n], vals, eof), wc')))))"

section \<open>Accounting\<close>

lemma appends_write_all: "appends (write_all fs) (concat (map field_image fs))"
  unfolding appends_def
proof (intro allI impI)
  fix wc :: WireConnection assume w: "wf_writer (wc_writer wc)"
  show "\<exists>w'. run_state (write_all fs) wc = (Inr (), wc\<lparr>wc_writer := w'\<rparr>) \<and> wf_writer w' \<and> Bytes w' = Bytes (wc_writer wc) @ concat (map field_image fs)"
    using pooled.write_fields_wf [OF w, of fs] pooled.write_fields_content [OF w, of fs]
    by (intro exI [of _ "fold put_field fs (wc_writer wc)"]) (simp add: write_all_def fold_put_field)
qed

lemma appends_write_raw: "appends (write_raw bs) bs"
  unfolding appends_def write_raw_def using WriteRaw_props by auto

lemma appendsE:
  assumes "appends m bs" and "wf_writer (wc_writer wc)"
  obtains w' where "run_state m wc = (Inr (), wc\<lparr>wc_writer := w'\<rparr>)" and "wf_writer w'" and "Bytes w' = Bytes (wc_writer wc) @ bs"
  using assms unfolding appends_def by blast

lemma appends_bind:
  assumes "appends m bs" and "appends m' cs"
  shows "appends (bindE m (\<lambda>_. m')) (bs @ cs)"
  unfolding appends_def
proof (intro allI impI)
  fix wc :: WireConnection assume w: "wf_writer (wc_writer wc)"
  obtain w1 where 1: "run_state m wc = (Inr (), wc\<lparr>wc_writer := w1\<rparr>)" "wf_writer w1" "Bytes w1 = Bytes (wc_writer wc) @ bs"
    by (rule appendsE [OF assms(1) w])
  then have "wf_writer (wc_writer (wc\<lparr>wc_writer := w1\<rparr>))" by simp
  from appendsE [OF assms(2) this] obtain w2 where
    "run_state m' (wc\<lparr>wc_writer := w1\<rparr>) = (Inr (), wc\<lparr>wc_writer := w1, wc_writer := w2\<rparr>)" "wf_writer w2"
    "Bytes w2 = Bytes (wc_writer (wc\<lparr>wc_writer := w1\<rparr>)) @ cs" .
  then show "\<exists>w'. run_state (bindE m (\<lambda>_. m')) wc = (Inr (), wc\<lparr>wc_writer := w'\<rparr>) \<and> wf_writer w' \<and> Bytes w' = Bytes (wc_writer wc) @ bs @ cs"
    using 1 by (intro exI [of _ w2]) simp
qed

lemma appends_params: "\<exists>bs. appends (write_params params) bs"
  unfolding write_params_def using appends_bind [OF appends_write_all appends_write_raw] appends_write_all by auto

lemma writes_version: "wf_writer (wc_writer wc) \<Longrightarrow>
  \<exists>w'. run_state write_version wc = (Inr (), wc\<lparr>wc_writer := w'\<rparr>) \<and> wf_writer w'"
  using appends_write_all [of "version_fields (protocolVersion wc)"] by (auto simp: write_version_def appends_def)

lemma writes_execute:
  assumes "wf_writer (wc_writer wc)"
  shows "\<exists>w'. run_state (writeExecuteOp h t blr params) wc = (Inr (), wc\<lparr>wc_writer := w'\<rparr>) \<and> wf_writer w'"
proof -
  let ?fs = "[FInt32 opExecute, FInt32 h, FInt32 t, FBuffer blr, FInt32 0]"
  obtain bs where bs: "appends (write_params params) bs" using appends_params by blast
  obtain w1 where 1: "run_state (bindE (write_all ?fs) (\<lambda>_. write_params params)) wc = (Inr (), wc\<lparr>wc_writer := w1\<rparr>)" "wf_writer w1"
    by (rule appendsE [OF appends_bind [OF appends_write_all bs] assms])
  obtain w3 where 3: "run_state write_version (wc\<lparr>wc_writer := w1\<rparr>) = (Inr (), wc\<lparr>wc_writer := w3\<rparr>)" "wf_writer w3"
    using writes_version [of "wc\<lparr>wc_writer := w1\<rparr>"] 1(2) by auto
  show ?thesis using 1 3 by (auto simp: writeExecuteOp_def split: prod.splits sum.splits)
qed

lemma flush_written:
  assumes "serves wc rs zs" and "wf_writer w"
  obtains wc' where "run_state wc_flush (wc\<lparr>wc_writer := w\<rparr>) = (Inr (), wc')" and "serves wc' rs zs" and "deferredCount wc' = deferredCount wc"
proof -
  have "rx_ready (wc\<lparr>wc_writer := w\<rparr>) rs zs" using assms(1) by (simp add: serves_def rx_ready_def)
  moreover have "wf_writer (wc_writer (wc\<lparr>wc_writer := w\<rparr>))" using assms(2) by simp
  ultimately obtain wc' where "run_state wc_flush (wc\<lparr>wc_writer := w\<rparr>) = (Inr (), wc')" "serves wc' rs zs"
    "deferredCount wc' = deferredCount (wc\<lparr>wc_writer := w\<rparr>)" by (rule wc_flush_ready)
  then show ?thesis using that by simp
qed

lemma accounts_after_flush:
  assumes "\<And>wc. wf_writer (wc_writer wc) \<Longrightarrow> \<exists>w'. run_state m wc = (Inr (), wc\<lparr>wc_writer := w'\<rparr>) \<and> wf_writer w'"
    and "accounts q k"
  shows "accounts q (bindE m (\<lambda>_. bindE (mapErr f wc_flush) (\<lambda>_. k)))"
proof (rule accountsI)
  fix wc rs zs assume s: "serves wc rs zs" "deferredCount wc + q \<le> length rs"
  then have "wf_writer (wc_writer wc)" by (simp add: serves_def)
  from assms(1) [OF this] obtain w' where w': "run_state m wc = (Inr (), wc\<lparr>wc_writer := w'\<rparr>)" "wf_writer w'" by blast
  obtain wc1 where 1: "run_state wc_flush (wc\<lparr>wc_writer := w'\<rparr>) = (Inr (), wc1)" "serves wc1 rs zs" "deferredCount wc1 = deferredCount wc"
    by (rule flush_written [OF s(1) w'(2)])
  have "deferredCount wc1 + q \<le> length rs" using s(2) 1(3) by simp
  from accountsD [OF assms(2) 1(2) this] obtain res wc2 c where
    "run_state k wc1 = (res, wc2)" "serves wc2 (drop c rs) zs" "deferredCount wc2 + c = deferredCount wc1 + q" .
  then show "\<exists>res wc' c. run_state (bindE m (\<lambda>_. bindE (mapErr f wc_flush) (\<lambda>_. k))) wc = (res, wc') \<and> serves wc' (drop c rs) zs
      \<and> deferredCount wc' + c = deferredCount wc + q"
    using w' 1 by auto
qed

lemma accounts_Execute: "accounts 1 (Execute h t blr params)"
  unfolding Execute_def
  by (intro accounts_after_flush writes_execute accounts_then_pure accounts_mapErr accounts_readResponse)

lemma bindE_assoc: "bindE (bindE m k) l = bindE m (\<lambda>x. bindE (k x) l)"
  by (rule state.expand) (auto simp: fun_eq_iff split: prod.split sum.split)

lemma writes_execute_commit:
  assumes "wf_writer (wc_writer wc)"
  shows "\<exists>w'. run_state (bindE (writeExecuteOp h t blr params) (\<lambda>_. write_all fs)) wc = (Inr (), wc\<lparr>wc_writer := w'\<rparr>) \<and> wf_writer w'"
proof -
  obtain w1 where "run_state (writeExecuteOp h t blr params) wc = (Inr (), wc\<lparr>wc_writer := w1\<rparr>)" "wf_writer w1"
    using writes_execute [OF assms] by blast
  moreover from this have "wf_writer (wc_writer (wc\<lparr>wc_writer := w1\<rparr>))" by simp
  from appendsE [OF appends_write_all [of fs] this] obtain w2 where
    "run_state (write_all fs) (wc\<lparr>wc_writer := w1\<rparr>) = (Inr (), wc\<lparr>wc_writer := w1, wc_writer := w2\<rparr>)" "wf_writer w2" by blast
  ultimately show ?thesis by auto
qed

text \<open>The batched execute and commit consumes both responses on every path.\<close>

lemma accounts_ExecuteAndCommitRetaining: "accounts 2 (ExecuteAndCommitRetaining h t blr params)"
proof -
  have k: "accounts 0 (case execRes of
         Inl execErr \<Rightarrow> throwE (Wrap ''execute+commit_retaining: execute'' execErr)
       | Inr _ \<Rightarrow> (case commitRes of
           Inl commitErr \<Rightarrow> throwE (Wrap ''execute+commit_retaining: commit_retaining'' commitErr)
         | Inr _ \<Rightarrow> okE ()))" for execRes :: "gerr + GenericResponse" and commitRes :: "gerr + GenericResponse"
    by (simp add: accounts_ok accounts_throw split: sum.split)
  have "accounts (1 + (1 + 0)) (tryE readResponse (\<lambda>execRes. tryE wc_ReadResponse (\<lambda>commitRes.
      case execRes of
         Inl execErr \<Rightarrow> throwE (Wrap ''execute+commit_retaining: execute'' execErr)
       | Inr _ \<Rightarrow> (case commitRes of
           Inl commitErr \<Rightarrow> throwE (Wrap ''execute+commit_retaining: commit_retaining'' commitErr)
         | Inr _ \<Rightarrow> okE ()))))"
    by (intro accounts_try accounts_readResponse accounts_wc_ReadResponse k)
  then have "accounts 2 (tryE readResponse (\<lambda>execRes. tryE wc_ReadResponse (\<lambda>commitRes.
      case execRes of
         Inl execErr \<Rightarrow> throwE (Wrap ''execute+commit_retaining: execute'' execErr)
       | Inr _ \<Rightarrow> (case commitRes of
           Inl commitErr \<Rightarrow> throwE (Wrap ''execute+commit_retaining: commit_retaining'' commitErr)
         | Inr _ \<Rightarrow> okE ()))))" by (simp add: numeral_2_eq_2)
  from accounts_after_flush [OF writes_execute_commit this] show ?thesis
    unfolding ExecuteAndCommitRetaining_def by (simp add: bindE_assoc)
qed

section \<open>What a batch delivers\<close>

definition fetch_row_image :: "ColumnDescriptor list \<Rightarrow> cell option list \<Rightarrow> byte list" where
  "fetch_row_image descs cells = putUint32 opFetchResponse @ putUint32 0 @ putUint32 1 @ row_image descs cells"

definition fetch_image :: "ColumnDescriptor list \<Rightarrow> cell option list list \<Rightarrow> int32 \<Rightarrow> byte list" where
  "fetch_image descs rows status =
     concat (map (fetch_row_image descs) rows) @ putUint32 opFetchResponse @ putUint32 status @ putUint32 0"

lemma length_put_row: "length row = n \<Longrightarrow> (i + 1) * n \<le> length vals \<Longrightarrow> length (put_row n i row vals) = length vals"
  by (simp add: put_row_def)

lemma row_slice_put_row:
  assumes "length row = n" and "(i + 1) * n \<le> length vals"
  shows "row_slice n (put_row n i row vals) j = (if j = i then row else row_slice n vals j)"
proof -
  have le: "i * n \<le> length vals" using assms(2) by (simp add: algebra_simps)
  consider "j < i" | "j = i" | "j > i" by linarith
  then show ?thesis
  proof cases
    case 1
    then have "j * n + n \<le> i * n" using mult_le_mono1 [of "Suc j" i n] by simp
    then have "take n (drop (j * n) (take (i * n) vals @ row @ drop (i * n + n) vals)) = take n (drop (j * n) (take (i * n) vals))"
      using le by simp
    also have "\<dots> = take n (drop (j * n) vals)" using \<open>j * n + n \<le> i * n\<close> by (simp add: drop_take min_def)
    finally show ?thesis using 1 by (simp add: row_slice_def put_row_def)
  next
    case 2
    then show ?thesis using assms(1) le by (simp add: row_slice_def put_row_def)
  next
    case 3
    then have "i * n + n \<le> j * n" using mult_le_mono1 [of "Suc i" j n] by simp
    then show ?thesis using 3 assms(1) le by (simp add: row_slice_def put_row_def algebra_simps)
  qed
qed

text \<open>The array holds the rows that the capacity promises.\<close>

definition values_ok :: "nat \<Rightarrow> nat \<times> gval list \<Rightarrow> bool" where
  "values_ok n cv \<longleftrightarrow> fst cv * n \<le> length (snd cv)"

lemma values_ok_initial: "values_ok n (initial_values n maxRows buf) \<or> n = 0"
  by (auto simp: values_ok_def initial_values_def Let_def)

lemma grow_values_ok:
  assumes "values_ok n cv \<or> n = 0" and "grow_values n maxRows i cv = (cap, vals)" and "i * n \<le> length (snd cv)"
  shows "values_ok n (cap, vals) \<or> n = 0" and "n > 0 \<Longrightarrow> (i + 1) * n \<le> length vals" and "j < i \<Longrightarrow> row_slice n vals j = row_slice n (snd cv) j"
proof -
  obtain c v where cv: "cv = (c, v)" by (cases cv)
  define c' where "c' = newCapacity maxRows c i"
  have c': "i + 1 \<le> c'" by (auto simp: c'_def newCapacity_def Let_def)
  then have m: "i * n + n \<le> c' * n" using mult_le_mono1 [of "Suc i" c' n] by simp
  show "values_ok n (cap, vals) \<or> n = 0"
    using assms m by (auto simp: grow_values_def cv values_ok_def c'_def [symmetric] Let_def split: if_splits)
  show "(i + 1) * n \<le> length vals" if "n > 0"
  proof (cases "i \<ge> c")
    case True
    then show ?thesis using assms(2,3) m that by (auto simp: grow_values_def cv c'_def [symmetric] Let_def)
  next
    case False
    then have "(i + 1) * n \<le> c * n" using mult_le_mono1 [of "Suc i" c n] by simp
    then show ?thesis using assms(1,2) that False by (auto simp: grow_values_def cv values_ok_def)
  qed
  show "row_slice n vals j = row_slice n (snd cv) j" if "j < i"
  proof -
    have "j * n + n \<le> i * n" using mult_le_mono1 [of "Suc j" i n] that by simp
    then show ?thesis
      using assms(2,3) by (auto simp: grow_values_def cv Let_def row_slice_def drop_take min_def split: if_splits)
  qed
qed

text \<open>One row of the batch, from the header of the response to the row in its place in the array.\<close>

lemma fetch_header:
  assumes "wf_reader r" and "rerr r = None" and "stream r = putUint32 opFetchResponse @ putUint32 st @ putUint32 m @ zs"
  obtains r1 r2 where "ReadOpcode r = (opFetchResponse, r1)" and "rerr r1 = None"
    and "readFetchResponse r1 = (\<lparr>FetchStatus = st, FetchMessages = m\<rparr>, r2)"
    and "wf_reader r2" and "rerr r2 = None" and "stream r2 = zs" and "outside r2 = outside r"
proof -
  have "opFetchResponse \<noteq> opDummy" by simp
  from readsD [OF reads_ReadOpcode_plain [OF this] assms] obtain r1 where
    1: "ReadOpcode r = (opFetchResponse, r1)" "wf_reader r1" "rerr r1 = None" "stream r1 = (putUint32 st @ putUint32 m) @ zs" "outside r1 = outside r"
    by (metis append.assoc)
  from readsD [OF reads_readFetchResponse this(2-4)] obtain r2 where
    "readFetchResponse r1 = (\<lparr>FetchStatus = st, FetchMessages = m\<rparr>, r2)" "wf_reader r2" "rerr r2 = None" "stream r2 = zs" "outside r2 = outside r1" .
  with 1 show ?thesis using that by simp
qed

lemma row_slice_length: "n = 0 \<or> (i + 1) * n \<le> length vals \<Longrightarrow> length (row_slice n vals i) = n"
  by (auto simp: row_slice_def)

lemma fetch_loop_row:
  assumes "wf_reader (wc_reader wc)" and "rerr (wc_reader wc) = None" and "stream (wc_reader wc) = fetch_row_image descs cells @ zs"
    and "row_ok descs cells" and "values_ok (length descs) (cap, vals) \<or> length descs = 0" and "i * length descs \<le> length vals"
  obtains r' cap' vals' where
    "fetch_loop res xtext descs maxRows i (cap, vals) wc = fetch_loop res xtext descs maxRows (i + 1) (cap', vals') (wc\<lparr>wc_reader := r'\<rparr>)"
    and "wf_reader r'" and "rerr r' = None" and "stream r' = zs" and "outside r' = outside (wc_reader wc)"
    and "values_ok (length descs) (cap', vals') \<or> length descs = 0" and "(i + 1) * length descs \<le> length vals'"
    and "row_slice (length descs) vals' i = row_value res xtext descs cells"
    and "\<And>j. j < i \<Longrightarrow> row_slice (length descs) vals' j = row_slice (length descs) vals j"
proof -
  let ?n = "length descs"
  have "stream (wc_reader wc) = putUint32 opFetchResponse @ putUint32 0 @ putUint32 1 @ row_image descs cells @ zs"
    using assms(3) by (simp add: fetch_row_image_def)
  from fetch_header [OF assms(1,2) this] obtain r1 r2 where
    h: "ReadOpcode (wc_reader wc) = (opFetchResponse, r1)" "rerr r1 = None" "readFetchResponse r1 = (\<lparr>FetchStatus = 0, FetchMessages = 1\<rparr>, r2)"
    "wf_reader r2" "rerr r2 = None" "stream r2 = row_image descs cells @ zs" "outside r2 = outside (wc_reader wc)" .
  obtain c v where g: "grow_values ?n maxRows i (cap, vals) = (c, v)" by (metis surj_pair)
  have gv: "values_ok ?n (c, v) \<or> ?n = 0" "?n > 0 \<Longrightarrow> (i + 1) * ?n \<le> length v"
    "\<And>j. j < i \<Longrightarrow> row_slice ?n v j = row_slice ?n vals j"
    using grow_values_ok [OF assms(5) g] assms(6) by simp_all
  have fit: "(i + 1) * ?n \<le> length v" using gv(2) by (cases "?n = 0") auto
  have len: "length (row_slice ?n v i) = ?n" using fit by (simp add: row_slice_length)
  from reads_DecodeRow [OF assms(4), of "row_slice ?n v i" res xtext "nullBuf wc"] len
  have "reads (DecodeRow res xtext descs (nullBuf wc) (row_slice ?n v i)) (row_image descs cells) (Inr (row_value res xtext descs cells))"
    by simp
  from readsD [OF this h(4-6)] obtain r3 where
    d: "DecodeRow res xtext descs (nullBuf wc) (row_slice ?n v i) r2 = (Inr (row_value res xtext descs cells), r3)"
    "wf_reader r3" "rerr r3 = None" "stream r3 = zs" "outside r3 = outside r2" .
  have rl: "length (row_value res xtext descs cells) = ?n"
    using assms(4) by (simp add: row_ok_def row_value_def list_all2_lengthD)
  let ?v = "put_row ?n i (row_value res xtext descs cells) v"
  have step: "fetch_loop res xtext descs maxRows i (cap, vals) wc = fetch_loop res xtext descs maxRows (i + 1) (c, ?v) (wc\<lparr>wc_reader := r3\<rparr>)"
    using h d(1) g fit by (subst fetch_loop.simps) (simp add: Let_def not_less)
  have "values_ok ?n (c, ?v) \<or> ?n = 0" using gv(1) length_put_row [OF rl fit] by (simp add: values_ok_def)
  moreover have "(i + 1) * ?n \<le> length ?v" using length_put_row [OF rl fit] fit by simp
  moreover note sl = row_slice_put_row [OF rl fit]
  ultimately show ?thesis
    using that [OF step d(2-4)] d(5) h(7) gv(3) by simp
qed

lemma fetch_loop_end:
  assumes "wf_reader (wc_reader wc)" and "rerr (wc_reader wc) = None"
    and "stream (wc_reader wc) = putUint32 opFetchResponse @ putUint32 st @ putUint32 0 @ zs"
  obtains r' where "fetch_loop res xtext descs maxRows i cv wc = (Inr (i, snd cv, st = 100), wc\<lparr>wc_reader := r'\<rparr>)"
    and "wf_reader r'" and "rerr r' = None" and "stream r' = zs" and "outside r' = outside (wc_reader wc)"
proof -
  from fetch_header [OF assms] obtain r1 r2 where
    h: "ReadOpcode (wc_reader wc) = (opFetchResponse, r1)" "rerr r1 = None" "readFetchResponse r1 = (\<lparr>FetchStatus = st, FetchMessages = 0\<rparr>, r2)"
    "wf_reader r2" "rerr r2 = None" "stream r2 = zs" "outside r2 = outside (wc_reader wc)" .
  then have "fetch_loop res xtext descs maxRows i cv wc = (Inr (i, snd cv, st = 100), wc\<lparr>wc_reader := r2\<rparr>)"
    by (subst fetch_loop.simps) simp
  with h show ?thesis using that by blast
qed

text \<open>The loop returns every row of the batch in its place and keeps the rows it had.\<close>

lemma fetch_loop_batch:
  assumes "wf_reader (wc_reader wc)" and "rerr (wc_reader wc) = None" and "stream (wc_reader wc) = fetch_image descs rows st @ zs"
    and "list_all (row_ok descs) rows" and "values_ok (length descs) cv \<or> length descs = 0" and "i * length descs \<le> length (snd cv)"
  shows "\<exists>vals' r'. fetch_loop res xtext descs maxRows i cv wc = (Inr (i + length rows, vals', st = 100), wc\<lparr>wc_reader := r'\<rparr>)
     \<and> wf_reader r' \<and> rerr r' = None \<and> stream r' = zs \<and> outside r' = outside (wc_reader wc)
     \<and> map (row_slice (length descs) vals') [0 ..< i + length rows]
       = map (row_slice (length descs) (snd cv)) [0 ..< i] @ map (row_value res xtext descs) rows"
  using assms
proof (induction rows arbitrary: i cv wc)
  case Nil
  then have "stream (wc_reader wc) = putUint32 opFetchResponse @ putUint32 st @ putUint32 0 @ zs" by (simp add: fetch_image_def)
  from fetch_loop_end [OF Nil.prems(1,2) this] obtain r' where
    "fetch_loop res xtext descs maxRows i cv wc = (Inr (i, snd cv, st = 100), wc\<lparr>wc_reader := r'\<rparr>)"
    "wf_reader r'" "rerr r' = None" "stream r' = zs" "outside r' = outside (wc_reader wc)" .
  then show ?case by (intro exI [of _ "snd cv"] exI [of _ r']) simp
next
  case (Cons cells rows)
  let ?n = "length descs"
  obtain cap vals where cv: "cv = (cap, vals)" by (cases cv)
  have "stream (wc_reader wc) = fetch_row_image descs cells @ (fetch_image descs rows st @ zs)" using Cons.prems(3) by (simp add: fetch_image_def)
  moreover have "row_ok descs cells" using Cons.prems(4) by simp
  moreover have "values_ok ?n (cap, vals) \<or> ?n = 0" "i * ?n \<le> length vals" using Cons.prems(5,6) cv by simp_all
  ultimately obtain r1 c' v' where
    1: "fetch_loop res xtext descs maxRows i (cap, vals) wc = fetch_loop res xtext descs maxRows (i + 1) (c', v') (wc\<lparr>wc_reader := r1\<rparr>)"
    "wf_reader r1" "rerr r1 = None" "stream r1 = fetch_image descs rows st @ zs" "outside r1 = outside (wc_reader wc)"
    "values_ok ?n (c', v') \<or> ?n = 0" "(i + 1) * ?n \<le> length v'"
    "row_slice ?n v' i = row_value res xtext descs cells" "\<And>j. j < i \<Longrightarrow> row_slice ?n v' j = row_slice ?n vals j"
    by (rule fetch_loop_row [OF Cons.prems(1,2)]) blast
  from Cons.IH [of "wc\<lparr>wc_reader := r1\<rparr>" "(c', v')" "i + 1"] Cons.prems(4) 1(2-4,6,7) obtain vals' r' where
    2: "fetch_loop res xtext descs maxRows (i + 1) (c', v') (wc\<lparr>wc_reader := r1\<rparr>) = (Inr (i + 1 + length rows, vals', st = 100), wc\<lparr>wc_reader := r'\<rparr>)"
    "wf_reader r'" "rerr r' = None" "stream r' = zs" "outside r' = outside r1"
    "map (row_slice ?n vals') [0 ..< i + 1 + length rows] = map (row_slice ?n v') [0 ..< i + 1] @ map (row_value res xtext descs) rows"
    by auto
  have "map (row_slice ?n v') [0 ..< i + 1] = map (row_slice ?n vals) [0 ..< i] @ [row_value res xtext descs cells]"
    using 1(8,9) by simp
  then have "map (row_slice ?n vals') [0 ..< i + length (cells # rows)] = map (row_slice ?n (snd cv)) [0 ..< i] @ map (row_value res xtext descs) (cells # rows)"
    using 2(6) cv by (simp del: upt_Suc)
  then show ?case using 1(1,5) 2 cv by (intro exI [of _ vals'] exI [of _ r']) (simp del: upt_Suc)
qed

lemma consume_loop_clean:
  assumes "serves wc (os @ rs) zs" and "list_all (\<lambda>x. snd (resp_result x) = None) os"
  shows "\<exists>r'. consume_loop (length os) (wc_reader wc) = (None, 0, r') \<and> serves (wc\<lparr>wc_reader := r'\<rparr>) rs zs"
  using assms
proof (induction os arbitrary: wc)
  case Nil
  then show ?case by (intro exI [of _ "wc_reader wc"]) simp
next
  case (Cons x os)
  from Cons.prems(1) have "serves wc (x # (os @ rs)) zs" by simp
  then obtain r1 where 1: "ReadResponse (wc_reader wc) = (resp_result x, r1)" "serves (wc\<lparr>wc_reader := r1\<rparr>) (os @ rs) zs" by (rule serves_read)
  from Cons.IH [OF this(2)] Cons.prems(2) obtain r' where
    "consume_loop (length os) r1 = (None, 0, r')" "serves (wc\<lparr>wc_reader := r'\<rparr>) rs zs" by auto
  then show ?case using 1 Cons.prems(2) by (cases "resp_result x") (auto intro: exI [of _ r'])
qed

lemma consumeDeferred_clean:
  assumes "serves wc (os @ rs) zs" and "deferredCount wc = length os" and "list_all (\<lambda>x. snd (resp_result x) = None) os"
  obtains wc' where "run_state consumeDeferred wc = (Inr (), wc')" and "serves wc' rs zs" and "deferredCount wc' = 0"
    and "nullBuf wc' = nullBuf wc"
proof -
  obtain r' where r': "consume_loop (length os) (wc_reader wc) = (None, 0, r')" "serves (wc\<lparr>wc_reader := r'\<rparr>) rs zs"
    using consume_loop_clean [OF assms(1,3)] by blast
  let ?wc = "wc\<lparr>wc_reader := r', deferredCount := 0\<rparr>"
  have "run_state consumeDeferred wc = (Inr (), ?wc)" using r'(1) assms(2) by (simp add: consumeDeferred_def)
  moreover have "serves ?wc rs zs" using r'(2) by (simp add: serves_deferred)
  ultimately show ?thesis by (intro that [of ?wc]) simp_all
qed

text \<open>A statement error in the middle of a batch arrives as a generic response in the place of a row: it is returned as
  the error of the fetch, and the response is read to its end.\<close>

definition fetch_error_image :: "ColumnDescriptor list \<Rightarrow> cell option list list \<Rightarrow> srv_resp \<Rightarrow> byte list" where
  "fetch_error_image descs rows bad = concat (map (fetch_row_image descs) rows) @ enc_resp bad"

lemma fetch_loop_refused:
  assumes "wf_reader (wc_reader wc)" and "rerr (wc_reader wc) = None" and "stream (wc_reader wc) = enc_resp bad @ zs"
    and "resp_ok bad" and "snd (resp_result bad) = Some e"
  obtains r' where "fetch_loop res xtext descs maxRows i cv wc = (Inl (Wrap ''op_fetch'' e), wc\<lparr>wc_reader := r'\<rparr>)"
    and "wf_reader r'" and "rerr r' = None" and "stream r' = zs" and "outside r' = outside (wc_reader wc)"
proof -
  obtain h b d ws where bad: "bad = (h, b, d, ws)" by (cases bad)
  have ok: "length d \<le> maxWireBufferLen" "list_all entry_ok ws" using assms(4) bad by simp_all
  have "opResponse \<noteq> opDummy" by simp
  moreover have "stream (wc_reader wc) = putUint32 opResponse @ (putUint32 h @ putUint64 b @ xdr_buffer d @ enc_status ws) @ zs"
    using assms(3) bad by (simp add: enc_response_def)
  ultimately obtain r1 where 1: "ReadOpcode (wc_reader wc) = (opResponse, r1)" "wf_reader r1" "rerr r1 = None"
    "stream r1 = (putUint32 h @ putUint64 b @ xdr_buffer d @ enc_status ws) @ zs" "outside r1 = outside (wc_reader wc)"
    using readsD [OF reads_ReadOpcode_plain assms(1,2)] by metis
  from readsD [OF reads_readGenericResponse [OF ok] 1(2-4)] obtain r2 where
    2: "readGenericResponse r1 = (response_value h b d ws, r2)" "wf_reader r2" "rerr r2 = None" "stream r2 = zs" "outside r2 = outside r1" .
  have e: "e = StatusErr (status_value ws)" "HasError (status_value ws)"
    using assms(5) bad HasError_status_value [OF ok(2)] by (auto simp: response_error_def split: if_splits)
  have "fetch_loop res xtext descs maxRows i cv wc = (Inl (Wrap ''op_fetch'' e), wc\<lparr>wc_reader := r2\<rparr>)"
    using 1 2 e by (subst fetch_loop.simps) (simp add: fetchServerError_def response_value_def)
  with 1 2 show ?thesis using that by simp
qed

lemma fetch_loop_error:
  assumes "wf_reader (wc_reader wc)" and "rerr (wc_reader wc) = None" and "stream (wc_reader wc) = fetch_error_image descs rows bad @ zs"
    and "list_all (row_ok descs) rows" and "values_ok (length descs) cv \<or> length descs = 0" and "i * length descs \<le> length (snd cv)"
    and "resp_ok bad" and "snd (resp_result bad) = Some e"
  shows "\<exists>r'. fetch_loop res xtext descs maxRows i cv wc = (Inl (Wrap ''op_fetch'' e), wc\<lparr>wc_reader := r'\<rparr>)
     \<and> wf_reader r' \<and> rerr r' = None \<and> stream r' = zs \<and> outside r' = outside (wc_reader wc)"
  using assms(1-6)
proof (induction rows arbitrary: i cv wc)
  case Nil
  then have "stream (wc_reader wc) = enc_resp bad @ zs" by (simp add: fetch_error_image_def)
  from fetch_loop_refused [OF Nil.prems(1,2) this assms(7,8)] obtain r' where
    "fetch_loop res xtext descs maxRows i cv wc = (Inl (Wrap ''op_fetch'' e), wc\<lparr>wc_reader := r'\<rparr>)"
    "wf_reader r'" "rerr r' = None" "stream r' = zs" "outside r' = outside (wc_reader wc)" .
  then show ?case by (intro exI [of _ r']) simp
next
  case (Cons cells rows)
  let ?n = "length descs"
  obtain cap vals where cv: "cv = (cap, vals)" by (cases cv)
  have "stream (wc_reader wc) = fetch_row_image descs cells @ (fetch_error_image descs rows bad @ zs)"
    using Cons.prems(3) by (simp add: fetch_error_image_def)
  moreover have "row_ok descs cells" "values_ok ?n (cap, vals) \<or> ?n = 0" "i * ?n \<le> length vals"
    using Cons.prems(4-6) cv by simp_all
  ultimately obtain r1 c' v' where
    1: "fetch_loop res xtext descs maxRows i (cap, vals) wc = fetch_loop res xtext descs maxRows (i + 1) (c', v') (wc\<lparr>wc_reader := r1\<rparr>)"
    "wf_reader r1" "rerr r1 = None" "stream r1 = fetch_error_image descs rows bad @ zs" "outside r1 = outside (wc_reader wc)"
    "values_ok ?n (c', v') \<or> ?n = 0" "(i + 1) * ?n \<le> length v'"
    by (rule fetch_loop_row [OF Cons.prems(1,2)]) blast
  from Cons.IH [of "wc\<lparr>wc_reader := r1\<rparr>" "(c', v')" "i + 1"] Cons.prems(4) 1(2-4,6,7) obtain r' where
    "fetch_loop res xtext descs maxRows (i + 1) (c', v') (wc\<lparr>wc_reader := r1\<rparr>) = (Inl (Wrap ''op_fetch'' e), wc\<lparr>wc_reader := r'\<rparr>)"
    "wf_reader r'" "rerr r' = None" "stream r' = zs" "outside r' = outside r1"
    by auto
  then show ?case using 1(1,5) cv by (intro exI [of _ r']) simp
qed

text \<open>A fetch up to the point where its own responses are read.\<close>

lemma fetch_prologue:
  assumes "serves wc os zs" and "deferredCount wc = length os" and "list_all (\<lambda>x. snd (resp_result x) = None) os"
  obtains wc' where "serves wc' [] zs" and "deferredCount wc' = 0"
    and "run_state (FetchRowsReuse res xtext h blr descs fetchSize buf) wc =
      (let numCols = length descs; maxRows = nat (sint fetchSize) in
       case fetch_loop res xtext descs maxRows 0 (initial_values numCols maxRows buf) wc' of
         (Inl e, wc'') \<Rightarrow> (Inl e, wc'')
       | (Inr (n, vals, eof), wc'') \<Rightarrow> (Inr (map (row_slice numCols vals) [0 ..< n], vals, eof), wc''))"
proof -
  let ?fs = "[FInt32 opFetch, FInt32 h, FBuffer blr, FInt32 0, FInt32 fetchSize]"
  obtain wc1 where 1: "run_state (bindE (write_all ?fs) (\<lambda>_. wc_flush)) wc = (Inr (), wc1)"
    "serves wc1 os zs" "deferredCount wc1 = deferredCount wc"
    using send_ready [OF assms(1), of ?fs] by metis
  have f: "run_state wc_flush (wc\<lparr>wc_writer := fold put_field ?fs (wc_writer wc)\<rparr>) = (Inr (), wc1)" using 1(1) by (simp add: write_all_def)
  have "serves wc1 (os @ []) zs" "deferredCount wc1 = length os" using 1 assms(2) by simp_all
  from consumeDeferred_clean [OF this assms(3)] obtain wc2 where
    2: "run_state consumeDeferred wc1 = (Inr (), wc2)" "serves wc2 [] zs" "deferredCount wc2 = 0" .
  show ?thesis by (rule that [OF 2(2,3)]) (use f 2(1) in \<open>simp add: FetchRowsReuse_def write_all_def\<close>)
qed

lemma serves_after:
  assumes "serves wc [] ys" and "wf_reader r'" "rerr r' = None" "stream r' = zs" "outside r' = outside (wc_reader wc)"
  shows "serves (wc\<lparr>wc_reader := r'\<rparr>) [] zs"
  using assms by (auto simp: serves_def rx_ready_def outside_def)

lemma FetchRowsReuse_error:
  assumes "serves wc os (fetch_error_image descs rows bad @ zs)" and "deferredCount wc = length os"
    and "list_all (\<lambda>x. snd (resp_result x) = None) os" and "list_all (row_ok descs) rows"
    and "resp_ok bad" and "snd (resp_result bad) = Some e"
  shows "\<exists>wc'. run_state (FetchRowsReuse res xtext h blr descs fetchSize buf) wc = (Inl (Wrap ''op_fetch'' e), wc')
     \<and> serves wc' [] zs \<and> deferredCount wc' = 0"
proof -
  let ?n = "length descs" and ?m = "nat (sint fetchSize)"
  obtain wc2 where 2: "serves wc2 [] (fetch_error_image descs rows bad @ zs)" "deferredCount wc2 = 0"
    "run_state (FetchRowsReuse res xtext h blr descs fetchSize buf) wc =
      (let numCols = length descs; maxRows = nat (sint fetchSize) in
       case fetch_loop res xtext descs maxRows 0 (initial_values numCols maxRows buf) wc2 of
         (Inl e, wc'') \<Rightarrow> (Inl e, wc'')
       | (Inr (n, vals, eof), wc'') \<Rightarrow> (Inr (map (row_slice numCols vals) [0 ..< n], vals, eof), wc''))"
    by (rule fetch_prologue [OF assms(1-3)])
  have rx: "wf_reader (wc_reader wc2)" "rerr (wc_reader wc2) = None" "stream (wc_reader wc2) = fetch_error_image descs rows bad @ zs"
    using 2(1) by (simp_all add: serves_def rx_ready_def)
  from fetch_loop_error [OF rx assms(4) values_ok_initial [of _ ?m buf] _ assms(5,6), of 0 res xtext ?m] obtain r' where
    3: "fetch_loop res xtext descs ?m 0 (initial_values ?n ?m buf) wc2 = (Inl (Wrap ''op_fetch'' e), wc2\<lparr>wc_reader := r'\<rparr>)"
    "wf_reader r'" "rerr r' = None" "stream r' = zs" "outside r' = outside (wc_reader wc2)"
    by auto
  show ?thesis
    using 2(2,3) 3(1) serves_after [OF 2(1) 3(2-5)] by (intro exI [of _ "wc2\<lparr>wc_reader := r'\<rparr>"]) simp
qed

text \<open>A fetch drains the deferred responses, then delivers the batch.\<close>

lemma FetchRowsReuse_batch:
  assumes "serves wc os (fetch_image descs rows st @ zs)" and "deferredCount wc = length os"
    and "list_all (\<lambda>x. snd (resp_result x) = None) os" and "list_all (row_ok descs) rows"
  shows "\<exists>vals wc'. run_state (FetchRowsReuse res xtext h blr descs fetchSize buf) wc
       = (Inr (map (row_value res xtext descs) rows, vals, st = 100), wc')
     \<and> serves wc' [] zs \<and> deferredCount wc' = 0"
proof -
  let ?n = "length descs" and ?m = "nat (sint fetchSize)"
  obtain wc2 where 2: "serves wc2 [] (fetch_image descs rows st @ zs)" "deferredCount wc2 = 0"
    "run_state (FetchRowsReuse res xtext h blr descs fetchSize buf) wc =
      (let numCols = length descs; maxRows = nat (sint fetchSize) in
       case fetch_loop res xtext descs maxRows 0 (initial_values numCols maxRows buf) wc2 of
         (Inl e, wc'') \<Rightarrow> (Inl e, wc'')
       | (Inr (n, vals, eof), wc'') \<Rightarrow> (Inr (map (row_slice numCols vals) [0 ..< n], vals, eof), wc''))"
    by (rule fetch_prologue [OF assms(1-3)])
  have rx: "wf_reader (wc_reader wc2)" "rerr (wc_reader wc2) = None" "stream (wc_reader wc2) = fetch_image descs rows st @ zs"
    using 2(1) by (simp_all add: serves_def rx_ready_def)
  from fetch_loop_batch [OF rx assms(4) values_ok_initial [of _ ?m buf], of 0 res xtext ?m] obtain vals r' where
    3: "fetch_loop res xtext descs ?m 0 (initial_values ?n ?m buf) wc2 = (Inr (length rows, vals, st = 100), wc2\<lparr>wc_reader := r'\<rparr>)"
    "wf_reader r'" "rerr r' = None" "stream r' = zs" "outside r' = outside (wc_reader wc2)"
    "map (row_slice ?n vals) [0 ..< length rows] = map (row_value res xtext descs) rows"
    by auto
  show ?thesis
    using 2(2,3) 3(1,6) serves_after [OF 2(1) 3(2-5)] by (intro exI [of _ vals] exI [of _ "wc2\<lparr>wc_reader := r'\<rparr>"]) simp
qed

end
