(* ===== verification/Blob.thy ===== *)
theory Blob
  imports Exec
begin

text \<open>
  Blobs (\<^verbatim>\<open>internal/wire/blob.go\<close>): the single-request operations, the materialised read and write, each with a
  pipelined and a sequential path.  The two paths send different requests but see the same responses; the
  lemmas show that they return the same content and leave the connection in step with the server.
\<close>

section \<open>Operations\<close>

definition CreateBlob :: "int32 \<Rightarrow> byte list \<Rightarrow> (int32 \<times> int64) wop" where
  "CreateBlob txHandle bpb =
     bindE (round_trip ''op_create_blob2'' [FInt32 opCreateBlob2, FBuffer bpb, FInt32 txHandle, FInt64 0]) (\<lambda>resp. okE (Handle resp, BlobID resp))"

definition OpenBlob :: "int32 \<Rightarrow> int64 \<Rightarrow> byte list \<Rightarrow> int32 wop" where
  "OpenBlob txHandle blobID bpb =
     bindE (round_trip ''op_open_blob2'' [FInt32 opOpenBlob2, FBuffer bpb, FInt32 txHandle, FInt64 blobID]) (\<lambda>resp. okE (Handle resp))"

definition put_fields :: "int32 \<Rightarrow> byte list \<Rightarrow> field list" where
  "put_fields blobHandle data = [FInt32 opPutSegment, FInt32 blobHandle, FInt32 (word_of_nat (length data)), FBuffer data]"

definition PutSegment :: "int32 \<Rightarrow> byte list \<Rightarrow> unit wop" where
  "PutSegment blobHandle data = bindE (round_trip ''op_put_segment'' (put_fields blobHandle data)) (\<lambda>_. okE ())"

definition get_fields :: "int32 \<Rightarrow> int32 \<Rightarrow> field list" where
  "get_fields blobHandle maxLength = [FInt32 opGetSegment, FInt32 blobHandle, FInt32 maxLength, FBuffer []]"

definition GetSegment :: "int32 \<Rightarrow> int32 \<Rightarrow> (int32 \<times> byte list) wop" where
  "GetSegment blobHandle maxLength =
     bindE (round_trip ''op_get_segment'' (get_fields blobHandle maxLength)) (\<lambda>resp. okE (Handle resp, Data resp))"

definition CloseBlob :: "int32 \<Rightarrow> unit wop" where
  "CloseBlob blobHandle = bindE (round_trip ''op_close_blob'' [FInt32 opCloseBlob, FInt32 blobHandle]) (\<lambda>_. okE ())"

definition CancelBlob :: "int32 \<Rightarrow> unit wop" where
  "CancelBlob blobHandle = bindE (round_trip ''op_cancel_blob'' [FInt32 opCancelBlob, FInt32 blobHandle]) (\<lambda>_. okE ())"

definition InfoBlob :: "int32 \<Rightarrow> byte list \<Rightarrow> int32 \<Rightarrow> byte list wop" where
  "InfoBlob blobHandle items bufferLength =
     bindE (round_trip ''op_info_blob'' [FInt32 opInfoBlob, FInt32 blobHandle, FInt32 0, FBuffer items, FInt32 bufferLength]) (\<lambda>resp. okE (Data resp))"

section \<open>Packed segments\<close>

text \<open>The loop of \<^verbatim>\<open>unpackSegments\<close>, on the bytes from \<^verbatim>\<open>off\<close>.\<close>

function unpackSegments :: "byte list \<Rightarrow> byte list \<Rightarrow> byte list" where
  "unpackSegments dst packed =
     (if length packed < 2 then dst
      else let segLen = unat (packed ! 0) + 256 * unat (packed ! 1); rest = drop 2 packed in
        if segLen > length rest then dst
        else unpackSegments (dst @ take segLen rest) (drop segLen rest))"
  by pat_completeness auto
termination by (relation "measure (\<lambda>(dst, packed). length packed)") auto

declare unpackSegments.simps [simp del]

section \<open>Reading\<close>

lemma GetSegment_pending: "run_state (GetSegment h n) wc = (Inr x, wc') \<Longrightarrow> pending (wc_reader wc') < pending (wc_reader wc)"
  by (auto simp: GetSegment_def split: prod.splits sum.splits dest: round_trip_pending(2))

function get_loop :: "int32 \<Rightarrow> int32 \<Rightarrow> byte list \<Rightarrow> WireConnection \<Rightarrow> (gerr + byte list) \<times> WireConnection" where
  "get_loop blobHandle maxGetLen result wc =
     (case run_state (GetSegment blobHandle maxGetLen) wc of
        (Inl e, wc1) \<Rightarrow> (Inl e, snd (run_state (CloseBlob blobHandle) wc1))
      | (Inr (status, packed), wc1) \<Rightarrow>
          let result' = unpackSegments result packed in
          if status = 2 then (Inr result', wc1) else get_loop blobHandle maxGetLen result' wc1)"
  by pat_completeness auto
termination
  by (relation "measure (\<lambda>(h, n, res, wc). pending (wc_reader wc))") (auto dest: GetSegment_pending [OF sym])

declare get_loop.simps [simp del]

definition readBlobDataSequential :: "int32 \<Rightarrow> int64 \<Rightarrow> int32 \<Rightarrow> byte list wop" where
  "readBlobDataSequential txHandle blobID maxGetLen =
     bindE (OpenBlob txHandle blobID []) (\<lambda>blobHandle.
     bindE (State (get_loop blobHandle maxGetLen [])) (\<lambda>result.
     bindE (CloseBlob blobHandle) (\<lambda>_. okE result)))"

definition readBlobDataPipelined :: "int32 \<Rightarrow> int64 \<Rightarrow> int32 \<Rightarrow> byte list wop" where
  "readBlobDataPipelined txHandle blobID maxGetLen =
     bindE (write_all ([FInt32 opOpenBlob2, FBuffer [], FInt32 txHandle, FInt64 blobID] @ get_fields (ucast InvalidObject) maxGetLen)) (\<lambda>_.
     bindE (mapErr (Wrap ''blob read pipeline: flush'') wc_flush) (\<lambda>_.
     tryE readResponse (\<lambda>openRes. case openRes of
       Inl openErr \<Rightarrow> tryE wc_ReadResponse (\<lambda>_. throwE (Wrap ''blob read pipeline: open'' openErr))
     | Inr openResp \<Rightarrow>
         let blobHandle = Handle openResp in
         tryE wc_ReadResponse (\<lambda>getRes. case getRes of
           Inl getErr \<Rightarrow> tryE (CloseBlob blobHandle) (\<lambda>_. throwE (Wrap ''blob read pipeline: get_segment'' getErr))
         | Inr getResp \<Rightarrow>
             let result = unpackSegments [] (Data getResp) in
             if Handle getResp = 2 then bindE (CloseBlob blobHandle) (\<lambda>_. okE result)
             else bindE (State (get_loop blobHandle maxGetLen result)) (\<lambda>result'.
                  bindE (CloseBlob blobHandle) (\<lambda>_. okE result'))))))"

definition maxGetLen :: int32 where "maxGetLen = 65535"

definition ReadBlobData :: "int32 \<Rightarrow> int64 \<Rightarrow> byte list wop" where
  "ReadBlobData txHandle blobID = State (\<lambda>wc.
     if lazySend wc then run_state (readBlobDataPipelined txHandle blobID maxGetLen) wc
     else run_state (readBlobDataSequential txHandle blobID maxGetLen) wc)"

section \<open>Writing\<close>

definition maxSegment :: nat where "maxSegment = 32768"

text \<open>The segments that the loops over \<^verbatim>\<open>remaining\<close> and \<^verbatim>\<open>data\<close> cut off.\<close>

function segments :: "byte list \<Rightarrow> byte list list" where
  "segments data = (if data = [] then [] else
     let seg = (if length data > maxSegment then take maxSegment data else data) in seg # segments (drop (length seg) data))"
  by pat_completeness auto
termination by (relation "measure length") (auto simp: maxSegment_def split: if_splits)

declare segments.simps [simp del]

text \<open>The \<open>i\<close>-th and following put responses; the first error of all is kept.\<close>

fun put_responses :: "nat \<Rightarrow> nat \<Rightarrow> gerr option \<Rightarrow> WireConnection \<Rightarrow> gerr option \<times> WireConnection" where
  "put_responses i 0 createErr wc = (createErr, wc)"
| "put_responses i (Suc n) createErr wc =
     (case run_state wc_ReadResponse wc of (res, wc') \<Rightarrow>
        put_responses (Suc i) n
          (case res of
             Inl err \<Rightarrow> (if createErr = None
               then Some (Wrap (''blob write pipeline: put_segment['' @ formatNat i @ '']'') err) else createErr)
           | Inr _ \<Rightarrow> createErr) wc')"

definition pipeline_fields :: "int32 \<Rightarrow> byte list \<Rightarrow> field list" where
  "pipeline_fields txHandle data =
     [FInt32 opCreateBlob2, FBuffer [], FInt32 txHandle, FInt64 0]
     @ concat (map (put_fields (ucast InvalidObject)) (segments data))
     @ [FInt32 opCloseBlob, FInt32 (ucast InvalidObject)]"

definition error_of :: "gerr + 'a \<Rightarrow> gerr option" where
  "error_of res = (case res of Inl e \<Rightarrow> Some e | Inr _ \<Rightarrow> None)"

definition writeBlobDataPipelined :: "int32 \<Rightarrow> byte list \<Rightarrow> int64 wop" where
  "writeBlobDataPipelined txHandle data =
     bindE (write_all (pipeline_fields txHandle data)) (\<lambda>_.
     bindE (mapErr (Wrap ''blob write pipeline: flush'') wc_flush) (\<lambda>_.
     tryE readResponse (\<lambda>createRes.
     tryE (State (put_responses 0 (length (segments data)) (error_of createRes))) (\<lambda>createErr.
     tryE wc_ReadResponse (\<lambda>closeRes.
       case createErr of
         Some e \<Rightarrow> throwE (Wrap ''blob write pipeline: create'' e)
       | None \<Rightarrow> (case closeRes of
           Inl e \<Rightarrow> throwE (Wrap ''blob write pipeline: close'' e)
         | Inr _ \<Rightarrow> (case createRes of Inl e \<Rightarrow> throwE e | Inr createResp \<Rightarrow> okE (BlobID createResp))))))))"

fun put_loop :: "int32 \<Rightarrow> byte list list \<Rightarrow> unit wop" where
  "put_loop blobHandle [] = okE ()"
| "put_loop blobHandle (seg # segs) =
     tryE (PutSegment blobHandle seg) (\<lambda>res. case res of
       Inl e \<Rightarrow> tryE (CancelBlob blobHandle) (\<lambda>_. throwE e)
     | Inr _ \<Rightarrow> put_loop blobHandle segs)"

definition writeBlobDataSequential :: "int32 \<Rightarrow> byte list \<Rightarrow> int64 wop" where
  "writeBlobDataSequential txHandle data =
     bindE (CreateBlob txHandle []) (\<lambda>(blobHandle, blobID).
     bindE (put_loop blobHandle (segments data)) (\<lambda>_.
     bindE (CloseBlob blobHandle) (\<lambda>_. okE blobID)))"

definition WriteBlobData :: "int32 \<Rightarrow> byte list \<Rightarrow> int64 wop" where
  "WriteBlobData txHandle data = State (\<lambda>wc.
     if lazySend wc then run_state (writeBlobDataPipelined txHandle data) wc
     else run_state (writeBlobDataSequential txHandle data) wc)"

section \<open>One request, one answer\<close>

definition clean :: "srv_resp \<Rightarrow> bool" where "clean x \<longleftrightarrow> snd (resp_result x) = None"

text \<open>The connection owes the responses \<open>os\<close>, all without error, and will then read \<open>rs\<close>.\<close>

definition in_step :: "WireConnection \<Rightarrow> srv_resp list \<Rightarrow> srv_resp list \<Rightarrow> byte list \<Rightarrow> bool" where
  "in_step wc os rs zs \<longleftrightarrow> serves wc (os @ rs) zs \<and> deferredCount wc = length os \<and> list_all clean os"

definition answer :: "srv_resp \<Rightarrow> gerr + GenericResponse" where
  "answer x = (case snd (resp_result x) of None \<Rightarrow> Inr (fst (resp_result x)) | Some e \<Rightarrow> Inl e)"

lemma answer_clean: "clean x \<Longrightarrow> answer x = Inr (fst (resp_result x))"
  by (simp add: clean_def answer_def)

lemma consumeDeferred_lazy: "run_state consumeDeferred wc = (res, wc') \<Longrightarrow> lazySend wc' = lazySend wc"
  by (auto simp: consumeDeferred_def split: prod.splits)

lemma wc_ReadResponse_answer:
  assumes "in_step wc [] (x # rs) zs"
  obtains wc' where "run_state wc_ReadResponse wc = (answer x, wc')" and "in_step wc' [] rs zs" and "lazySend wc' = lazySend wc"
proof -
  have "serves wc (x # rs) zs" using assms by (simp add: in_step_def)
  then obtain r' where r': "ReadResponse (wc_reader wc) = (resp_result x, r')" "serves (wc\<lparr>wc_reader := r'\<rparr>) rs zs" by (rule serves_read)
  have "run_state wc_ReadResponse wc = (answer x, wc\<lparr>wc_reader := r'\<rparr>)"
    using r'(1) by (cases "resp_result x") (simp add: wc_ReadResponse_def answer_def split: option.split)
  then show ?thesis using r'(2) assms by (intro that [of "wc\<lparr>wc_reader := r'\<rparr>"]) (simp_all add: in_step_def)
qed

lemma readResponse_answer:
  assumes "in_step wc os (x # rs) zs"
  obtains wc' where "run_state readResponse wc = (answer x, wc')" and "in_step wc' [] rs zs" and "lazySend wc' = lazySend wc"
proof -
  have "serves wc (os @ x # rs) zs" "deferredCount wc = length os" "list_all (\<lambda>x. snd (resp_result x) = None) os"
    using assms by (simp_all add: in_step_def clean_def [abs_def])
  then obtain wc1 where 1: "run_state consumeDeferred wc = (Inr (), wc1)" "serves wc1 (x # rs) zs" "deferredCount wc1 = 0"
    by (rule consumeDeferred_clean)
  then have "in_step wc1 [] (x # rs) zs" by (simp add: in_step_def)
  then obtain wc2 where "run_state wc_ReadResponse wc1 = (answer x, wc2)" "in_step wc2 [] rs zs" "lazySend wc2 = lazySend wc1"
    by (rule wc_ReadResponse_answer)
  then show ?thesis using 1 consumeDeferred_lazy [OF 1(1)] by (intro that [of wc2]) (simp_all add: readResponse_def)
qed

lemma send_in_step:
  assumes "in_step wc os rs zs"
  obtains wc' where "\<And>f k. run_state (bindE (write_all fs) (\<lambda>_. bindE (mapErr f wc_flush) k)) wc = run_state (k ()) wc'"
    and "in_step wc' os rs zs" and "lazySend wc' = lazySend wc"
    and "conn_out (wc_conn wc') = conn_out (wc_conn wc) @ encrypted (wc_conn wc) (concat (map field_image fs))"
proof -
  have sv: "serves wc (os @ rs) zs" using assms by (simp add: in_step_def)
  obtain wc' where w: "run_state (bindE (write_all fs) (\<lambda>_. wc_flush)) wc = (Inr (), wc')" "serves wc' (os @ rs) zs"
    "deferredCount wc' = deferredCount wc" "lazySend wc' = lazySend wc"
    "conn_out (wc_conn wc') = conn_out (wc_conn wc) @ encrypted (wc_conn wc) (concat (map field_image fs))"
    by (rule send_ready [OF sv])
  have "run_state wc_flush (wc\<lparr>wc_writer := fold put_field fs (wc_writer wc)\<rparr>) = (Inr (), wc')" using w(1) by (simp add: write_all_def)
  then have "run_state (bindE (write_all fs) (\<lambda>_. bindE (mapErr f wc_flush) k)) wc = run_state (k ()) wc'" for f :: "gerr \<Rightarrow> gerr" and k :: "unit \<Rightarrow> 'b wop"
    by (simp add: write_all_def)
  then show ?thesis using w assms by (intro that [of wc']) (simp_all add: in_step_def)
qed

text \<open>A request gets the next answer, after the owed ones; an error is wrapped with the operation's name.\<close>

lemma round_trip_answer:
  assumes "in_step wc os (x # rs) zs"
  obtains wc' where "run_state (round_trip name fs) wc = (map_sum (Wrap name) id (answer x), wc')"
    and "in_step wc' [] rs zs" and "lazySend wc' = lazySend wc"
proof -
  obtain wc1 where 1: "run_state (round_trip name fs) wc = run_state (mapErr (Wrap name) readResponse) wc1"
    "in_step wc1 os (x # rs) zs" "lazySend wc1 = lazySend wc"
    unfolding round_trip_def by (rule send_in_step [OF assms, where fs = fs]) blast
  obtain wc2 where "run_state readResponse wc1 = (answer x, wc2)" "in_step wc2 [] rs zs" "lazySend wc2 = lazySend wc1"
    by (rule readResponse_answer [OF 1(2)])
  then show ?thesis using 1 by (intro that [of wc2]) (simp_all split: sum.split)
qed

section \<open>What a read returns\<close>

text \<open>A segment on the wire: its length in two little-endian bytes, then its bytes.\<close>

definition seg_image :: "byte list \<Rightarrow> byte list" where
  "seg_image seg = word_of_nat (length seg mod 256) # word_of_nat (length seg div 256) # seg"

definition packed_segments :: "byte list list \<Rightarrow> byte list" where
  "packed_segments segs = concat (map seg_image segs)"

abbreviation seg_ok :: "byte list \<Rightarrow> bool" where "seg_ok seg \<equiv> length seg < 65536"

lemma seg_length:
  "seg_ok seg \<Longrightarrow> unat (word_of_nat (length seg mod 256) :: byte) + 256 * unat (word_of_nat (length seg div 256) :: byte) = length seg"
  by (simp add: unat_of_nat)

lemma unpackSegments_step: "seg_ok seg \<Longrightarrow> unpackSegments dst (seg_image seg @ rest) = unpackSegments (dst @ seg) rest"
  using seg_length [of seg] by (subst unpackSegments.simps) (simp add: seg_image_def)

lemma unpackSegments_short: "length tail < 2 \<Longrightarrow> unpackSegments dst tail = dst"
  by (simp add: unpackSegments.simps)

lemma unpackSegments_packed:
  "list_all seg_ok segs \<Longrightarrow> length tail < 2 \<Longrightarrow> unpackSegments dst (packed_segments segs @ tail) = dst @ concat segs"
  by (induction segs arbitrary: dst) (simp_all add: packed_segments_def unpackSegments_step unpackSegments_short)

text \<open>A segment cut short by the end of the buffer is dropped.\<close>

lemma unpackSegments_truncated:
  assumes "list_all seg_ok segs" and "seg_ok seg" and "k < length seg"
  shows "unpackSegments dst (packed_segments segs @ take (k + 2) (seg_image seg)) = dst @ concat segs"
proof -
  have last: "unpackSegments dst' (take (k + 2) (seg_image seg)) = dst'" for dst'
    using assms(3) seg_length [OF assms(2)] by (subst unpackSegments.simps) (simp add: seg_image_def min_def)
  show ?thesis using assms(1) by (induction segs arbitrary: dst) (simp_all add: packed_segments_def unpackSegments_step last [simplified])
qed

text \<open>The answers to the successive get requests: a status (2 at the end of the blob) and some packed segments.\<close>

fun get_answer :: "int32 \<times> byte list list \<Rightarrow> srv_resp" where
  "get_answer (st, segs) = (st, 0, packed_segments segs, [])"

fun chunk_ok :: "int32 \<times> byte list list \<Rightarrow> bool" where
  "chunk_ok (st, segs) \<longleftrightarrow> st \<noteq> 2 \<and> list_all seg_ok segs"

definition content :: "(int32 \<times> byte list list) list \<Rightarrow> byte list" where
  "content cks = concat (concat (map snd cks))"

lemma clean_get_answer [simp]: "clean (get_answer c)"
  by (cases c) (simp add: clean_def response_error_def)

lemma fst_get_answer [simp]: "Handle (fst (resp_result (get_answer (st, segs)))) = st" "Data (fst (resp_result (get_answer (st, segs)))) = packed_segments segs"
  by (simp_all add: response_value_def)

lemma unpack_chunk: "list_all seg_ok segs \<Longrightarrow> unpackSegments dst (packed_segments segs) = dst @ concat segs"
  using unpackSegments_packed [of segs "[]" dst] by simp

lemma get_loop_content:
  assumes "in_step wc os (map get_answer (cks @ [(2, segs)]) @ rs) zs" and "list_all chunk_ok cks" and "list_all seg_ok segs"
  shows "\<exists>wc'. get_loop h n dst wc = (Inr (dst @ content (cks @ [(2, segs)])), wc') \<and> in_step wc' [] rs zs \<and> lazySend wc' = lazySend wc"
  using assms(1,2)
proof (induction cks arbitrary: os dst wc)
  case Nil
  then have "in_step wc os (get_answer (2, segs) # rs) zs" by simp
  then obtain wc' where w: "run_state (round_trip ''op_get_segment'' (get_fields h n)) wc = (map_sum (Wrap ''op_get_segment'') id (answer (get_answer (2, segs))), wc')"
    "in_step wc' [] rs zs" "lazySend wc' = lazySend wc" by (rule round_trip_answer)
  have "get_loop h n dst wc = (Inr (dst @ concat segs), wc')"
    using w(1) assms(3) by (subst get_loop.simps) (simp add: GetSegment_def answer_clean unpack_chunk del: get_answer.simps)
  then show ?case using w by (intro exI [of _ wc']) (simp add: content_def)
next
  case (Cons c cks)
  obtain st cs where c: "c = (st, cs)" by (cases c)
  have "in_step wc os (get_answer c # map get_answer (cks @ [(2, segs)]) @ rs) zs" using Cons.prems(1) by simp
  then obtain wc1 where w: "run_state (round_trip ''op_get_segment'' (get_fields h n)) wc = (map_sum (Wrap ''op_get_segment'') id (answer (get_answer c)), wc1)"
    "in_step wc1 [] (map get_answer (cks @ [(2, segs)]) @ rs) zs" "lazySend wc1 = lazySend wc" by (rule round_trip_answer)
  have "get_loop h n dst wc = get_loop h n (dst @ concat cs) wc1"
    using w(1) Cons.prems(2) c by (subst get_loop.simps) (simp add: GetSegment_def answer_clean unpack_chunk del: get_answer.simps)
  moreover have "list_all chunk_ok cks" using Cons.prems(2) by simp
  from Cons.IH [OF w(2) this, of "dst @ concat cs"] obtain wc' where
    "get_loop h n (dst @ concat cs) wc1 = (Inr ((dst @ concat cs) @ content (cks @ [(2, segs)])), wc')" "in_step wc' [] rs zs"
    "lazySend wc' = lazySend wc1" by blast
  ultimately show ?case using w(3) c by (intro exI [of _ wc']) (simp add: content_def)
qed

lemma CloseBlob_answer:
  assumes "in_step wc os (x # rs) zs" and "clean x"
  obtains wc' where "run_state (CloseBlob h) wc = (Inr (), wc')" and "in_step wc' [] rs zs" and "lazySend wc' = lazySend wc"
proof -
  obtain wc' where "run_state (round_trip ''op_close_blob'' [FInt32 opCloseBlob, FInt32 h]) wc = (map_sum (Wrap ''op_close_blob'') id (answer x), wc')"
    "in_step wc' [] rs zs" "lazySend wc' = lazySend wc" by (rule round_trip_answer [OF assms(1)])
  then show ?thesis using answer_clean [OF assms(2)] by (intro that [of wc']) (simp_all add: CloseBlob_def)
qed

text \<open>The loop and the close after it.\<close>

lemma get_and_close:
  assumes "in_step wc os (map get_answer (cks @ [(2, segs)]) @ cl # rs) zs" and "list_all chunk_ok cks" and "list_all seg_ok segs" and "clean cl"
  obtains wc' where "run_state (bindE (State (get_loop h n dst)) (\<lambda>result. bindE (CloseBlob h) (\<lambda>_. okE result))) wc
      = (Inr (dst @ content (cks @ [(2, segs)])), wc')"
    and "in_step wc' [] rs zs"
proof -
  obtain wc1 where 1: "get_loop h n dst wc = (Inr (dst @ content (cks @ [(2, segs)])), wc1)" "in_step wc1 [] (cl # rs) zs"
    using get_loop_content [OF assms(1-3)] by blast
  obtain wc2 where "run_state (CloseBlob h) wc1 = (Inr (), wc2)" "in_step wc2 [] rs zs" by (rule CloseBlob_answer [OF 1(2) assms(4)])
  with 1 show ?thesis by (intro that [of wc2]) simp_all
qed

lemma readBlobDataSequential_content:
  assumes "in_step wc os (op # map get_answer (cks @ [(2, segs)]) @ cl # rs) zs" and "clean op"
    and "list_all chunk_ok cks" and "list_all seg_ok segs" and "clean cl"
  shows "\<exists>wc'. run_state (readBlobDataSequential tx bid n) wc = (Inr (content (cks @ [(2, segs)])), wc') \<and> in_step wc' [] rs zs"
proof -
  let ?h = "Handle (fst (resp_result op))"
  let ?fs = "[FInt32 opOpenBlob2, FBuffer [], FInt32 tx, FInt64 bid]"
  obtain wc1 where "run_state (round_trip ''op_open_blob2'' ?fs) wc = (map_sum (Wrap ''op_open_blob2'') id (answer op), wc1)"
    and 1: "in_step wc1 [] (map get_answer (cks @ [(2, segs)]) @ cl # rs) zs" by (rule round_trip_answer [OF assms(1)])
  then have op: "run_state (OpenBlob tx bid []) wc = (Inr ?h, wc1)" using answer_clean [OF assms(2)] by (simp add: OpenBlob_def)
  obtain wc2 where 2: "run_state (bindE (State (get_loop ?h n [])) (\<lambda>result. bindE (CloseBlob ?h) (\<lambda>_. okE result))) wc1
      = (Inr ([] @ content (cks @ [(2, segs)])), wc2)" "in_step wc2 [] rs zs"
    by (rule get_and_close [OF 1 assms(3-5)])
  have "run_state (readBlobDataSequential tx bid n) wc
      = run_state (bindE (State (get_loop ?h n [])) (\<lambda>result. bindE (CloseBlob ?h) (\<lambda>_. okE result))) wc1"
    using op by (simp add: readBlobDataSequential_def)
  with 2 show ?thesis by (intro exI [of _ wc2]) simp
qed

lemma readBlobDataPipelined_content:
  assumes "in_step wc os (op # map get_answer (cks @ [(2, segs)]) @ cl # rs) zs" and "clean op"
    and "list_all chunk_ok cks" and "list_all seg_ok segs" and "clean cl"
  shows "\<exists>wc'. run_state (readBlobDataPipelined tx bid n) wc = (Inr (content (cks @ [(2, segs)])), wc') \<and> in_step wc' [] rs zs"
proof -
  let ?h = "Handle (fst (resp_result op))"
  obtain st cs tl where ct: "map get_answer (cks @ [(2, segs)]) = get_answer (st, cs) # map get_answer tl" "cks @ [(2, segs)] = (st, cs) # tl"
    by (cases cks) auto
  have cs: "list_all seg_ok cs" using ct(2) assms(3,4) by (cases cks) auto
  obtain wc1 where 1: "\<And>k. run_state (bindE (write_all ([FInt32 opOpenBlob2, FBuffer [], FInt32 tx, FInt64 bid] @ get_fields (ucast InvalidObject) n))
      (\<lambda>_. bindE (mapErr (Wrap ''blob read pipeline: flush'') wc_flush) k)) wc = (run_state (k ()) wc1 :: (gerr + byte list) \<times> _)"
    "in_step wc1 os (op # get_answer (st, cs) # map get_answer tl @ cl # rs) zs"
    using send_in_step [OF assms(1)] ct(1) by (metis append_Cons)
  obtain wc2 where 2: "run_state readResponse wc1 = (Inr (fst (resp_result op)), wc2)" "in_step wc2 [] (get_answer (st, cs) # map get_answer tl @ cl # rs) zs"
    using readResponse_answer [OF 1(2)] answer_clean [OF assms(2)] by metis
  obtain wc3 where 3: "run_state wc_ReadResponse wc2 = (Inr (fst (resp_result (get_answer (st, cs)))), wc3)" "in_step wc3 [] (map get_answer tl @ cl # rs) zs"
    using wc_ReadResponse_answer [OF 2(2)] answer_clean [OF clean_get_answer] by metis
  show ?thesis
  proof (cases "st = 2")
    case True
    then have tl: "tl = []" "cks = []" "cs = segs" using ct(2) assms(3) by (cases cks; simp)+
    obtain wc4 where 4: "run_state (CloseBlob ?h) wc3 = (Inr (), wc4)" "in_step wc4 [] rs zs"
      using CloseBlob_answer [OF _ assms(5)] 3(2) tl(1) by (metis append_Nil list.simps(8))
    show ?thesis
      using 1(1) 2(1) 3(1) 4 True tl cs
      by (intro exI [of _ wc4]) (simp add: readBlobDataPipelined_def Let_def unpack_chunk content_def del: get_answer.simps)
  next
    case False
    then obtain cks' where tl: "tl = cks' @ [(2, segs)]" "cks = (st, cs) # cks'" using ct(2) by (cases cks) auto
    have "in_step wc3 [] (map get_answer (cks' @ [(2, segs)]) @ cl # rs) zs" "list_all chunk_ok cks'" using 3(2) tl assms(3) by simp_all
    then obtain wc4 where 4: "run_state (bindE (State (get_loop ?h n (concat cs))) (\<lambda>result. bindE (CloseBlob ?h) (\<lambda>_. okE result))) wc3
      = (Inr (concat cs @ content (cks' @ [(2, segs)])), wc4)" "in_step wc4 [] rs zs"
      by (rule get_and_close [OF _ _ assms(4,5)])
    have "run_state (readBlobDataPipelined tx bid n) wc
        = run_state (bindE (State (get_loop ?h n (concat cs))) (\<lambda>result. bindE (CloseBlob ?h) (\<lambda>_. okE result))) wc3"
      using 1(1) 2(1) 3(1) False cs by (simp add: readBlobDataPipelined_def Let_def unpack_chunk del: get_answer.simps)
    with 4 tl show ?thesis by (intro exI [of _ wc4]) (simp add: content_def)
  qed
qed

text \<open>Both paths return the content of the blob from the same answers, and leave nothing unread.\<close>

lemma ReadBlobData_content:
  assumes "in_step wc os (op # map get_answer (cks @ [(2, segs)]) @ cl # rs) zs" and "clean op"
    and "list_all chunk_ok cks" and "list_all seg_ok segs" and "clean cl"
  shows "\<exists>wc'. run_state (ReadBlobData tx bid) wc = (Inr (content (cks @ [(2, segs)])), wc') \<and> in_step wc' [] rs zs"
  using readBlobDataSequential_content [OF assms] readBlobDataPipelined_content [OF assms] by (simp add: ReadBlobData_def)

section \<open>What a write sends\<close>

lemma segments_concat: "concat (segments data) = data"
proof (induction data rule: segments.induct)
  case (1 data)
  then show ?case by (subst segments.simps) (auto simp: Let_def min_def)
qed

lemma segments_size: "list_all (\<lambda>seg. seg \<noteq> [] \<and> length seg \<le> maxSegment) (segments data)"
proof (induction data rule: segments.induct)
  case (1 data)
  then show ?case by (subst segments.simps) (auto simp: Let_def maxSegment_def)
qed

lemma segments_count: "length (segments data) = (length data + maxSegment - 1) div maxSegment"
proof (induction data rule: segments.induct)
  case (1 data)
  have pos: "maxSegment > 0" by (simp add: maxSegment_def)
  show ?case
  proof (cases "length data > maxSegment")
    case True
    then have "data \<noteq> []" "length (take maxSegment data) = maxSegment" by auto
    with "1.IH" [OF _ refl] True have "length (segments (drop maxSegment data)) = (length data - maxSegment + maxSegment - 1) div maxSegment"
      by (simp del: length_take)
    then have "length (segments data) = Suc ((length data - 1) div maxSegment)"
      using True by (subst segments.simps) (auto simp: Let_def min_def)
    also have "\<dots> = (length data - 1 + maxSegment) div maxSegment" using pos by (simp add: div_add_self2)
    finally show ?thesis using True by simp
  next
    case False
    show ?thesis
    proof (cases data)
      case Nil
      then show ?thesis using pos by (simp add: segments.simps)
    next
      case (Cons x xs)
      have "(length xs + maxSegment) div maxSegment = 1" using False Cons pos div_add_self2 [of maxSegment "length xs"] by simp
      moreover have "length (segments data) = 1" using False Cons by (subst segments.simps) (simp add: Let_def segments.simps [of "[]"])
      ultimately show ?thesis using Cons by simp
    qed
  qed
qed

text \<open>Reading sends nothing.\<close>

lemma wc_ReadResponse_sent:
  assumes "wf_reader (wc_reader wc)" and "run_state wc_ReadResponse wc = (res, wc')"
  shows "wf_reader (wc_reader wc') \<and> conn_out (wc_conn wc') = conn_out (wc_conn wc)"
proof -
  obtain v r' where "ReadResponse (wc_reader wc) = (v, r')" by (metis surj_pair)
  with saneD [OF sane_ReadResponse assms(1) this] assms(2) show ?thesis
    by (cases v) (auto simp: wc_ReadResponse_def same_out_def)
qed

lemma consume_loop_sent:
  "wf_reader r \<Longrightarrow> consume_loop n r = (err, m, r') \<Longrightarrow> wf_reader r' \<and> conn_out (rd r') = conn_out (rd r)"
proof (induction n arbitrary: r)
  case (Suc n)
  obtain g e r1 where r1: "ReadResponse r = ((g, e), r1)" by (metis surj_pair)
  have "wf_reader r1" "conn_out (rd r1) = conn_out (rd r)" using saneD [OF sane_ReadResponse Suc.prems(1) r1] by (simp_all add: same_out_def)
  then show ?case using Suc r1 by (cases e) auto
qed simp

lemma readResponse_sent:
  assumes "wf_reader (wc_reader wc)" and "run_state readResponse wc = (res, wc')"
  shows "wf_reader (wc_reader wc') \<and> conn_out (wc_conn wc') = conn_out (wc_conn wc)"
proof -
  obtain err m r1 where c: "consume_loop (deferredCount wc) (wc_reader wc) = (err, m, r1)" by (metis surj_pair)
  let ?wc = "wc\<lparr>wc_reader := r1, deferredCount := m\<rparr>"
  have 1: "wf_reader (wc_reader ?wc)" "conn_out (wc_conn ?wc) = conn_out (wc_conn wc)" using consume_loop_sent [OF assms(1) c] by simp_all
  show ?thesis
  proof (cases err)
    case None
    then have "run_state wc_ReadResponse ?wc = (res, wc')" using assms(2) c by (simp add: readResponse_def consumeDeferred_def)
    from wc_ReadResponse_sent [OF 1(1) this] show ?thesis using 1(2) by simp
  next
    case (Some e)
    then show ?thesis using assms(2) c 1 by (auto simp: readResponse_def consumeDeferred_def)
  qed
qed

lemma put_responses_sent:
  "wf_reader (wc_reader wc) \<Longrightarrow> put_responses i n e wc = (err, wc') \<Longrightarrow> wf_reader (wc_reader wc') \<and> conn_out (wc_conn wc') = conn_out (wc_conn wc)"
proof (induction n arbitrary: i e wc)
  case (Suc n)
  obtain res wc1 where "run_state wc_ReadResponse wc = (res, wc1)" by (metis surj_pair)
  with wc_ReadResponse_sent [OF Suc.prems(1) this] Suc show ?case by auto
qed simp

text \<open>The put responses of the pipeline: all of them are read; the first error is the one reported.\<close>

lemma put_responses_read:
  assumes "in_step wc [] (ps @ rs) zs"
  shows "\<exists>err wc'. put_responses i (length ps) e0 wc = (err, wc') \<and> in_step wc' [] rs zs \<and> (err = None \<longleftrightarrow> e0 = None \<and> list_all clean ps)"
  using assms
proof (induction ps arbitrary: wc i e0)
  case (Cons x ps)
  then have "in_step wc [] (x # ps @ rs) zs" by simp
  then obtain wc1 where 1: "run_state wc_ReadResponse wc = (answer x, wc1)" "in_step wc1 [] (ps @ rs) zs" by (rule wc_ReadResponse_answer)
  define e1 where "e1 = (case answer x of
             Inl err \<Rightarrow> (if e0 = None then Some (Wrap (''blob write pipeline: put_segment['' @ formatNat i @ '']'') err) else e0)
           | Inr _ \<Rightarrow> e0)"
  have e1: "e1 = None \<longleftrightarrow> e0 = None \<and> clean x" by (auto simp: e1_def answer_def clean_def split: option.splits)
  from Cons.IH [OF 1(2), of "Suc i" e1] obtain err wc' where
    "put_responses (Suc i) (length ps) e1 wc1 = (err, wc')" "in_step wc' [] rs zs" "err = None \<longleftrightarrow> e1 = None \<and> list_all clean ps" by blast
  then show ?case using 1(1) e1 by (intro exI [of _ err] exI [of _ wc']) (simp add: e1_def)
qed simp

text \<open>The pipelined write sends everything in one flush and reads every answer, whatever the errors; it returns the
  blob's identifier exactly when all the answers are without error.\<close>

lemma writeBlobDataPipelined_result:
  assumes "in_step wc os (cr # ps @ cl # rs) zs" and "length ps = length (segments data)"
  shows "\<exists>res wc'. run_state (writeBlobDataPipelined tx data) wc = (res, wc') \<and> in_step wc' [] rs zs
    \<and> conn_out (wc_conn wc') = conn_out (wc_conn wc) @ encrypted (wc_conn wc) (concat (map field_image (pipeline_fields tx data)))
    \<and> (if clean cr \<and> list_all clean ps \<and> clean cl then res = Inr (BlobID (fst (resp_result cr))) else \<exists>e. res = Inl e)"
proof -
  obtain wc1 where 1: "\<And>k. run_state (bindE (write_all (pipeline_fields tx data)) (\<lambda>_. bindE (mapErr (Wrap ''blob write pipeline: flush'') wc_flush) k)) wc
      = (run_state (k ()) wc1 :: (gerr + int64) \<times> _)"
    "in_step wc1 os (cr # ps @ cl # rs) zs"
    "conn_out (wc_conn wc1) = conn_out (wc_conn wc) @ encrypted (wc_conn wc) (concat (map field_image (pipeline_fields tx data)))"
    using send_in_step [OF assms(1)] by metis
  obtain wc2 where 2: "run_state readResponse wc1 = (answer cr, wc2)" "in_step wc2 [] (ps @ cl # rs) zs" by (rule readResponse_answer [OF 1(2)])
  obtain err wc3 where 3: "put_responses 0 (length (segments data)) (error_of (answer cr)) wc2 = (err, wc3)" "in_step wc3 [] (cl # rs) zs"
    "err = None \<longleftrightarrow> error_of (answer cr) = None \<and> list_all clean ps"
    using put_responses_read [OF 2(2), of 0 "error_of (answer cr)"] assms(2) by auto
  obtain wc4 where 4: "run_state wc_ReadResponse wc3 = (answer cl, wc4)" "in_step wc4 [] rs zs" by (rule wc_ReadResponse_answer [OF 3(2)])
  have wf1: "wf_reader (wc_reader wc1)" using 1(2) by (simp add: in_step_def serves_def rx_ready_def)
  have wf2: "wf_reader (wc_reader wc2)" "conn_out (wc_conn wc2) = conn_out (wc_conn wc1)" using readResponse_sent [OF wf1 2(1)] by simp_all
  have wf3: "wf_reader (wc_reader wc3)" "conn_out (wc_conn wc3) = conn_out (wc_conn wc2)" using put_responses_sent [OF wf2(1) 3(1)] by simp_all
  have "conn_out (wc_conn wc4) = conn_out (wc_conn wc1)" using wc_ReadResponse_sent [OF wf3(1) 4(1)] wf2 wf3 by simp
  moreover have "error_of (answer cr) = None \<longleftrightarrow> clean cr" by (simp add: error_of_def answer_def clean_def split: option.split)
  moreover have "answer x = (if clean x then Inr (fst (resp_result x)) else Inl (the (snd (resp_result x))))" for x
    by (simp add: answer_def clean_def split: option.split)
  ultimately show ?thesis
    using 1(1,3) 2(1) 3(1,3) 4 by (auto simp: writeBlobDataPipelined_def split: option.splits)
qed

lemma put_loop_clean:
  assumes "in_step wc os (ps @ rs) zs" and "length ps = length segs" and "list_all clean ps"
  shows "\<exists>os' wc'. run_state (put_loop h segs) wc = (Inr (), wc') \<and> in_step wc' os' rs zs"
  using assms
proof (induction segs arbitrary: wc os ps)
  case (Cons seg segs)
  then obtain x ps' where ps: "ps = x # ps'" by (cases ps) auto
  have "in_step wc os (x # ps' @ rs) zs" using Cons.prems(1) ps by simp
  then obtain wc1 where 1: "run_state (round_trip ''op_put_segment'' (put_fields h seg)) wc = (map_sum (Wrap ''op_put_segment'') id (answer x), wc1)"
    "in_step wc1 [] (ps' @ rs) zs" by (rule round_trip_answer)
  have "run_state (PutSegment h seg) wc = (Inr (), wc1)" using 1(1) Cons.prems(3) ps by (simp add: PutSegment_def answer_clean)
  then show ?case using Cons.IH [OF 1(2)] Cons.prems ps by simp
qed auto

lemma writeBlobDataSequential_clean:
  assumes "in_step wc os (cr # ps @ cl # rs) zs" and "length ps = length (segments data)"
    and "clean cr" and "list_all clean ps" and "clean cl"
  shows "\<exists>wc'. run_state (writeBlobDataSequential tx data) wc = (Inr (BlobID (fst (resp_result cr))), wc') \<and> in_step wc' [] rs zs"
proof -
  let ?fs = "[FInt32 opCreateBlob2, FBuffer [], FInt32 tx, FInt64 0]" and ?h = "Handle (fst (resp_result cr))"
  obtain wc1 where 1: "run_state (round_trip ''op_create_blob2'' ?fs) wc = (map_sum (Wrap ''op_create_blob2'') id (answer cr), wc1)"
    "in_step wc1 [] (ps @ cl # rs) zs" by (rule round_trip_answer [OF assms(1)])
  obtain os' wc2 where 2: "run_state (put_loop ?h (segments data)) wc1 = (Inr (), wc2)" "in_step wc2 os' (cl # rs) zs"
    using put_loop_clean [OF 1(2) assms(2,4)] by blast
  obtain wc3 where 3: "run_state (CloseBlob ?h) wc2 = (Inr (), wc3)" "in_step wc3 [] rs zs" by (rule CloseBlob_answer [OF 2(2) assms(5)])
  show ?thesis
    using 1(1) 2(1) 3 assms(3) by (intro exI [of _ wc3]) (simp add: writeBlobDataSequential_def CreateBlob_def answer_clean)
qed

lemma WriteBlobData_clean:
  assumes "in_step wc os (cr # ps @ cl # rs) zs" and "length ps = length (segments data)"
    and "clean cr" and "list_all clean ps" and "clean cl"
  shows "\<exists>wc'. run_state (WriteBlobData tx data) wc = (Inr (BlobID (fst (resp_result cr))), wc') \<and> in_step wc' [] rs zs"
proof (cases "lazySend wc")
  case True
  obtain res wc' where "run_state (writeBlobDataPipelined tx data) wc = (res, wc')" "in_step wc' [] rs zs" "res = Inr (BlobID (fst (resp_result cr)))"
    using writeBlobDataPipelined_result [OF assms(1,2), of tx] assms(3-5) by auto
  then show ?thesis using True by (simp add: WriteBlobData_def)
next
  case False
  then show ?thesis using writeBlobDataSequential_clean [OF assms] by (simp add: WriteBlobData_def)
qed

lemma accounts_blob:
  "accounts 1 (CreateBlob tx bpb)" "accounts 1 (OpenBlob tx bid bpb)" "accounts 1 (PutSegment h d)" "accounts 1 (GetSegment h n)"
  "accounts 1 (CloseBlob h)" "accounts 1 (CancelBlob h)" "accounts 1 (InfoBlob h items n)"
  unfolding CreateBlob_def OpenBlob_def PutSegment_def GetSegment_def CloseBlob_def CancelBlob_def InfoBlob_def by (rule accounts_request)+

end
