(* ===== verification/Auth.thy ===== *)
theory Auth
  imports Protocol Numeric
begin

text \<open>
  SRP authentication: the arithmetic of \<^verbatim>\<open>internal/bignum/srp.go\<close> and the client of \<^verbatim>\<open>internal/wire/auth.go\<close>.
  The hash functions (\<^verbatim>\<open>crypto/sha1\<close>, \<^verbatim>\<open>crypto/sha256\<close>), the random bytes of \<^verbatim>\<open>crypto/rand\<close> and the Unicode case
  mapping of \<^verbatim>\<open>strings.ToUpper\<close> are parameters.  \<^verbatim>\<open>big.Int\<close> is \<open>int\<close>.
\<close>

section \<open>Big numbers (srp.go)\<close>

definition KeySize :: nat where "KeySize = 128"

definition srp_N :: int where
  "srp_N = 0xE67D2E994B2F900C3F41F08F5BB2627ED0D49EE1FE767A52EFCD565CD6E768812C3E1E9CE8F0A8BEA6CB13CD29DDEBF7A96D4A93B55D488DF099A15C89DCB0640738EB2CBDD9A8F7BAB561AB1B0DC1C6CDABF303264A08D1BCA932D1F1EE428B619D970F342ABA9A65793B8B2F041AE5364350C16F735F56ECBCA87BD57B29E7"

definition srp_G :: int where "srp_G = 2"

definition srp_K :: int where "srp_K = 1277432915985975349439481660349303019122249719989"

text \<open>\<^verbatim>\<open>FillBytes\<close> panics when the value does not fit the buffer.\<close>

definition bigPanic :: gerr where "bigPanic = Msg ''panic: math/big: buffer too small to fit value''"

definition BigToBytes :: "int \<Rightarrow> byte list" where "BigToBytes v = big_bytes (nat \<bar>v\<bar>)"

definition BytesToBig :: "byte list \<Rightarrow> int" where "BytesToBig b = big_of_bytes b"

definition Pad :: "int \<Rightarrow> gerr + byte list" where
  "Pad v = (let bs = BigToBytes v in
     if length bs > KeySize then Inl bigPanic else Inr (replicate (KeySize - length bs) 0 @ bs))"

definition GeneratePrivateKey :: "gerr + byte list \<Rightarrow> gerr + int" where
  "GeneratePrivateKey rnd = (case rnd of Inl e \<Rightarrow> Inl e | Inr b \<Rightarrow> Inr (BytesToBig b))"

text \<open>\<^verbatim>\<open>Exp(x, y, m)\<close> for \<open>y \<ge> 0\<close> and \<open>m > 0\<close>, by repeated squaring.\<close>

fun mod_pow :: "int \<Rightarrow> nat \<Rightarrow> int \<Rightarrow> int" where
  "mod_pow x y m = (if y = 0 then 1 mod m
     else let h = mod_pow (x * x mod m) (y div 2) m in if even y then h else x * h mod m)"

declare mod_pow.simps [simp del]

definition bigExp :: "int \<Rightarrow> int \<Rightarrow> int \<Rightarrow> int" where "bigExp x y m = mod_pow x (nat y) m"

definition ClientPublicKey :: "int \<Rightarrow> int" where "ClientPublicKey privateKey = bigExp srp_G privateKey srp_N"

section \<open>The client (auth.go)\<close>

definition PluginSrp256 :: string where "PluginSrp256 = ''Srp256''"
definition PluginSrp :: string where "PluginSrp = ''Srp''"
definition DefaultPluginList :: string where "DefaultPluginList = PluginSrp256 @ '','' @ PluginSrp"

record srpClient =
  srp_pluginName :: string
  srp_user :: string
  srp_password :: string
  srp_privateKey :: int
  srp_publicKey :: int
  srp_sessionKey :: "byte list"
  srp_proof :: "byte list"

definition newSRPClientWithKey :: "(string \<Rightarrow> string) \<Rightarrow> string \<Rightarrow> string \<Rightarrow> string \<Rightarrow> int \<Rightarrow> srpClient" where
  "newSRPClientWithKey upper plugin usr pwd privateKey =
     \<lparr>srp_pluginName = plugin, srp_user = upper usr, srp_password = pwd, srp_privateKey = privateKey,
      srp_publicKey = ClientPublicKey privateKey, srp_sessionKey = [], srp_proof = []\<rparr>"

definition newSRPClient :: "(string \<Rightarrow> string) \<Rightarrow> gerr + byte list \<Rightarrow> string \<Rightarrow> string \<Rightarrow> string \<Rightarrow> gerr + srpClient" where
  "newSRPClient upper rnd plugin usr pwd =
     (case GeneratePrivateKey rnd of Inl e \<Rightarrow> Inl e | Inr k \<Rightarrow> Inr (newSRPClientWithKey upper plugin usr pwd k))"

definition hexDigit :: "nat \<Rightarrow> char" where "hexDigit n = ''0123456789ABCDEF'' ! n"

definition toUpperHex :: "byte list \<Rightarrow> string" where
  "toUpperHex src = concat (map (\<lambda>b. [hexDigit (unat (drop_bit 4 b)), hexDigit (unat (b AND 0x0F))]) src)"

definition PublicKeyHex :: "srpClient \<Rightarrow> string" where
  "PublicKeyHex c = toUpperHex (BigToBytes (srp_publicKey c))"

definition SessionKey :: "srpClient \<Rightarrow> byte list" where "SessionKey c = srp_sessionKey c"

definition SetPlugin :: "string \<Rightarrow> srpClient \<Rightarrow> srpClient" where "SetPlugin plugin c = c\<lparr>srp_pluginName := plugin\<rparr>"

subsection \<open>Core computations\<close>

type_synonym hash = "byte list \<Rightarrow> byte list"

definition scramble :: "hash \<Rightarrow> int \<Rightarrow> int \<Rightarrow> gerr + int" where
  "scramble sha1 keyA keyB =
     (case Pad keyA of Inl e \<Rightarrow> Inl e | Inr pa \<Rightarrow>
      (case Pad keyB of Inl e \<Rightarrow> Inl e | Inr pb \<Rightarrow> Inr (BytesToBig (sha1 (pa @ pb)))))"

definition userHash :: "hash \<Rightarrow> byte list \<Rightarrow> string \<Rightarrow> string \<Rightarrow> int" where
  "userHash sha1 salt usr pwd =
     BytesToBig (sha1 (salt @ sha1 (bytes_of_string usr @ bytes_of_string '':'' @ bytes_of_string pwd)))"

text \<open>\<^verbatim>\<open>Mod\<close> is the Euclidean modulus.\<close>

definition clientSecret :: "int \<Rightarrow> int \<Rightarrow> int \<Rightarrow> int \<Rightarrow> int" where
  "clientSecret u x keyB privA =
     (let t1 = bigExp srp_G x srp_N;
          t1 = (srp_K * t1) mod srp_N;
          t1 = (keyB - t1) mod srp_N;
          t2 = (u * x) mod srp_N;
          t2 = (privA + t2) mod srp_N
      in bigExp t1 t2 srp_N)"

definition clientSessionKey :: "hash \<Rightarrow> string \<Rightarrow> string \<Rightarrow> byte list \<Rightarrow> int \<Rightarrow> int \<Rightarrow> int \<Rightarrow> gerr + byte list" where
  "clientSessionKey sha1 usr pwd salt keyA keyB privA =
     (case scramble sha1 keyA keyB of Inl e \<Rightarrow> Inl e
      | Inr u \<Rightarrow> Inr (sha1 (BigToBytes (clientSecret u (userHash sha1 salt usr pwd) keyB privA))))"

definition clientProof :: "hash \<Rightarrow> hash \<Rightarrow> string \<Rightarrow> string \<Rightarrow> byte list \<Rightarrow> int \<Rightarrow> int \<Rightarrow> byte list \<Rightarrow> byte list" where
  "clientProof sha1 sha256 plugin usr salt keyA keyB key =
     (let n1 = BytesToBig (sha1 (BigToBytes srp_N));
          n2 = BytesToBig (sha1 (BigToBytes srp_G));
          n3 = bigExp n1 n2 srp_N;
          n4 = BytesToBig (sha1 (bytes_of_string usr));
          digest = (if plugin = PluginSrp256 then sha256 else sha1)
      in digest (BigToBytes n3 @ BigToBytes n4 @ salt @ BigToBytes keyA @ BigToBytes keyB @ key))"

subsection \<open>The server's challenge\<close>

text \<open>\<^verbatim>\<open>SetString(s, 16)\<close>: an optional sign and at least one hexadecimal digit, nothing else.\<close>

definition hex_val :: "char \<Rightarrow> nat option" where
  "hex_val c = (let n = (of_char c :: nat) in
     if 48 \<le> n \<and> n \<le> 57 then Some (n - 48)
     else if 97 \<le> n \<and> n \<le> 102 then Some (n - 87)
     else if 65 \<le> n \<and> n \<le> 70 then Some (n - 55) else None)"

fun hex_digits :: "int \<Rightarrow> string \<Rightarrow> int option" where
  "hex_digits acc [] = Some acc"
| "hex_digits acc (c # cs) = (case hex_val c of None \<Rightarrow> None | Some d \<Rightarrow> hex_digits (acc * 16 + int d) cs)"

definition setString16 :: "string \<Rightarrow> int option" where
  "setString16 s =
     (let (neg, ds) = (case s of c # cs \<Rightarrow> if c = CHR ''-'' then (True, cs) else if c = CHR ''+'' then (False, cs) else (False, s) | [] \<Rightarrow> (False, []))
      in if ds = [] then None else map_option (\<lambda>v. if neg then - v else v) (hex_digits 0 ds))"

definition parseServerAuthData :: "byte list \<Rightarrow> gerr + (byte list \<times> int)" where
  "parseServerAuthData data =
     (if length data < 4 then Inl (Msg ''srp: server auth data too short'')
      else let saltLen = unat (data ! 0) + 256 * unat (data ! 1) in
      if length data < 2 + saltLen + 2 then Inl (Msg ''srp: server auth data truncated at salt'')
      else let salt = take saltLen (drop 2 data); keyStart = 2 + saltLen; hexStart = keyStart + 2 in
      if hexStart \<ge> length data then Inl (Msg ''srp: server auth data missing public key'')
      else case setString16 (string_of_bytes (drop hexStart data)) of
             None \<Rightarrow> Inl (Msg ''srp: invalid hex in server public key'')
           | Some serverPublic \<Rightarrow> Inr (salt, serverPublic))"

definition ComputeProof :: "hash \<Rightarrow> hash \<Rightarrow> byte list \<Rightarrow> srpClient \<Rightarrow> (gerr + byte list) \<times> srpClient" where
  "ComputeProof sha1 sha256 serverData c =
     (case parseServerAuthData serverData of
        Inl e \<Rightarrow> (Inl e, c)
      | Inr (salt, serverPublic) \<Rightarrow>
          (case clientSessionKey sha1 (srp_user c) (srp_password c) salt (srp_publicKey c) serverPublic (srp_privateKey c) of
             Inl e \<Rightarrow> (Inl e, c)
           | Inr key \<Rightarrow>
               let proof = clientProof sha1 sha256 (srp_pluginName c) (srp_user c) salt (srp_publicKey c) serverPublic key
               in (Inr (bytes_of_string (toUpperHex proof)), c\<lparr>srp_sessionKey := key, srp_proof := proof\<rparr>)))"

definition verifier :: "hash \<Rightarrow> string \<Rightarrow> string \<Rightarrow> byte list \<Rightarrow> int" where
  "verifier sha1 usr pwd salt = (let x = userHash sha1 salt usr pwd in bigExp srp_G x srp_N)"

section \<open>The user identification block\<close>

definition appendTag :: "byte list \<Rightarrow> byte \<Rightarrow> byte list \<Rightarrow> byte list" where
  "appendTag buf tag val = (buf @ [tag, of_nat (length val)]) @ val"

function specific_loop :: "byte list \<Rightarrow> byte list \<Rightarrow> byte \<Rightarrow> byte list" where
  "specific_loop buf data seq =
     (if length data > 0 then
        let chunk = (if length data > 254 then 254 else length data) in
        specific_loop ((buf @ [CnctSpecificData, of_nat (chunk + 1), seq]) @ take chunk data) (drop chunk data) (seq + 1)
      else buf)"
  by pat_completeness auto
termination by (relation "measure (\<lambda>(buf, data, seq). length data)") (auto split: if_splits)

declare specific_loop.simps [simp del]

definition appendSpecificData :: "byte list \<Rightarrow> string \<Rightarrow> byte list" where
  "appendSpecificData buf hexKey = specific_loop buf (bytes_of_string hexKey) 0"

function specific_size :: "nat \<Rightarrow> nat" where
  "specific_size n = (if n > 0 then let chunk = (if n > 254 then 254 else n) in 3 + chunk + specific_size (n - chunk) else 0)"
  by pat_completeness auto
termination by (relation "measure id") (auto split: if_splits)

declare specific_size.simps [simp del]

definition specificDataSize :: "string \<Rightarrow> nat" where
  "specificDataSize hexKey = (let n = length hexKey in if n \<le> 254 then 3 + n else specific_size n)"

definition appendCryptPreference :: "byte list \<Rightarrow> uint32 \<Rightarrow> byte list" where
  "appendCryptPreference buf wireCrypt = buf @ [CnctClientCrypt, 4] @ putLE32 wireCrypt"

definition userIdentSize :: "string \<Rightarrow> string \<Rightarrow> string \<Rightarrow> string \<Rightarrow> string \<Rightarrow> string \<Rightarrow> nat" where
  "userIdentSize osUser hostname dbUser plugin publicKeyHex pluginList =
     2 + length osUser + (2 + length hostname) + 2 + (2 + length dbUser) + (2 + length plugin)
     + specificDataSize publicKeyHex + (2 + length pluginList) + (2 + 4)"

definition buildUserIdentBlock ::
  "string \<Rightarrow> string \<Rightarrow> string \<Rightarrow> string \<Rightarrow> string \<Rightarrow> string \<Rightarrow> uint32 \<Rightarrow> byte list" where
  "buildUserIdentBlock osUser hostname dbUser plugin publicKeyHex pluginList wireCrypt =
     (let buf = [];
          buf = appendTag buf CnctUser (bytes_of_string osUser);
          buf = appendTag buf CnctHost (bytes_of_string hostname);
          buf = appendTag buf CnctUserVerification [];
          buf = appendTag buf CnctLogin (bytes_of_string dbUser);
          buf = appendTag buf CnctPluginName (bytes_of_string plugin);
          buf = appendSpecificData buf publicKeyHex;
          buf = appendTag buf CnctPluginList (bytes_of_string pluginList)
      in appendCryptPreference buf wireCrypt)"

section \<open>Modular powers\<close>

lemma mod_pow_power: "mod_pow x y m = x ^ y mod m"
proof (induction x y m rule: mod_pow.induct)
  case (1 x y m)
  show ?case
  proof (cases "y = 0")
    case False
    then have h: "mod_pow (x * x mod m) (y div 2) m = x ^ (2 * (y div 2)) mod m"
      using "1.IH" by (simp add: power_mod power_mult power2_eq_square)
    have "even y \<Longrightarrow> x ^ y = x ^ (2 * (y div 2))" "odd y \<Longrightarrow> x ^ y = x * x ^ (2 * (y div 2))"
      by (auto simp: power_Suc [symmetric] simp del: power_Suc)
    then show ?thesis using False h by (subst mod_pow.simps) (simp add: Let_def mod_mult_right_eq)
  qed (simp add: mod_pow.simps)
qed

lemma bigExp_power: "bigExp x y m = x ^ nat y mod m"
  by (simp add: bigExp_def mod_pow_power)

lemma srp_N_big: "2 ^ 1000 < srp_N" "srp_N < 256 ^ KeySize"
  by (simp_all add: srp_N_def KeySize_def)

section \<open>The two sides agree\<close>

text \<open>The server's side of SRP-6a, as the test-suite of the repository computes it.\<close>

definition serverPublicKey :: "int \<Rightarrow> int \<Rightarrow> int" where
  "serverPublicKey v b = ((srp_K * v) mod srp_N + bigExp srp_G b srp_N) mod srp_N"

definition serverSecret :: "int \<Rightarrow> int \<Rightarrow> int \<Rightarrow> int \<Rightarrow> int" where
  "serverSecret u v keyA b = bigExp ((keyA * bigExp v u srp_N) mod srp_N) b srp_N"

lemma client_exponent:
  assumes "0 \<le> a" "a < 2 ^ 128" "0 \<le> u" "u < 2 ^ 160" "0 \<le> x" "x < 2 ^ 160"
  shows "(a + (u * x) mod srp_N) mod srp_N = a + u * x"
proof -
  have "u * x < 2 ^ 160 * 2 ^ 160" using assms by (intro mult_strict_mono') simp_all
  then have "u * x < 2 ^ 320" by (simp add: power_add [symmetric])
  moreover have "0 \<le> u * x" using assms by simp
  moreover have "(2 :: int) ^ 320 + 2 ^ 128 < 2 ^ 1000" by simp
  ultimately show ?thesis using srp_N_big(1) assms(1,2) by simp
qed

lemma power_swap: "((g :: int) ^ b) ^ (a + x * u) = (g ^ a * (g ^ x) ^ u) ^ b"
proof -
  have "(g ^ b) ^ (a + x * u) = g ^ (b * (a + x * u))" by (simp only: power_mult)
  also have "\<dots> = (g ^ (a + x * u)) ^ b" by (simp only: mult.commute [of b] power_mult)
  also have "g ^ (a + x * u) = g ^ a * (g ^ x) ^ u" by (simp only: power_add power_mult)
  finally show ?thesis .
qed

lemma secrets_agree:
  assumes "0 \<le> a" "a < 2 ^ 128" "0 \<le> u" "u < 2 ^ 160" "0 \<le> x" "x < 2 ^ 160" "0 \<le> b"
    and "v = bigExp srp_G x srp_N"
  shows "clientSecret u x (serverPublicKey v b) a = serverSecret u v (ClientPublicKey a) b"
proof -
  let ?g = "srp_G" and ?N = "srp_N"
  have diff: "(serverPublicKey v b - (srp_K * v) mod ?N) mod ?N = ?g ^ nat b mod ?N"
    by (simp add: serverPublicKey_def bigExp_power mod_diff_left_eq)
  have "clientSecret u x (serverPublicKey v b) a = ((serverPublicKey v b - (srp_K * v) mod ?N) mod ?N) ^ nat (a + u * x) mod ?N"
    using client_exponent [OF assms(1-6)] by (simp only: clientSecret_def Let_def bigExp_power [of _ "_ + _"] assms(8))
  also have "\<dots> = (?g ^ nat b) ^ nat (a + u * x) mod ?N" unfolding diff by (rule power_mod)
  also have "(?g ^ nat b) ^ nat (a + u * x) = (?g ^ nat a * (?g ^ nat x) ^ nat u) ^ nat b"
  proof -
    have "nat (a + u * x) = nat a + nat x * nat u" using assms by (simp add: nat_add_distrib nat_mult_distrib)
    then show ?thesis by (simp only: power_swap)
  qed
  also have "\<dots> mod ?N = ((?g ^ nat a mod ?N) * ((?g ^ nat x mod ?N) ^ nat u mod ?N) mod ?N) ^ nat b mod ?N"
    by (simp only: power_mod mod_mult_eq)
  also have "\<dots> = serverSecret u v (ClientPublicKey a) b"
    using assms(8) by (simp only: serverSecret_def ClientPublicKey_def bigExp_power)
  finally show ?thesis .
qed

lemma hash_bounds: "length h = 20 \<Longrightarrow> 0 \<le> BytesToBig h \<and> BytesToBig h < 2 ^ 160"
  using big_of_bytes_bounds [of h] by (simp add: BytesToBig_def)

lemma Pad_below:
  assumes "0 \<le> v" "v < srp_N"
  obtains bs where "Pad v = Inr bs"
proof -
  have "v < 256 ^ KeySize" using assms(2) srp_N_big(2) by (rule less_trans)
  then have "nat \<bar>v\<bar> < 256 ^ KeySize" using assms(1) by (simp add: nat_less_iff)
  then have "length (BigToBytes v) \<le> KeySize" unfolding BigToBytes_def by (rule length_big_bytes)
  then show ?thesis using that by (simp add: Pad_def Let_def)
qed

lemma reduced: "0 \<le> x mod srp_N" "x mod srp_N < srp_N"
  using srp_N_big(1) by simp_all

text \<open>With 20-byte hashes and a 128-bit private key the client's session key is the server's.\<close>

lemma session_keys_agree:
  assumes hash: "\<And>bs. length (sha1 bs) = 20" and "0 \<le> a" "a < 2 ^ 128" "0 \<le> b"
    and v: "v = verifier sha1 usr pwd salt"
  obtains u where "scramble sha1 (ClientPublicKey a) (serverPublicKey v b) = Inr u"
    and "clientSessionKey sha1 usr pwd salt (ClientPublicKey a) (serverPublicKey v b) a
      = Inr (sha1 (BigToBytes (serverSecret u v (ClientPublicKey a) b)))"
proof -
  obtain pa where pa: "Pad (ClientPublicKey a) = Inr pa"
    by (rule Pad_below [of "ClientPublicKey a"]) (simp_all add: ClientPublicKey_def bigExp_power reduced)
  obtain pb where pb: "Pad (serverPublicKey v b) = Inr pb"
    by (rule Pad_below [of "serverPublicKey v b"]) (simp_all add: serverPublicKey_def reduced)
  let ?u = "BytesToBig (sha1 (pa @ pb))" and ?x = "userHash sha1 salt usr pwd"
  have u: "scramble sha1 (ClientPublicKey a) (serverPublicKey v b) = Inr ?u" using pa pb by (simp add: scramble_def)
  have bx: "0 \<le> ?x" "?x < 2 ^ 160" and bu: "0 \<le> ?u" "?u < 2 ^ 160" using hash_bounds [OF hash] by (simp_all add: userHash_def)
  have "clientSecret ?u ?x (serverPublicKey v b) a = serverSecret ?u v (ClientPublicKey a) b"
    using assms(2,3) bu bx assms(4) by (rule secrets_agree) (simp add: v verifier_def Let_def)
  then show ?thesis using u by (intro that [of ?u]) (simp_all add: clientSessionKey_def)
qed

section \<open>Hexadecimal text\<close>

lemma hex_val_hexDigit: "n < 16 \<Longrightarrow> hex_val (hexDigit n) = Some n"
  by (simp add: less_Suc_eq numeral_eq_Suc) (elim disjE; simp add: hex_val_def hexDigit_def Let_def)

lemma hexDigit_not_sign: "n < 16 \<Longrightarrow> hexDigit n \<noteq> CHR ''-'' \<and> hexDigit n \<noteq> CHR ''+''"
  by (simp add: less_Suc_eq numeral_eq_Suc) (elim disjE; simp add: hexDigit_def)

lemma nibbles: "unat (drop_bit 4 (b :: byte)) < 16" "unat (b AND 0x0F) < 16" "16 * unat (drop_bit 4 b) + unat (b AND 0x0F) = unat b"
proof -
  have h: "unat (drop_bit 4 b) = unat b div 16" using unat_drop_bit_eq [of 4 b] drop_bit_eq_div [of 4 "unat b"] by simp
  have "b AND 0x0F = take_bit 4 b" by (simp add: take_bit_eq_mask mask_numeral)
  then have l: "unat (b AND 0x0F) = unat b mod 16"
    using unsigned_take_bit_eq [of 4 b, where ?'a = nat] take_bit_eq_mod [of 4 "unat b"] by simp
  have "unat b < 256" using unsigned_less [of b, where ?'a = nat] by simp
  then show "unat (drop_bit 4 b) < 16" "unat (b AND 0x0F) < 16" "16 * unat (drop_bit 4 b) + unat (b AND 0x0F) = unat b"
    unfolding h l by (simp_all add: less_mult_imp_div_less)
qed

lemma hex_digits_toUpperHex: "hex_digits acc (toUpperHex bs) = Some (acc * 256 ^ length bs + big_of_bytes bs)"
proof (induction bs arbitrary: acc)
  case (Cons b bs)
  have "hex_digits acc (toUpperHex (b # bs)) = hex_digits (acc * 256 + int (16 * unat (drop_bit 4 b) + unat (b AND 0x0F))) (toUpperHex bs)"
    using nibbles(1,2) [of b] by (simp add: toUpperHex_def hex_val_hexDigit algebra_simps)
  also have "\<dots> = hex_digits (acc * 256 + uint b) (toUpperHex bs)" unfolding nibbles(3) by simp
  also have "\<dots> = Some ((acc * 256 + uint b) * 256 ^ length bs + big_of_bytes bs)" by (rule Cons.IH)
  also have "\<dots> = Some (acc * 256 ^ length (b # bs) + big_of_bytes (b # bs))"
    using big_of_bytes_append [of "[b]" bs] by (simp add: big_of_bytes_def algebra_simps)
  finally show ?case .
qed (simp add: toUpperHex_def)

lemma setString16_toUpperHex:
  assumes "bs \<noteq> []"
  shows "setString16 (toUpperHex bs) = Some (big_of_bytes bs)"
proof -
  obtain b bs' where "bs = b # bs'" using assms by (cases bs) auto
  then obtain c cs where c: "toUpperHex bs = c # cs" "c \<noteq> CHR ''-''" "c \<noteq> CHR ''+''"
    using hexDigit_not_sign [OF nibbles(1) [of b]] by (simp add: toUpperHex_def)
  then show ?thesis using hex_digits_toUpperHex [of 0 bs] by (simp add: setString16_def)
qed

text \<open>The challenge as a server sends it.\<close>

definition buildServerAuthData :: "byte list \<Rightarrow> int \<Rightarrow> byte list" where
  "buildServerAuthData salt keyB =
     (let hexB = bytes_of_string (toUpperHex (BigToBytes keyB))
      in putLE16 (length salt) @ salt @ putLE16 (length hexB) @ hexB)"

lemma parseServerAuthData_round_trip:
  assumes "length salt < 65536" and "0 < keyB"
  shows "parseServerAuthData (buildServerAuthData salt keyB) = Inr (salt, keyB)"
proof -
  have ne: "BigToBytes keyB \<noteq> []" using assms(2) by (simp add: BigToBytes_def big_bytes.simps)
  then have hex: "toUpperHex (BigToBytes keyB) \<noteq> []" by (cases "BigToBytes keyB") (simp_all add: toUpperHex_def)
  have val: "big_of_bytes (BigToBytes keyB) = keyB" using assms(2) by (simp add: BigToBytes_def big_of_big_bytes)
  let ?hex = "bytes_of_string (toUpperHex (BigToBytes keyB))"
  let ?data = "putLE16 (length salt) @ salt @ putLE16 (length ?hex) @ ?hex"
  have n: "unat (?data ! 0) + 256 * unat (?data ! 1) = length salt"
    using le16_putLE16 [OF assms(1), of "salt @ putLE16 (length ?hex) @ ?hex"] by (simp add: le16_def)
  have "take (length salt) (drop 2 ?data) = salt" "drop (2 + length salt + 2) ?data = ?hex" "length ?data = 4 + length salt + length ?hex"
    by (simp_all add: putLE16_def)
  then show ?thesis
    using n hex setString16_toUpperHex [OF ne] val
    by (simp add: buildServerAuthData_def Let_def parseServerAuthData_def)
qed

text \<open>A public key of more than 1024 bits passes the parser and makes \<^verbatim>\<open>FillBytes\<close> panic.\<close>

lemma Pad_oversized: "256 ^ KeySize \<le> \<bar>v\<bar> \<Longrightarrow> Pad v = Inl bigPanic"
proof -
  assume v: "256 ^ KeySize \<le> \<bar>v\<bar>"
  have "\<not> length (BigToBytes v) \<le> KeySize"
  proof
    assume "length (BigToBytes v) \<le> KeySize"
    then have "(256 :: int) ^ length (BigToBytes v) \<le> 256 ^ KeySize" by (intro power_increasing) simp_all
    moreover have "\<bar>v\<bar> < 256 ^ length (BigToBytes v)"
      using big_of_bytes_bounds [of "BigToBytes v"] by (simp add: BigToBytes_def big_of_big_bytes)
    ultimately show False using v by linarith
  qed
  then show ?thesis by (simp add: Pad_def Let_def)
qed

section \<open>The user identification block is read back\<close>

text \<open>A server's reading of the block: tag, length in one byte, value.\<close>

function parse_tlv :: "byte list \<Rightarrow> (byte \<times> byte list) list option" where
  "parse_tlv [] = Some []"
| "parse_tlv [t] = None"
| "parse_tlv (t # n # rest) =
     (if length rest < unat n then None
      else map_option ((#) (t, take (unat n) rest)) (parse_tlv (drop (unat n) rest)))"
  by pat_completeness auto
termination by (relation "measure length") auto

lemma parse_tlv_item:
  assumes "length v < 256"
  shows "parse_tlv ((t # of_nat (length v) # v) @ rest) = map_option ((#) (t, v)) (parse_tlv rest)"
proof -
  have "unat (of_nat (length v) :: byte) = length v" using assms by (simp add: unat_of_nat)
  then show ?thesis by simp
qed

text \<open>The parts of the public key: pieces of at most 254 bytes, numbered from 0.\<close>

function key_parts :: "byte list \<Rightarrow> byte \<Rightarrow> (byte \<times> byte list) list" where
  "key_parts data seq = (if data = [] then []
     else (CnctSpecificData, seq # take 254 data) # key_parts (drop 254 data) (seq + 1))"
  by pat_completeness auto
termination by (relation "measure (\<lambda>(data, seq). length data)") auto

declare key_parts.simps [simp del]

definition tlv_image :: "(byte \<times> byte list) list \<Rightarrow> byte list" where
  "tlv_image items = concat (map (\<lambda>(t, v). t # of_nat (length v) # v) items)"

lemma parse_tlv_image: "list_all (\<lambda>it. length (snd it) < 256) items \<Longrightarrow> parse_tlv (tlv_image items) = Some items"
proof (induction items)
  case (Cons it items)
  obtain t v where it: "it = (t, v)" by (cases it)
  have "tlv_image (it # items) = (t # of_nat (length v) # v) @ tlv_image items" by (simp add: tlv_image_def it)
  then show ?case using Cons it parse_tlv_item [of v t "tlv_image items"] by simp
qed (simp add: tlv_image_def)

lemma specific_loop_parts: "specific_loop buf data seq = buf @ tlv_image (key_parts data seq)"
proof (induction buf data seq rule: specific_loop.induct)
  case (1 buf data seq)
  show ?case
  proof (cases "data = []")
    case True
    then show ?thesis by (simp add: specific_loop.simps key_parts.simps tlv_image_def)
  next
    case False
    let ?c = "if length data > 254 then 254 else length data"
    have c: "take ?c data = take 254 data" "drop ?c data = drop 254 data" "length (take 254 data) = ?c" by auto
    have "specific_loop buf data seq = specific_loop ((buf @ [CnctSpecificData, of_nat (?c + 1), seq]) @ take 254 data) (drop 254 data) (seq + 1)"
      using False c by (subst specific_loop.simps) (simp add: Let_def)
    also have "\<dots> = ((buf @ [CnctSpecificData, of_nat (?c + 1), seq]) @ take 254 data) @ tlv_image (key_parts (drop 254 data) (seq + 1))"
      using "1.IH" [OF _ refl] False c by simp
    also have "\<dots> = buf @ tlv_image (key_parts data seq)"
      using False c(3) by (subst key_parts.simps [of data]) (simp add: tlv_image_def del: length_take)
    finally show ?thesis .
  qed
qed

lemma key_parts_size: "list_all (\<lambda>it. length (snd it) < 256) (key_parts data seq)"
  by (induction data seq rule: key_parts.induct) (subst key_parts.simps, simp add: min_less_iff_disj)

lemma key_parts_tag: "list_all (\<lambda>it. fst it = CnctSpecificData) (key_parts data seq)"
  by (induction data seq rule: key_parts.induct) (subst key_parts.simps, simp)

lemma key_parts_join: "concat (map (\<lambda>it. tl (snd it)) (key_parts data seq)) = data"
  by (induction data seq rule: key_parts.induct) (subst key_parts.simps, simp)

definition ident_items :: "string \<Rightarrow> string \<Rightarrow> string \<Rightarrow> string \<Rightarrow> string \<Rightarrow> string \<Rightarrow> uint32 \<Rightarrow> (byte \<times> byte list) list" where
  "ident_items osUser hostname dbUser plugin publicKeyHex pluginList wireCrypt =
     [(CnctUser, bytes_of_string osUser), (CnctHost, bytes_of_string hostname), (CnctUserVerification, []),
      (CnctLogin, bytes_of_string dbUser), (CnctPluginName, bytes_of_string plugin)]
     @ key_parts (bytes_of_string publicKeyHex) 0
     @ [(CnctPluginList, bytes_of_string pluginList), (CnctClientCrypt, putLE32 wireCrypt)]"

lemma buildUserIdentBlock_image:
  "buildUserIdentBlock osUser hostname dbUser plugin publicKeyHex pluginList wireCrypt
   = tlv_image (ident_items osUser hostname dbUser plugin publicKeyHex pluginList wireCrypt)"
  by (simp add: buildUserIdentBlock_def appendTag_def appendSpecificData_def specific_loop_parts appendCryptPreference_def
      ident_items_def tlv_image_def Let_def putLE32_def)

text \<open>The block is read back whatever its strings, as long as they fit the one-byte lengths.\<close>

lemma buildUserIdentBlock_parse:
  assumes "length osUser < 256" "length hostname < 256" "length dbUser < 256" "length plugin < 256" "length pluginList < 256"
  shows "parse_tlv (buildUserIdentBlock osUser hostname dbUser plugin publicKeyHex pluginList wireCrypt)
    = Some (ident_items osUser hostname dbUser plugin publicKeyHex pluginList wireCrypt)"
  unfolding buildUserIdentBlock_image
  by (rule parse_tlv_image) (use assms key_parts_size in \<open>simp add: ident_items_def putLE32_def\<close>)

lemma length_tlv_parts: "length (tlv_image (key_parts data seq)) = specific_size (length data)"
proof (induction data seq rule: key_parts.induct)
  case (1 data seq)
  show ?case
  proof (cases "data = []")
    case False
    have "length (tlv_image (key_parts data seq)) = 3 + min 254 (length data) + specific_size (length data - 254)"
      using "1.IH" [OF False] False by (subst key_parts.simps) (simp add: tlv_image_def)
    also have "\<dots> = specific_size (length data)"
      using False by (subst specific_size.simps [of "length data"]) (auto simp: Let_def min_def)
    finally show ?thesis .
  qed (simp add: key_parts.simps tlv_image_def specific_size.simps)
qed

text \<open>The size computed in advance is exact for a non-empty key: the buffer never grows.\<close>

lemma userIdentSize_exact:
  assumes "publicKeyHex \<noteq> []"
  shows "length (buildUserIdentBlock osUser hostname dbUser plugin publicKeyHex pluginList wireCrypt)
    = userIdentSize osUser hostname dbUser plugin publicKeyHex pluginList"
proof -
  have "specificDataSize publicKeyHex = specific_size (length publicKeyHex)"
  proof (cases "length publicKeyHex \<le> 254")
    case True
    then show ?thesis using assms by (simp add: specificDataSize_def specific_size.simps [of "length publicKeyHex"] specific_size.simps [of 0] Let_def)
  qed (simp add: specificDataSize_def Let_def)
  moreover have "length (tlv_image (xs @ ys)) = length (tlv_image xs) + length (tlv_image ys)" for xs ys by (simp add: tlv_image_def)
  ultimately show ?thesis
    using length_tlv_parts [of "bytes_of_string publicKeyHex" 0]
    by (simp add: buildUserIdentBlock_image ident_items_def userIdentSize_def tlv_image_def putLE32_def)
qed

end
