(* ===== verification/Handshake.thy ===== *)
theory Handshake
  imports Blob Auth Params
begin

text \<open>
  Connection establishment (\<^verbatim>\<open>internal/wire/handshake.go\<close>): protocol negotiation, the SRP exchange with its plugin
  switch, wire encryption, and the attach.

  \<^verbatim>\<open>ConnectContext\<close> works on the three locals \<^verbatim>\<open>conn\<close>, \<^verbatim>\<open>r\<close>, \<^verbatim>\<open>w\<close> that become fields of the connection it returns; the
  model runs on a connection whose other fields still have their zero values.  What the code takes from outside
  (random bytes, hashes, ciphers, the dial, the user and host names, the Unicode tables of \<^verbatim>\<open>strings\<close>) is a record of
  parameters.  Socket options and deadlines have no counterpart.
\<close>

record connect_env =
  env_random :: "gerr + byte list"
  env_upper :: "string \<Rightarrow> string"
  env_equalFold :: "string \<Rightarrow> string \<Rightarrow> bool"
  env_quote :: "string \<Rightarrow> string"
  env_sha1 :: hash
  env_sha256 :: hash
  env_rc4 :: "byte list \<Rightarrow> gerr + (nat \<Rightarrow> byte)"
  env_chacha :: "byte list \<Rightarrow> byte list \<Rightarrow> uint32 \<Rightarrow> gerr + (nat \<Rightarrow> byte)"
  env_dial :: "string \<Rightarrow> gerr + Conn"
  env_osUser :: "gerr + string"
  env_hostname :: "gerr + string"

record ProtocolConfig =
  cfg_Host :: string
  cfg_Port :: string
  cfg_Database :: string
  cfg_User :: string
  cfg_Password :: string
  cfg_Charset :: string
  cfg_NoneCharset :: string
  cfg_Dialect :: uint32
  cfg_WireCrypt :: uint32
  cfg_WireCryptSet :: bool
  cfg_AuthPluginList :: string
  cfg_Role :: string
  cfg_DataTypeBind :: string
  cfg_SessionTimeZone :: string

record protocolDescriptor =
  pd_Version :: uint32
  pd_Arch :: uint32
  pd_MinType :: uint32
  pd_MaxType :: uint32
  pd_Weight :: uint32

definition supportedProtocols :: "protocolDescriptor list" where
  "supportedProtocols =
    [\<lparr>pd_Version = ProtocolVersion13, pd_Arch = ArchGeneric, pd_MinType = PtypeBatchSend, pd_MaxType = PtypeLazySend, pd_Weight = 2\<rparr>,
     \<lparr>pd_Version = ProtocolVersion15, pd_Arch = ArchGeneric, pd_MinType = PtypeBatchSend, pd_MaxType = PtypeLazySend, pd_Weight = 4\<rparr>,
     \<lparr>pd_Version = ProtocolVersion16, pd_Arch = ArchGeneric, pd_MinType = PtypeBatchSend, pd_MaxType = PtypeLazySend, pd_Weight = 6\<rparr>,
     \<lparr>pd_Version = ProtocolVersion18, pd_Arch = ArchGeneric, pd_MinType = PtypeBatchSend, pd_MaxType = PtypeLazySend, pd_Weight = 8\<rparr>]"

definition getOSUser :: "connect_env \<Rightarrow> string" where
  "getOSUser env = (case env_osUser env of Inr u \<Rightarrow> u | Inl _ \<Rightarrow> ''unknown'')"

definition getHostname :: "connect_env \<Rightarrow> string" where
  "getHostname env = (case env_hostname env of Inr h \<Rightarrow> h | Inl _ \<Rightarrow> ''unknown'')"

section \<open>Wire encryption plugins\<close>

text \<open>\<^verbatim>\<open>strings.Fields\<close> splits at Unicode white space, here as UTF-8 bytes: the width of the white space at the head.\<close>

definition space_width :: "nat list \<Rightarrow> nat" where
  "space_width bs = (case bs of
      [] \<Rightarrow> 0
    | a # rest \<Rightarrow>
        if (9 \<le> a \<and> a \<le> 13) \<or> a = 32 then 1
        else case rest of [] \<Rightarrow> 0
        | b # rest' \<Rightarrow>
            if a = 0xC2 \<and> (b = 0x85 \<or> b = 0xA0) then 2
            else case rest' of [] \<Rightarrow> 0
            | c # _ \<Rightarrow>
                if (a = 0xE1 \<and> b = 0x9A \<and> c = 0x80)
                   \<or> (a = 0xE2 \<and> b = 0x80 \<and> ((0x80 \<le> c \<and> c \<le> 0x8A) \<or> c = 0xA8 \<or> c = 0xA9 \<or> c = 0xAF))
                   \<or> (a = 0xE2 \<and> b = 0x81 \<and> c = 0x9F) \<or> (a = 0xE3 \<and> b = 0x80 \<and> c = 0x80)
                then 3 else 0)"

function fields_loop :: "string \<Rightarrow> string \<Rightarrow> string list" where
  "fields_loop cur s =
     (if s = [] then (if cur = [] then [] else [cur])
      else let n = space_width (map of_char (take 3 s)) in
        if n = 0 then fields_loop (cur @ [hd s]) (tl s)
        else (if cur = [] then [] else [cur]) @ fields_loop [] (drop n s))"
  by pat_completeness auto
termination by (relation "measure (\<lambda>(cur, s). length s)") auto

declare fields_loop.simps [simp del]

definition stringsFields :: "string \<Rightarrow> string list" where "stringsFields s = fields_loop [] s"

fun indexByte :: "byte list \<Rightarrow> byte \<Rightarrow> nat option" where
  "indexByte [] c = None"
| "indexByte (b # bs) c = (if b = c then Some 0 else map_option Suc (indexByte bs c))"

text \<open>One entry of the key buffer.\<close>

definition key_entry :: "byte \<Rightarrow> byte list \<Rightarrow> string list \<times> byte list option \<Rightarrow> string list \<times> byte list option" where
  "key_entry tag data acc = (case acc of (plugins, chachaIV) \<Rightarrow>
     if tag = 1 then (plugins @ stringsFields (string_of_bytes data), chachaIV)
     else if tag = 3 then
       (case indexByte data 0 of
          None \<Rightarrow> acc
        | Some sep \<Rightarrow>
            if sep > 0 then
              (let name = string_of_bytes (take sep data); specific = drop (sep + 1) data in
               if name = ''ChaCha'' \<and> (length specific = 12 \<or> length specific = 16) then (plugins, Some specific) else acc)
            else acc)
     else acc)"

function keys_loop :: "byte list \<Rightarrow> string list \<times> byte list option \<Rightarrow> string list \<times> byte list option" where
  "keys_loop keys acc =
     (if length keys < 2 then acc
      else let tag = keys ! 0; n = unat (keys ! 1); rest = drop 2 keys in
        if n > length rest then acc else keys_loop (drop n rest) (key_entry tag (take n rest) acc))"
  by pat_completeness auto
termination by (relation "measure (\<lambda>(keys, acc). length keys)") auto

declare keys_loop.simps [simp del]

definition parseServerKeys :: "byte list \<Rightarrow> string list \<times> byte list option" where
  "parseServerKeys keys = keys_loop keys ([], None)"

definition pluginListed :: "string list \<Rightarrow> string \<Rightarrow> bool" where
  "pluginListed plugins name = list_ex (\<lambda>p. p = name) plugins"

fun join_space :: "string list \<Rightarrow> string" where
  "join_space [] = []"
| "join_space [s] = s"
| "join_space (s # ss) = s @ '' '' @ join_space ss"

definition selectCipher :: "connect_env \<Rightarrow> byte list \<Rightarrow> byte list \<Rightarrow> gerr + (string \<times> streamCipher \<times> streamCipher)" where
  "selectCipher env serverKeys sessionKey =
     (let (plugins, chachaIV) = parseServerKeys serverKeys;
          chacha = (if pluginListed plugins ''ChaCha''
                    then (case chachaIV of None \<Rightarrow> None
                          | Some iv \<Rightarrow>
                              (case (newChaCha20Cipher (env_sha256 env) (env_chacha env) sessionKey iv,
                                     newChaCha20Cipher (env_sha256 env) (env_chacha env) sessionKey iv) of
                                 (Inr rc, Inr wc) \<Rightarrow> Some (rc, wc)
                               | _ \<Rightarrow> None))
                    else None)
      in case chacha of
           Some (rc, wc) \<Rightarrow> Inr (''ChaCha'', rc, wc)
         | None \<Rightarrow>
             if length plugins > 0 \<and> \<not> pluginListed plugins ''Arc4''
             then Inl (Msg (''no supported wire crypt plugin offered by server (offered: ['' @ join_space plugins @ ''])''))
             else (case newArc4Cipher (env_rc4 env) sessionKey of
                     Inl e \<Rightarrow> Inl (Wrap ''failed to create cipher'' e)
                   | Inr rc \<Rightarrow> (case newArc4Cipher (env_rc4 env) sessionKey of
                       Inl e \<Rightarrow> Inl (Wrap ''failed to create cipher'' e)
                     | Inr wc \<Rightarrow> Inr (''Arc4'', rc, wc))))"

section \<open>The attach parameters\<close>

definition buildConnectDPB :: "connect_env \<Rightarrow> ProtocolConfig \<Rightarrow> srpClient \<Rightarrow> byte list" where
  "buildConnectDPB env cfg srp =
     (let dpb = NewDPBBuilder;
          dpb = DPB_WriteString IscDpbLcCtype (cfg_Charset cfg) dpb;
          dpb = DPB_WriteByteTag IscDpbSQLDialect (ucast (cfg_Dialect cfg)) dpb;
          dpb = DPB_WriteString IscDpbUserName (env_upper env (cfg_User cfg)) dpb;
          dpb = DPB_WriteString IscDpbAuthPluginName (srp_pluginName srp) dpb;
          dpb = DPB_WriteString IscDpbAuthPluginList (cfg_AuthPluginList cfg) dpb;
          dpb = DPB_WriteMarker IscDpbUtf8Filename dpb;
          dpb = DPB_WriteString IscDpbClientVersion ''go-firebird-driver/1.0'' dpb;
          dpb = DPB_WriteString IscDpbRemoteProtocol ''TCP'' dpb;
          dpb = DPB_WriteString IscDpbHostName (getHostname env) dpb;
          dpb = DPB_WriteString IscDpbOsUser (getOSUser env) dpb;
          dpb = (if cfg_Role cfg \<noteq> [] then DPB_WriteString 63 (cfg_Role cfg) dpb else dpb);
          dpb = (if cfg_DataTypeBind cfg \<noteq> [] then DPB_WriteString IscDpbSetBind (cfg_DataTypeBind cfg) dpb else dpb);
          dpb = (if cfg_SessionTimeZone cfg \<noteq> [] \<and> \<not> env_equalFold env (cfg_SessionTimeZone cfg) ''server''
                 then DPB_WriteString IscDpbSessionTimeZone (cfg_SessionTimeZone cfg) dpb else dpb)
      in DPB_Bytes dpb)"

section \<open>The handshake\<close>

text \<open>Every failing step after the dial closes the socket before it returns its error.\<close>

definition abort :: "gerr \<Rightarrow> 'a wop" where
  "abort e = tryE close_conn (\<lambda>_. throwE e)"

definition orAbort :: "(gerr \<Rightarrow> gerr) \<Rightarrow> 'a wop \<Rightarrow> 'a wop" where
  "orAbort f m = tryE m (\<lambda>res. case res of Inl e \<Rightarrow> abort (f e) | Inr x \<Rightarrow> okE x)"

definition withDefaults :: "ProtocolConfig \<Rightarrow> ProtocolConfig" where
  "withDefaults cfg =
     (let cfg = (if cfg_Charset cfg = [] then cfg\<lparr>cfg_Charset := ''UTF8''\<rparr> else cfg);
          cfg = (if cfg_Dialect cfg = 0 then cfg\<lparr>cfg_Dialect := SQLDialectCurrent\<rparr> else cfg);
          cfg = (if cfg_AuthPluginList cfg = [] then cfg\<lparr>cfg_AuthPluginList := DefaultPluginList\<rparr> else cfg)
      in if \<not> cfg_WireCryptSet cfg then cfg\<lparr>cfg_WireCrypt := WireCryptEnabled\<rparr> else cfg)"

text \<open>The text before the first comma, when there is one and it is not empty.\<close>

definition preferredPlugin :: "string \<Rightarrow> string" where
  "preferredPlugin pluginList =
     (let prefix = takeWhile (\<lambda>c. c \<noteq> CHR '','') pluginList in
      if length prefix < length pluginList \<and> length prefix > 0 then prefix else PluginSrp256)"

definition joinHostPort :: "string \<Rightarrow> string \<Rightarrow> string" where
  "joinHostPort host port =
     (if CHR '':'' \<in> set host then ''['' @ host @ '']:'' @ port else host @ '':'' @ port)"

definition protocol_fields :: "protocolDescriptor \<Rightarrow> field list" where
  "protocol_fields p = [FInt32 (pd_Version p), FInt32 (pd_Arch p), FInt32 (pd_MinType p), FInt32 (pd_MaxType p), FInt32 (pd_Weight p)]"

definition connect_fields :: "connect_env \<Rightarrow> ProtocolConfig \<Rightarrow> srpClient \<Rightarrow> field list" where
  "connect_fields env cfg srp =
     [FInt32 opConnect, FInt32 0, FInt32 ConnectVersion3, FInt32 ArchGeneric, FString (cfg_Database cfg),
      FInt32 (of_nat (length supportedProtocols)),
      FBuffer (buildUserIdentBlock (getOSUser env) (getHostname env) (env_upper env (cfg_User cfg)) (srp_pluginName srp)
        (PublicKeyHex srp) (cfg_AuthPluginList cfg) (cfg_WireCrypt cfg))]
     @ concat (map protocol_fields supportedProtocols)"

definition send :: "string \<Rightarrow> field list \<Rightarrow> unit wop" where
  "send name fs = bindE (write_all fs) (\<lambda>_. orAbort (Wrap (name @ '': flush'')) wc_flush)"

record accept =
  acceptedVersion :: uint32
  acceptedType :: uint32
  serverAuthData :: "byte list"
  serverPlugin :: string
  authenticated :: int32
  serverKeys :: "byte list"

definition readAcceptFields :: "Reader \<Rightarrow> accept \<times> Reader" where
  "readAcceptFields r =
     (let (version, r) = ReadUInt32 r;
          (_, r) = ReadUInt32 r;
          (ptype, r) = ReadUInt32 r;
          (data, r) = ReadBuffer r;
          (plugin, r) = ReadString r;
          (auth, r) = ReadInt32 r;
          (keys, r) = ReadBuffer r
      in (\<lparr>acceptedVersion = version, acceptedType = ptype, serverAuthData = data, serverPlugin = plugin,
           authenticated = auth, serverKeys = keys\<rparr>, r))"

definition readAccept :: "accept wop" where
  "readAccept =
     bindE (orAbort id (checked ''op_connect: read response'' ReadOpcode)) (\<lambda>op.
     if op = opAcceptData \<or> op = opCondAccept then orAbort id (checked ''op_connect: read accept'' readAcceptFields)
     else if op = opReject then abort (Msg ''op_connect: connection rejected by server'')
     else abort (Msg (''op_connect: unexpected opcode '' @ op_text op)))"

definition switchPlugin :: "connect_env \<Rightarrow> ProtocolConfig \<Rightarrow> string \<Rightarrow> srpClient \<Rightarrow> srpClient wop" where
  "switchPlugin env cfg plugin srp =
     (if plugin \<noteq> [] \<and> plugin \<noteq> srp_pluginName srp then
        if plugin \<noteq> PluginSrp \<and> plugin \<noteq> PluginSrp256
        then abort (Msg (''op_connect: server requires unsupported auth plugin '' @ env_quote env plugin @ '' (supported: ''
               @ cfg_AuthPluginList cfg @ '')''))
        else okE (SetPlugin plugin srp)
      else okE srp)"

text \<open>A panic inside \<^verbatim>\<open>ComputeProof\<close> unwinds without closing.\<close>

definition prove :: "connect_env \<Rightarrow> string \<Rightarrow> byte list \<Rightarrow> srpClient \<Rightarrow> (byte list \<times> srpClient) wop" where
  "prove env name challenge srp =
     (case ComputeProof (env_sha1 env) (env_sha256 env) challenge srp of
        (Inl e, _) \<Rightarrow> if e = bigPanic then throwE bigPanic else abort (Wrap (name @ '': srp proof'') e)
      | (Inr proof, srp') \<Rightarrow> okE (proof, srp'))"

definition auth_fields :: "ProtocolConfig \<Rightarrow> srpClient \<Rightarrow> byte list \<Rightarrow> byte list \<Rightarrow> field list" where
  "auth_fields cfg srp data keys =
     [FInt32 opContAuth, FBuffer data, FString (srp_pluginName srp), FString (cfg_AuthPluginList cfg), FBuffer keys]"

definition authDirect :: "connect_env \<Rightarrow> ProtocolConfig \<Rightarrow> srpClient \<Rightarrow> byte list \<Rightarrow> byte list \<Rightarrow> (srpClient \<times> byte list) wop" where
  "authDirect env cfg srp challenge keys =
     bindE (prove env ''op_connect'' challenge srp) (\<lambda>(proof, srp').
     bindE (send ''op_cont_auth'' (auth_fields cfg srp' proof keys)) (\<lambda>_.
     bindE (orAbort (Wrap ''op_cont_auth'') wc_ReadResponse) (\<lambda>resp.
     okE (srp', if length (Data resp) > 0 then Data resp else keys))))"

definition readContAuth :: "Reader \<Rightarrow> (byte list \<times> byte list) \<times> Reader" where
  "readContAuth r =
     (let (data, r) = ReadBuffer r;
          (_, r) = ReadString r;
          (_, r) = ReadString r;
          (keys, r) = ReadBuffer r
      in ((data, keys), r))"

definition authSwitched :: "connect_env \<Rightarrow> ProtocolConfig \<Rightarrow> srpClient \<Rightarrow> byte list \<Rightarrow> (srpClient \<times> byte list) wop" where
  "authSwitched env cfg srp keys =
     bindE (send ''op_cont_auth'' (auth_fields cfg srp (bytes_of_string (PublicKeyHex srp)) keys)) (\<lambda>_.
     bindE (orAbort id (checked ''op_cont_auth: read opcode'' ReadOpcode)) (\<lambda>op.
     if op = opContAuth then
       bindE (orAbort id (checked ''op_cont_auth: read'' readContAuth)) (\<lambda>(challenge, contKeys).
       let keys' = (if length contKeys > 0 then contKeys else keys) in
       bindE (prove env ''op_cont_auth'' challenge srp) (\<lambda>(proof, srp').
       bindE (bindE (write_all (auth_fields cfg srp' proof keys')) (\<lambda>_. orAbort (Wrap ''op_cont_auth: flush proof'') wc_flush)) (\<lambda>_.
       bindE (orAbort (Wrap ''op_cont_auth'') wc_ReadResponse) (\<lambda>_. okE (srp', keys')))))
     else if op = opResponse then
       bindE (orAbort id (checked ''op_cont_auth: read response'' readGenericResponse)) (\<lambda>resp.
       if HasError (Status resp) then abort (Wrap ''op_cont_auth'' (StatusErr (Status resp))) else okE (srp, keys))
     else abort (Msg (''op_cont_auth: unexpected opcode '' @ op_text op))))"

definition authenticate :: "connect_env \<Rightarrow> ProtocolConfig \<Rightarrow> srpClient \<Rightarrow> accept \<Rightarrow> (srpClient \<times> byte list) wop" where
  "authenticate env cfg srp acc =
     bindE (switchPlugin env cfg (serverPlugin acc) srp) (\<lambda>srp.
     if authenticated acc = 0 \<and> length (serverAuthData acc) > 0 then authDirect env cfg srp (serverAuthData acc) (serverKeys acc)
     else if authenticated acc = 0 then authSwitched env cfg srp (serverKeys acc)
     else okE (srp, serverKeys acc))"

definition enable_crypt :: "streamCipher \<Rightarrow> streamCipher \<Rightarrow> unit wop" where
  "enable_crypt rc wr = State (\<lambda>wc.
     let c = enableEncryption rc wr (wc_conn wc) in (Inr (), wc\<lparr>wc_reader := Reader_Reset c ((wc_reader wc)\<lparr>rd := c\<rparr>)\<rparr>))"

definition activateCrypt :: "connect_env \<Rightarrow> ProtocolConfig \<Rightarrow> srpClient \<Rightarrow> byte list \<Rightarrow> unit wop" where
  "activateCrypt env cfg srp keys =
     (let sessionKey = SessionKey srp in
      if cfg_WireCrypt cfg = WireCryptRequired \<and> length sessionKey = 0
      then abort (Msg (''op_crypt: wire_crypt=required but the negotiated auth produced no session key (server may not support wire encryption)''))
      else if cfg_WireCrypt cfg \<noteq> WireCryptDisabled \<and> length sessionKey > 0 then
        (case selectCipher env keys sessionKey of
           Inl e \<Rightarrow> if cfg_WireCrypt cfg = WireCryptRequired then abort (Wrap ''op_crypt'' e) else okE ()
         | Inr (cipherName, rc, wr) \<Rightarrow>
             bindE (send ''op_crypt'' [FInt32 opCrypt, FString cipherName, FString ''Symmetric'']) (\<lambda>_.
             bindE (enable_crypt rc wr) (\<lambda>_.
             bindE (orAbort (Wrap ''op_crypt'') wc_ReadResponse) (\<lambda>_. okE ()))))
      else okE ())"

definition attach :: "connect_env \<Rightarrow> ProtocolConfig \<Rightarrow> srpClient \<Rightarrow> GenericResponse wop" where
  "attach env cfg srp =
     bindE (send ''op_attach'' [FInt32 opAttach, FInt32 0, FString (cfg_Database cfg), FBuffer (buildConnectDPB env cfg srp)]) (\<lambda>_.
     orAbort (Wrap ''op_attach'') wc_ReadResponse)"

text \<open>The whole exchange on a fresh connection; at the end the fields of \<^verbatim>\<open>WireConnection\<close> are set.\<close>

definition fillConnection :: "ProtocolConfig \<Rightarrow> accept \<Rightarrow> GenericResponse \<Rightarrow> unit wop" where
  "fillConnection cfg acc resp = State (\<lambda>wc. (Inr (),
     wc\<lparr>dbHandle := Handle resp, protocolVersion := acceptedVersion acc AND FBProtocolMask,
       wc_charset := cfg_Charset cfg, noneCharsetID := CharsetID (cfg_NoneCharset cfg),
       lazySend := (acceptedType acc AND PtypeMask = PtypeLazySend)\<rparr>))"

definition handshake :: "connect_env \<Rightarrow> ProtocolConfig \<Rightarrow> srpClient \<Rightarrow> unit wop" where
  "handshake env cfg srp =
     bindE (send ''op_connect'' (connect_fields env cfg srp)) (\<lambda>_.
     bindE readAccept (\<lambda>acc.
     bindE (authenticate env cfg srp acc) (\<lambda>(srp', keys).
     bindE (activateCrypt env cfg srp' keys) (\<lambda>_.
     bindE (attach env cfg srp') (\<lambda>resp. fillConnection cfg acc resp)))))"

definition freshConnection :: "Conn \<Rightarrow> WireConnection" where
  "freshConnection conn =
     \<lparr>wc_reader = NewReader conn, wc_writer = NewWriter, dbHandle = 0, protocolVersion = 0, wc_charset = [], noneCharsetID = 0,
      lazySend = False, deferredCount = 0, nullBuf = replicate 32 0, freeHandles = replicate maxFreeHandles 0, freeCount = 0\<rparr>"

text \<open>The second component is the connection's final state when there was a dial.\<close>

definition ConnectContext :: "connect_env \<Rightarrow> ProtocolConfig \<Rightarrow> (gerr + unit) \<times> WireConnection option" where
  "ConnectContext env cfg =
     (let cfg = withDefaults cfg; plugin = preferredPlugin (cfg_AuthPluginList cfg) in
      case newSRPClient (env_upper env) (env_random env) plugin (cfg_User cfg) (cfg_Password cfg) of
        Inl e \<Rightarrow> (Inl (Wrap ''op_connect: srp init'' e), None)
      | Inr srp \<Rightarrow>
          (let addr = joinHostPort (cfg_Host cfg) (cfg_Port cfg) in
           case env_dial env addr of
             Inl e \<Rightarrow> (Inl (Wrap (''op_connect: dial '' @ addr) e), None)
           | Inr conn \<Rightarrow> (let (res, wc) = run_state (handshake env cfg srp) (freshConnection conn) in (res, Some wc))))"

section \<open>No step leaks the connection\<close>

definition good :: "WireConnection \<Rightarrow> bool" where
  "good wc \<longleftrightarrow> wf_reader (wc_reader wc) \<and> wf_writer (wc_writer wc)"

text \<open>\<open>keeps m\<close>: whatever the outcome, the socket stays as it was (open or closed) and an encrypted outgoing side stays
  encrypted.  \<open>closes m\<close>: the same for success, and a failure other than a panic leaves the socket closed.\<close>

definition same_socket :: "WireConnection \<Rightarrow> WireConnection \<Rightarrow> bool" where
  "same_socket wc wc' \<longleftrightarrow> conn_closed (wc_conn wc') = conn_closed (wc_conn wc) \<and> (cryptW (wc_conn wc) \<noteq> None \<longrightarrow> cryptW (wc_conn wc') \<noteq> None)"

definition keeps :: "'a wop \<Rightarrow> bool" where
  "keeps m \<longleftrightarrow> (\<forall>wc res wc'. good wc \<longrightarrow> run_state m wc = (res, wc') \<longrightarrow> good wc' \<and> same_socket wc wc')"

definition closes :: "'a wop \<Rightarrow> bool" where
  "closes m \<longleftrightarrow> (\<forall>wc res wc'. good wc \<longrightarrow> run_state m wc = (res, wc') \<longrightarrow> good wc' \<and>
     (case res of Inl e \<Rightarrow> e = bigPanic \<or> conn_closed (wc_conn wc') | Inr _ \<Rightarrow> same_socket wc wc'))"

lemma same_socket_refl [simp]: "same_socket wc wc"
  by (simp add: same_socket_def)

lemma same_socket_trans: "same_socket a b \<Longrightarrow> same_socket b c \<Longrightarrow> same_socket a c"
  by (simp add: same_socket_def)

lemma closes_ok: "closes (okE x)"
  by (simp add: closes_def)

lemma closes_panic: "closes (throwE bigPanic)"
  by (simp add: closes_def)

lemma closes_abort: "closes (abort e)"
  by (auto simp: closes_def abort_def close_conn_def good_def wf_reader_def Conn_Close_def)

lemma closes_bind:
  assumes "closes m" and "\<And>x. closes (k x)"
  shows "closes (bindE m k)"
  unfolding closes_def
proof (intro allI impI)
  fix wc res wc' assume g: "good wc" and r: "run_state (bindE m k) wc = (res, wc')"
  obtain a wc1 where a: "run_state m wc = (a, wc1)" by (metis surj_pair)
  note A = assms(1) [unfolded closes_def, rule_format, OF g a]
  show "good wc' \<and> (case res of Inl e \<Rightarrow> e = bigPanic \<or> conn_closed (wc_conn wc') | Inr _ \<Rightarrow> same_socket wc wc')"
  proof (cases a)
    case (Inl e)
    then show ?thesis using A a r by auto
  next
    case (Inr x)
    then have "run_state (k x) wc1 = (res, wc')" using a r by simp
    from assms(2) [unfolded closes_def, rule_format, OF conjunct1 [OF A] this] show ?thesis
      using A Inr same_socket_trans [of wc wc1 wc'] by (auto split: sum.splits)
  qed
qed

lemma closes_orAbort:
  assumes "keeps m"
  shows "closes (orAbort f m)"
  unfolding closes_def
proof (intro allI impI)
  fix wc res wc' assume g: "good wc" and r: "run_state (orAbort f m) wc = (res, wc')"
  obtain a wc1 where a: "run_state m wc = (a, wc1)" by (metis surj_pair)
  note A = assms [unfolded keeps_def, rule_format, OF g a]
  show "good wc' \<and> (case res of Inl e \<Rightarrow> e = bigPanic \<or> conn_closed (wc_conn wc') | Inr _ \<Rightarrow> same_socket wc wc')"
    using A a r closes_abort [unfolded closes_def, rule_format, OF conjunct1 [OF A], of "f (projl a)" res wc']
    by (cases a) (auto simp: orAbort_def abort_def split: sum.splits prod.splits)
qed

lemma closes_if: "closes m \<Longrightarrow> closes m' \<Longrightarrow> closes (if b then m else m')"
  by simp

lemma keeps_reading:
  assumes "sane m" and "\<And>wc. snd (run_state k wc) = wc\<lparr>wc_reader := snd (m (wc_reader wc))\<rparr>"
  shows "keeps k"
  unfolding keeps_def
proof (intro allI impI)
  fix wc res wc' assume g: "good wc" and r: "run_state k wc = (res, wc')"
  obtain v r' where v: "m (wc_reader wc) = (v, r')" by (metis surj_pair)
  have "wf_reader (wc_reader wc)" using g by (simp add: good_def)
  from saneD [OF assms(1) this v] show "good wc' \<and> same_socket wc wc'"
    using assms(2) [of wc] r v g by (auto simp: good_def same_socket_def same_out_def)
qed

lemma keeps_ReadResponse: "keeps wc_ReadResponse"
  by (rule keeps_reading [OF sane_ReadResponse]) (simp add: wc_ReadResponse_def split: prod.split)

lemma keeps_checked: "sane m \<Longrightarrow> keeps (checked what m)"
  by (rule keeps_reading) (auto simp: checked_def split: prod.split)

lemma Flush_socket:
  "Flush w c = (err, w', c') \<Longrightarrow> wf_writer w \<Longrightarrow> wf_writer w' \<and> conn_closed c' = conn_closed c \<and> (cryptW c \<noteq> None \<longrightarrow> cryptW c' \<noteq> None)"
  by (auto simp: Flush_def Conn_Write_def sock_write_def XORKeyStream_def Let_def wf_writer_def split: if_splits option.splits list.splits prod.splits)

lemma keeps_flush: "keeps wc_flush"
  unfolding keeps_def
proof (intro allI impI)
  fix wc res wc' assume g: "good wc" and r: "run_state wc_flush wc = (res, wc')"
  obtain err w' c' where f: "Flush (wc_writer wc) (wc_conn wc) = (err, w', c')" by (metis surj_pair)
  show "good wc' \<and> same_socket wc wc'"
    using g r f Flush_socket [OF f] by (auto simp: wc_flush_def good_def same_socket_def wf_reader_def)
qed

lemma closes_write_all: "closes (write_all fs)"
  using pooled.write_fields_wf by (auto simp: closes_def write_all_def good_def fold_put_field same_socket_def)

lemma closes_send: "closes (send name fs)"
  unfolding send_def by (intro closes_bind closes_write_all closes_orAbort keeps_flush)

lemma closes_enable: "closes (enable_crypt rc wr)"
  by (auto simp: closes_def enable_crypt_def good_def same_socket_def Reader_Reset_def enableEncryption_def wf_reader_def Let_def)

lemma sane_readAcceptFields: "sane readAcceptFields"
  unfolding readAcceptFields_def [abs_def] Let_def ReadUInt32_eq by (intro sane_bind sane_reads sane_pure)

lemma sane_readContAuth: "sane readContAuth"
  unfolding readContAuth_def [abs_def] Let_def by (intro sane_bind sane_reads sane_pure)

lemmas closes_intros = closes_bind closes_if closes_ok closes_panic closes_abort closes_send closes_write_all closes_enable closes_orAbort
  keeps_ReadResponse keeps_flush keeps_checked sane_ReadOpcode sane_readAcceptFields sane_readContAuth sane_readGenericResponse

lemma closes_readAccept: "closes readAccept"
  unfolding readAccept_def by (intro closes_intros)

lemma closes_prove: "closes (prove env name challenge srp)"
  by (simp add: prove_def closes_abort closes_panic closes_ok split: prod.split sum.split)

lemma closes_authDirect: "closes (authDirect env cfg srp challenge keys)"
  unfolding authDirect_def case_prod_beta by (intro closes_intros closes_prove)

lemma closes_authSwitched: "closes (authSwitched env cfg srp keys)"
  unfolding authSwitched_def case_prod_beta Let_def by (intro closes_intros closes_prove)

lemma closes_authenticate: "closes (authenticate env cfg srp acc)"
  unfolding authenticate_def switchPlugin_def by (intro closes_intros closes_authDirect closes_authSwitched)

lemma closes_activateCrypt: "closes (activateCrypt env cfg srp keys)"
proof -
  have "closes (case selectCipher env keys (SessionKey srp) of
           Inl e \<Rightarrow> if cfg_WireCrypt cfg = WireCryptRequired then abort (Wrap ''op_crypt'' e) else okE ()
         | Inr (cipherName, rc, wr) \<Rightarrow>
             bindE (send ''op_crypt'' [FInt32 opCrypt, FString cipherName, FString ''Symmetric'']) (\<lambda>_.
             bindE (enable_crypt rc wr) (\<lambda>_.
             bindE (orAbort (Wrap ''op_crypt'') wc_ReadResponse) (\<lambda>_. okE ()))))"
    by (simp add: closes_abort closes_ok split: sum.split prod.split) (intro conjI allI impI closes_intros)
  then show ?thesis unfolding activateCrypt_def Let_def by (intro closes_if closes_abort closes_ok)
qed

lemma closes_attach: "closes (attach env cfg srp)"
  unfolding attach_def by (intro closes_intros)

lemma closes_fill: "closes (fillConnection cfg acc resp)"
  by (simp add: closes_def good_def same_socket_def fillConnection_def)

lemma closes_handshake: "closes (handshake env cfg srp)"
  unfolding handshake_def case_prod_beta
  by (intro closes_bind closes_send closes_readAccept closes_authenticate closes_activateCrypt closes_attach closes_fill)

lemma good_fresh [simp]: "good (freshConnection conn)"
  by (simp add: good_def freshConnection_def)

section \<open>Required encryption\<close>

text \<open>\<open>secures m\<close>: when \<open>m\<close> succeeds, everything sent afterwards is encrypted.\<close>

definition secures :: "'a wop \<Rightarrow> bool" where
  "secures m \<longleftrightarrow> (\<forall>wc x wc'. good wc \<longrightarrow> run_state m wc = (Inr x, wc') \<longrightarrow> cryptW (wc_conn wc') \<noteq> None)"

lemma closesD:
  assumes "closes m" and "good wc" and "run_state m wc = (Inr x, wc')"
  shows "good wc'" and "same_socket wc wc'"
  using assms unfolding closes_def by (auto split: sum.splits)

lemma bindE_Inr:
  assumes "run_state (bindE m k) s = (Inr y, s'')"
  obtains x s' where "run_state m s = (Inr x, s')" and "run_state (k x) s' = (Inr y, s'')"
  using assms by (auto split: prod.splits sum.splits)

lemma secures_before: "closes m \<Longrightarrow> (\<And>x. secures (k x)) \<Longrightarrow> secures (bindE m k)"
  unfolding secures_def by (meson bindE_Inr closesD(1))

lemma secures_after:
  assumes "closes m" and "secures m" and "\<And>x. closes (k x)"
  shows "secures (bindE m k)"
  unfolding secures_def
proof (intro allI impI)
  fix wc y wc2 assume g: "good wc" and "run_state (bindE m k) wc = (Inr y, wc2)"
  then obtain x wc1 where 1: "run_state m wc = (Inr x, wc1)" "run_state (k x) wc1 = (Inr y, wc2)" by (meson bindE_Inr)
  have "cryptW (wc_conn wc1) \<noteq> None" using assms(2) g 1(1) unfolding secures_def by blast
  moreover have "same_socket wc1 wc2" by (rule closesD(2) [OF assms(3) closesD(1) [OF assms(1) g 1(1)] 1(2)])
  ultimately show "cryptW (wc_conn wc2) \<noteq> None" by (simp add: same_socket_def)
qed

lemma secures_abort: "secures (abort e)"
  by (simp add: secures_def abort_def split: prod.split)

lemma secures_enable: "secures (enable_crypt rc wr)"
  by (auto simp: secures_def enable_crypt_def Let_def Reader_Reset_def enableEncryption_def)

lemma secures_activateCrypt:
  assumes "cfg_WireCrypt cfg = WireCryptRequired"
  shows "secures (activateCrypt env cfg srp keys)"
proof -
  have "secures (bindE (send ''op_crypt'' fs) (\<lambda>_. bindE (enable_crypt rc wr) (\<lambda>_. bindE (orAbort f wc_ReadResponse) (\<lambda>_. okE ()))))" for fs rc wr f
    by (intro secures_before secures_after closes_intros secures_enable)
  then show ?thesis
    using assms by (simp add: activateCrypt_def Let_def secures_abort split: sum.split prod.split)
qed

lemma secures_handshake:
  assumes "cfg_WireCrypt cfg = WireCryptRequired"
  shows "secures (handshake env cfg srp)"
  unfolding handshake_def case_prod_beta
  by (intro secures_before closes_send closes_readAccept closes_authenticate secures_after [OF closes_activateCrypt secures_activateCrypt]
      closes_bind closes_attach closes_fill assms)

section \<open>Negotiated ciphers\<close>

text \<open>Both directions get the same cipher; its plugin is one the server offered, or the server offered none.\<close>

lemma selectCipher_offered:
  assumes "selectCipher env keys sessionKey = Inr (name, rc, wr)"
  shows "rc = wr" and "kpos rc = 0" and "name \<in> {''ChaCha'', ''Arc4''}" and "fst (parseServerKeys keys) = [] \<or> name \<in> set (fst (parseServerKeys keys))"
  using assms
  by (auto simp: selectCipher_def pluginListed_def list_ex_iff newArc4Cipher_def newChaCha20Cipher_def Let_def
      split: prod.splits option.splits sum.splits if_splits)

text \<open>The key buffer of a server: a plugin list and the initialisation vector for ChaCha.\<close>

definition key_image :: "byte \<Rightarrow> byte list \<Rightarrow> byte list" where
  "key_image tag data = tag # of_nat (length data) # data"

lemma keys_loop_image:
  assumes "length data < 256"
  shows "keys_loop (key_image tag data @ rest) acc = keys_loop rest (key_entry tag data acc)"
proof -
  have "unat (of_nat (length data) :: byte) = length data" using assms by (simp add: unat_of_nat)
  then show ?thesis by (subst keys_loop.simps) (simp add: key_image_def)
qed

lemma space_width_plain: "a \<noteq> 32 \<Longrightarrow> 14 \<le> a \<Longrightarrow> a < 0x80 \<Longrightarrow> space_width (a # bs) = 0"
  by (auto simp: space_width_def split: list.split)

definition plain_name :: "string \<Rightarrow> bool" where
  "plain_name s \<longleftrightarrow> s \<noteq> [] \<and> list_all (\<lambda>c. 33 \<le> (of_char c :: nat) \<and> (of_char c :: nat) < 0x80) s"

lemma fields_loop_name:
  assumes "list_all (\<lambda>c. 33 \<le> (of_char c :: nat) \<and> (of_char c :: nat) < 0x80) s"
  shows "fields_loop cur (s @ rest) = fields_loop (cur @ s) rest"
  using assms
proof (induction s arbitrary: cur)
  case (Cons c s)
  have "space_width (map of_char (take 3 ((c # s) @ rest))) = 0"
    using Cons.prems by (simp add: numeral_3_eq_3) (rule space_width_plain; simp)
  then have "fields_loop cur ((c # s) @ rest) = fields_loop (cur @ [c]) (s @ rest)" by (subst fields_loop.simps) simp
  then show ?case using Cons by simp
qed simp

lemma stringsFields_join: "list_all plain_name names \<Longrightarrow> stringsFields (join_space names) = names"
proof (induction names rule: join_space.induct)
  case 1
  show ?case by (simp add: stringsFields_def fields_loop.simps)
next
  case (2 s)
  then have "s \<noteq> []" "fields_loop [] (s @ []) = fields_loop ([] @ s) []" by (simp_all add: plain_name_def fields_loop_name del: append_Nil2)
  then show ?case by (simp add: stringsFields_def fields_loop.simps)
next
  case (3 s t ss)
  have ne: "s \<noteq> []" and s: "fields_loop [] (s @ '' '' @ join_space (t # ss)) = fields_loop ([] @ s) ('' '' @ join_space (t # ss))"
    using "3.prems" by (simp_all add: plain_name_def fields_loop_name)
  have "space_width (map of_char (take 3 (CHR '' '' # join_space (t # ss)))) = 1" by (simp add: space_width_def numeral_3_eq_3)
  then have "fields_loop s (CHR '' '' # join_space (t # ss)) = s # fields_loop [] (join_space (t # ss))"
    using ne by (subst fields_loop.simps) simp
  then show ?case using s "3.IH" "3.prems" by (simp add: stringsFields_def)
qed

lemma indexByte_prefix: "0 \<notin> set xs \<Longrightarrow> indexByte (xs @ 0 # ys) 0 = Some (length xs)"
  by (induction xs) auto

lemma parseServerKeys_image:
  assumes "list_all plain_name names" and "length (join_space names) < 256" and "length iv = 12 \<or> length iv = 16"
    and "length ktype < 256"
  shows "parseServerKeys (key_image 0 ktype @ key_image 1 (bytes_of_string (join_space names))
      @ key_image 3 (bytes_of_string ''ChaCha'' @ 0 # iv)) = (names, Some iv)"
proof -
  have z: "0 \<notin> set (bytes_of_string ''ChaCha'')" by (simp add: bytes_of_string_def)
  have len: "length (bytes_of_string ''ChaCha'' @ 0 # iv) < 256" using assms(3) by auto
  have 3: "key_entry 3 (bytes_of_string ''ChaCha'' @ 0 # iv) (names, None) = (names, Some iv)"
    using indexByte_prefix [OF z, of iv] assms(3) by (simp add: key_entry_def)
  have 1: "key_entry 1 (bytes_of_string (join_space names)) ([], None) = (names, None)"
    using stringsFields_join [OF assms(1)] by (simp add: key_entry_def)
  have 0: "key_entry 0 ktype ([], None) = ([], None)" by (simp add: key_entry_def)
  have e: "keys_loop [] acc = acc" for acc by (simp add: keys_loop.simps)
  show ?thesis
    using keys_loop_image [OF len, of 3 "[]" "(names, None)"] 0 1 3 e assms(2,4)
    by (simp add: parseServerKeys_def keys_loop_image)
qed

section \<open>The attach parameters are read back\<close>

definition connect_items :: "connect_env \<Rightarrow> ProtocolConfig \<Rightarrow> srpClient \<Rightarrow> (byte \<times> byte list) list" where
  "connect_items env cfg srp =
     [(IscDpbLcCtype, bytes_of_string (cfg_Charset cfg)), (IscDpbSQLDialect, [ucast (cfg_Dialect cfg)]),
      (IscDpbUserName, bytes_of_string (env_upper env (cfg_User cfg))), (IscDpbAuthPluginName, bytes_of_string (srp_pluginName srp)),
      (IscDpbAuthPluginList, bytes_of_string (cfg_AuthPluginList cfg)), (IscDpbUtf8Filename, []),
      (IscDpbClientVersion, bytes_of_string ''go-firebird-driver/1.0''), (IscDpbRemoteProtocol, bytes_of_string ''TCP''),
      (IscDpbHostName, bytes_of_string (getHostname env)), (IscDpbOsUser, bytes_of_string (getOSUser env))]
     @ (if cfg_Role cfg \<noteq> [] then [(63, bytes_of_string (cfg_Role cfg))] else [])
     @ (if cfg_DataTypeBind cfg \<noteq> [] then [(IscDpbSetBind, bytes_of_string (cfg_DataTypeBind cfg))] else [])
     @ (if cfg_SessionTimeZone cfg \<noteq> [] \<and> \<not> env_equalFold env (cfg_SessionTimeZone cfg) ''server''
        then [(IscDpbSessionTimeZone, bytes_of_string (cfg_SessionTimeZone cfg))] else [])"

lemma dpb_holds_optional:
  "dpb_holds b items \<Longrightarrow> dpb_holds (if c then DPB_WriteString tag v b else b) (items @ (if c then [(tag, bytes_of_string v)] else []))"
  using dpb_holds_write(1) by simp

lemma buildConnectDPB_image: "\<exists>b. buildConnectDPB env cfg srp = DPB_Bytes b \<and> dpb_holds b (connect_items env cfg srp)"
proof -
  have e: "connect_items env cfg srp = ((((((((((((([]
      @ [(IscDpbLcCtype, bytes_of_string (cfg_Charset cfg))]) @ [(IscDpbSQLDialect, [ucast (cfg_Dialect cfg)])])
      @ [(IscDpbUserName, bytes_of_string (env_upper env (cfg_User cfg)))]) @ [(IscDpbAuthPluginName, bytes_of_string (srp_pluginName srp))])
      @ [(IscDpbAuthPluginList, bytes_of_string (cfg_AuthPluginList cfg))]) @ [(IscDpbUtf8Filename, [])])
      @ [(IscDpbClientVersion, bytes_of_string ''go-firebird-driver/1.0'')]) @ [(IscDpbRemoteProtocol, bytes_of_string ''TCP'')])
      @ [(IscDpbHostName, bytes_of_string (getHostname env))]) @ [(IscDpbOsUser, bytes_of_string (getOSUser env))])
      @ (if cfg_Role cfg \<noteq> [] then [(63, bytes_of_string (cfg_Role cfg))] else []))
      @ (if cfg_DataTypeBind cfg \<noteq> [] then [(IscDpbSetBind, bytes_of_string (cfg_DataTypeBind cfg))] else []))
      @ (if cfg_SessionTimeZone cfg \<noteq> [] \<and> \<not> env_equalFold env (cfg_SessionTimeZone cfg) ''server''
         then [(IscDpbSessionTimeZone, bytes_of_string (cfg_SessionTimeZone cfg))] else []))"
    by (simp only: connect_items_def append_assoc append_Cons append_Nil)
  show ?thesis
    unfolding buildConnectDPB_def Let_def e
    by (rule exI, rule conjI, rule refl, intro dpb_holds_optional dpb_holds_write dpb_holds_New)
qed

lemma buildConnectDPB_items:
  assumes "list_all (\<lambda>it. length (snd it) < 2 ^ 32) (connect_items env cfg srp)"
  shows "parse_dpb (buildConnectDPB env cfg srp) = Some (connect_items env cfg srp)"
  using buildConnectDPB_image [of env cfg srp] dpb_holds_parse [OF _ assms] by auto

section \<open>A handshake that succeeds\<close>

definition accept_image :: "int32 \<Rightarrow> uint32 \<Rightarrow> accept \<Rightarrow> byte list" where
  "accept_image op arch acc = putUint32 op @ putUint32 (acceptedVersion acc) @ putUint32 arch @ putUint32 (acceptedType acc)
     @ xdr_buffer (serverAuthData acc) @ xdr_buffer (bytes_of_string (serverPlugin acc)) @ putUint32 (authenticated acc) @ xdr_buffer (serverKeys acc)"

definition accept_ok :: "accept \<Rightarrow> bool" where
  "accept_ok acc \<longleftrightarrow> length (serverAuthData acc) \<le> maxWireBufferLen \<and> length (serverPlugin acc) \<le> maxWireBufferLen
     \<and> length (serverKeys acc) \<le> maxWireBufferLen"

lemma reads_readAcceptFields:
  assumes "accept_ok acc"
  shows "reads readAcceptFields (putUint32 (acceptedVersion acc) @ putUint32 arch @ putUint32 (acceptedType acc)
     @ xdr_buffer (serverAuthData acc) @ xdr_buffer (bytes_of_string (serverPlugin acc)) @ putUint32 (authenticated acc) @ xdr_buffer (serverKeys acc)) acc"
proof -
  have len: "length (serverAuthData acc) \<le> maxWireBufferLen" "length (serverPlugin acc) \<le> maxWireBufferLen" "length (serverKeys acc) \<le> maxWireBufferLen"
    using assms by (simp_all add: accept_ok_def)
  have "reads (\<lambda>r. case ReadBuffer r of (keys, r) \<Rightarrow> (\<lparr>acceptedVersion = acceptedVersion acc, acceptedType = acceptedType acc,
      serverAuthData = serverAuthData acc, serverPlugin = serverPlugin acc, authenticated = authenticated acc, serverKeys = keys\<rparr>, r))
      (xdr_buffer (serverKeys acc)) acc"
    using reads_1 [OF reads_ReadBuffer_xdr [OF len(3)], of "\<lambda>keys. \<lparr>acceptedVersion = acceptedVersion acc, acceptedType = acceptedType acc,
      serverAuthData = serverAuthData acc, serverPlugin = serverPlugin acc, authenticated = authenticated acc, serverKeys = keys\<rparr>"] by (cases acc) simp
  then show ?thesis
    unfolding readAcceptFields_def [abs_def] Let_def
    by (intro reads_bind [OF reads_ReadUInt32] reads_bind [OF reads_ReadBuffer_xdr [OF len(1)]] reads_bind [OF reads_ReadString [OF len(2)]]
        reads_bind [OF reads_ReadInt32])
qed

lemma checked_reads:
  assumes "reads m bs v" and "serves wc [] (bs @ zs)"
  obtains r' where "run_state (checked what m) wc = (Inr v, wc\<lparr>wc_reader := r'\<rparr>)" and "serves (wc\<lparr>wc_reader := r'\<rparr>) [] zs"
proof -
  have "wf_reader (wc_reader wc)" "rerr (wc_reader wc) = None" "stream (wc_reader wc) = bs @ zs" using assms(2) by (simp_all add: serves_def rx_ready_def)
  from readsD [OF assms(1) this] obtain r' where
    "m (wc_reader wc) = (v, r')" "wf_reader r'" "rerr r' = None" "stream r' = zs" "outside r' = outside (wc_reader wc)" .
  then show ?thesis using serves_after [OF assms(2)] by (intro that [of r']) (simp_all add: checked_def)
qed

lemma orAbort_ok: "run_state m wc = (Inr x, wc') \<Longrightarrow> run_state (orAbort f m) wc = (Inr x, wc')"
  by (simp add: orAbort_def)

lemma readAccept_ok:
  assumes "serves wc [] (accept_image op arch acc @ zs)" and "op = opAcceptData \<or> op = opCondAccept" and "accept_ok acc"
  obtains r' where "run_state readAccept wc = (Inr acc, wc\<lparr>wc_reader := r'\<rparr>)" and "serves (wc\<lparr>wc_reader := r'\<rparr>) [] zs"
proof -
  let ?img = "putUint32 (acceptedVersion acc) @ putUint32 arch @ putUint32 (acceptedType acc)
     @ xdr_buffer (serverAuthData acc) @ xdr_buffer (bytes_of_string (serverPlugin acc)) @ putUint32 (authenticated acc) @ xdr_buffer (serverKeys acc)"
  have nd: "op \<noteq> opDummy" using assms(2) by auto
  have "serves wc [] (putUint32 op @ ?img @ zs)" using assms(1) by (simp add: accept_image_def)
  then obtain r1 where 1: "run_state (checked ''op_connect: read response'' ReadOpcode) wc = (Inr op, wc\<lparr>wc_reader := r1\<rparr>)"
    "serves (wc\<lparr>wc_reader := r1\<rparr>) [] (?img @ zs)" by (rule checked_reads [OF reads_ReadOpcode_plain [OF nd]])
  obtain r2 where 2: "run_state (checked ''op_connect: read accept'' readAcceptFields) (wc\<lparr>wc_reader := r1\<rparr>) = (Inr acc, wc\<lparr>wc_reader := r1\<rparr>\<lparr>wc_reader := r2\<rparr>)"
    "serves (wc\<lparr>wc_reader := r1\<rparr>\<lparr>wc_reader := r2\<rparr>) [] zs" by (rule checked_reads [OF reads_readAcceptFields [OF assms(3)] 1(2)])
  show ?thesis
    using orAbort_ok [OF 1(1), of id] orAbort_ok [OF 2(1), of id] 2(2) assms(2)
    by (intro that [of r2]) (simp_all add: readAccept_def)
qed

lemma send_ok:
  assumes "serves wc [] zs"
  obtains wc' where "run_state (send name fs) wc = (Inr (), wc')" and "serves wc' [] zs" and "deferredCount wc' = deferredCount wc"
proof -
  obtain wc' where w: "run_state (bindE (write_all fs) (\<lambda>_. wc_flush)) wc = (Inr (), wc')" "serves wc' [] zs" "deferredCount wc' = deferredCount wc"
    by (rule send_ready [OF assms])
  then have "run_state wc_flush (wc\<lparr>wc_writer := fold put_field fs (wc_writer wc)\<rparr>) = (Inr (), wc')" by (simp add: write_all_def)
  then show ?thesis using w orAbort_ok by (intro that [of wc']) (simp_all add: send_def write_all_def)
qed

lemma response_ok:
  assumes "serves wc [] (enc_resp x @ zs)" and "resp_ok x" and "clean x"
  obtains wc' where "run_state (orAbort f wc_ReadResponse) wc = (Inr (fst (resp_result x)), wc')" and "serves wc' [] zs"
    and "deferredCount wc' = deferredCount wc"
proof -
  have "serves wc [x] zs" using assms(1,2) by (simp add: serves_def rx_ready_def)
  then obtain r' where r': "ReadResponse (wc_reader wc) = (resp_result x, r')" "serves (wc\<lparr>wc_reader := r'\<rparr>) [] zs" by (rule serves_read)
  have "run_state wc_ReadResponse wc = (Inr (fst (resp_result x)), wc\<lparr>wc_reader := r'\<rparr>)"
    using r'(1) assms(3) by (cases "resp_result x") (simp add: wc_ReadResponse_def clean_def)
  then show ?thesis using r'(2) orAbort_ok by (intro that [of "wc\<lparr>wc_reader := r'\<rparr>"]) simp_all
qed

text \<open>A server that accepts with a challenge, takes the proof and grants the attach: the connection comes out in step
  with the server, with the negotiated version, type and database handle.\<close>

lemma handshake_direct:
  assumes "serves wc [] (accept_image op arch acc @ enc_resp auth @ enc_resp att @ zs)" and "deferredCount wc = 0"
    and "op = opAcceptData \<or> op = opCondAccept" and "accept_ok acc" and "authenticated acc = 0" and "serverAuthData acc \<noteq> []"
    and "serverPlugin acc = srp_pluginName srp"
    and "ComputeProof (env_sha1 env) (env_sha256 env) (serverAuthData acc) srp = (Inr proof, srp')"
    and "cfg_WireCrypt cfg = WireCryptDisabled" and "resp_ok auth" "clean auth" "resp_ok att" "clean att"
  shows "\<exists>wc'. run_state (handshake env cfg srp) wc = (Inr (), wc') \<and> in_step wc' [] [] zs
     \<and> dbHandle wc' = Handle (fst (resp_result att)) \<and> protocolVersion wc' = acceptedVersion acc AND FBProtocolMask
     \<and> lazySend wc' = (acceptedType acc AND PtypeMask = PtypeLazySend)"
proof -
  obtain wc1 where 1: "run_state (send ''op_connect'' (connect_fields env cfg srp)) wc = (Inr (), wc1)"
    "serves wc1 [] (accept_image op arch acc @ enc_resp auth @ enc_resp att @ zs)" "deferredCount wc1 = deferredCount wc"
    by (rule send_ok [OF assms(1)])
  obtain r2 where 2: "run_state readAccept wc1 = (Inr acc, wc1\<lparr>wc_reader := r2\<rparr>)"
    "serves (wc1\<lparr>wc_reader := r2\<rparr>) [] (enc_resp auth @ enc_resp att @ zs)" by (rule readAccept_ok [OF 1(2) assms(3,4)])
  obtain wc3 where 3: "run_state (send ''op_cont_auth'' (auth_fields cfg srp' proof (serverKeys acc))) (wc1\<lparr>wc_reader := r2\<rparr>) = (Inr (), wc3)"
    "serves wc3 [] (enc_resp auth @ enc_resp att @ zs)" "deferredCount wc3 = deferredCount (wc1\<lparr>wc_reader := r2\<rparr>)"
    by (rule send_ok [OF 2(2)])
  obtain wc4 where 4: "run_state (orAbort (Wrap ''op_cont_auth'') wc_ReadResponse) wc3 = (Inr (fst (resp_result auth)), wc4)"
    "serves wc4 [] (enc_resp att @ zs)" "deferredCount wc4 = deferredCount wc3" by (rule response_ok [OF 3(2) assms(10,11)])
  define keys where "keys = (if length (Data (fst (resp_result auth))) > 0 then Data (fst (resp_result auth)) else serverKeys acc)"
  have auth: "run_state (authenticate env cfg srp acc) (wc1\<lparr>wc_reader := r2\<rparr>) = (Inr (srp', keys), wc4)"
    using assms(5-8) 3(1) 4(1) by (simp add: authenticate_def switchPlugin_def authDirect_def prove_def keys_def)
  have crypt: "run_state (activateCrypt env cfg srp' keys) wc4 = (Inr (), wc4)" using assms(9) by (simp add: activateCrypt_def Let_def)
  let ?fs = "[FInt32 opAttach, FInt32 0, FString (cfg_Database cfg), FBuffer (buildConnectDPB env cfg srp')]"
  obtain wc5 where 5: "run_state (send ''op_attach'' ?fs) wc4 = (Inr (), wc5)" "serves wc5 [] (enc_resp att @ zs)" "deferredCount wc5 = deferredCount wc4"
    by (rule send_ok [OF 4(2)])
  obtain wc6 where 6: "run_state (orAbort (Wrap ''op_attach'') wc_ReadResponse) wc5 = (Inr (fst (resp_result att)), wc6)"
    "serves wc6 [] zs" "deferredCount wc6 = deferredCount wc5" by (rule response_ok [OF 5(2) assms(12,13)])
  have att: "run_state (attach env cfg srp') wc4 = (Inr (fst (resp_result att)), wc6)" using 5(1) 6(1) by (simp add: attach_def)
  obtain wc7 where 7: "run_state (fillConnection cfg acc (fst (resp_result att))) wc6 = (Inr (), wc7)" by (simp add: fillConnection_def)
  have "run_state (handshake env cfg srp) wc = (Inr (), wc7)" using 1(1) 2(1) auth crypt att 7 by (simp add: handshake_def)
  moreover have "in_step wc7 [] [] zs" using 6(2,3) 5(3) 4(3) 3(3) 1(3) assms(2) 7 by (auto simp: in_step_def fillConnection_def serves_def rx_ready_def)
  ultimately show ?thesis using 7 by (auto simp: fillConnection_def)
qed

end
