(* ===== verification/Session_Properties.thy ===== *)
theory Session_Properties
  imports Handshake
begin

text \<open>
  The properties of a connection: authentication and handshake, request/response accounting, the pool of
  statement handles, execution and fetch, blobs.
\<close>

section \<open>A connection with a scripted server\<close>

definition scripted :: "byte list \<Rightarrow> WireConnection" where
  "scripted bs = freshConnection (NewConn [Recv bs] [])"

lemma serves_scripted:
  assumes "bs = concat (map enc_resp rs) @ zs" and "bs \<noteq> []" and "list_all resp_ok rs"
  shows "serves (scripted bs) rs zs"
  using assms
  by (simp add: scripted_def freshConnection_def serves_def rx_ready_def NewConn_def NewReader_def stream_def window_def net_stream_def decrypt_def
      wf_reader_def)

definition resp_done :: srv_resp where "resp_done = (7, 0, [], [])"

definition resp_refused :: srv_resp where "resp_refused = (0, 0, [], [WireEntry False 335544569 [] (Some ''42000'')])"

lemma resp_done_ok [simp]: "resp_ok resp_done" "clean resp_done" "enc_resp resp_done \<noteq> []"
  by (simp_all add: resp_done_def clean_def response_error_def enc_response_def putUint32_def)

lemma resp_refused_ok [simp]: "resp_ok resp_refused" "\<not> clean resp_refused" "enc_resp resp_refused \<noteq> []"
  "snd (resp_result resp_refused) = Some (StatusErr (status_value [WireEntry False 335544569 [] (Some ''42000'')]))"
  by (simp_all add: resp_refused_def clean_def response_error_def enc_response_def putUint32_def entry_ok_def maxWireBufferLen_def)

lemma scripted_fields [simp]: "deferredCount (scripted bs) = 0" "freeCount (scripted bs) = 0" "lazySend (scripted bs) = False"
  "wf_pool (scripted bs)"
  by (simp_all add: scripted_def freshConnection_def wf_pool_def maxFreeHandles_def)

section \<open>Accounting\<close>

text \<open>C9. After any sequence of single-request operations, in any order and whatever errors the server reported on
  the way, the responses left on the stream are exactly those the connection counts as deferred, followed by those of
  requests not yet made: a later operation never takes another one's response for its own.\<close>

theorem operations_synchronised:
  assumes "serves wc rs zs" and "deferredCount wc + length ops \<le> length rs"
  shows "\<exists>c. serves (fold run_op ops wc) (drop c rs) zs \<and> deferredCount (fold run_op ops wc) + c = deferredCount wc + length ops"
  by (rule run_ops_synchronised [OF assms])

lemma operations_synchronised_witness:
  "\<exists>c. serves (fold run_op [DoFree 1 DSQLDrop, DoCommit 2] (scripted (enc_resp resp_refused @ enc_resp resp_done)))
     (drop c [resp_refused, resp_done]) []"
proof -
  have "serves (scripted (enc_resp resp_refused @ enc_resp resp_done)) [resp_refused, resp_done] []" by (rule serves_scripted) simp_all
  from operations_synchronised [OF this, of "[DoFree 1 DSQLDrop, DoCommit 2]"] show ?thesis by auto
qed

text \<open>The batched execute and commit reads both responses on every path: with an error in the execute, in the
  commit, in a deferred response or in none, what it leaves unread is what it counts as owed.\<close>

theorem execute_commit_synchronised:
  assumes "serves wc rs zs" and "deferredCount wc + 2 \<le> length rs"
  shows "\<exists>c. serves (snd (run_state (ExecuteAndCommitRetaining h t blr params) wc)) (drop c rs) zs
     \<and> deferredCount (snd (run_state (ExecuteAndCommitRetaining h t blr params) wc)) + c = deferredCount wc + 2"
  using accounts_ExecuteAndCommitRetaining assms unfolding accounts_def by blast

lemma execute_commit_synchronised_witness:
  "\<exists>c. serves (snd (run_state (ExecuteAndCommitRetaining 1 2 [] []) (scripted (enc_resp resp_refused @ enc_resp resp_done))))
     (drop c [resp_refused, resp_done]) []"
proof -
  have "serves (scripted (enc_resp resp_refused @ enc_resp resp_done)) [resp_refused, resp_done] []" by (rule serves_scripted) simp_all
  from execute_commit_synchronised [OF this, of 1 2 "[]" "[]"] show ?thesis by auto
qed

text \<open>C37. When the server refuses the allocate of a pipelined allocate and prepare, the function returns with the
  response of the prepare still unread and not counted: the next operation on the connection takes it for its own.\<close>

theorem allocate_refused_desynchronises:
  assumes "serves wc (bad # next # rs) zs" and "deferredCount wc = 0" and "freeCount wc = 0" and "snd (resp_result bad) = Some e"
  shows "\<exists>wc'. run_state (AllocateAndPrepareWithItems tx sql n items) wc = ((0, Inl (Wrap ''allocate+prepare: allocate'' e)), wc')
     \<and> serves wc' (next # rs) zs \<and> deferredCount wc' = 0"
  by (rule allocate_desync [OF assms])

lemma allocate_refused_desynchronises_witness:
  "\<exists>e wc'. run_state (AllocateAndPrepareWithItems 1 ''SELECT 1'' 100 []) (scripted (enc_resp resp_refused @ enc_resp resp_done))
     = ((0, Inl (Wrap ''allocate+prepare: allocate'' e)), wc') \<and> serves wc' [resp_done] [] \<and> deferredCount wc' = 0"
proof -
  have "serves (scripted (enc_resp resp_refused @ enc_resp resp_done)) [resp_refused, resp_done] []" by (rule serves_scripted) simp_all
  from allocate_refused_desynchronises [OF this _ _ resp_refused_ok(4)] show ?thesis by simp blast
qed

section \<open>Statement handles\<close>

text \<open>The pool of statement handles is a bounded stack: recycling pushes while there is room and otherwise leaves
  the pool alone, and the next prepare takes the most recently recycled handle.\<close>

theorem recycled_handle_is_reused:
  assumes "wf_pool wc" and "freeCount wc < maxFreeHandles" and "run_state (RecycleStatement h hasCursor) wc = (Inr (), wc1)"
    and "run_state (AllocateAndPrepareWithItems tx sql n items) wc1 = ((h', res), wc2)"
  shows "wf_pool wc2 \<and> pooled_handles wc2 = pooled_handles wc \<and> (\<forall>data. res = Inr data \<longrightarrow> h' = h)"
proof -
  note r = RecycleStatement_pool [OF assms(1,3)]
  have pos: "freeCount wc1 > 0" using r(2) assms(2) by (cases "freeCount wc1") (simp_all add: pooled_handles_def)
  note a = AllocateAndPrepare_pool [OF r(1) assms(4)]
  show ?thesis using a(1) a(2) [OF pos] a(3) [OF pos] r(2) assms(2) by auto
qed

lemma recycled_handle_is_reused_witness:
  "pooled_handles (snd (run_state (AllocateAndPrepareWithItems 1 ''SELECT 1'' 100 []) (snd (run_state (RecycleStatement 5 False) (scripted [0])))))
   = pooled_handles (scripted [0])"
proof -
  let ?wc1 = "snd (run_state (RecycleStatement 5 False) (scripted [0]))"
  have 1: "run_state (RecycleStatement 5 False) (scripted [0]) = (Inr (), ?wc1)"
    by (simp add: RecycleStatement_def scripted_def freshConnection_def maxFreeHandles_def)
  obtain h' res wc2 where 2: "run_state (AllocateAndPrepareWithItems 1 ''SELECT 1'' 100 []) ?wc1 = ((h', res), wc2)" by (metis surj_pair)
  have "wf_pool wc2 \<and> pooled_handles wc2 = pooled_handles (scripted [0]) \<and> (\<forall>data. res = Inr data \<longrightarrow> h' = 5)"
    by (rule recycled_handle_is_reused [OF _ _ 1 2]) (simp_all add: maxFreeHandles_def)
  then show ?thesis using 2 by simp
qed

section \<open>Fetch\<close>

text \<open>C18. A fetch first drains the deferred responses and then delivers the batch: exactly the rows the server sent, in
  order and decoded, for every fetch size and whatever the reused buffer held; the end of the cursor is reported
  exactly for status 100, and the stream is left at the first byte after the batch.\<close>

theorem fetch_delivers_batch:
  assumes "serves wc os (fetch_image descs rows st @ zs)" and "deferredCount wc = length os"
    and "list_all (\<lambda>x. snd (resp_result x) = None) os" and "list_all (row_ok descs) rows"
  shows "\<exists>vals wc'. run_state (FetchRowsReuse res xtext h blr descs fetchSize buf) wc
       = (Inr (map (row_value res xtext descs) rows, vals, st = 100), wc')
     \<and> serves wc' [] zs \<and> deferredCount wc' = 0"
  by (rule FetchRowsReuse_batch [OF assms])

definition demo_desc :: ColumnDescriptor where
  "demo_desc = emptyColumn\<lparr>SQLType := SQLLong, Length := 4\<rparr>"

definition demo_rows :: "cell option list list" where
  "demo_rows = [[Some (CInt 5)], [None], [Some (CInt (- 1))]]"

definition no_zone :: "uint32 \<Rightarrow> location" where "no_zone tz = utcLocation"

definition plain_text :: "string \<Rightarrow> xencoding" where "plain_text name = \<lparr>xdecode = Inr, xencode = Inr\<rparr>"

lemma demo_rows_ok: "list_all (row_ok [demo_desc]) demo_rows"
  by (simp add: demo_rows_def demo_desc_def row_ok_def fits_def baseType_def emptyColumn_def)

lemma fetch_delivers_batch_witness:
  "\<exists>vals wc'. run_state (FetchRowsReuse no_zone plain_text 1 [] [demo_desc] 2 []) (scripted (fetch_image [demo_desc] demo_rows 100))
     = (Inr (map (row_value no_zone plain_text [demo_desc]) demo_rows, vals, True), wc')"
proof -
  have "serves (scripted (fetch_image [demo_desc] demo_rows 100)) [] (fetch_image [demo_desc] demo_rows 100 @ [])"
    by (rule serves_scripted) (simp_all add: fetch_image_def putUint32_def)
  from fetch_delivers_batch [OF this _ _ demo_rows_ok, of no_zone plain_text 1 "[]" 2 "[]"] show ?thesis by auto
qed

text \<open>A statement error in the middle of a batch is returned as the error of the fetch, and the stream is left at
  the first byte after it, so that the connection stays usable.\<close>

theorem fetch_error_keeps_sync:
  assumes "serves wc os (fetch_error_image descs rows bad @ zs)" and "deferredCount wc = length os"
    and "list_all (\<lambda>x. snd (resp_result x) = None) os" and "list_all (row_ok descs) rows"
    and "resp_ok bad" and "snd (resp_result bad) = Some e"
  shows "\<exists>wc'. run_state (FetchRowsReuse res xtext h blr descs fetchSize buf) wc = (Inl (Wrap ''op_fetch'' e), wc')
     \<and> serves wc' [] zs \<and> deferredCount wc' = 0"
  by (rule FetchRowsReuse_error [OF assms])

lemma fetch_error_keeps_sync_witness:
  "\<exists>e wc'. run_state (FetchRowsReuse no_zone plain_text 1 [] [demo_desc] 2 []) (scripted (fetch_error_image [demo_desc] demo_rows resp_refused))
     = (Inl (Wrap ''op_fetch'' e), wc') \<and> serves wc' [] []"
proof -
  have "serves (scripted (fetch_error_image [demo_desc] demo_rows resp_refused)) [] (fetch_error_image [demo_desc] demo_rows resp_refused @ [])"
    by (rule serves_scripted) (simp_all add: fetch_error_image_def)
  from fetch_error_keeps_sync [OF this _ _ demo_rows_ok resp_refused_ok(1,4), of no_zone plain_text 1 "[]" 2 "[]"] show ?thesis by auto
qed

section \<open>Blobs\<close>

text \<open>C20. \<^verbatim>\<open>ReadBlobData\<close> returns the content of the blob, the concatenation of all the segments of all the chunks the server
  sends, on the pipelined and on the sequential path alike, and leaves nothing of it unread.\<close>

theorem blob_read_content:
  assumes "in_step wc os (op # map get_answer (cks @ [(2, segs)]) @ cl # rs) zs" and "clean op" and "clean cl"
    and "list_all chunk_ok cks" and "list_all seg_ok segs"
  shows "\<exists>wc'. run_state (ReadBlobData tx blobID) wc = (Inr (content (cks @ [(2, segs)])), wc') \<and> in_step wc' [] rs zs"
  by (rule ReadBlobData_content [OF assms(1,2,4,5,3)])

definition demo_chunks :: "(int32 \<times> byte list list) list" where "demo_chunks = [(0, [[1, 2], []])]"

definition demo_read :: "srv_resp list" where
  "demo_read = resp_done # map get_answer (demo_chunks @ [(2, [[3]])]) @ [resp_done]"

lemma blob_read_content_witness:
  "\<exists>wc'. run_state (ReadBlobData 1 9) (scripted (concat (map enc_resp demo_read))) = (Inr [1, 2, 3], wc')"
proof -
  have ok: "list_all resp_ok demo_read"
    by (simp add: demo_read_def demo_chunks_def packed_segments_def seg_image_def maxWireBufferLen_def)
  have "serves (scripted (concat (map enc_resp demo_read))) demo_read []"
    by (rule serves_scripted) (use ok in \<open>simp_all add: demo_read_def\<close>)
  then have "in_step (scripted (concat (map enc_resp demo_read))) [] (resp_done # map get_answer (demo_chunks @ [(2, [[3]])]) @ resp_done # []) []"
    by (simp add: in_step_def demo_read_def)
  from blob_read_content [OF this, of 1 9] show ?thesis by (simp add: demo_chunks_def content_def) blast
qed

text \<open>C21. The pipelined write sends the whole blob in one flush and reads every answer whatever errors they carry, so that the
  connection stays in step; it returns the identifier from the create exactly when no answer is an error.\<close>

theorem blob_write_pipelined:
  assumes "in_step wc os (cr # ps @ cl # rs) zs" and "length ps = length (segments data)" and "lazySend wc"
  shows "\<exists>res wc'. run_state (WriteBlobData tx data) wc = (res, wc') \<and> in_step wc' [] rs zs
    \<and> conn_out (wc_conn wc') = conn_out (wc_conn wc) @ encrypted (wc_conn wc) (concat (map field_image (pipeline_fields tx data)))
    \<and> (if clean cr \<and> list_all clean ps \<and> clean cl then res = Inr (BlobID (fst (resp_result cr))) else \<exists>e. res = Inl e)"
  using writeBlobDataPipelined_result [OF assms(1,2), of tx] assms(3) by (simp add: WriteBlobData_def)

lemma segments_small: "data \<noteq> [] \<Longrightarrow> length data \<le> maxSegment \<Longrightarrow> segments data = [data]"
  by (subst segments.simps) (simp add: Let_def segments.simps)

lemma blob_write_pipelined_witness:
  "\<exists>e wc'. run_state (WriteBlobData 1 [1, 2, 3]) ((scripted (concat (map enc_resp [resp_done, resp_refused, resp_done])))\<lparr>lazySend := True\<rparr>)
     = (Inl e, wc') \<and> in_step wc' [] [] []"
proof -
  let ?wc = "(scripted (concat (map enc_resp [resp_done, resp_refused, resp_done])))\<lparr>lazySend := True\<rparr>"
  have "serves (scripted (concat (map enc_resp [resp_done, resp_refused, resp_done]))) [resp_done, resp_refused, resp_done] []"
    by (rule serves_scripted) simp_all
  then have "in_step ?wc [] (resp_done # [resp_refused] @ resp_done # []) []" by (simp add: in_step_def serves_def rx_ready_def)
  from blob_write_pipelined [OF this, of "[1, 2, 3]" 1] show ?thesis by (auto simp: segments_small maxSegment_def)
qed

lemma chunks_ok: "list_all (\<lambda>c. fst c \<noteq> 2) cks \<Longrightarrow> list_all seg_ok (concat (map snd cks)) \<Longrightarrow> list_all chunk_ok cks"
  by (induction cks) auto



section \<open>Authentication\<close>

text \<open>C22. The client and the server compute the same session key: with 20-byte SHA-1 hashes, a 128-bit private key and the
  verifier of the user's password, the client's \<open>(B - k g\<^sup>x)\<close> to the \<open>a + u x\<close> is the server's \<open>(A v\<^sup>u)\<close> to the \<open>b\<close>.\<close>

theorem srp_session_keys_agree:
  assumes "\<And>bs. length (sha1 bs) = 20" and "0 \<le> a" "a < 2 ^ 128" "0 \<le> b" and "v = verifier sha1 usr pwd salt"
  shows "\<exists>u. scramble sha1 (ClientPublicKey a) (serverPublicKey v b) = Inr u
    \<and> clientSessionKey sha1 usr pwd salt (ClientPublicKey a) (serverPublicKey v b) a
      = Inr (sha1 (BigToBytes (serverSecret u v (ClientPublicKey a) b)))"
  using session_keys_agree [OF assms] by metis

definition demo_hash :: hash where "demo_hash bs = take 20 (bs @ replicate 20 7)"

lemma srp_session_keys_agree_witness:
  "\<exists>u. clientSessionKey demo_hash ''SYSDBA'' ''masterkey'' [1, 2] (ClientPublicKey 5) (serverPublicKey (verifier demo_hash ''SYSDBA'' ''masterkey'' [1, 2]) 9) 5
      = Inr (demo_hash (BigToBytes (serverSecret u (verifier demo_hash ''SYSDBA'' ''masterkey'' [1, 2]) (ClientPublicKey 5) 9)))"
proof -
  have "length (demo_hash bs) = 20" for bs by (simp add: demo_hash_def)
  from srp_session_keys_agree [of demo_hash 5 9, OF this _ _ _ refl, of "''SYSDBA''" "''masterkey''" "[1, 2]"] show ?thesis by auto
qed

text \<open>C39. A server can make the client panic: a public key of more than 1024 bits passes the parser of the challenge, and
  padding it to the key size panics in \<^verbatim>\<open>FillBytes\<close>, before any error can be returned.\<close>

theorem oversized_key_panics:
  assumes "length salt < 65536" and "256 ^ KeySize \<le> keyB"
  shows "fst (ComputeProof sha1 sha256 (buildServerAuthData salt keyB) srp) = Inl bigPanic"
proof -
  have "(0 :: int) < 256 ^ KeySize" by simp
  then have "0 < keyB" using assms(2) by linarith
  note p = parseServerAuthData_round_trip [OF assms(1) this]
  have "Pad keyB = Inl bigPanic" using assms(2) by (intro Pad_oversized) simp
  moreover have "Pad (srp_publicKey srp) = Inl bigPanic \<or> (\<exists>pa. Pad (srp_publicKey srp) = Inr pa)" by (simp add: Pad_def Let_def)
  ultimately show ?thesis using p by (auto simp: ComputeProof_def clientSessionKey_def scramble_def)
qed

lemma oversized_key_panics_witness:
  "fst (ComputeProof demo_hash demo_hash (buildServerAuthData [1] (256 ^ KeySize)) (newSRPClientWithKey id ''Srp'' ''SYSDBA'' ''masterkey'' 5)) = Inl bigPanic"
  by (rule oversized_key_panics) simp_all

text \<open>The user identification block of op_connect is read back by a server as the tags it was built from, and the parts of
  the public key put together again are the key; the buffer size computed in advance is exact.\<close>

theorem user_block_round_trip:
  assumes "length osUser < 256" "length hostname < 256" "length dbUser < 256" "length plugin < 256" "length pluginList < 256"
    and "publicKeyHex \<noteq> []"
  shows "\<exists>items. parse_tlv (buildUserIdentBlock osUser hostname dbUser plugin publicKeyHex pluginList wireCrypt) = Some items
     \<and> map_of items CnctLogin = Some (bytes_of_string dbUser) \<and> map_of items CnctPluginName = Some (bytes_of_string plugin)
     \<and> map_of items CnctPluginList = Some (bytes_of_string pluginList) \<and> map_of items CnctClientCrypt = Some (putLE32 wireCrypt)
     \<and> concat (map (\<lambda>it. tl (snd it)) (filter (\<lambda>it. fst it = CnctSpecificData) items)) = bytes_of_string publicKeyHex
     \<and> length (buildUserIdentBlock osUser hostname dbUser plugin publicKeyHex pluginList wireCrypt)
       = userIdentSize osUser hostname dbUser plugin publicKeyHex pluginList"
proof -
  let ?parts = "key_parts (bytes_of_string publicKeyHex) 0"
  have tags: "list_all (\<lambda>it. fst it = CnctSpecificData) ?parts" by (rule key_parts_tag)
  then have f: "filter (\<lambda>it. fst it = CnctSpecificData) ?parts = ?parts" by (simp add: list_all_iff)
  have n: "t \<noteq> CnctSpecificData \<Longrightarrow> map_of ?parts t = None" for t
    using tags by (auto simp: map_of_eq_None_iff list_all_iff)
  let ?items = "ident_items osUser hostname dbUser plugin publicKeyHex pluginList wireCrypt"
  have "map_of ?items CnctLogin = Some (bytes_of_string dbUser)" "map_of ?items CnctPluginName = Some (bytes_of_string plugin)"
    "map_of ?items CnctPluginList = Some (bytes_of_string pluginList)" "map_of ?items CnctClientCrypt = Some (putLE32 wireCrypt)"
    "concat (map (\<lambda>it. tl (snd it)) (filter (\<lambda>it. fst it = CnctSpecificData) ?items)) = bytes_of_string publicKeyHex"
    using f n key_parts_join [of "bytes_of_string publicKeyHex" 0] by (simp_all add: ident_items_def map_add_def)
  with buildUserIdentBlock_parse [OF assms(1-5)] userIdentSize_exact [OF assms(6)] show ?thesis by (intro exI [of _ ?items]) simp
qed

lemma user_block_round_trip_witness:
  "\<exists>items. parse_tlv (buildUserIdentBlock ''me'' ''here'' ''SYSDBA'' ''Srp'' (replicate 300 (CHR ''A'')) ''Srp256,Srp'' 1) = Some items
     \<and> map_of items CnctLogin = Some (bytes_of_string ''SYSDBA'')"
proof -
  have "\<exists>items. parse_tlv (buildUserIdentBlock ''me'' ''here'' ''SYSDBA'' ''Srp'' (replicate 300 (CHR ''A'')) ''Srp256,Srp'' 1) = Some items
     \<and> map_of items CnctLogin = Some (bytes_of_string ''SYSDBA'') \<and> map_of items CnctPluginName = Some (bytes_of_string ''Srp'')
     \<and> map_of items CnctPluginList = Some (bytes_of_string ''Srp256,Srp'') \<and> map_of items CnctClientCrypt = Some (putLE32 1)
     \<and> concat (map (\<lambda>it. tl (snd it)) (filter (\<lambda>it. fst it = CnctSpecificData) items)) = bytes_of_string (replicate 300 (CHR ''A''))
     \<and> length (buildUserIdentBlock ''me'' ''here'' ''SYSDBA'' ''Srp'' (replicate 300 (CHR ''A'')) ''Srp256,Srp'' 1)
       = userIdentSize ''me'' ''here'' ''SYSDBA'' ''Srp'' (replicate 300 (CHR ''A'')) ''Srp256,Srp''"
    by (rule user_block_round_trip) simp_all
  then show ?thesis by blast
qed

section \<open>Handshake\<close>

text \<open>C17. A handshake never leaks the socket: from a fresh connection and for any server, when \<^verbatim>\<open>ConnectContext\<close> returns an
  error after the dial (other than the panic of an oversized key) the connection is closed, and when it succeeds the
  connection is open.\<close>

theorem handshake_closes_on_error:
  assumes "\<not> conn_closed conn" and "run_state (handshake env cfg srp) (freshConnection conn) = (res, wc)"
  shows "case res of Inl e \<Rightarrow> e = bigPanic \<or> conn_closed (wc_conn wc) | Inr _ \<Rightarrow> \<not> conn_closed (wc_conn wc)"
  using closes_handshake [unfolded closes_def, rule_format, OF good_fresh assms(2)] assms(1)
  by (auto simp: same_socket_def freshConnection_def NewReader_def split: sum.splits)

definition demo_env :: connect_env where
  "demo_env = \<lparr>env_random = Inr (replicate 16 1), env_upper = toUpper, env_equalFold = (\<lambda>s t. toLower s = toLower t), env_quote = id,
     env_sha1 = demo_hash, env_sha256 = demo_hash, env_rc4 = (\<lambda>k. Inr (\<lambda>i. of_nat i)), env_chacha = (\<lambda>k iv c. Inr (\<lambda>i. of_nat i)),
     env_dial = (\<lambda>_. Inr (NewConn [Recv [1]] [])), env_osUser = Inr ''me'', env_hostname = Inr ''here''\<rparr>"

definition demo_cfg :: ProtocolConfig where
  "demo_cfg = \<lparr>cfg_Host = ''localhost'', cfg_Port = ''3050'', cfg_Database = ''db'', cfg_User = ''sysdba'', cfg_Password = ''masterkey'',
     cfg_Charset = ''UTF8'', cfg_NoneCharset = [], cfg_Dialect = 3, cfg_WireCrypt = WireCryptDisabled, cfg_WireCryptSet = True,
     cfg_AuthPluginList = DefaultPluginList, cfg_Role = [], cfg_DataTypeBind = [], cfg_SessionTimeZone = []\<rparr>"

definition demo_srp :: srpClient where
  "demo_srp = newSRPClientWithKey toUpper PluginSrp ''sysdba'' ''masterkey'' 5"

lemma handshake_closes_on_error_witness:
  "case fst (run_state (handshake demo_env demo_cfg demo_srp) (freshConnection (NewConn [Recv [1]] []))) of
     Inl e \<Rightarrow> e = bigPanic \<or> conn_closed (wc_conn (snd (run_state (handshake demo_env demo_cfg demo_srp) (freshConnection (NewConn [Recv [1]] [])))))
   | Inr _ \<Rightarrow> \<not> conn_closed (wc_conn (snd (run_state (handshake demo_env demo_cfg demo_srp) (freshConnection (NewConn [Recv [1]] [])))))"
proof -
  have "\<not> conn_closed (NewConn [Recv [1]] [])" by (simp add: NewConn_def)
  from handshake_closes_on_error [OF this] show ?thesis by (simp add: prod_eq_iff)
qed

text \<open>C12. With wire encryption required, a handshake that succeeds has installed a cipher on the sending side: nothing sent on
  the connection afterwards, its attach included, is in clear.\<close>

theorem required_encryption_is_enforced:
  "case run_state (handshake env (cfg\<lparr>cfg_WireCrypt := WireCryptRequired\<rparr>) srp) (freshConnection conn) of
     (Inr _, wc) \<Rightarrow> cryptW (wc_conn wc) \<noteq> None
   | (Inl _, _) \<Rightarrow> True"
proof -
  have "secures (handshake env (cfg\<lparr>cfg_WireCrypt := WireCryptRequired\<rparr>) srp)" by (rule secures_handshake) simp
  then show ?thesis using good_fresh [of conn] unfolding secures_def by (fastforce split: prod.split sum.split)
qed


definition demo_accept :: accept where
  "demo_accept = \<lparr>acceptedVersion = 0x8010, acceptedType = 5, serverAuthData = buildServerAuthData [1, 2] 9, serverPlugin = PluginSrp,
     authenticated = 0, serverKeys = []\<rparr>"

definition demo_session :: "byte list" where
  "demo_session = accept_image opCondAccept 1 demo_accept @ enc_resp resp_done @ enc_resp resp_done"

lemma demo_proof: "\<exists>proof srp'. ComputeProof demo_hash demo_hash (buildServerAuthData [1, 2] 9) demo_srp = (Inr proof, srp')"
proof -
  have p: "parseServerAuthData (buildServerAuthData [1, 2] 9) = Inr ([1, 2], 9)" by (rule parseServerAuthData_round_trip) simp_all
  obtain pa where pa: "Pad (ClientPublicKey 5) = Inr pa"
    by (rule Pad_below [of "ClientPublicKey 5"]) (simp_all add: ClientPublicKey_def bigExp_power reduced)
  obtain pb where "Pad 9 = Inr pb" by (rule Pad_below [of 9]) (simp_all add: srp_N_def)
  with p pa show ?thesis
    by (simp add: ComputeProof_def clientSessionKey_def scramble_def demo_srp_def newSRPClientWithKey_def Let_def)
qed


text \<open>C38. The attach parameters are read back by a server as the list they were built from, and a configured role is sent under
  the tag of the SQL dialect, a second time and with text as its value, and not under a tag of its own.\<close>

theorem role_sent_as_dialect:
  assumes "list_all (\<lambda>it. length (snd it) < 2 ^ 32) (connect_items env cfg srp)" and "cfg_Role cfg \<noteq> []"
  shows "\<exists>items. parse_dpb (buildConnectDPB env cfg srp) = Some items
     \<and> map snd (filter (\<lambda>it. fst it = IscDpbSQLDialect) items) = [[ucast (cfg_Dialect cfg)], bytes_of_string (cfg_Role cfg)]
     \<and> map_of items IscDpbUserName = Some (bytes_of_string (env_upper env (cfg_User cfg)))
     \<and> map_of items IscDpbLcCtype = Some (bytes_of_string (cfg_Charset cfg))"
proof (intro exI conjI)
  show "parse_dpb (buildConnectDPB env cfg srp) = Some (connect_items env cfg srp)" by (rule buildConnectDPB_items [OF assms(1)])
qed (use assms(2) in \<open>simp_all add: connect_items_def\<close>)

lemma role_sent_as_dialect_witness:
  "\<exists>items. parse_dpb (buildConnectDPB demo_env (demo_cfg\<lparr>cfg_Role := ''BOSS''\<rparr>) demo_srp) = Some items
     \<and> map snd (filter (\<lambda>it. fst it = IscDpbSQLDialect) items) = [[3], bytes_of_string ''BOSS'']"
proof -
  have "list_all (\<lambda>it. length (snd it) < 2 ^ 32) (connect_items demo_env (demo_cfg\<lparr>cfg_Role := ''BOSS''\<rparr>) demo_srp)"
    by (simp add: connect_items_def demo_env_def demo_cfg_def demo_srp_def newSRPClientWithKey_def DefaultPluginList_def PluginSrp256_def PluginSrp_def
        toUpper_def getHostname_def getOSUser_def)
  from role_sent_as_dialect [OF this] show ?thesis by (auto simp: demo_cfg_def)
qed

text \<open>The cipher negotiated for a key buffer is the same for both directions, starts at its first key byte, and belongs to
  a plugin the server offered (or the server offered none); ChaCha is only chosen with an initialisation vector.\<close>

theorem negotiated_cipher_offered:
  assumes "selectCipher env keys sessionKey = Inr (name, rc, wr)"
  shows "rc = wr \<and> kpos rc = 0 \<and> name \<in> {''ChaCha'', ''Arc4''}
    \<and> (fst (parseServerKeys keys) = [] \<or> name \<in> set (fst (parseServerKeys keys)))"
  using selectCipher_offered [OF assms] by simp

lemma negotiated_cipher_offered_witness:
  "kpos (fst (snd (projr (selectCipher demo_env [1, 4, 65, 114, 99, 52] (replicate 20 1))))) = 0"
proof -
  have "selectCipher demo_env [1, 4, 65, 114, 99, 52] (replicate 20 1)
      = Inr (''Arc4'', \<lparr>keystream = (\<lambda>i. of_nat i), kpos = 0\<rparr>, \<lparr>keystream = (\<lambda>i. of_nat i), kpos = 0\<rparr>)"
  proof -
    have "parseServerKeys [1, 4, 65, 114, 99, 52] = ([''Arc4''], None)" by code_simp
    then show ?thesis by (simp add: selectCipher_def pluginListed_def newArc4Cipher_def demo_env_def)
  qed
  from negotiated_cipher_offered [OF this] this show ?thesis by simp
qed

end
