(* ===== verification/Dsn.thy ===== *)
theory Dsn
  imports Handshake "HOL-Library.Multiset"
begin

text \<open>
  Data source names (\<^verbatim>\<open>dsn.go\<close>) and the registration of the driver (\<^verbatim>\<open>driver.go\<close>).  \<^verbatim>\<open>url.Parse\<close> belongs to the Go
  library and is documented by its results: it is the parameter \<open>parse\<close>, which gives the parts of the URL or the cause
  of the failure (\<open>None\<close> for an error that is not a \<^verbatim>\<open>url.Error\<close>).  The query of a URL is a Go map: it is the
  list of its entries in the order the loop meets them, which the language leaves open.
\<close>

section \<open>Configuration\<close>

record Config =
  dsn_Host :: string
  dsn_Port :: string
  dsn_Database :: string
  dsn_User :: string
  dsn_Password :: string
  dsn_Charset :: string
  dsn_NoneCharset :: string
  dsn_Dialect :: uint32
  dsn_Role :: string
  dsn_WireCrypt :: uint32
  dsn_FetchSize :: int
  dsn_DataTypeBind :: string
  dsn_SessionTimeZone :: string

record url =
  u_User :: "(string \<times> string) option"
  u_Hostname :: string
  u_Port :: string
  u_Path :: string
  u_Query :: "(string \<times> string list) list"

section \<open>The database path\<close>

definition isWindowsDrivePath :: "string \<Rightarrow> bool" where
  "isWindowsDrivePath path \<longleftrightarrow> 2 \<le> length path \<and> path ! 1 = CHR '':''"

definition parseDatabasePath :: "string \<Rightarrow> string" where
  "parseDatabasePath path =
     (if hasPrefix path ''//'' then drop 1 path
      else if \<not> hasPrefix path ''/'' then path
      else let withoutLeadingSlash = drop 1 path in
        if isWindowsDrivePath withoutLeadingSlash \<or> CHR ''/'' \<notin> set withoutLeadingSlash then withoutLeadingSlash
        else path)"

section \<open>Numbers in parameters\<close>

text \<open>\<^verbatim>\<open>strconv.ParseUint(s, 10, 32)\<close>: the first offending digit decides between the two errors.\<close>

fun parseUint_loop :: "nat \<Rightarrow> string \<Rightarrow> string + nat" where
  "parseUint_loop n [] = Inr n"
| "parseUint_loop n (c # cs) =
     (if \<not> is_digit c then Inl ''invalid syntax''
      else if n * 10 + digit_val c \<ge> 2 ^ 32 then Inl ''value out of range''
      else parseUint_loop (n * 10 + digit_val c) cs)"

definition parseUint32 :: "(string \<Rightarrow> string) \<Rightarrow> string \<Rightarrow> gerr + nat" where
  "parseUint32 quote s =
     (case (if s = [] then Inl ''invalid syntax'' else parseUint_loop 0 s) of
        Inl why \<Rightarrow> Inl (Msg (''strconv.ParseUint: parsing '' @ quote s @ '': '' @ why))
      | Inr n \<Rightarrow> Inr n)"

section \<open>Parameters\<close>

definition canonicalOr :: "string \<Rightarrow> string" where
  "canonicalOr val = (case CanonicalName val of (canonical, True) \<Rightarrow> canonical | (_, False) \<Rightarrow> val)"

definition wireCryptParam :: "string \<Rightarrow> uint32 \<Rightarrow> uint32" where
  "wireCryptParam val old =
     (let v = toLower val in
      if v \<in> {''disabled'', ''false'', ''0''} then WireCryptDisabled
      else if v \<in> {''enabled'', ''true'', ''1''} then WireCryptEnabled
      else if v = ''required'' then WireCryptRequired
      else old)"

definition dialectParam :: "(string \<Rightarrow> string) \<Rightarrow> string \<Rightarrow> gerr + uint32" where
  "dialectParam quote val =
     (case parseUint32 quote val of
        Inl e \<Rightarrow> Inl (Wrap (''firebird: invalid dialect '' @ quote val) e)
      | Inr d \<Rightarrow>
          if d \<noteq> unat SQLDialectCurrent
          then Inl (Msg (''firebird: client dialect '' @ formatNat d @
            '' is not supported (only dialect 3); note: dialect-1 databases work with the default client dialect 3''))
          else Inr (of_nat d))"

definition bindKeys :: "string list" where "bindKeys = [''data_type_bind'', ''datatypebind'', ''set_bind'', ''isc_dpb_set_bind'']"

definition zoneKeys :: "string list" where
  "zoneKeys = [''session_time_zone'', ''sessiontimezone'', ''isc_dpb_session_time_zone'', ''timezone'']"

definition dsn_param :: "(string \<Rightarrow> string) \<Rightarrow> string \<times> string list \<Rightarrow> Config \<Rightarrow> gerr + Config" where
  "dsn_param quote kv cfg = (case kv of (key, vals) \<Rightarrow>
     if vals = [] then Inr cfg
     else let val = hd vals; k = toLower key in
       if k = ''charset'' then Inr (cfg\<lparr>dsn_Charset := canonicalOr val\<rparr>)
       else if k = ''none_charset'' then Inr (cfg\<lparr>dsn_NoneCharset := canonicalOr val\<rparr>)
       else if k = ''dialect'' then
         (case dialectParam quote val of Inl e \<Rightarrow> Inl e | Inr d \<Rightarrow> Inr (cfg\<lparr>dsn_Dialect := d\<rparr>))
       else if k = ''role'' then Inr (cfg\<lparr>dsn_Role := val\<rparr>)
       else if k \<in> set bindKeys then Inr (cfg\<lparr>dsn_DataTypeBind := val\<rparr>)
       else if k \<in> set zoneKeys then Inr (cfg\<lparr>dsn_SessionTimeZone := val\<rparr>)
       else if k = ''wire_crypt'' then Inr (cfg\<lparr>dsn_WireCrypt := wireCryptParam val (dsn_WireCrypt cfg)\<rparr>)
       else if k = ''fetch_size'' then
         (case atoi val of Some n \<Rightarrow> if n > 0 then Inr (cfg\<lparr>dsn_FetchSize := n\<rparr>) else Inr cfg | None \<Rightarrow> Inr cfg)
       else Inr cfg)"

fun dsn_params :: "(string \<Rightarrow> string) \<Rightarrow> (string \<times> string list) list \<Rightarrow> Config \<Rightarrow> gerr + Config" where
  "dsn_params quote [] cfg = Inr cfg"
| "dsn_params quote (kv # kvs) cfg =
     (case dsn_param quote kv cfg of Inl e \<Rightarrow> Inl e | Inr cfg' \<Rightarrow> dsn_params quote kvs cfg')"

definition defaultConfig :: Config where
  "defaultConfig =
     \<lparr>dsn_Host = [], dsn_Port = ''3050'', dsn_Database = [], dsn_User = [], dsn_Password = [], dsn_Charset = ''UTF8'',
      dsn_NoneCharset = [], dsn_Dialect = SQLDialectCurrent, dsn_Role = [], dsn_WireCrypt = WireCryptEnabled,
      dsn_FetchSize = 200, dsn_DataTypeBind = [], dsn_SessionTimeZone = []\<rparr>"

definition dsn_base :: "url \<Rightarrow> Config" where
  "dsn_base u =
     (let cfg = (case u_User u of None \<Rightarrow> defaultConfig
                 | Some (usr, pwd) \<Rightarrow> defaultConfig\<lparr>dsn_User := usr, dsn_Password := pwd\<rparr>);
          cfg = cfg\<lparr>dsn_Host := (if u_Hostname u \<noteq> [] then u_Hostname u else ''localhost'')\<rparr>;
          cfg = (if u_Port u \<noteq> [] then cfg\<lparr>dsn_Port := u_Port u\<rparr> else cfg)
      in cfg\<lparr>dsn_Database := parseDatabasePath (u_Path u)\<rparr>)"

definition withScheme :: "string \<Rightarrow> string" where
  "withScheme dsn = (if \<not> contains dsn ''://'' then ''firebird://'' @ dsn else dsn)"

definition noneDefault :: "Config \<Rightarrow> Config" where
  "noneDefault cfg = (if dsn_NoneCharset cfg = [] then cfg\<lparr>dsn_NoneCharset := dsn_Charset cfg\<rparr> else cfg)"

definition ParseDSN ::
  "(string \<Rightarrow> string) \<Rightarrow> (string \<Rightarrow> gerr option + url) \<Rightarrow> string \<Rightarrow> gerr + Config" where
  "ParseDSN quote parse dsn =
     (case parse (withScheme dsn) of
        Inl (Some cause) \<Rightarrow> Inl (Wrap ''firebird: invalid DSN'' cause)
      | Inl None \<Rightarrow> Inl (Msg ''firebird: invalid DSN'')
      | Inr u \<Rightarrow>
          (let cfg = dsn_base u in
           if dsn_Database cfg = [] then Inl (Msg ''firebird: database path required in DSN'')
           else (case dsn_params quote (u_Query u) cfg of
                   Inl e \<Rightarrow> Inl e
                 | Inr cfg' \<Rightarrow> Inr (noneDefault cfg'))))"

section \<open>Registration\<close>

text \<open>The names \<^verbatim>\<open>sql.Drivers\<close> lists; \<^verbatim>\<open>sql.Register\<close> panics on a name registered twice.\<close>

definition sql_Register :: "string \<Rightarrow> string list \<Rightarrow> string list option" where
  "sql_Register name registered = (if name \<in> set registered then None else Some (registered @ [name]))"

definition registerDriver :: "string \<Rightarrow> string list \<Rightarrow> string list option" where
  "registerDriver name registered =
     (if list_ex (\<lambda>r. r = name) registered then Some registered else sql_Register name registered)"

definition driver_init :: "string list \<Rightarrow> string list option" where
  "driver_init registered = Option.bind (registerDriver ''firebird'' registered) (registerDriver ''firebirdsql'')"

lemma driver_init_total: "\<exists>names. driver_init registered = Some names \<and> {''firebird'', ''firebirdsql''} \<subseteq> set names"
  by (auto simp: driver_init_def registerDriver_def sql_Register_def list_ex_iff)

section \<open>The option an entry sets\<close>

datatype dsn_option = OCharset | ONone | ODialect | ORole | OBind | OZone | OCrypt | OFetch | OIgnored string

definition option_of :: "string \<times> string list \<Rightarrow> dsn_option" where
  "option_of kv = (let k = toLower (fst kv) in
     if k = ''charset'' then OCharset else if k = ''none_charset'' then ONone else if k = ''dialect'' then ODialect
     else if k = ''role'' then ORole else if k \<in> set bindKeys then OBind else if k \<in> set zoneKeys then OZone
     else if k = ''wire_crypt'' then OCrypt else if k = ''fetch_size'' then OFetch else OIgnored (fst kv))"

fun put_option :: "(string \<Rightarrow> string) \<Rightarrow> dsn_option \<Rightarrow> string \<Rightarrow> Config \<Rightarrow> gerr + Config" where
  "put_option quote OCharset val cfg = Inr (cfg\<lparr>dsn_Charset := canonicalOr val\<rparr>)"
| "put_option quote ONone val cfg = Inr (cfg\<lparr>dsn_NoneCharset := canonicalOr val\<rparr>)"
| "put_option quote ODialect val cfg =
     (case dialectParam quote val of Inl e \<Rightarrow> Inl e | Inr d \<Rightarrow> Inr (cfg\<lparr>dsn_Dialect := d\<rparr>))"
| "put_option quote ORole val cfg = Inr (cfg\<lparr>dsn_Role := val\<rparr>)"
| "put_option quote OBind val cfg = Inr (cfg\<lparr>dsn_DataTypeBind := val\<rparr>)"
| "put_option quote OZone val cfg = Inr (cfg\<lparr>dsn_SessionTimeZone := val\<rparr>)"
| "put_option quote OCrypt val cfg = Inr (cfg\<lparr>dsn_WireCrypt := wireCryptParam val (dsn_WireCrypt cfg)\<rparr>)"
| "put_option quote OFetch val cfg =
     (case atoi val of Some n \<Rightarrow> if n > 0 then Inr (cfg\<lparr>dsn_FetchSize := n\<rparr>) else Inr cfg | None \<Rightarrow> Inr cfg)"
| "put_option quote (OIgnored _) val cfg = Inr cfg"

lemma dsn_param_option:
  "dsn_param quote kv cfg = (if snd kv = [] then Inr cfg else put_option quote (option_of kv) (hd (snd kv)) cfg)"
  by (cases kv) (simp add: dsn_param_def option_of_def Let_def)

section \<open>Validity of a parsed configuration\<close>

definition valid_config :: "Config \<Rightarrow> bool" where
  "valid_config cfg \<longleftrightarrow> dsn_Database cfg \<noteq> [] \<and> dsn_Host cfg \<noteq> [] \<and> dsn_Port cfg \<noteq> [] \<and> dsn_Dialect cfg = SQLDialectCurrent
     \<and> dsn_WireCrypt cfg \<in> {WireCryptDisabled, WireCryptEnabled, WireCryptRequired}
     \<and> 0 < dsn_FetchSize cfg \<and> dsn_FetchSize cfg < 2 ^ 63"

lemma dialectParam_current: "dialectParam quote val = Inr d \<Longrightarrow> d = SQLDialectCurrent"
  by (auto simp: dialectParam_def split: sum.splits if_splits)

lemma wireCryptParam_cases:
  "old \<in> {WireCryptDisabled, WireCryptEnabled, WireCryptRequired}
   \<Longrightarrow> wireCryptParam val old \<in> {WireCryptDisabled, WireCryptEnabled, WireCryptRequired}"
  by (simp add: wireCryptParam_def Let_def)

lemma set_option_valid:
  assumes "put_option quote opt val cfg = Inr cfg'" and "valid_config cfg"
  shows "valid_config cfg'"
proof (cases opt)
  case OCrypt
  with assms wireCryptParam_cases [of "dsn_WireCrypt cfg" val] show ?thesis by (auto simp: valid_config_def)
next
  case ODialect
  with assms show ?thesis by (auto simp: valid_config_def split: sum.splits dest: dialectParam_current)
next
  case OFetch
  with assms show ?thesis by (auto simp: valid_config_def split: option.splits if_splits dest: atoi_range)
qed (use assms in \<open>auto simp: valid_config_def\<close>)

lemma dsn_param_valid: "dsn_param quote kv cfg = Inr cfg' \<Longrightarrow> valid_config cfg \<Longrightarrow> valid_config cfg'"
  by (auto simp: dsn_param_option split: if_splits dest: set_option_valid)

lemma dsn_params_valid: "dsn_params quote kvs cfg = Inr cfg' \<Longrightarrow> valid_config cfg \<Longrightarrow> valid_config cfg'"
  by (induction kvs arbitrary: cfg) (auto split: sum.splits dest: dsn_param_valid)

lemma dsn_base_valid: "dsn_Database (dsn_base u) \<noteq> [] \<Longrightarrow> valid_config (dsn_base u)"
  by (auto simp: dsn_base_def valid_config_def defaultConfig_def Let_def split: option.splits)

lemma ParseDSN_valid:
  assumes "ParseDSN quote parse dsn = Inr cfg"
  shows "valid_config cfg" and "dsn_Charset cfg \<noteq> [] \<longrightarrow> dsn_NoneCharset cfg \<noteq> []"
  using assms dsn_base_valid
  by (auto simp: ParseDSN_def noneDefault_def Let_def valid_config_def split: sum.splits option.splits if_splits
      dest!: dsn_params_valid)

section \<open>Parameters commute\<close>

definition andThen :: "'e + 'a \<Rightarrow> ('a \<Rightarrow> 'e + 'b) \<Rightarrow> 'e + 'b" where
  "andThen x f = (case x of Inl e \<Rightarrow> Inl e | Inr a \<Rightarrow> f a)"

lemma andThen_simps [simp]: "andThen (Inl e) f = Inl e" "andThen (Inr a) f = f a"
  by (simp_all add: andThen_def)

lemma andThen_Inr [simp]: "andThen x Inr = x"
  by (cases x) simp_all

lemma andThen_cong: "x = y \<Longrightarrow> (\<And>a. f a = g a) \<Longrightarrow> andThen x f = andThen y g"
  by (cases y) simp_all

lemma andThen_assoc: "andThen (andThen x f) g = andThen x (\<lambda>a. andThen (f a) g)"
  by (cases x) simp_all

lemma dsn_params_Cons: "dsn_params quote (kv # kvs) cfg = andThen (dsn_param quote kv cfg) (dsn_params quote kvs)"
  by (simp add: andThen_def)

lemma set_option_commute:
  assumes "o1 \<noteq> o2"
  shows "andThen (put_option quote o1 v1 cfg) (put_option quote o2 v2) = andThen (put_option quote o2 v2 cfg) (put_option quote o1 v1)"
  using assms by (cases o1; cases o2) (simp_all split: sum.splits option.splits)

lemma dsn_param_commute:
  assumes "option_of a \<noteq> option_of b"
  shows "andThen (dsn_param quote a cfg) (dsn_param quote b) = andThen (dsn_param quote b cfg) (dsn_param quote a)"
proof -
  have step: "dsn_param quote kv = (if snd kv = [] then Inr else put_option quote (option_of kv) (hd (snd kv)))" for kv
    by (rule ext) (simp add: dsn_param_option)
  show ?thesis
    using set_option_commute [OF assms, of quote "hd (snd a)" cfg "hd (snd b)"] by (simp add: step)
qed

lemma dsn_params_move:
  assumes "option_of kv \<notin> option_of ` set xs"
  shows "dsn_params quote (xs @ kv # ys) cfg = dsn_params quote (kv # xs @ ys) cfg"
  using assms
proof (induction xs arbitrary: cfg)
  case (Cons x xs)
  then have "dsn_params quote ((x # xs) @ kv # ys) cfg
      = andThen (andThen (dsn_param quote x cfg) (dsn_param quote kv)) (dsn_params quote (xs @ ys))"
    by (simp add: dsn_params_Cons andThen_assoc del: dsn_params.simps cong: andThen_cong)
  also have "\<dots> = andThen (andThen (dsn_param quote kv cfg) (dsn_param quote x)) (dsn_params quote (xs @ ys))"
    using Cons.prems by (subst dsn_param_commute) auto
  finally show ?case by (simp add: dsn_params_Cons andThen_assoc del: dsn_params.simps cong: andThen_cong)
qed simp

lemma dsn_params_perm:
  assumes "mset kvs' = mset kvs" and "distinct (map option_of kvs)"
  shows "dsn_params quote kvs' cfg = dsn_params quote kvs cfg"
  using assms
proof (induction kvs arbitrary: kvs' cfg)
  case (Cons kv kvs)
  have "kv \<in> set kvs'" using Cons.prems(1) by (metis list.set_intros(1) mset_eq_setD)
  then obtain xs ys where k: "kvs' = xs @ kv # ys" by (meson split_list)
  with Cons.prems(1) have m: "mset (xs @ ys) = mset kvs" by simp
  then have "set xs \<subseteq> set kvs" by (metis Un_upper1 mset_eq_setD set_append)
  with Cons.prems(2) have "option_of kv \<notin> option_of ` set xs" by auto
  then have "dsn_params quote kvs' cfg = dsn_params quote (kv # xs @ ys) cfg" unfolding k by (rule dsn_params_move)
  also have "\<dots> = dsn_params quote (kv # kvs) cfg"
    using Cons.IH [OF m] Cons.prems(2) by (simp add: dsn_params_Cons del: dsn_params.simps cong: andThen_cong)
  finally show ?case .
qed simp

lemma ParseDSN_perm:
  assumes "parse (withScheme dsn) = Inr u" and "parse' (withScheme dsn) = Inr (u\<lparr>u_Query := q\<rparr>)"
    and "mset q = mset (u_Query u)" and "distinct (map option_of (u_Query u))"
  shows "ParseDSN quote parse' dsn = ParseDSN quote parse dsn"
  using assms(1,2) dsn_params_perm [OF assms(3,4)] by (simp add: ParseDSN_def dsn_base_def Let_def)

end
