(* ===== verification/WireKeep.thy ===== *)
theory WireKeep
  imports Handshake
begin

text \<open>
  What every operation on an established connection keeps, whatever the server answers and whether or not the
  operation succeeds: reader, writer and handle pool stay well formed, and the socket stays open or closed as it was.
  Only \<^verbatim>\<open>CloseTransport\<close> and \<^verbatim>\<open>Detach\<close> close it, and they always do.  The rules follow the structure of the operations; the
  collection \<open>steady_ops\<close> holds one fact per operation.
\<close>

section \<open>Operations that stay within a relation\<close>

text \<open>\<open>within R m\<close>: whatever its outcome, the operation leads from a state to one that is related to it.  For a reflexive and
  transitive relation the property follows the structure of the operations.\<close>

definition within :: "('s \<Rightarrow> 's \<Rightarrow> bool) \<Rightarrow> ('s, 'a) state \<Rightarrow> bool" where
  "within R m \<longleftrightarrow> (\<forall>s. R s (snd (run_state m s)))"

lemma withinI: "(\<And>s x s'. run_state m s = (x, s') \<Longrightarrow> R s s') \<Longrightarrow> within R m"
  unfolding within_def by (metis prod.collapse)

lemma withinD: "within R m \<Longrightarrow> run_state m s = (x, s') \<Longrightarrow> R s s'"
  unfolding within_def by (metis snd_conv)

locale step_relation =
  fixes R :: "'s \<Rightarrow> 's \<Rightarrow> bool"
  assumes stay: "R s s" and compose: "R s t \<Longrightarrow> R t u \<Longrightarrow> R s u"
begin

lemma op_return: "within R (State_Monad.return x)"
  by (simp add: within_def stay)

lemma op_ok: "within R (okE x)" and op_throw: "within R (throwE e)"
  by (simp_all add: within_def stay)

lemma op_try:
  assumes "within R m" and "\<And>x. within R (k x)"
  shows "within R (tryE m k)"
proof (rule withinI)
  fix s y t assume r: "run_state (tryE m k) s = (y, t)"
  obtain a s1 where a: "run_state m s = (a, s1)" by (metis surj_pair)
  with r have "run_state (k a) s1 = (y, t)" by (simp add: tryE_def)
  from compose [OF withinD [OF assms(1) a] withinD [OF assms(2) this]] show "R s t" .
qed

lemma op_if: "within R m \<Longrightarrow> within R m' \<Longrightarrow> within R (if b then m else m')"
  by simp

lemma op_case_sum: "(\<And>e. within R (f e)) \<Longrightarrow> (\<And>a. within R (g a)) \<Longrightarrow> within R (case x of Inl e \<Rightarrow> f e | Inr a \<Rightarrow> g a)"
  by (cases x) simp_all

lemma op_case_option: "within R m \<Longrightarrow> (\<And>a. within R (g a)) \<Longrightarrow> within R (case x of None \<Rightarrow> m | Some a \<Rightarrow> g a)"
  by (cases x) simp_all

lemma op_case_prod: "(\<And>a b. within R (f a b)) \<Longrightarrow> within R (case x of (a, b) \<Rightarrow> f a b)"
  by (cases x) simp

lemma op_bind:
  assumes "within R m" and "\<And>x. within R (k x)"
  shows "within R (bindE m k)"
proof -
  have "bindE m k = tryE m (\<lambda>x. case x of Inl e \<Rightarrow> throwE e | Inr a \<Rightarrow> k a)" by (simp add: bindE_def tryE_def)
  then show ?thesis using assms by (simp add: op_try op_case_sum op_throw)
qed

lemma op_mapErr:
  assumes "within R m"
  shows "within R (mapErr f m)"
proof -
  have "mapErr f m = tryE m (\<lambda>x. case x of Inl e \<Rightarrow> throwE (f e) | Inr a \<Rightarrow> okE a)" by (simp add: mapErr_def tryE_def)
  then show ?thesis using assms by (simp add: op_try op_case_sum op_throw op_ok)
qed

lemma op_choice: "within R m \<Longrightarrow> within R m' \<Longrightarrow> within R (State (\<lambda>s. if P s then run_state m s else run_state m' s))"
  by (simp add: within_def)

lemmas op_rules = op_return op_ok op_throw op_try op_bind op_mapErr op_if op_case_sum op_case_option op_case_prod op_choice

end

section \<open>Soundness\<close>

definition sound :: "WireConnection \<Rightarrow> bool" where
  "sound wc \<longleftrightarrow> good wc \<and> wf_pool wc"

definition stays_sound :: "WireConnection \<Rightarrow> WireConnection \<Rightarrow> bool" where
  "stays_sound wc wc' \<longleftrightarrow> (sound wc \<longrightarrow> sound wc' \<and> conn_closed (wc_conn wc') = conn_closed (wc_conn wc))"

abbreviation steady :: "(WireConnection, 'a) state \<Rightarrow> bool" where "steady m \<equiv> within stays_sound m"

named_theorems steady_ops "operations that keep the connection sound and the socket as it was"

interpretation steadily: step_relation stays_sound
  by unfold_locales (auto simp: stays_sound_def)

lemmas steady_rules [steady_ops] = steadily.op_rules

lemma steady_def:
  "steady m \<longleftrightarrow> (\<forall>wc. sound wc \<longrightarrow> sound (snd (run_state m wc)) \<and> conn_closed (wc_conn (snd (run_state m wc))) = conn_closed (wc_conn wc))"
  by (simp add: within_def stays_sound_def)

lemma steadyD:
  assumes "steady m" and "sound wc" and "run_state m wc = (x, wc')"
  shows "sound wc'" and "conn_closed (wc_conn wc') = conn_closed (wc_conn wc)"
  using withinD [OF assms(1,3)] assms(2) by (simp_all add: stays_sound_def)

lemma steadyI:
  assumes "\<And>wc x wc'. sound wc \<Longrightarrow> run_state m wc = (x, wc') \<Longrightarrow> sound wc' \<and> conn_closed (wc_conn wc') = conn_closed (wc_conn wc)"
  shows "steady m"
proof (rule withinI)
  fix wc x wc' assume "run_state m wc = (x, wc')"
  then show "stays_sound wc wc'" unfolding stays_sound_def using assms by blast
qed

section \<open>Requests and responses\<close>

lemma sound_reader: "sound wc \<Longrightarrow> wf_reader (wc_reader wc)"
  by (simp add: sound_def good_def)

lemma steady_reading:
  assumes "sane m" and "\<And>wc. snd (run_state k wc) = wc\<lparr>wc_reader := snd (m (wc_reader wc))\<rparr>"
  shows "steady k"
  unfolding steady_def
proof (intro allI impI)
  fix wc assume s: "sound wc"
  obtain v r' where v: "m (wc_reader wc) = (v, r')" by (metis surj_pair)
  from saneD [OF assms(1) sound_reader [OF s] v]
  show "sound (snd (run_state k wc)) \<and> conn_closed (wc_conn (snd (run_state k wc))) = conn_closed (wc_conn wc)"
    using assms(2) [of wc] v s by (auto simp: sound_def good_def wf_pool_def same_out_def)
qed

lemma steady_ReadResponse [steady_ops]: "steady wc_ReadResponse"
  by (rule steady_reading [OF sane_ReadResponse]) (simp add: wc_ReadResponse_def split: prod.split)

lemma steady_checked: "sane m \<Longrightarrow> steady (checked what m)"
  by (rule steady_reading) (auto simp: checked_def split: prod.split)

lemmas steady_reads [steady_ops] = steady_checked [OF sane_ReadOpcode] steady_checked [OF sane_readGenericResponse]

lemma steady_write_all [steady_ops]: "steady (write_all fs)"
  using pooled.write_fields_wf by (auto simp: steady_def write_all_def sound_def good_def wf_pool_def fold_put_field)

lemma steady_write_raw [steady_ops]: "steady (write_raw bs)"
  using WriteRaw_props by (auto simp: steady_def write_raw_def sound_def good_def wf_pool_def)

lemma steady_flush [steady_ops]: "steady wc_flush"
proof (rule steadyI)
  fix wc x wc' assume s: "sound wc" and r: "run_state wc_flush wc = (x, wc')"
  obtain err w' c' where f: "Flush (wc_writer wc) (wc_conn wc) = (err, w', c')" by (metis surj_pair)
  show "sound wc' \<and> conn_closed (wc_conn wc') = conn_closed (wc_conn wc)"
    using s r f Flush_socket [OF f] by (auto simp: wc_flush_def sound_def good_def wf_pool_def wf_reader_def)
qed

lemma sane_consume_loop:
  "wf_reader r \<Longrightarrow> consume_loop n r = (err, m, r') \<Longrightarrow> wf_reader r' \<and> same_out r r'"
proof (induction n arbitrary: r)
  case (Suc n)
  obtain g r1 where g: "ReadResponse r = (g, r1)" by (metis surj_pair)
  note s = saneD [OF sane_ReadResponse Suc.prems(1) g]
  show ?case
  proof (cases "snd g")
    case None
    then have "consume_loop n r1 = (err, m, r')" using Suc.prems(2) g by (cases g) simp
    from Suc.IH [OF s(1) this] s(2) show ?thesis by (auto simp: same_out_def)
  next
    case (Some e)
    then show ?thesis using Suc.prems(2) g s by (cases g) simp
  qed
qed (simp add: same_out_def)

lemma steady_consumeDeferred [steady_ops]: "steady consumeDeferred"
proof (rule steadyI)
  fix wc x wc' assume s: "sound wc" and r: "run_state consumeDeferred wc = (x, wc')"
  obtain err n r' where c: "consume_loop (deferredCount wc) (wc_reader wc) = (err, n, r')" by (metis surj_pair)
  show "sound wc' \<and> conn_closed (wc_conn wc') = conn_closed (wc_conn wc)"
    using s r c sane_consume_loop [OF sound_reader [OF s] c]
    by (auto simp: consumeDeferred_def sound_def good_def wf_pool_def same_out_def)
qed

lemma steady_readResponse [steady_ops]: "steady readResponse"
  unfolding readResponse_def by (intro steady_ops)

lemma steady_round_trip [steady_ops]: "steady (round_trip name fs)"
  unfolding round_trip_def by (intro steady_ops)

section \<open>Attachment, transactions and statements\<close>

lemma steady_attachment [steady_ops]:
  "steady (InfoDatabase items n)" "steady (Transaction tpb)" "steady (Commit h)" "steady (Rollback h)" "steady (CommitRetaining h)"
  "steady (InfoTransaction h items n)" "steady (InfoSQL h items n)" "steady (PrepareStatementWithItems tx h sql n items)"
  unfolding InfoDatabase_def Transaction_def Commit_def Rollback_def CommitRetaining_def InfoTransaction_def InfoSQL_def
    PrepareStatementWithItems_def by (intro steady_ops)+

lemma steady_defer [steady_ops]:
  "steady m \<Longrightarrow> steady (State (\<lambda>wc. if lazySend wc then (Inr (), wc\<lparr>deferredCount := deferredCount wc + 1\<rparr>) else run_state m wc))"
  by (auto simp: steady_def sound_def good_def wf_pool_def)

lemma steady_FreeStatement [steady_ops]: "steady (FreeStatement h opt)"
  unfolding FreeStatement_def by (intro steady_ops)

lemma steady_pool_push [steady_ops]:
  "steady m \<Longrightarrow> steady (State (\<lambda>wc. if freeCount wc < maxFreeHandles
     then (Inr (), wc\<lparr>freeHandles := (freeHandles wc)[freeCount wc := h], freeCount := freeCount wc + 1\<rparr>) else run_state m wc))"
  by (auto simp: steady_def sound_def good_def wf_pool_def)

lemma steady_RecycleStatement [steady_ops]: "steady (RecycleStatement h cur)"
  unfolding RecycleStatement_def by (intro steady_ops)

lemma steady_drain_loop:
  assumes "sound wc" and "n \<le> freeCount wc"
  shows "sound (drain_loop n wc) \<and> conn_closed (wc_conn (drain_loop n wc)) = conn_closed (wc_conn wc)"
  using assms
proof (induction n arbitrary: wc)
  case (Suc n)
  let ?wc = "wc\<lparr>freeCount := n\<rparr>"
  obtain x wc1 where x: "run_state (FreeStatement (freeHandles wc ! n) DSQLDrop) ?wc = (x, wc1)" by (metis surj_pair)
  have s: "sound ?wc" using Suc.prems by (auto simp: sound_def good_def wf_pool_def)
  note S = steadyD [OF steady_FreeStatement s x]
  have "freeCount wc1 = n" using FreeStatement_pool [OF x] by simp
  from Suc.IH [OF S(1)] this S(2) x show ?case by simp
qed simp

lemma steady_DrainStatementPool [steady_ops]: "steady DrainStatementPool"
  by (rule steadyI) (auto simp: DrainStatementPool_def dest: steady_drain_loop)

lemma steady_AllocateAndPrepareWithItems [steady_ops]: "steady (AllocateAndPrepareWithItems tx sql n items)"
proof (rule steadyI)
  fix wc x wc' assume s: "sound wc" and r: "run_state (AllocateAndPrepareWithItems tx sql n items) wc = (x, wc')"
  let ?wc = "wc\<lparr>freeCount := freeCount wc - 1\<rparr>"
  let ?req = "bindE (write_all ([FInt32 opAllocateStatement, FInt32 (dbHandle wc)] @ prepare_fields tx (ucast InvalidObject) sql n items)) (\<lambda>_. wc_flush)"
  have s0: "sound ?wc" using s by (auto simp: sound_def good_def wf_pool_def)
  obtain p wcp where p: "run_state (PrepareStatementWithItems tx (freeHandles wc ! (freeCount wc - 1)) sql n items) ?wc = (p, wcp)" by (metis surj_pair)
  obtain f wc1 where f: "run_state ?req wc = (f, wc1)" by (metis surj_pair)
  obtain a wc2 where a: "run_state readResponse wc1 = (a, wc2)" by (metis surj_pair)
  obtain g wc3 where g: "run_state wc_ReadResponse wc2 = (g, wc3)" by (metis surj_pair)
  note P = steadyD [OF steady_attachment(8) s0 p]
  have "steady ?req" by (intro steady_ops)
  note F = steadyD [OF this s f]
  note A = steadyD [OF steady_readResponse F(1) a]
  note G = steadyD [OF steady_ReadResponse A(1) g]
  from r p f a g P F A G show "sound wc' \<and> conn_closed (wc_conn wc') = conn_closed (wc_conn wc)"
    by (cases "freeCount wc > 0"; cases p; cases f; cases a; cases g)
      (auto simp: AllocateAndPrepareWithItems_def Let_def simp del: run_bindE)
qed

lemma steady_AllocateAndPrepare [steady_ops]: "steady (AllocateAndPrepare tx sql n)"
  unfolding AllocateAndPrepare_def by (intro steady_ops)

lemma describe_more_steady:
  assumes "sound wc"
  shows "sound (snd (describe_more gc h items n tr st wc))
     \<and> conn_closed (wc_conn (snd (describe_more gc h items n tr st wc))) = conn_closed (wc_conn wc)"
  using assms
proof (induction gc h items n tr st wc rule: describe_more.induct)
  case (1 gc h items n tr st wc)
  show ?case
  proof (cases tr)
    case True
    let ?ci = "itemsWithSqldaStart items (int (doneOutputs st) + 1) (int (doneInputs st) + 1)"
    obtain d wc1 where d: "run_state (InfoSQL h ?ci n) wc = (d, wc1)" by (metis surj_pair)
    note D = steadyD [OF steady_attachment(7) "1.prems" d]
    show ?thesis
    proof (cases d)
      case (Inl e)
      then show ?thesis using D d True by (subst (1 2) describe_more.simps) (simp add: Let_def)
    next
      case (Inr data)
      obtain tr1 st1 where ps: "parseSQLDescribeChunk gc data st = (tr1, st1)" by (metis surj_pair)
      show ?thesis using "1.IH" [OF _ refl refl d [symmetric] Inr ps [symmetric] refl] True Inr d ps D
        by (subst (1 2) describe_more.simps) (auto simp: Let_def)
    qed
  qed (use "1.prems" in \<open>simp add: describe_more.simps\<close>)
qed

lemma steady_CompleteSQLDescribe [steady_ops]: "steady (CompleteSQLDescribe gc h buf items n)"
proof (rule steadyI)
  fix wc x wc' assume s: "sound wc" and r: "run_state (CompleteSQLDescribe gc h buf items n) wc = (x, wc')"
  obtain tr st where ps: "parseSQLDescribeChunk gc buf emptyDescribeState = (tr, st)" by (metis surj_pair)
  from r ps have "wc' = snd (describe_more gc h items n tr st wc)"
    by (auto simp: CompleteSQLDescribe_def split: prod.splits sum.splits)
  with describe_more_steady [OF s] show "sound wc' \<and> conn_closed (wc_conn wc') = conn_closed (wc_conn wc)" by simp
qed

section \<open>Execution and fetch\<close>

lemma steady_version [steady_ops]: "steady write_version"
  using steady_write_all unfolding steady_def write_version_def by simp

lemma steady_execute [steady_ops]:
  "steady (Execute h tx blr params)" "steady (ExecuteAndCommitRetaining h tx blr params)"
  unfolding Execute_def ExecuteAndCommitRetaining_def writeExecuteOp_def write_params_def by (intro steady_ops)+

lemma steady_status_result [steady_ops]: "steady (status_result name resp)"
  unfolding status_result_def by (intro steady_ops)

lemma steady_read_sql_row [steady_ops]: "steady (read_sql_row res xtext outs)"
proof (rule steadyI)
  fix wc x wc' assume s: "sound wc" and r: "run_state (read_sql_row res xtext outs) wc = (x, wc')"
  obtain m r1 where m: "readSQLResponse (wc_reader wc) = (m, r1)" by (metis surj_pair)
  obtain d r2 where d: "DecodeRow res xtext outs (nullBuf wc) (replicate (length outs) VNil) r1 = (d, r2)" by (metis surj_pair)
  have m': "ReadInt32 (wc_reader wc) = (m, r1)" using m by (simp add: readSQLResponse_def)
  note M = saneD [OF sane_ReadInt32 sound_reader [OF s] m']
  note D = saneD [OF sane_DecodeRow M(1) d]
  show "sound wc' \<and> conn_closed (wc_conn wc') = conn_closed (wc_conn wc)"
    using r m d M D s
    by (auto simp: read_sql_row_def sound_def good_def wf_pool_def same_out_def Let_def split: if_splits sum.splits option.splits)
qed

lemma steady_Execute2 [steady_ops]: "steady (Execute2 res xtext h tx inBLR params outBLR outs)"
  unfolding Execute2_def write_params_def by (intro steady_ops)

lemma sane_readFetchResponse: "sane readFetchResponse"
  unfolding readFetchResponse_def [abs_def] Let_def by (intro sane_bind sane_ReadInt32 sane_pure)

definition kept :: "WireConnection \<Rightarrow> Reader \<Rightarrow> bool" where
  "kept wc r \<longleftrightarrow> wf_reader r \<and> conn_closed (rd r) = conn_closed (wc_conn wc)"

lemma kept_sane: "kept wc r \<Longrightarrow> sane m \<Longrightarrow> m r = (v, r') \<Longrightarrow> kept wc r'"
  using saneD [of m r v r'] by (simp add: kept_def same_out_def)

lemma kept_sound: "sound wc \<Longrightarrow> kept wc r \<Longrightarrow> sound (wc\<lparr>wc_reader := r\<rparr>) \<and> conn_closed (rd r) = conn_closed (wc_conn wc)"
  by (simp add: kept_def sound_def good_def wf_pool_def)

lemma fetch_loop_steady:
  assumes "sound wc" and "fetch_loop res xtext descs maxRows i cv wc = (out, wc')"
  shows "sound wc' \<and> conn_closed (wc_conn wc') = conn_closed (wc_conn wc)"
  using assms
proof (induction res xtext descs maxRows i cv wc arbitrary: out wc' rule: fetch_loop.induct)
  case (1 res xtext descs maxRows rowIdx cv wc)
  obtain op r1 where op: "ReadOpcode (wc_reader wc) = (op, r1)" by (metis surj_pair)
  obtain g r1' where g: "readGenericResponse r1 = (g, r1')" by (metis surj_pair)
  obtain resp r2 where f: "readFetchResponse r1 = (resp, r2)" by (metis surj_pair)
  obtain cap vals where gv: "grow_values (length descs) maxRows rowIdx cv = (cap, vals)" by (metis surj_pair)
  obtain decoded r3 where d: "DecodeRow res xtext descs (nullBuf wc) (row_slice (length descs) vals rowIdx) r2 = (decoded, r3)" by (metis surj_pair)
  have k0: "kept wc (wc_reader wc)" using "1.prems"(1) by (simp add: kept_def sound_reader)
  have k1: "kept wc r1" by (rule kept_sane [OF k0 sane_ReadOpcode op])
  have k1': "kept wc r1'" by (rule kept_sane [OF k1 sane_readGenericResponse g])
  have k2: "kept wc r2" by (rule kept_sane [OF k1 sane_readFetchResponse f])
  have k3: "kept wc r3" by (rule kept_sane [OF k2 sane_DecodeRow d])
  note S = kept_sound [OF "1.prems"(1) k1] kept_sound [OF "1.prems"(1) k1'] kept_sound [OF "1.prems"(1) k2] kept_sound [OF "1.prems"(1) k3]
  show ?case
  proof (cases "rerr r1 = None \<and> op = opFetchResponse \<and> rerr r2 = None \<and> FetchMessages resp \<noteq> 0
      \<and> \<not> (length descs > 0 \<and> (rowIdx + 1) * length descs > length vals) \<and> (\<exists>row. decoded = Inr row)")
    case True
    then obtain row where row: "decoded = Inr row" by blast
    have "fetch_loop res xtext descs maxRows (rowIdx + 1) (cap, put_row (length descs) rowIdx row vals) (wc\<lparr>wc_reader := r3\<rparr>) = (out, wc')"
      using "1.prems"(2) True row op f gv d by (subst (asm) fetch_loop.simps) (auto simp: Let_def split: if_splits)
    from "1.IH" [OF op [symmetric] refl refl _ _ f [symmetric] refl refl _ _ refl gv [symmetric] refl _ d [symmetric] refl refl row _ this] True S(4)
    show ?thesis by simp
  next
    case False
    then show ?thesis using "1.prems"(2) op f gv d g S
      by (subst (asm) fetch_loop.simps) (auto simp: Let_def fetchServerError_def split: if_splits option.splits sum.splits)
  qed
qed

lemma steady_FetchRowsReuse [steady_ops]: "steady (FetchRowsReuse res xtext h blr descs n buf)"
proof -
  have "steady (State (\<lambda>wc. let numCols = length descs; maxRows = nat (sint n) in
       case fetch_loop res xtext descs maxRows 0 (initial_values numCols maxRows buf) wc of
         (Inl e, wc') \<Rightarrow> (Inl e, wc')
       | (Inr (n, vals, eof), wc') \<Rightarrow> (Inr (map (row_slice numCols vals) [0 ..< n], vals, eof), wc')))"
  proof (rule steadyI)
    fix wc x wc'
    assume s: "sound wc" and r: "run_state (State (\<lambda>wc. let numCols = length descs; maxRows = nat (sint n) in
       case fetch_loop res xtext descs maxRows 0 (initial_values numCols maxRows buf) wc of
         (Inl e, wc') \<Rightarrow> (Inl e, wc')
       | (Inr (n, vals, eof), wc') \<Rightarrow> (Inr (map (row_slice numCols vals) [0 ..< n], vals, eof), wc'))) wc = (x, wc')"
    obtain out wc1 where f: "fetch_loop res xtext descs (nat (sint n)) 0 (initial_values (length descs) (nat (sint n)) buf) wc = (out, wc1)"
      by (metis surj_pair)
    have "wc' = wc1" using r f by (cases out) (auto simp: Let_def)
    with fetch_loop_steady [OF s f] show "sound wc' \<and> conn_closed (wc_conn wc') = conn_closed (wc_conn wc)" by simp
  qed
  then show ?thesis unfolding FetchRowsReuse_def by (intro steadily.op_bind steady_write_all steadily.op_mapErr steady_flush steady_consumeDeferred)
qed

section \<open>Blobs\<close>

lemma steady_blob_ops [steady_ops]:
  "steady (CreateBlob tx bpb)" "steady (OpenBlob tx b bpb)" "steady (PutSegment h data)" "steady (GetSegment h n)" "steady (CloseBlob h)"
  "steady (CancelBlob h)" "steady (InfoBlob h items n)"
  unfolding CreateBlob_def OpenBlob_def PutSegment_def GetSegment_def CloseBlob_def CancelBlob_def InfoBlob_def by (intro steady_ops)+

lemma get_loop_steady:
  "sound wc \<Longrightarrow> get_loop h n res wc = (x, wc') \<Longrightarrow> sound wc' \<and> conn_closed (wc_conn wc') = conn_closed (wc_conn wc)"
proof (induction h n res wc arbitrary: x wc' rule: get_loop.induct)
  case (1 h n res wc)
  obtain g wc1 where g: "run_state (GetSegment h n) wc = (g, wc1)" by (metis surj_pair)
  obtain c wc2 where c: "run_state (CloseBlob h) wc1 = (c, wc2)" by (metis surj_pair)
  note G = steadyD [OF steady_blob_ops(4) "1.prems"(1) g]
  note C = steadyD [OF steady_blob_ops(5) G(1) c]
  show ?case
  proof (cases g)
    case (Inl e)
    then show ?thesis using "1.prems"(2) g c C G by (subst (asm) get_loop.simps) auto
  next
    case (Inr sp)
    obtain st packed where sp: "sp = (st, packed)" by (metis surj_pair)
    show ?thesis using "1.prems"(2) g G Inr sp "1.IH" [OF g [symmetric] Inr sp [symmetric] refl _ G(1), of x wc']
      by (subst (asm) get_loop.simps) (auto simp: Let_def split: if_splits)
  qed
qed

lemma steady_get_loop [steady_ops]: "steady (State (get_loop h n res))"
  by (rule steadyI) (simp add: get_loop_steady)

lemma steady_ReadBlobData [steady_ops]: "steady (ReadBlobData tx b)"
  unfolding ReadBlobData_def readBlobDataPipelined_def readBlobDataSequential_def Let_def by (intro steady_ops)

lemma put_responses_steady:
  "sound wc \<Longrightarrow> put_responses i n e wc = (x, wc') \<Longrightarrow> sound wc' \<and> conn_closed (wc_conn wc') = conn_closed (wc_conn wc)"
proof (induction n arbitrary: i e wc)
  case (Suc n)
  obtain g wc1 where g: "run_state wc_ReadResponse wc = (g, wc1)" by (metis surj_pair)
  note G = steadyD [OF steady_ReadResponse Suc.prems(1) g]
  show ?case using Suc.prems(2) g G Suc.IH [OF G(1)] by (auto split: sum.splits)
qed simp

lemma steady_put_responses [steady_ops]: "steady (State (put_responses i n e))"
  by (rule steadyI) (simp add: put_responses_steady)

lemma steady_put_loop [steady_ops]: "steady (put_loop h segs)"
  by (induction segs) (auto intro!: steady_ops)

lemma steady_WriteBlobData [steady_ops]: "steady (WriteBlobData tx data)"
  unfolding WriteBlobData_def writeBlobDataPipelined_def writeBlobDataSequential_def by (intro steady_ops)

section \<open>Closing\<close>

lemma close_conn_closes: "sound wc \<Longrightarrow> sound (snd (run_state close_conn wc)) \<and> conn_closed (wc_conn (snd (run_state close_conn wc)))"
  by (simp add: close_conn_def sound_def good_def wf_pool_def wf_reader_def Conn_Close_def)

lemma CloseTransport_closes:
  "sound wc \<Longrightarrow> sound (snd (run_state CloseTransport wc)) \<and> conn_closed (wc_conn (snd (run_state CloseTransport wc)))"
  unfolding CloseTransport_def by (rule close_conn_closes)

definition shutting :: "'a wop \<Rightarrow> bool" where
  "shutting m \<longleftrightarrow> (\<forall>wc. sound wc \<longrightarrow> sound (snd (run_state m wc)) \<and> conn_closed (wc_conn (snd (run_state m wc))))"

lemma shutting_try: "steady m \<Longrightarrow> (\<And>x. shutting (k x)) \<Longrightarrow> shutting (tryE m k)"
  unfolding shutting_def steady_def tryE_def by (auto split: prod.splits)

lemma shutting_close: "shutting (tryE close_conn (\<lambda>_. throwE e))" "shutting close_conn"
  using close_conn_closes by (auto simp: shutting_def tryE_def split: prod.splits) (metis snd_conv)+

lemma Detach_closes: "shutting Detach"
proof -
  have dh: "steady (State (\<lambda>wc. (Inr (), wc\<lparr>wc_writer := WriteInt32 (dbHandle wc) (wc_writer wc)\<rparr>)))"
    using pooled.write_fields_wf [of _ "[FInt32 _]"] by (auto simp: steady_def sound_def good_def wf_pool_def)
  have b: "steady m \<Longrightarrow> (\<And>x. shutting (k x)) \<Longrightarrow> (\<And>wc e wc'. run_state m wc \<noteq> (Inl e, wc')) \<Longrightarrow> shutting (bindE m k)"
    for m :: "unit wop" and k :: "unit \<Rightarrow> unit wop"
    unfolding shutting_def steady_def by (auto split: prod.splits sum.splits)
  have w: "run_state (write_all fs) wc \<noteq> (Inl e, wc')" for fs wc e wc' by (simp add: write_all_def)
  have s: "shutting (case x of Inl e \<Rightarrow> f e | Inr a \<Rightarrow> g a)" if "\<And>e. shutting (f e)" "\<And>a. shutting (g a)"
    for x :: "gerr + 'c" and f :: "gerr \<Rightarrow> unit wop" and g using that by (cases x) simp_all
  have dw: "run_state (State (\<lambda>wc. (Inr (), wc\<lparr>wc_writer := WriteInt32 (dbHandle wc) (wc_writer wc)\<rparr>))) wc \<noteq> (Inl e, wc')" for wc e wc'
    by simp
  show ?thesis unfolding Detach_def
    by (intro b shutting_try s shutting_close steady_flush steady_readResponse steady_write_all dh w dw)
qed

end
