(* ===== verification/DriverConn.thy ===== *)
theory DriverConn
  imports Dsn WireKeep ParamEncode
begin

text \<open>
  The connection of \<^verbatim>\<open>database/sql\<close> (\<^verbatim>\<open>connection.go\<close>), with the transactions (\<^verbatim>\<open>transaction.go\<close>), the results (\<^verbatim>\<open>result.go\<close>)
  and the materialisation of blobs (\<^verbatim>\<open>rows.go\<close>) it calls.  An operation is a state transformer on \<open>conn\<close> that returns an
  error or a value; \<open>wire\<close> lifts an operation of the wire connection.  The mutex of the connection serialises the
  operations, so each one is a step.  A context is what its \<^verbatim>\<open>Err()\<close> returns when the code asks; the goroutine of
  \<^verbatim>\<open>withCancel\<close>, which sends op_cancel while an operation waits, is modelled in \<open>DriverCancel\<close>.

  What lies outside the repository or is shared by all connections is the record \<open>drv\<close>: the message templates, the
  float conversions of the Go library, the text encodings, the zone resolver, the growth of slices and the writer
  pool.
\<close>

section \<open>State\<close>

record drv =
  d_tmpl :: "int32 \<Rightarrow> string"
  d_lib :: golib
  d_xtext :: "string \<Rightarrow> xencoding"
  d_res :: "uint32 \<Rightarrow> location"
  d_gc :: "nat \<Rightarrow> nat \<Rightarrow> nat"
  d_pool :: "Writer list"

record descCacheEntry =
  dce_query :: string
  dce_info :: "byte list"
  dce_stmtType :: int32
  dce_outputs :: "ColumnDescriptor list"
  dce_inputs :: "ColumnDescriptor list"

record conn =
  c_wc :: WireConnection
  c_config :: Config
  c_closed :: bool
  c_bad :: bool
  c_fetchSize :: int
  c_activeTx :: int32
  c_autoTx :: int32
  c_dirtyAutoTx :: bool
  c_descCache :: "descCacheEntry list"

type_synonym 'a cop = "(conn, gerr + 'a) state"

type_synonym described = "int32 \<times> ColumnDescriptor list \<times> ColumnDescriptor list"

definition wire :: "(WireConnection, 'a) state \<Rightarrow> (conn, 'a) state" where
  "wire m = State (\<lambda>c. let (x, wc') = run_state m (c_wc c) in (x, c\<lparr>c_wc := wc'\<rparr>))"

definition modifyC :: "(conn \<Rightarrow> conn) \<Rightarrow> unit cop" where
  "modifyC f = State (\<lambda>c. (Inr (), f c))"

text \<open>Read the state, then go on.\<close>

definition withC :: "(conn \<Rightarrow> (conn, 'a) state) \<Rightarrow> (conn, 'a) state" where
  "withC k = State (\<lambda>c. run_state (k c) c)"

section \<open>The descriptor cache\<close>

definition descCacheSlots :: nat where "descCacheSlots = 32"

definition descCacheMask :: uint32 where "descCacheMask = of_nat descCacheSlots - 1"

definition descCacheIndex :: "string \<Rightarrow> uint32" where
  "descCacheIndex query =
     foldl (\<lambda>h b. (h XOR ucast b) * 16777619) 2166136261 (bytes_of_string query) AND descCacheMask"

definition emptyEntry :: descCacheEntry where
  "emptyEntry = \<lparr>dce_query = [], dce_info = [], dce_stmtType = 0, dce_outputs = [], dce_inputs = []\<rparr>"

definition descCacheLookup :: "string \<Rightarrow> byte list \<Rightarrow> conn \<Rightarrow> described option" where
  "descCacheLookup query info c =
     (let e = c_descCache c ! unat (descCacheIndex query) in
      if dce_query e = query \<and> dce_info e = info then Some (dce_stmtType e, dce_outputs e, dce_inputs e) else None)"

definition descCacheStore :: "string \<Rightarrow> byte list \<Rightarrow> described \<Rightarrow> conn \<Rightarrow> conn" where
  "descCacheStore query info d c = (case d of (sty, outs, ins) \<Rightarrow>
     c\<lparr>c_descCache := (c_descCache c)[unat (descCacheIndex query) :=
       \<lparr>dce_query = query, dce_info = info, dce_stmtType = sty, dce_outputs = outs, dce_inputs = ins\<rparr>]\<rparr>)"

section \<open>Errors\<close>

definition markBadLocked :: "unit cop" where
  "markBadLocked = withC (\<lambda>c.
     if c_bad c then okE ()
     else bindE (modifyC (\<lambda>c. c\<lparr>c_bad := True, c_activeTx := 0, c_autoTx := 0, c_dirtyAutoTx := False\<rparr>)) (\<lambda>_.
          tryE (wire CloseTransport) (\<lambda>_. okE ())))"

definition handleErrorLocked :: "drv \<Rightarrow> bool \<Rightarrow> gerr \<Rightarrow> (conn, gerr) state" where
  "handleErrorLocked env retryable err =
     (if \<not> isTransportError (d_tmpl env) err then State_Monad.return err
      else tryE markBadLocked (\<lambda>_. State_Monad.return (if retryable then wrapBadConn err else err)))"

definition handleRetryableErrorLocked :: "drv \<Rightarrow> gerr \<Rightarrow> (conn, gerr) state" where
  "handleRetryableErrorLocked env err = handleErrorLocked env True err"

definition handleFatalErrorLocked :: "drv \<Rightarrow> gerr \<Rightarrow> (conn, gerr) state" where
  "handleFatalErrorLocked env err = handleErrorLocked env False err"

text \<open>\<^verbatim>\<open>return nil, c.handle...ErrorLocked(err)\<close>.\<close>

definition failRetryable :: "drv \<Rightarrow> gerr \<Rightarrow> 'a cop" where
  "failRetryable env err = tryE (handleRetryableErrorLocked env err) throwE"

definition failFatal :: "drv \<Rightarrow> gerr \<Rightarrow> 'a cop" where
  "failFatal env err = tryE (handleFatalErrorLocked env err) throwE"

text \<open>The guards every operation starts with.\<close>

definition enter :: "gerr option \<Rightarrow> unit cop" where
  "enter ctx = withC (\<lambda>c. if c_closed c \<or> c_bad c then throwE ErrBadConn
     else (case ctx of Some e \<Rightarrow> throwE e | None \<Rightarrow> okE ()))"

section \<open>Transactions\<close>

definition defaultTPB :: "byte list" where
  "defaultTPB = [IscTpbVersion3, IscTpbReadCommitted, IscTpbRecVersion, IscTpbWrite, IscTpbWait]"

definition tpbDefaultWrite :: "byte list" where
  "tpbDefaultWrite = [IscTpbVersion3, IscTpbReadCommitted, IscTpbRecVersion, IscTpbWait, IscTpbWrite]"
definition tpbDefaultRead :: "byte list" where
  "tpbDefaultRead = [IscTpbVersion3, IscTpbReadCommitted, IscTpbRecVersion, IscTpbWait, IscTpbRead]"
definition tpbReadCommittedWrite :: "byte list" where
  "tpbReadCommittedWrite = [IscTpbVersion3, IscTpbReadCommitted, IscTpbRecVersion, IscTpbWrite]"
definition tpbReadCommittedRead :: "byte list" where
  "tpbReadCommittedRead = [IscTpbVersion3, IscTpbReadCommitted, IscTpbRecVersion, IscTpbRead]"
definition tpbSnapshotWrite :: "byte list" where "tpbSnapshotWrite = [IscTpbVersion3, IscTpbConcurrency, IscTpbWrite]"
definition tpbSnapshotRead :: "byte list" where "tpbSnapshotRead = [IscTpbVersion3, IscTpbConcurrency, IscTpbRead]"
definition tpbSerializableWrite :: "byte list" where "tpbSerializableWrite = [IscTpbVersion3, IscTpbConsistency, IscTpbWrite]"
definition tpbSerializableRead :: "byte list" where "tpbSerializableRead = [IscTpbVersion3, IscTpbConsistency, IscTpbRead]"

record TxOptions =
  Isolation :: int
  ReadOnly :: bool

definition buildTPB :: "TxOptions \<Rightarrow> gerr + byte list" where
  "buildTPB opts =
     (let lvl = Isolation opts; ro = ReadOnly opts in
      if lvl = 0 then Inr (if ro then tpbDefaultRead else tpbDefaultWrite)
      else if lvl = 2 then Inr (if ro then tpbReadCommittedRead else tpbReadCommittedWrite)
      else if lvl = 4 \<or> lvl = 5 then Inr (if ro then tpbSnapshotRead else tpbSnapshotWrite)
      else if lvl = 6 then Inr (if ro then tpbSerializableRead else tpbSerializableWrite)
      else if lvl = 1 then Inl (Msg ''firebird: isolation level READ UNCOMMITTED not supported'')
      else if lvl = 3 then Inl (Msg ''firebird: isolation level WRITE COMMITTED not supported'')
      else if lvl = 7 then Inl (Msg ''firebird: isolation level LINEARIZABLE not supported'')
      else Inl (Msg (''firebird: isolation level '' @ formatInt lvl @ '' not supported'')))"

definition invalidateAutoTx :: "unit cop" where
  "invalidateAutoTx = modifyC (\<lambda>c. c\<lparr>c_autoTx := 0, c_dirtyAutoTx := False\<rparr>)"

definition getAutoTx :: "drv \<Rightarrow> int32 cop" where
  "getAutoTx env = withC (\<lambda>c.
     if c_autoTx c \<noteq> 0 then okE (c_autoTx c)
     else tryE (wire (Transaction defaultTPB)) (\<lambda>r. case r of
       Inl e \<Rightarrow> failRetryable env e
     | Inr txHandle \<Rightarrow> bindE (modifyC (\<lambda>c. c\<lparr>c_autoTx := txHandle\<rparr>)) (\<lambda>_. okE txHandle)))"

text \<open>The transaction of an operation, and whether it is the auto-commit one.\<close>

definition acquireTx :: "drv \<Rightarrow> (bool \<times> int32) cop" where
  "acquireTx env = withC (\<lambda>c.
     if c_activeTx c = 0
     then tryE (getAutoTx env) (\<lambda>r. case r of Inl e \<Rightarrow> failRetryable env e | Inr txHandle \<Rightarrow> okE (True, txHandle))
     else okE (False, c_activeTx c))"

record transaction =
  tx_handle :: int32
  tx_done :: bool

text \<open>Commit of a pending auto-commit transaction, the error kept.\<close>

definition commitAutoTx :: "gerr option cop" where
  "commitAutoTx = withC (\<lambda>c.
     if c_autoTx c \<noteq> 0
     then tryE (wire (Commit (c_autoTx c))) (\<lambda>r.
          bindE invalidateAutoTx (\<lambda>_. okE (case r of Inl e \<Rightarrow> Some e | Inr _ \<Rightarrow> None)))
     else okE None)"

definition ConnBeginTx :: "drv \<Rightarrow> gerr option \<Rightarrow> TxOptions \<Rightarrow> transaction cop" where
  "ConnBeginTx env ctx opts =
     bindE (enter ctx) (\<lambda>_.
     case buildTPB opts of
       Inl e \<Rightarrow> throwE e
     | Inr tpb \<Rightarrow>
         bindE commitAutoTx (\<lambda>cerr. case cerr of
           Some e \<Rightarrow> failFatal env e
         | None \<Rightarrow>
             tryE (wire (Transaction tpb)) (\<lambda>r. case r of
               Inl e \<Rightarrow> failRetryable env e
             | Inr txHandle \<Rightarrow>
                 bindE (modifyC (\<lambda>c. c\<lparr>c_activeTx := txHandle\<rparr>)) (\<lambda>_. okE \<lparr>tx_handle = txHandle, tx_done = False\<rparr>))))"

text \<open>Commit and rollback: the first call ends the transaction, later ones do nothing.\<close>

definition endTx :: "drv \<Rightarrow> (int32 \<Rightarrow> unit wop) \<Rightarrow> transaction \<Rightarrow> (conn, (gerr + unit) \<times> transaction) state" where
  "endTx env op tx =
     (if tx_done tx then State_Monad.return (Inr (), tx)
      else tryE (bindE (modifyC (\<lambda>c. c\<lparr>c_activeTx := 0\<rparr>)) (\<lambda>_. withC (\<lambda>c.
             if c_closed c \<or> c_bad c then throwE ErrBadConn
             else tryE (wire (op (tx_handle tx))) (\<lambda>r. case r of Inl e \<Rightarrow> failFatal env e | Inr _ \<Rightarrow> okE ()))))
           (\<lambda>r. State_Monad.return (r, tx\<lparr>tx_done := True\<rparr>)))"

definition TxCommit :: "drv \<Rightarrow> transaction \<Rightarrow> (conn, (gerr + unit) \<times> transaction) state" where
  "TxCommit env tx = endTx env Commit tx"

definition TxRollback :: "drv \<Rightarrow> transaction \<Rightarrow> (conn, (gerr + unit) \<times> transaction) state" where
  "TxRollback env tx = endTx env Rollback tx"

section \<open>Blobs\<close>

definition blobTextCharset :: "Config \<Rightarrow> ColumnDescriptor \<Rightarrow> int32" where
  "blobTextCharset cfg col =
     (if Scale col \<noteq> 0 then Scale col
      else CharsetID (if dsn_NoneCharset cfg = [] then dsn_Charset cfg else dsn_NoneCharset cfg))"

text \<open>The content of a blob parameter; \<open>None\<close> for a value that is bound as it is.\<close>

fun blob_param :: "drv \<Rightarrow> Config \<Rightarrow> nat \<Rightarrow> ColumnDescriptor \<Rightarrow> gval \<Rightarrow> (gerr + byte list) option" where
  "blob_param env cfg i col (VBytes b) = Some (Inr b)"
| "blob_param env cfg i col (VString s) =
     (if SubType col = 1
      then (case Encode (d_xtext env) (blobTextCharset cfg col) s of
              Inl e \<Rightarrow> Some (Inl (Wrap (''encode text blob param '' @ formatNat i) e))
            | Inr b \<Rightarrow> Some (Inr b))
      else Some (Inr (bytes_of_string s)))"
| "blob_param env cfg i col _ = None"

definition is_blob :: "ColumnDescriptor \<Rightarrow> bool" where "is_blob col \<longleftrightarrow> baseType (SQLType col) = SQLBlob"

fun named_blobs :: "drv \<Rightarrow> int32 \<Rightarrow> nat \<Rightarrow> ColumnDescriptor list \<Rightarrow> NamedValue list \<Rightarrow> NamedValue list cop" where
  "named_blobs env txHandle i [] vals = okE vals"
| "named_blobs env txHandle i (col # cols) vals =
     (if \<not> is_blob col \<or> i \<ge> length vals \<or> nvValue (vals ! i) = VNil then named_blobs env txHandle (Suc i) cols vals
      else withC (\<lambda>c. case blob_param env (c_config c) i col (nvValue (vals ! i)) of
        None \<Rightarrow> named_blobs env txHandle (Suc i) cols vals
      | Some (Inl e) \<Rightarrow> throwE e
      | Some (Inr blobData) \<Rightarrow>
          tryE (wire (WriteBlobData txHandle blobData)) (\<lambda>r. case r of
            Inl e \<Rightarrow> tryE (handleFatalErrorLocked env e) (\<lambda>e'. throwE (Wrap (''create blob param '' @ formatNat i) e'))
          | Inr blobID \<Rightarrow> named_blobs env txHandle (Suc i) cols (vals[i := (vals ! i)\<lparr>nvValue := VInt64 blobID\<rparr>]))))"

definition materializeNamedBlobs :: "drv \<Rightarrow> int32 \<Rightarrow> ColumnDescriptor list \<Rightarrow> NamedValue list \<Rightarrow> NamedValue list cop" where
  "materializeNamedBlobs env txHandle cols vals = named_blobs env txHandle 0 cols vals"

text \<open>A cell that holds a blob identifier becomes the content; identifier 0 is the empty blob.\<close>

definition blob_value :: "drv \<Rightarrow> Config \<Rightarrow> ColumnDescriptor \<Rightarrow> byte list \<Rightarrow> gval" where
  "blob_value env cfg col data =
     (if SubType col = 1
      then (let csid = blobTextCharset cfg col in if csid = IDNone then VBytes data else VString (Decode (d_xtext env) csid data))
      else VBytes data)"

fun blob_cells :: "drv \<Rightarrow> int32 \<Rightarrow> nat \<Rightarrow> ColumnDescriptor list \<Rightarrow> gval list \<Rightarrow> gval list cop" where
  "blob_cells env txHandle ci [] row = okE row"
| "blob_cells env txHandle ci (col # cols) row =
     (if \<not> is_blob col \<or> ci \<ge> length row then blob_cells env txHandle (Suc ci) cols row
      else case row ! ci of
        VInt64 blobID \<Rightarrow>
          bindE (if blobID \<noteq> 0 then mapErr (Wrap (''read blob column '' @ formatNat ci)) (wire (ReadBlobData txHandle blobID)) else okE []) (\<lambda>data.
          withC (\<lambda>c. blob_cells env txHandle (Suc ci) cols (row[ci := blob_value env (c_config c) col data])))
      | _ \<Rightarrow> blob_cells env txHandle (Suc ci) cols row)"

fun materializeBlobRowsLocked :: "drv \<Rightarrow> int32 \<Rightarrow> ColumnDescriptor list \<Rightarrow> gval list list \<Rightarrow> gval list list cop" where
  "materializeBlobRowsLocked env txHandle outs [] = okE []"
| "materializeBlobRowsLocked env txHandle outs (row # rowsData) =
     bindE (blob_cells env txHandle 0 outs row) (\<lambda>row'.
     bindE (materializeBlobRowsLocked env txHandle outs rowsData) (\<lambda>rows'. okE (row' # rows')))"

definition hasBlobs :: "ColumnDescriptor list \<Rightarrow> bool" where "hasBlobs cols \<longleftrightarrow> list_ex is_blob cols"

section \<open>Prepared statements\<close>

record stmt =
  s_handle :: int32
  s_query :: string
  s_stmtType :: int32
  s_outputs :: "ColumnDescriptor list"
  s_inputs :: "ColumnDescriptor list"
  s_fetchSize :: int
  s_closed :: bool
  s_inputBLR :: "byte list option"
  s_outputBLR :: "byte list option"

definition describeOrRecycle :: "drv \<Rightarrow> int32 \<Rightarrow> byte list \<Rightarrow> byte list \<Rightarrow> described cop" where
  "describeOrRecycle env stmtHandle info items =
     tryE (wire (CompleteSQLDescribe (d_gc env) stmtHandle info items 65535)) (\<lambda>r. case r of
       Inl e \<Rightarrow> tryE (wire (RecycleStatement stmtHandle False)) (\<lambda>_. failFatal env e)
     | Inr d \<Rightarrow> okE d)"

definition ConnPrepareContext :: "drv \<Rightarrow> gerr option \<Rightarrow> string \<Rightarrow> stmt cop" where
  "ConnPrepareContext env ctx query =
     bindE (enter ctx) (\<lambda>_.
     bindE (acquireTx env) (\<lambda>(_, txHandle).
     tryE (wire (AllocateAndPrepare txHandle query 65535)) (\<lambda>(stmtHandle, r). case r of
       Inl e \<Rightarrow> withC (\<lambda>c. bindE (if c_activeTx c = 0 then invalidateAutoTx else okE ()) (\<lambda>_. failRetryable env e))
     | Inr info \<Rightarrow>
         bindE (describeOrRecycle env stmtHandle info PrepareInfoItems) (\<lambda>(sty, outs, ins).
         withC (\<lambda>c. okE \<lparr>s_handle = stmtHandle, s_query = query, s_stmtType = sty, s_outputs = outs, s_inputs = ins,
           s_fetchSize = c_fetchSize c, s_closed = False, s_inputBLR = None, s_outputBLR = None\<rparr>)))))"

section \<open>Results\<close>

record result =
  res_rowsAffected :: int64
  res_err :: "gerr option"

definition LastInsertId :: "result \<Rightarrow> gerr + int64" where
  "LastInsertId r = Inl (Msg ''firebird: LastInsertId not supported; use RETURNING clause'')"

definition RowsAffected :: "result \<Rightarrow> int64 \<times> gerr option" where
  "RowsAffected r = (res_rowsAffected r, res_err r)"

definition getRowsAffected :: "int32 \<Rightarrow> int32 \<Rightarrow> int64 wop" where
  "getRowsAffected stmtHandle sty =
     bindE (InfoSQL stmtHandle [IscInfoSQLRecords] 256) (\<lambda>data.
     let rc = ParseRecordCounts data in
     okE (if sty = StmtInsert then insertCount rc
          else if sty = StmtUpdate then updateCount rc
          else if sty = StmtDelete then deleteCount rc
          else insertCount rc + updateCount rc + deleteCount rc))"

definition rowsAffectedResult :: "drv \<Rightarrow> int32 \<Rightarrow> int32 \<Rightarrow> (conn, result) state" where
  "rowsAffectedResult env stmtHandle sty =
     tryE (wire (getRowsAffected stmtHandle sty)) (\<lambda>r. case r of
       Inl e \<Rightarrow> tryE (handleFatalErrorLocked env e) (\<lambda>e'. State_Monad.return \<lparr>res_rowsAffected = 0, res_err = Some e'\<rparr>)
     | Inr n \<Rightarrow> State_Monad.return \<lparr>res_rowsAffected = n, res_err = None\<rparr>)"

section \<open>Ad-hoc execution\<close>

definition whenAuto :: "bool \<Rightarrow> unit cop" where
  "whenAuto autoCommit = (if autoCommit then invalidateAutoTx else okE ())"

definition dropStatement :: "int32 \<Rightarrow> unit cop" where
  "dropStatement stmtHandle = tryE (wire (FreeStatement stmtHandle DSQLDrop)) (\<lambda>_. okE ())"

definition dropAndFail :: "drv \<Rightarrow> bool \<Rightarrow> int32 \<Rightarrow> gerr \<Rightarrow> 'a cop" where
  "dropAndFail env autoCommit stmtHandle e =
     bindE (whenAuto autoCommit) (\<lambda>_. bindE (dropStatement stmtHandle) (\<lambda>_. failFatal env e))"

definition prepareAdhoc :: "drv \<Rightarrow> bool \<Rightarrow> int32 \<Rightarrow> string \<Rightarrow> byte list \<Rightarrow> (int32 \<times> byte list) cop" where
  "prepareAdhoc env autoCommit txHandle query items =
     tryE (wire (AllocateAndPrepareWithItems txHandle query 65535 items)) (\<lambda>(stmtHandle, r). case r of
       Inl e \<Rightarrow> bindE (whenAuto autoCommit) (\<lambda>_. failRetryable env e)
     | Inr info \<Rightarrow> okE (stmtHandle, info))"

definition encodeParams :: "drv \<Rightarrow> ColumnDescriptor list \<Rightarrow> NamedValue list \<Rightarrow> gerr + byte list" where
  "encodeParams env ins args = fst (EncodeParamsOptimalErr (d_lib env) (d_xtext env) ins args emptyStackWriter (d_pool env))"

definition encodeAdhoc :: "drv \<Rightarrow> bool \<Rightarrow> int32 \<Rightarrow> int32 \<Rightarrow> ColumnDescriptor list \<Rightarrow> NamedValue list \<Rightarrow> (byte list \<times> byte list) cop" where
  "encodeAdhoc env autoCommit txHandle stmtHandle ins args =
     (if length ins > 0 \<and> length args > 0
      then tryE (materializeNamedBlobs env txHandle ins args) (\<lambda>m. case m of
             Inl e \<Rightarrow> dropAndFail env autoCommit stmtHandle e
           | Inr args' \<Rightarrow> (case encodeParams env ins args' of
               Inl e \<Rightarrow> bindE (whenAuto autoCommit) (\<lambda>_. bindE (dropStatement stmtHandle) (\<lambda>_. throwE e))
             | Inr paramData \<Rightarrow> okE (BuildParamBLR ins, paramData)))
      else okE ([], []))"

definition wrongArgs :: "nat \<Rightarrow> nat \<Rightarrow> gerr" where
  "wrongArgs want got = Msg (''firebird: statement expects '' @ formatNat want @ '' parameters, got '' @ formatNat got)"

definition finishExec :: "drv \<Rightarrow> int32 \<Rightarrow> int32 \<Rightarrow> result cop" where
  "finishExec env stmtHandle sty =
     tryE (rowsAffectedResult env stmtHandle sty) (\<lambda>res.
     tryE (wire (RecycleStatement stmtHandle False)) (\<lambda>_. okE res))"

text \<open>The execution proper, after the parameters are encoded.\<close>

definition runExec :: "drv \<Rightarrow> bool \<Rightarrow> int32 \<Rightarrow> int32 \<Rightarrow> int32 \<Rightarrow> byte list \<Rightarrow> byte list \<Rightarrow> result cop" where
  "runExec env autoCommit txHandle stmtHandle sty blr paramData =
     (if autoCommit \<and> sty \<noteq> StmtExecProcedure then
        tryE (wire (ExecuteAndCommitRetaining stmtHandle txHandle blr paramData)) (\<lambda>r. case r of
          Inl e \<Rightarrow> dropAndFail env True stmtHandle e
        | Inr _ \<Rightarrow> finishExec env stmtHandle sty)
      else
        tryE (if sty = StmtExecProcedure
              then bindE (wire (Execute2 (d_res env) (d_xtext env) stmtHandle txHandle blr paramData [] [])) (\<lambda>_. okE ())
              else wire (Execute stmtHandle txHandle blr paramData)) (\<lambda>r. case r of
          Inl e \<Rightarrow> dropAndFail env autoCommit stmtHandle e
        | Inr _ \<Rightarrow>
            if autoCommit then
              tryE (wire (CommitRetaining txHandle)) (\<lambda>cr. case cr of
                Inl e \<Rightarrow> dropAndFail env True stmtHandle e
              | Inr _ \<Rightarrow> finishExec env stmtHandle sty)
            else finishExec env stmtHandle sty))"

definition ConnExecContext :: "drv \<Rightarrow> gerr option \<Rightarrow> string \<Rightarrow> NamedValue list \<Rightarrow> result cop" where
  "ConnExecContext env ctx query args =
     bindE (enter ctx) (\<lambda>_.
     bindE (acquireTx env) (\<lambda>(autoCommit, txHandle).
     bindE (prepareAdhoc env autoCommit txHandle query PrepareExecInfoItems) (\<lambda>(stmtHandle, info).
     bindE (describeOrRecycle env stmtHandle info PrepareExecInfoItems) (\<lambda>(sty, _, ins).
     if length args \<noteq> length ins
     then tryE (wire (RecycleStatement stmtHandle False)) (\<lambda>_. throwE (wrongArgs (length ins) (length args)))
     else bindE (encodeAdhoc env autoCommit txHandle stmtHandle ins args) (\<lambda>(blr, paramData).
          runExec env autoCommit txHandle stmtHandle sty blr paramData)))))"

section \<open>Ad-hoc queries\<close>

record rows =
  r_stmtHandle :: int32
  r_txHandle :: int32
  r_outputs :: "ColumnDescriptor list"
  r_fetchSize :: int
  r_autoFreeStmt :: bool
  r_autoCommitTx :: bool
  r_commitOnClose :: bool
  r_hasCursor :: bool
  r_buf :: "gval list list"
  r_bufIdx :: nat
  r_eof :: bool
  r_closed :: bool
  r_blr :: "byte list option"
  r_hasBlobs :: bool
  r_fetchValues :: "gval list"
  r_cachedColumns :: "string list option"

definition newRows :: "int32 \<Rightarrow> int32 \<Rightarrow> ColumnDescriptor list \<Rightarrow> int \<Rightarrow> bool \<Rightarrow> bool \<Rightarrow> int32 \<Rightarrow> bool \<Rightarrow> gval list list \<Rightarrow> bool
    \<Rightarrow> byte list option \<Rightarrow> rows" where
  "newRows stmtHandle txHandle outs fetchSize freeStmt autoCommit sty hasCursor initialRows eof blr =
     \<lparr>r_stmtHandle = stmtHandle, r_txHandle = txHandle, r_outputs = outs, r_fetchSize = fetchSize, r_autoFreeStmt = freeStmt,
      r_autoCommitTx = autoCommit, r_commitOnClose = (autoCommit \<and> sty \<noteq> StmtSelect \<and> sty \<noteq> StmtSelectForUpd),
      r_hasCursor = hasCursor, r_buf = initialRows, r_bufIdx = 0, r_eof = eof, r_closed = False, r_blr = blr,
      r_hasBlobs = hasBlobs outs, r_fetchValues = [], r_cachedColumns = None\<rparr>"

definition describeCached :: "drv \<Rightarrow> string \<Rightarrow> int32 \<Rightarrow> byte list \<Rightarrow> described cop" where
  "describeCached env query stmtHandle info = withC (\<lambda>c. case descCacheLookup query info c of
       Some d \<Rightarrow> okE d
     | None \<Rightarrow> bindE (describeOrRecycle env stmtHandle info PrepareInfoItems) (\<lambda>d.
               bindE (modifyC (descCacheStore query info d)) (\<lambda>_. okE d)))"

definition runQuery :: "drv \<Rightarrow> bool \<Rightarrow> int32 \<Rightarrow> int32 \<Rightarrow> int32 \<Rightarrow> ColumnDescriptor list \<Rightarrow> byte list \<Rightarrow> byte list \<Rightarrow> rows cop" where
  "runQuery env autoCommit txHandle stmtHandle sty outs blr paramData = withC (\<lambda>c.
     let mk = newRows stmtHandle txHandle outs (c_fetchSize c) autoCommit autoCommit sty in
     if sty = StmtExecProcedure then
       tryE (wire (Execute2 (d_res env) (d_xtext env) stmtHandle txHandle blr paramData (BuildBLR outs) outs)) (\<lambda>r. case r of
         Inl e \<Rightarrow> dropAndFail env autoCommit stmtHandle e
       | Inr (msgs, row) \<Rightarrow>
           if sint msgs > 0 then
             tryE (materializeBlobRowsLocked env txHandle outs [row]) (\<lambda>m. case m of
               Inl e \<Rightarrow> dropAndFail env autoCommit stmtHandle e
             | Inr initialRows \<Rightarrow> okE (mk False initialRows True None))
           else okE (mk False [] True None))
     else
       tryE (wire (Execute stmtHandle txHandle blr paramData)) (\<lambda>r. case r of
         Inl e \<Rightarrow> dropAndFail env autoCommit stmtHandle e
       | Inr _ \<Rightarrow> okE (mk True [] False None)))"

definition ConnQueryContext :: "drv \<Rightarrow> gerr option \<Rightarrow> string \<Rightarrow> NamedValue list \<Rightarrow> rows cop" where
  "ConnQueryContext env ctx query args =
     bindE (enter ctx) (\<lambda>_.
     bindE (acquireTx env) (\<lambda>(autoCommit, txHandle).
     bindE (prepareAdhoc env autoCommit txHandle query PrepareInfoItems) (\<lambda>(stmtHandle, info).
     bindE (describeCached env query stmtHandle info) (\<lambda>(sty, outs, ins).
     if length args \<noteq> length ins
     then tryE (wire (RecycleStatement stmtHandle False)) (\<lambda>_. throwE (wrongArgs (length ins) (length args)))
     else bindE (encodeAdhoc env autoCommit txHandle stmtHandle ins args) (\<lambda>(blr, paramData).
          runQuery env autoCommit txHandle stmtHandle sty outs blr paramData)))))"

section \<open>Session\<close>

definition ConnClose :: "unit cop" where
  "ConnClose = withC (\<lambda>c.
     if c_closed c then okE ()
     else bindE (modifyC (\<lambda>c. c\<lparr>c_closed := True\<rparr>)) (\<lambda>_.
       if c_bad c then okE ()
       else bindE commitAutoTx (\<lambda>_. tryE (wire DrainStatementPool) (\<lambda>_. wire Detach))))"

definition pingInfoItems :: "byte list" where "pingInfoItems = [13]"

definition pingLocked :: "drv \<Rightarrow> unit cop" where
  "pingLocked env = withC (\<lambda>c.
     if c_closed c \<or> c_bad c then throwE ErrBadConn
     else tryE (wire (InfoDatabase pingInfoItems 256)) (\<lambda>r. case r of Inl e \<Rightarrow> failRetryable env e | Inr _ \<Rightarrow> okE ()))"

definition ConnPing :: "drv \<Rightarrow> unit cop" where
  "ConnPing env = withC (\<lambda>c. if c_closed c \<or> c_bad c then throwE ErrBadConn else pingLocked env)"

definition ConnResetSession :: "unit cop" where
  "ConnResetSession = withC (\<lambda>c.
     if c_closed c \<or> c_bad c then throwE ErrBadConn
     else if c_activeTx c \<noteq> 0 then
       tryE (wire (Rollback (c_activeTx c))) (\<lambda>_.
       bindE (modifyC (\<lambda>c. c\<lparr>c_activeTx := 0\<rparr>)) (\<lambda>_.
       bindE markBadLocked (\<lambda>_. throwE ErrBadConn)))
     else okE ())"

definition ConnIsValid :: "conn \<Rightarrow> bool" where "ConnIsValid c \<longleftrightarrow> \<not> c_closed c \<and> \<not> c_bad c"

section \<open>Arguments\<close>

definition checkUint :: "string \<Rightarrow> uint64 \<Rightarrow> gerr + gval" where
  "checkUint name v =
     (if uint v > maxInt64 then Inl (Msg (''firebird: '' @ name @ '' value '' @ formatNat (unat v) @ '' overflows BIGINT''))
      else Inr (VInt64 v))"

fun checkValue :: "golib \<Rightarrow> gval \<Rightarrow> gerr + gval" where
  "checkValue lib (VInt v) = Inr (VInt64 v)"
| "checkValue lib (VInt8 v) = Inr (VInt64 (scast v))"
| "checkValue lib (VInt16 v) = Inr (VInt64 (scast v))"
| "checkValue lib (VInt32 v) = Inr (VInt64 (scast v))"
| "checkValue lib (VUint v) = checkUint ''uint'' v"
| "checkValue lib (VUint8 v) = Inr (VInt64 (ucast v))"
| "checkValue lib (VUint16 v) = Inr (VInt64 (ucast v))"
| "checkValue lib (VUint32 v) = Inr (VInt64 (ucast v))"
| "checkValue lib (VUint64 v) = checkUint ''uint64'' v"
| "checkValue lib (VFloat32 v) = Inr (VFloat64 (float64_of lib (VFloat32 v)))"
| "checkValue lib (VOther _) = Inl ErrSkip"
| "checkValue lib v = Inr v"

definition namedUnsupported :: gerr where
  "namedUnsupported = Msg (''firebird: named parameters are not supported; use positional '' @ [CHR 0x27, CHR 0x3F, CHR 0x27] @ '' placeholders'')"

definition CheckNamedValue :: "golib \<Rightarrow> NamedValue \<Rightarrow> gerr + NamedValue" where
  "CheckNamedValue lib nv =
     (if nvName nv \<noteq> [] then Inl namedUnsupported
      else case checkValue lib (nvValue nv) of Inl e \<Rightarrow> Inl e | Inr v \<Rightarrow> Inr (nv\<lparr>nvValue := v\<rparr>))"

section \<open>Connecting\<close>

definition gdsIscLogin :: int32 where "gdsIscLogin = 335544472"

definition maxConnRetries :: nat where "maxConnRetries = 3"

definition isTransientAuthFailure :: "gerr \<Rightarrow> bool" where
  "isTransientAuthFailure err = (case asStatusError err of None \<Rightarrow> False | Some sv \<Rightarrow> GDSCode sv = gdsIscLogin)"

definition protocolConfig :: "Config \<Rightarrow> ProtocolConfig" where
  "protocolConfig cfg =
     \<lparr>cfg_Host = dsn_Host cfg, cfg_Port = dsn_Port cfg, cfg_Database = dsn_Database cfg, cfg_User = dsn_User cfg,
      cfg_Password = dsn_Password cfg, cfg_Charset = dsn_Charset cfg, cfg_NoneCharset = dsn_NoneCharset cfg,
      cfg_Dialect = dsn_Dialect cfg, cfg_WireCrypt = dsn_WireCrypt cfg, cfg_WireCryptSet = True,
      cfg_AuthPluginList = DefaultPluginList, cfg_Role = dsn_Role cfg, cfg_DataTypeBind = dsn_DataTypeBind cfg,
      cfg_SessionTimeZone = dsn_SessionTimeZone cfg\<rparr>"

text \<open>Attempt \<open>i\<close> meets the environment \<open>envs i\<close>; \<open>waits i\<close> is the error of a context that ends during the pause after it.\<close>

fun connect_loop :: "(nat \<Rightarrow> connect_env) \<Rightarrow> (nat \<Rightarrow> gerr option) \<Rightarrow> ProtocolConfig \<Rightarrow> nat \<Rightarrow> nat \<Rightarrow> gerr + WireConnection option" where
  "connect_loop envs waits cfg i left =
     (case ConnectContext (envs i) cfg of
        (Inr _, wc) \<Rightarrow> Inr wc
      | (Inl e, _) \<Rightarrow>
          if \<not> isTransientAuthFailure e \<or> left = 0 then Inl e
          else (case waits i of Some ce \<Rightarrow> Inl ce | None \<Rightarrow> connect_loop envs waits cfg (Suc i) (left - 1)))"

declare connect_loop.simps [simp del]

definition newConn :: "Config \<Rightarrow> WireConnection \<Rightarrow> conn" where
  "newConn cfg wc =
     \<lparr>c_wc = wc, c_config = cfg, c_closed = False, c_bad = False, c_fetchSize = dsn_FetchSize cfg, c_activeTx = 0, c_autoTx = 0,
      c_dirtyAutoTx = False, c_descCache = replicate descCacheSlots emptyEntry\<rparr>"

definition newConnection :: "(nat \<Rightarrow> connect_env) \<Rightarrow> (nat \<Rightarrow> gerr option) \<Rightarrow> Config \<Rightarrow> gerr + conn option" where
  "newConnection envs waits cfg =
     (case connect_loop envs waits (protocolConfig cfg) 0 (maxConnRetries - 1) of
        Inl e \<Rightarrow> Inl e
      | Inr wc \<Rightarrow> Inr (map_option (newConn cfg) wc))"

section \<open>Entry points of the driver\<close>

text \<open>A connector is the parsed configuration; the deprecated methods call their successors with a background context.\<close>

definition OpenConnector :: "(string \<Rightarrow> string) \<Rightarrow> (string \<Rightarrow> gerr option + url) \<Rightarrow> string \<Rightarrow> gerr + Config" where
  "OpenConnector quote parse dsn = (case ParseDSN quote parse dsn of Inl e \<Rightarrow> Inl e | Inr cfg \<Rightarrow> Inr cfg)"

definition ConnectorConnect :: "(nat \<Rightarrow> connect_env) \<Rightarrow> (nat \<Rightarrow> gerr option) \<Rightarrow> Config \<Rightarrow> gerr + conn option" where
  "ConnectorConnect envs waits cfg = newConnection envs waits cfg"

definition DriverOpen ::
  "(string \<Rightarrow> string) \<Rightarrow> (string \<Rightarrow> gerr option + url) \<Rightarrow> (nat \<Rightarrow> connect_env) \<Rightarrow> string \<Rightarrow> gerr + conn option" where
  "DriverOpen quote parse envs dsn =
     (case OpenConnector quote parse dsn of Inl e \<Rightarrow> Inl e | Inr cfg \<Rightarrow> ConnectorConnect envs (\<lambda>_. None) cfg)"

definition ConnPrepare :: "drv \<Rightarrow> string \<Rightarrow> stmt cop" where
  "ConnPrepare env query = ConnPrepareContext env None query"

definition ConnBegin :: "drv \<Rightarrow> transaction cop" where
  "ConnBegin env = ConnBeginTx env None \<lparr>Isolation = 0, ReadOnly = False\<rparr>"

end
