(* ===== verification/DriverStmt.thy ===== *)
theory DriverStmt
  imports DriverConn
begin

text \<open>
  Prepared statements (\<^verbatim>\<open>statement.go\<close>) and result sets (\<^verbatim>\<open>rows.go\<close>).  A statement or a result set belongs to a
  connection, which is the state; the operation returns the updated object next to its result.
\<close>

section \<open>Cached message descriptions\<close>

definition paramBLR :: "stmt \<Rightarrow> byte list \<times> stmt" where
  "paramBLR s =
     (if length (s_inputs s) = 0 then ([], s)
      else case s_inputBLR s of
        Some blr \<Rightarrow> (blr, s)
      | None \<Rightarrow> (BuildParamBLR (s_inputs s), s\<lparr>s_inputBLR := Some (BuildParamBLR (s_inputs s))\<rparr>))"

text \<open>The result is \<open>None\<close> where the source returns \<^verbatim>\<open>nil\<close>.\<close>

definition resultBLR :: "stmt \<Rightarrow> byte list option \<times> stmt" where
  "resultBLR s =
     (if length (s_outputs s) = 0 then (None, s)
      else case s_outputBLR s of
        Some blr \<Rightarrow> (Some blr, s)
      | None \<Rightarrow> (Some (BuildBLR (s_outputs s)), s\<lparr>s_outputBLR := Some (BuildBLR (s_outputs s))\<rparr>))"

definition bytes_or_nil :: "byte list option \<Rightarrow> byte list" where
  "bytes_or_nil b = (case b of None \<Rightarrow> [] | Some bs \<Rightarrow> bs)"

definition NumInput :: "stmt \<Rightarrow> nat" where "NumInput s = length (s_inputs s)"

definition valuesToNamed :: "gval list \<Rightarrow> NamedValue list" where
  "valuesToNamed args = map (\<lambda>(i, v). \<lparr>nvName = [], nvOrdinal = i + 1, nvValue = v\<rparr>) (zip [0 ..< length args] args)"

section \<open>Closing a statement\<close>

text \<open>The error kept by a call whose failure does not end the operation.\<close>

definition noteFatal :: "drv \<Rightarrow> gerr + unit \<Rightarrow> (conn, gerr option) state" where
  "noteFatal env r = (case r of
     Inl e \<Rightarrow> tryE (handleFatalErrorLocked env e) (\<lambda>e'. State_Monad.return (Some e'))
   | Inr _ \<Rightarrow> State_Monad.return None)"

definition firstError :: "gerr option \<Rightarrow> gerr option \<Rightarrow> gerr + unit" where
  "firstError a b = (case a of Some e \<Rightarrow> Inl e | None \<Rightarrow> (case b of Some e \<Rightarrow> Inl e | None \<Rightarrow> Inr ()))"

definition StmtClose :: "drv \<Rightarrow> stmt \<Rightarrow> (conn, (gerr + unit) \<times> stmt) state" where
  "StmtClose env s =
     (if s_closed s then State_Monad.return (Inr (), s)
      else withC (\<lambda>c.
        if c_closed c \<or> c_bad c then State_Monad.return (Inr (), s\<lparr>s_closed := True\<rparr>)
        else tryE (wire (RecycleStatement (s_handle s) False)) (\<lambda>r.
             tryE (noteFatal env r) (\<lambda>err.
             withC (\<lambda>c.
               if c_dirtyAutoTx c \<and> c_activeTx c = 0 \<and> c_autoTx c \<noteq> 0 then
                 tryE (wire (CommitRetaining (c_autoTx c))) (\<lambda>cr.
                 tryE (if cr = Inr () then okE () else invalidateAutoTx) (\<lambda>_.
                 tryE (noteFatal env cr) (\<lambda>cerr.
                 tryE (modifyC (\<lambda>c. c\<lparr>c_dirtyAutoTx := False\<rparr>)) (\<lambda>_.
                 State_Monad.return (firstError err cerr, s\<lparr>s_closed := True\<rparr>)))))
               else State_Monad.return (firstError err None, s\<lparr>s_closed := True\<rparr>))))))"

section \<open>Executing a statement\<close>

definition enterStmt :: "gerr option \<Rightarrow> stmt \<Rightarrow> unit cop" where
  "enterStmt ctx s = withC (\<lambda>c. if s_closed s \<or> c_closed c \<or> c_bad c then throwE ErrBadConn
     else (case ctx of Some e \<Rightarrow> throwE e | None \<Rightarrow> okE ()))"

definition hasBlobParams :: "ColumnDescriptor list \<Rightarrow> NamedValue list \<Rightarrow> bool" where
  "hasBlobParams ins args \<longleftrightarrow>
     list_ex (\<lambda>(i, col). is_blob col \<and> i < length args \<and> nvValue (args ! i) \<noteq> VNil) (zip [0 ..< length ins] ins)"

text \<open>Run an operation on the connection; its error ends the call with the statement as it is.\<close>

definition onStmt :: "stmt \<Rightarrow> 'a cop \<Rightarrow> ('a \<Rightarrow> (conn, (gerr + 'b) \<times> stmt) state) \<Rightarrow> (conn, (gerr + 'b) \<times> stmt) state" where
  "onStmt s m k = tryE m (\<lambda>r. case r of Inl e \<Rightarrow> State_Monad.return (Inl e, s) | Inr x \<Rightarrow> k x)"

definition retry :: "drv \<Rightarrow> 'a cop \<Rightarrow> 'a cop" where
  "retry env m = tryE m (\<lambda>r. case r of Inl e \<Rightarrow> failRetryable env e | Inr x \<Rightarrow> okE x)"

definition fatal :: "drv \<Rightarrow> bool \<Rightarrow> 'a cop \<Rightarrow> 'a cop" where
  "fatal env autoCommit m = tryE m (\<lambda>r. case r of
     Inl e \<Rightarrow> bindE (whenAuto autoCommit) (\<lambda>_. failFatal env e) | Inr x \<Rightarrow> okE x)"

definition stmtBlobs :: "drv \<Rightarrow> bool \<Rightarrow> int32 \<Rightarrow> ColumnDescriptor list \<Rightarrow> NamedValue list \<Rightarrow> (int32 \<times> NamedValue list) cop" where
  "stmtBlobs env autoCommit txHandle ins args =
     (if autoCommit then
        (if hasBlobParams ins args then
           bindE (retry env (getAutoTx env)) (\<lambda>tx.
           bindE (fatal env True (materializeNamedBlobs env tx ins args)) (\<lambda>args'. okE (tx, args')))
         else okE (txHandle, args))
      else bindE (fatal env False (materializeNamedBlobs env txHandle ins args)) (\<lambda>args'. okE (txHandle, args')))"

definition stmtEncode :: "drv \<Rightarrow> bool \<Rightarrow> stmt \<Rightarrow> NamedValue list
    \<Rightarrow> (byte list \<times> byte list \<Rightarrow> stmt \<Rightarrow> (conn, (gerr + 'b) \<times> stmt) state) \<Rightarrow> (conn, (gerr + 'b) \<times> stmt) state" where
  "stmtEncode env autoCommit s args k =
     (let (blr, s') = paramBLR s in
      case encodeParams env (s_inputs s) args of
        Inl e \<Rightarrow> tryE (whenAuto autoCommit) (\<lambda>_. State_Monad.return (Inl e, s'))
      | Inr paramData \<Rightarrow> k (blr, paramData) s')"

definition stmtRun :: "drv \<Rightarrow> bool \<Rightarrow> int32 \<Rightarrow> stmt \<Rightarrow> byte list \<Rightarrow> byte list \<Rightarrow> unit wop" where
  "stmtRun env autoCommit txHandle s blr paramData =
     (if s_stmtType s = StmtExecProcedure then
        bindE (Execute2 (d_res env) (d_xtext env) (s_handle s) txHandle blr paramData [] []) (\<lambda>_.
          if autoCommit then CommitRetaining txHandle else okE ())
      else if autoCommit then ExecuteAndCommitRetaining (s_handle s) txHandle blr paramData
      else Execute (s_handle s) txHandle blr paramData)"

definition stmtFinish :: "drv \<Rightarrow> bool \<Rightarrow> int32 \<Rightarrow> stmt \<Rightarrow> byte list \<times> byte list \<Rightarrow> (conn, (gerr + result) \<times> stmt) state" where
  "stmtFinish env autoCommit txHandle s bp = (case bp of (blr, paramData) \<Rightarrow>
     onStmt s (if autoCommit \<and> txHandle = 0 then retry env (getAutoTx env) else okE txHandle) (\<lambda>tx.
     onStmt s (fatal env autoCommit (wire (stmtRun env autoCommit tx s blr paramData))) (\<lambda>_.
     tryE (rowsAffectedResult env (s_handle s) (s_stmtType s)) (\<lambda>res. State_Monad.return (Inr res, s)))))"

definition StmtExecContext :: "drv \<Rightarrow> gerr option \<Rightarrow> NamedValue list \<Rightarrow> stmt \<Rightarrow> (conn, (gerr + result) \<times> stmt) state" where
  "StmtExecContext env ctx args s =
     onStmt s (enterStmt ctx s) (\<lambda>_. withC (\<lambda>c.
       let autoCommit = (c_activeTx c = 0); txHandle = c_activeTx c in
       if length (s_inputs s) > 0 \<and> length args > 0 then
         onStmt s (stmtBlobs env autoCommit txHandle (s_inputs s) args) (\<lambda>(tx, args').
           stmtEncode env autoCommit s args' (\<lambda>bp s'. stmtFinish env autoCommit tx s' bp))
       else stmtFinish env autoCommit txHandle s ([], [])))"

definition StmtExec :: "drv \<Rightarrow> gval list \<Rightarrow> stmt \<Rightarrow> (conn, (gerr + result) \<times> stmt) state" where
  "StmtExec env args s = StmtExecContext env None (valuesToNamed args) s"

section \<open>Querying a statement\<close>

definition stmtQueryRun :: "drv \<Rightarrow> bool \<Rightarrow> int32 \<Rightarrow> stmt \<Rightarrow> byte list \<times> byte list \<Rightarrow> (conn, (gerr + rows) \<times> stmt) state" where
  "stmtQueryRun env autoCommit txHandle s bp = (case bp of (blr, paramData) \<Rightarrow>
     let (outBLR, s') = resultBLR s;
         mk = newRows (s_handle s) txHandle (s_outputs s) (s_fetchSize s) False autoCommit (s_stmtType s) in
     if s_stmtType s = StmtExecProcedure then
       onStmt s' (fatal env autoCommit (wire (Execute2 (d_res env) (d_xtext env) (s_handle s) txHandle blr paramData (bytes_or_nil outBLR) (s_outputs s))))
         (\<lambda>(msgs, row).
           if sint msgs > 0 then
             onStmt s' (fatal env autoCommit (materializeBlobRowsLocked env txHandle (s_outputs s) [row])) (\<lambda>initialRows.
             State_Monad.return (Inr (mk False initialRows True outBLR), s'))
           else State_Monad.return (Inr (mk False [] True outBLR), s'))
     else
       onStmt s' (fatal env autoCommit (wire (Execute (s_handle s) txHandle blr paramData))) (\<lambda>_.
       State_Monad.return (Inr (mk True [] False outBLR), s')))"

definition StmtQueryContext :: "drv \<Rightarrow> gerr option \<Rightarrow> NamedValue list \<Rightarrow> stmt \<Rightarrow> (conn, (gerr + rows) \<times> stmt) state" where
  "StmtQueryContext env ctx args s =
     onStmt s (bindE (enterStmt ctx s) (\<lambda>_. acquireTx env)) (\<lambda>(autoCommit, txHandle).
       if length (s_inputs s) > 0 \<and> length args > 0 then
         onStmt s (fatal env autoCommit (materializeNamedBlobs env txHandle (s_inputs s) args)) (\<lambda>args'.
           stmtEncode env autoCommit s args' (\<lambda>bp s'. stmtQueryRun env autoCommit txHandle s' bp))
       else stmtQueryRun env autoCommit txHandle s ([], []))"

definition StmtQuery :: "drv \<Rightarrow> gval list \<Rightarrow> stmt \<Rightarrow> (conn, (gerr + rows) \<times> stmt) state" where
  "StmtQuery env args s = StmtQueryContext env None (valuesToNamed args) s"

section \<open>Result sets\<close>

definition RowsColumns :: "rows \<Rightarrow> string list \<times> rows" where
  "RowsColumns r = (case r_cachedColumns r of
     Some cols \<Rightarrow> (cols, r)
   | None \<Rightarrow> (let cols = map (\<lambda>c. if AliasName c \<noteq> [] then AliasName c else FieldName c) (r_outputs r)
             in (cols, r\<lparr>r_cachedColumns := Some cols\<rparr>)))"

definition RowsClose :: "drv \<Rightarrow> rows \<Rightarrow> (conn, (gerr + unit) \<times> rows) state" where
  "RowsClose env r =
     (if r_closed r then State_Monad.return (Inr (), r)
      else let r' = r\<lparr>r_closed := True\<rparr> in withC (\<lambda>c.
        if c_closed c \<or> c_bad c then State_Monad.return (Inr (), r')
        else tryE (if r_autoFreeStmt r then wire (RecycleStatement (r_stmtHandle r) (r_hasCursor r))
                   else if r_hasCursor r then wire (FreeStatement (r_stmtHandle r) DSQLClose) else okE ()) (\<lambda>fr.
             tryE (noteFatal env fr) (\<lambda>err.
             withC (\<lambda>c.
               if r_commitOnClose r \<and> \<not> c_bad c then
                 tryE (wire (CommitRetaining (r_txHandle r))) (\<lambda>cr.
                 tryE (if cr = Inr () then okE () else invalidateAutoTx) (\<lambda>_.
                 tryE (noteFatal env cr) (\<lambda>cerr. State_Monad.return (firstError err cerr, r'))))
               else State_Monad.return (firstError err None, r'))))))"

text \<open>\<open>ctx i\<close> is the \<open>i\<close>-th answer of the context during one call of \<^verbatim>\<open>Next\<close>.  The first fetch without a description uses the
  array of eight values inside \<^verbatim>\<open>rows\<close>; of \<open>r_fetchValues\<close> only the capacity matters.\<close>

definition prepareFetch :: "rows \<Rightarrow> rows" where
  "prepareFetch r = (case r_blr r of
     Some _ \<Rightarrow> r
   | None \<Rightarrow> r\<lparr>r_blr := Some (AppendBLR [] (r_outputs r)),
               r_fetchValues := (if length (r_outputs r) > 0 then replicate 8 VNil else r_fetchValues r)\<rparr>)"

definition RowsFetch :: "drv \<Rightarrow> (nat \<Rightarrow> gerr option) \<Rightarrow> rows \<Rightarrow> (conn, (gerr + unit) \<times> rows) state" where
  "RowsFetch env ctx r = (case ctx 1 of
     Some e \<Rightarrow> State_Monad.return (Inl e, r)
   | None \<Rightarrow> (let r1 = prepareFetch r in case ctx 2 of
       Some e \<Rightarrow> State_Monad.return (Inl e, r1)
     | None \<Rightarrow>
         tryE (wire (FetchRowsReuse (d_res env) (d_xtext env) (r_stmtHandle r1) (bytes_or_nil (r_blr r1)) (r_outputs r1)
                 (word_of_int (r_fetchSize r1)) (r_fetchValues r1))) (\<lambda>fr. case fr of
           Inl err \<Rightarrow> tryE (handleFatalErrorLocked env err) (\<lambda>handled.
             State_Monad.return (Inl (case ctx 3 of Some ce \<Rightarrow> ce | None \<Rightarrow> handled), r1))
         | Inr (fetched, vals, eof) \<Rightarrow>
             (let r2 = r1\<lparr>r_fetchValues := vals\<rparr> in
              tryE (if r_hasBlobs r2 then materializeBlobRowsLocked env (r_txHandle r2) (r_outputs r2) fetched else okE fetched) (\<lambda>m. case m of
                Inl e \<Rightarrow> tryE (handleFatalErrorLocked env e) (\<lambda>handled. State_Monad.return (Inl handled, r2))
              | Inr fetched' \<Rightarrow>
                  State_Monad.return (Inr (), r2\<lparr>r_buf := fetched', r_bufIdx := 0, r_eof := (r_eof r2 \<or> eof)\<rparr>))))))"

definition deliver :: "gval list \<Rightarrow> rows \<Rightarrow> (gerr + gval list) \<times> rows" where
  "deliver dest r =
     (let row = r_buf r ! r_bufIdx r in
      (Inr (map (\<lambda>i. if i < length row then row ! i else dest ! i) [0 ..< length dest]), r\<lparr>r_bufIdx := r_bufIdx r + 1\<rparr>))"

definition RowsNext :: "drv \<Rightarrow> (nat \<Rightarrow> gerr option) \<Rightarrow> gval list \<Rightarrow> rows \<Rightarrow> (conn, (gerr + gval list) \<times> rows) state" where
  "RowsNext env ctx dest r =
     (if r_closed r then State_Monad.return (Inl ErrEOF, r)
      else case ctx 0 of
        Some e \<Rightarrow> State_Monad.return (Inl e, r)
      | None \<Rightarrow>
          if r_bufIdx r \<ge> length (r_buf r) then
            (if r_eof r then State_Monad.return (Inl ErrEOF, r)
             else tryE (RowsFetch env ctx r) (\<lambda>(fr, r'). State_Monad.return (case fr of
               Inl e \<Rightarrow> (Inl e, r')
             | Inr _ \<Rightarrow> if r_bufIdx r' \<ge> length (r_buf r') then (Inl ErrEOF, r') else deliver dest r')))
          else State_Monad.return (deliver dest r))"

section \<open>Column metadata\<close>

definition column :: "rows \<Rightarrow> int \<Rightarrow> ColumnDescriptor option" where
  "column r index = (if index < 0 \<or> index \<ge> int (length (r_outputs r)) then None else Some (r_outputs r ! nat index))"

definition numericName :: "ColumnDescriptor \<Rightarrow> string \<Rightarrow> string" where
  "numericName col name = (if SubType col = 1 \<or> sint (Scale col) < 0 then ''NUMERIC'' else name)"

definition databaseTypeName :: "ColumnDescriptor \<Rightarrow> string" where
  "databaseTypeName col =
     (let sqlType = baseType (SQLType col) in
      if sqlType = SQLText then ''CHAR''
      else if sqlType = SQLVarying then ''VARCHAR''
      else if sqlType = SQLShort then numericName col ''SMALLINT''
      else if sqlType = SQLLong then numericName col ''INTEGER''
      else if sqlType = SQLInt64 then numericName col ''BIGINT''
      else if sqlType = SQLInt128 then numericName col ''INT128''
      else if sqlType = SQLFloat then ''FLOAT''
      else if sqlType = SQLDouble then ''DOUBLE PRECISION''
      else if sqlType = SQLTimestamp then ''TIMESTAMP''
      else if sqlType = SQLTypeDate then ''DATE''
      else if sqlType = SQLTypeTime then ''TIME''
      else if sqlType = SQLTimestampTZ \<or> sqlType = SQLTimestampTZEx then ''TIMESTAMP WITH TIME ZONE''
      else if sqlType = SQLTimeTZ \<or> sqlType = SQLTimeTZEx then ''TIME WITH TIME ZONE''
      else if sqlType = SQLBlob then (if SubType col = 1 then ''BLOB SUB_TYPE TEXT'' else ''BLOB'')
      else if sqlType = SQLBoolean then ''BOOLEAN''
      else if sqlType = SQLDec16 then ''DECFLOAT(16)''
      else if sqlType = SQLDec34 then ''DECFLOAT(34)''
      else ''TYPE_'' @ formatInt (sint sqlType))"

definition ColumnTypeDatabaseTypeName :: "rows \<Rightarrow> int \<Rightarrow> string" where
  "ColumnTypeDatabaseTypeName r index = (case column r index of None \<Rightarrow> [] | Some col \<Rightarrow> databaseTypeName col)"

definition charsetMaxBytesPerChar :: "int32 \<Rightarrow> int" where
  "charsetMaxBytesPerChar cid =
     (if cid = 3 then 3 else if cid = 4 then 4 else if cid \<in> {5, 6, 44, 56, 57, 67, 68} then 2 else if cid = 69 then 4 else 1)"

definition ColumnTypeLength :: "rows \<Rightarrow> int \<Rightarrow> int \<times> bool" where
  "ColumnTypeLength r index = (case column r index of
     None \<Rightarrow> (0, False)
   | Some col \<Rightarrow>
       (let sqlType = baseType (SQLType col) in
        if sqlType = SQLText \<or> sqlType = SQLVarying then
          (let bytesPerChar = (if SubTypeFromNone col then 1 else charsetMaxBytesPerChar (SubType col AND 0xFF))
           in (go_quot (sint (Length col)) bytesPerChar, True))
        else if sqlType = SQLBlob then (maxInt64, True)
        else (0, False)))"

definition ColumnTypeNullable :: "rows \<Rightarrow> int \<Rightarrow> bool \<times> bool" where
  "ColumnTypeNullable r index = (case column r index of None \<Rightarrow> (False, False) | Some col \<Rightarrow> (Nullable col, True))"

definition ColumnTypePrecisionScale :: "rows \<Rightarrow> int \<Rightarrow> int \<times> int \<times> bool" where
  "ColumnTypePrecisionScale r index = (case column r index of
     None \<Rightarrow> (0, 0, False)
   | Some col \<Rightarrow>
       (let sqlType = baseType (SQLType col); scale = sint (- Scale col) in
        if sint (Scale col) < 0 then
          (if sqlType = SQLShort then (4, scale, True)
           else if sqlType = SQLLong then (9, scale, True)
           else if sqlType = SQLInt64 then (18, scale, True)
           else if sqlType = SQLInt128 then (38, scale, True)
           else (0, 0, False))
        else (0, 0, False)))"

datatype gotype = TAny | TBytes | TString | TInt16 | TInt32 | TInt64 | TFloat32 | TFloat64 | TTime | TBool

definition scanType :: "ColumnDescriptor \<Rightarrow> gotype" where
  "scanType col =
     (let sqlType = baseType (SQLType col) in
      if sqlType = SQLText \<or> sqlType = SQLVarying then
        (if SubType col = IDOctets \<or> SubType col = IDNone then TBytes else TString)
      else if sqlType = SQLShort then (if sint (Scale col) < 0 then TString else TInt16)
      else if sqlType = SQLLong then (if sint (Scale col) < 0 then TString else TInt32)
      else if sqlType = SQLInt64 then (if sint (Scale col) < 0 then TString else TInt64)
      else if sqlType \<in> {SQLInt128, SQLDec16, SQLDec34} then TString
      else if sqlType = SQLFloat then TFloat32
      else if sqlType = SQLDouble then TFloat64
      else if sqlType \<in> {SQLTimestamp, SQLTypeDate, SQLTypeTime, SQLTimestampTZ, SQLTimeTZ, SQLTimestampTZEx, SQLTimeTZEx} then TTime
      else if sqlType = SQLBlob then (if SubType col = 1 then TString else TBytes)
      else if sqlType = SQLBoolean then TBool
      else TAny)"

definition ColumnTypeScanType :: "rows \<Rightarrow> int \<Rightarrow> gotype" where
  "ColumnTypeScanType r index = (case column r index of None \<Rightarrow> TAny | Some col \<Rightarrow> scanType col)"

text \<open>The Go type of a value.\<close>

fun gotype_of :: "gval \<Rightarrow> gotype" where
  "gotype_of (VBytes _) = TBytes" | "gotype_of (VString _) = TString" | "gotype_of (VInt16 _) = TInt16"
| "gotype_of (VInt32 _) = TInt32" | "gotype_of (VInt64 _) = TInt64" | "gotype_of (VFloat32 _) = TFloat32"
| "gotype_of (VFloat64 _) = TFloat64" | "gotype_of (VTime _) = TTime" | "gotype_of (VBool _) = TBool" | "gotype_of _ = TAny"

text \<open>What a client receives for a column: the decoded value, with a blob identifier replaced by the content.\<close>

definition client_value :: "drv \<Rightarrow> Config \<Rightarrow> ColumnDescriptor \<Rightarrow> byte list \<Rightarrow> Reader \<Rightarrow> gval" where
  "client_value env cfg col bs r =
     (if is_blob col then blob_value env cfg col bs else fst (DecodeColumn (d_res env) (d_xtext env) col r))"

lemma scanType_known:
  assumes "scanType col \<noteq> TAny" and "\<not> is_blob col"
  shows "baseType (SQLType col) \<in> {SQLText, SQLVarying} \<union> {SQLShort, SQLLong, SQLInt64, SQLFloat, SQLDouble, SQLBoolean}
    \<union> {SQLTypeDate, SQLTypeTime, SQLTimestamp, SQLTimeTZ, SQLTimeTZEx, SQLTimestampTZ, SQLTimestampTZEx} \<union> {SQLDec16, SQLDec34, SQLInt128}"
  using assms unfolding scanType_def is_blob_def Let_def by (auto simp only: insert_iff Un_iff empty_iff split: if_splits)

lemma DecodeColumn_type:
  assumes "DecodeColumn res xtext col r = (v, r')" and "rerr r' = None"
  shows "baseType (SQLType col) = SQLText \<Longrightarrow> sint (Length col) > 0 \<Longrightarrow> gotype_of v = scanType col"
    and "baseType (SQLType col) = SQLVarying \<Longrightarrow> gotype_of v = scanType col"
    and "baseType (SQLType col) = SQLShort \<Longrightarrow> gotype_of v = scanType col"
    and "baseType (SQLType col) = SQLLong \<Longrightarrow> gotype_of v = scanType col"
    and "baseType (SQLType col) = SQLInt64 \<Longrightarrow> gotype_of v = scanType col"
    and "baseType (SQLType col) = SQLFloat \<Longrightarrow> gotype_of v = scanType col"
    and "baseType (SQLType col) = SQLDouble \<Longrightarrow> gotype_of v = scanType col"
    and "baseType (SQLType col) = SQLBoolean \<Longrightarrow> gotype_of v = scanType col"
    and "baseType (SQLType col) = SQLTypeDate \<Longrightarrow> gotype_of v = scanType col"
    and "baseType (SQLType col) = SQLTypeTime \<Longrightarrow> gotype_of v = scanType col"
    and "baseType (SQLType col) = SQLTimestamp \<Longrightarrow> gotype_of v = scanType col"
    and "baseType (SQLType col) = SQLTimeTZ \<Longrightarrow> gotype_of v = scanType col"
    and "baseType (SQLType col) = SQLTimeTZEx \<Longrightarrow> gotype_of v = scanType col"
    and "baseType (SQLType col) = SQLTimestampTZ \<Longrightarrow> gotype_of v = scanType col"
    and "baseType (SQLType col) = SQLTimestampTZEx \<Longrightarrow> gotype_of v = scanType col"
    and "baseType (SQLType col) = SQLDec16 \<Longrightarrow> gotype_of v = scanType col"
    and "baseType (SQLType col) = SQLDec34 \<Longrightarrow> gotype_of v = scanType col"
    and "baseType (SQLType col) = SQLInt128 \<Longrightarrow> gotype_of v = scanType col"
  using assms unfolding DecodeColumn_def scanType_def by (auto simp: Let_def split: prod.splits if_splits)

lemma client_value_type:
  assumes "baseType (SQLType col) = SQLText \<longrightarrow> sint (Length col) > 0" and "scanType col \<noteq> TAny"
    and "is_blob col \<and> SubType col = 1 \<longrightarrow> blobTextCharset cfg col \<noteq> IDNone"
    and "rerr (snd (DecodeColumn (d_res env) (d_xtext env) col r)) = None"
  shows "gotype_of (client_value env cfg col bs r) = scanType col"
proof (cases "is_blob col")
  case True
  then show ?thesis using assms(3) by (auto simp: client_value_def blob_value_def scanType_def is_blob_def Let_def)
next
  case False
  obtain v r' where d: "DecodeColumn (d_res env) (d_xtext env) col r = (v, r')" by (metis surj_pair)
  with assms(4) have "rerr r' = None" by simp
  note types = DecodeColumn_type [OF d this]
  from scanType_known [OF assms(2) False] assms(1) have "gotype_of v = scanType col"
    using types by (elim UnE insertE emptyE) blast+
  then show ?thesis using False d by (simp add: client_value_def)
qed

end
