(* ===== verification/DriverInv.thy ===== *)
theory DriverInv
  imports DriverStmt
begin

text \<open>
  The state machine of a driver connection.  A step is one call of \<^verbatim>\<open>database/sql\<close> on the connection or on a transaction, a
  statement or a result set that belongs to it, with any arguments and any behaviour of the server.  The invariant:
  the wire connection is well formed, at most one of the explicit and the auto-commit transaction is open, a connection
  marked bad holds no transaction and its socket is closed, a closed one has closed its socket.
\<close>

section \<open>Invariant\<close>

definition conn_inv :: "conn \<Rightarrow> bool" where
  "conn_inv c \<longleftrightarrow> sound (c_wc c) \<and> length (c_descCache c) = descCacheSlots \<and> \<not> c_dirtyAutoTx c
     \<and> (c_activeTx c = 0 \<or> c_autoTx c = 0) \<and> (c_bad c \<longrightarrow> c_activeTx c = 0 \<and> c_autoTx c = 0)
     \<and> (c_bad c \<or> c_closed c \<longrightarrow> conn_closed (wc_conn (c_wc c)))"

definition idle :: "conn \<Rightarrow> bool" where
  "idle c \<longleftrightarrow> conn_inv c \<and> \<not> c_bad c \<and> c_activeTx c = 0"

definition stays_inv :: "conn \<Rightarrow> conn \<Rightarrow> bool" where
  "stays_inv c c' \<longleftrightarrow> (conn_inv c \<longrightarrow> conn_inv c')"

abbreviation safe :: "(conn, 'a) state \<Rightarrow> bool" where "safe m \<equiv> within stays_inv m"

named_theorems safe_ops "operations that preserve the connection invariant"

interpretation safely: step_relation stays_inv
  by unfold_locales (auto simp: stays_inv_def)

lemmas safe_rules [safe_ops] = safely.op_rules

lemma safe_def: "safe m \<longleftrightarrow> (\<forall>c. conn_inv c \<longrightarrow> conn_inv (snd (run_state m c)))"
  by (simp add: within_def stays_inv_def)

section \<open>Structure\<close>

lemma run_withC [simp]: "run_state (withC k) c = run_state (k c) c"
  by (simp add: withC_def)

lemma run_modifyC [simp]: "run_state (modifyC f) c = (Inr (), f c)"
  by (simp add: modifyC_def)

lemma run_wire: "run_state (wire m) c = (case run_state m (c_wc c) of (x, wc') \<Rightarrow> (x, c\<lparr>c_wc := wc'\<rparr>))"
  by (simp add: wire_def)

lemma safeD: "safe m \<Longrightarrow> conn_inv c \<Longrightarrow> run_state m c = (x, c') \<Longrightarrow> conn_inv c'"
  unfolding safe_def by (metis snd_conv)

lemma within_withC: "(\<And>c. within R (k c)) \<Longrightarrow> within R (withC k)"
  unfolding within_def by simp

lemmas safe_withC [safe_ops] = within_withC [where R = stays_inv]

section \<open>Wire operations and errors\<close>

lemma wire_inv:
  assumes "steady m" and "conn_inv c" and "run_state (wire m) c = (x, c')"
  shows "conn_inv c'" and "c_bad c' = c_bad c" and "c_activeTx c' = c_activeTx c" and "c_autoTx c' = c_autoTx c" and "c_closed c' = c_closed c"
proof -
  obtain y wc' where y: "run_state m (c_wc c) = (y, wc')" by (metis surj_pair)
  have "sound (c_wc c)" using assms(2) by (simp add: conn_inv_def)
  note s = steadyD [OF assms(1) this y]
  have c': "c' = c\<lparr>c_wc := wc'\<rparr>" using assms(3) y by (simp add: run_wire)
  then show "conn_inv c'" using assms(2) s by (auto simp: conn_inv_def)
  show "c_bad c' = c_bad c" "c_activeTx c' = c_activeTx c" "c_autoTx c' = c_autoTx c" "c_closed c' = c_closed c"
    using c' by simp_all
qed

lemma safe_wire [safe_ops]: "steady m \<Longrightarrow> safe (wire m)"
  unfolding safe_def using wire_inv(1) by (metis prod.collapse)

lemma safe_markBad [safe_ops]: "safe markBadLocked"
  unfolding safe_def
proof (intro allI impI)
  fix c assume i: "conn_inv c"
  then have "sound (c_wc c)" by (simp add: conn_inv_def)
  from CloseTransport_closes [OF this] i show "conn_inv (snd (run_state markBadLocked c))"
    by (cases "c_bad c") (auto simp: markBadLocked_def run_wire conn_inv_def split: prod.splits)
qed

lemma safe_handle [safe_ops]:
  "safe (handleErrorLocked env b e)" "safe (handleRetryableErrorLocked env e)" "safe (handleFatalErrorLocked env e)"
  unfolding handleErrorLocked_def handleRetryableErrorLocked_def handleFatalErrorLocked_def by (intro safe_ops)+

lemma safe_fail [safe_ops]: "safe (failRetryable env e)" "safe (failFatal env e)"
  unfolding failRetryable_def failFatal_def by (intro safe_ops)+

lemma safe_invalidate [safe_ops]: "safe invalidateAutoTx"
  by (simp add: safe_def invalidateAutoTx_def conn_inv_def)

lemma safe_clear [safe_ops]: "safe (modifyC (\<lambda>c. c\<lparr>c_activeTx := 0\<rparr>))" "safe (modifyC (\<lambda>c. c\<lparr>c_dirtyAutoTx := False\<rparr>))"
  by (auto simp: safe_def conn_inv_def)

lemma safe_store [safe_ops]: "safe (modifyC (descCacheStore q info d))"
  by (auto simp: safe_def conn_inv_def descCacheStore_def split: prod.splits)

section \<open>Transactions\<close>

lemma idle_wire: "steady m \<Longrightarrow> idle c \<Longrightarrow> run_state (wire m) c = (x, c') \<Longrightarrow> idle c'"
  using wire_inv [of m c x c'] by (simp add: idle_def)

text \<open>\<open>getAutoTx\<close> is only called while there is no explicit transaction and the connection is good.\<close>

lemma getAutoTx_idle:
  assumes "idle c" and "run_state (getAutoTx env) c = (r, c')"
  shows "conn_inv c'" and "r = Inr h \<Longrightarrow> idle c'"
proof -
  obtain x c1 where x: "run_state (wire (Transaction defaultTPB)) c = (x, c1)" by (metis surj_pair)
  have c1: "idle c1" by (rule idle_wire [OF steady_attachment(2) assms(1) x])
  have "conn_inv c' \<and> (r = Inr h \<longrightarrow> idle c')"
  proof (cases "c_autoTx c \<noteq> 0 \<or> isl x")
    case False
    then show ?thesis using assms x c1 by (auto simp: getAutoTx_def idle_def conn_inv_def split: sum.splits)
  next
    case True
    obtain y c2 where y: "run_state (failRetryable env (projl x) :: int32 cop) c1 = (y, c2)" by (metis surj_pair)
    have "conn_inv c2" using safeD [OF safe_fail(1) _ y] c1 by (simp add: idle_def)
    moreover have "isl y" using y by (auto simp: failRetryable_def split: prod.splits)
    ultimately show ?thesis using assms x y True by (auto simp: getAutoTx_def idle_def split: sum.splits if_splits)
  qed
  then show "conn_inv c'" and "r = Inr h \<Longrightarrow> idle c'" by simp_all
qed

lemma acquireTx_inv:
  assumes "conn_inv c" and "\<not> c_bad c" and "run_state (acquireTx env) c = (r, c')"
  shows "conn_inv c'"
proof (cases "c_activeTx c = 0")
  case True
  then have i: "idle c" using assms by (simp add: idle_def)
  obtain x c1 where x: "run_state (getAutoTx env) c = (x, c1)" by (metis surj_pair)
  note g = getAutoTx_idle [OF i x]
  have "safe (case x of Inl e \<Rightarrow> failRetryable env e | Inr h \<Rightarrow> okE (True, h))" by (intro safe_ops)
  from safeD [OF this g(1)] assms(3) x True show ?thesis by (simp add: acquireTx_def)
qed (use assms in \<open>simp add: acquireTx_def\<close>)

lemma safe_entered:
  assumes "\<And>c x c'. conn_inv c \<Longrightarrow> \<not> c_bad c \<Longrightarrow> run_state m c = (x, c') \<Longrightarrow> conn_inv c'"
  shows "safe (bindE (enter ctx) (\<lambda>_. m))"
  unfolding safe_def
proof (intro allI impI)
  fix c assume "conn_inv c"
  then show "conn_inv (snd (run_state (bindE (enter ctx) (\<lambda>_. m)) c))"
    using assms [of c "fst (run_state m c)" "snd (run_state m c)"]
    by (auto simp: enter_def split: option.splits)
qed

lemma safe_entered_tx:
  assumes "\<And>x. safe (k x)"
  shows "safe (bindE (enter ctx) (\<lambda>_. bindE (acquireTx env) k))"
proof (rule safe_entered)
  fix c x c' assume c: "conn_inv c" "\<not> c_bad c" and r: "run_state (bindE (acquireTx env) k) c = (x, c')"
  obtain y c1 where y: "run_state (acquireTx env) c = (y, c1)" by (metis surj_pair)
  have "conn_inv c1" by (rule acquireTx_inv [OF c y])
  then show "conn_inv c'" using r y safeD [OF assms, of c1] by (auto split: sum.splits)
qed

lemma safe_commitAutoTx: "safe commitAutoTx"
  unfolding commitAutoTx_def by (intro safe_ops steady_ops)

lemma commitAutoTx_done:
  assumes "conn_inv c" and "\<not> c_bad c" and "run_state commitAutoTx c = (x, c')"
  shows "conn_inv c' \<and> \<not> c_bad c' \<and> c_autoTx c' = 0"
proof -
  obtain y c1 where y: "run_state (wire (Commit (c_autoTx c))) c = (y, c1)" by (metis surj_pair)
  note w = wire_inv [OF steady_attachment(3) assms(1) y]
  show ?thesis using assms y w safeD [OF safe_commitAutoTx assms(1,3)]
    by (auto simp: commitAutoTx_def invalidateAutoTx_def split: if_splits)
qed

lemma snd_eqI: "(x, y) = p \<Longrightarrow> y = snd p"
  by (cases p) simp

lemma safe_beginTx [safe_ops]: "safe (ConnBeginTx env ctx opts)"
  unfolding ConnBeginTx_def
proof (rule safe_entered)
  fix c x c'
  assume c: "conn_inv c" "\<not> c_bad c"
  let ?start = "\<lambda>tpb. tryE (wire (Transaction tpb)) (\<lambda>r. case r of Inl e \<Rightarrow> failRetryable env e
     | Inr h \<Rightarrow> bindE (modifyC (\<lambda>c. c\<lparr>c_activeTx := h\<rparr>)) (\<lambda>_. okE \<lparr>tx_handle = h, tx_done = False\<rparr>))"
  assume r: "run_state (case buildTPB opts of Inl e \<Rightarrow> throwE e | Inr tpb \<Rightarrow>
      bindE commitAutoTx (\<lambda>cerr. case cerr of Some e \<Rightarrow> failFatal env e | None \<Rightarrow> ?start tpb)) c = (x, c')"
  obtain y c1 where y: "run_state commitAutoTx c = (y, c1)" by (metis surj_pair)
  note c1 = commitAutoTx_done [OF c y]
  have start: "conn_inv (snd (run_state (?start tpb) c1))" for tpb
  proof -
    obtain z c2 where z: "run_state (wire (Transaction tpb)) c1 = (z, c2)" by (metis surj_pair)
    have c2: "conn_inv c2" "\<not> c_bad c2" "c_autoTx c2 = 0"
      using wire_inv [OF steady_attachment(2) conjunct1 [OF c1] z] c1 by simp_all
    show ?thesis
    proof (cases z)
      case (Inl e)
      then show ?thesis using z c2(1) safe_fail(1) [of env e, where 'a = transaction] by (simp add: safe_def)
    qed (use z c2 in \<open>auto simp: conn_inv_def\<close>)
  qed
  have fl: "conn_inv (snd (run_state (failFatal env e :: transaction cop) c1))" for e
  proof -
    have "safe (failFatal env e :: transaction cop)" by (rule safe_fail)
    then show ?thesis using c1 by (simp add: safe_def)
  qed
  show "conn_inv c'"
  proof (cases "buildTPB opts")
    case (Inr tpb)
    show ?thesis
    proof (cases y)
      case (Inr cerr)
      have "(x, c') = run_state (case cerr of Some e \<Rightarrow> failFatal env e | None \<Rightarrow> ?start tpb) c1"
        using r y Inr \<open>buildTPB opts = Inr tpb\<close> by (simp only: run_bindE sum.case prod.case)
      then have c': "c' = snd (run_state (case cerr of Some e \<Rightarrow> failFatal env e | None \<Rightarrow> ?start tpb) c1)"
        by (rule snd_eqI)
      show ?thesis unfolding c' by (cases cerr) (simp_all only: option.case start fl)
    qed (use r y c1 Inr in simp)
  qed (use r c in simp)
qed

lemma safe_endTx [safe_ops]: "(\<And>h. steady (op h)) \<Longrightarrow> safe (endTx env op tx)"
  unfolding endTx_def by (intro safe_ops)

lemma safe_tx [safe_ops]: "safe (TxCommit env tx)" "safe (TxRollback env tx)"
  unfolding TxCommit_def TxRollback_def by (intro safe_ops steady_ops)+

section \<open>Blobs\<close>

lemma named_blobs_idle:
  assumes "conn_inv c" and "run_state (named_blobs env tx i cols vals) c = (r, c')"
  shows "conn_inv c' \<and> (idle c \<longrightarrow> (\<forall>x. r = Inr x \<longrightarrow> idle c'))"
  using assms
proof (induction cols arbitrary: i vals c)
  case (Cons col cols)
  show ?case
  proof (cases "\<not> is_blob col \<or> i \<ge> length vals \<or> nvValue (vals ! i) = VNil")
    case True
    then have "run_state (named_blobs env tx (Suc i) cols vals) c = (r, c')" using Cons.prems(2) by simp
    from Cons.IH [OF Cons.prems(1) this] show ?thesis .
  next
    case False
    show ?thesis
    proof (cases "blob_param env (c_config c) i col (nvValue (vals ! i))")
      case None
      then have "run_state (named_blobs env tx (Suc i) cols vals) c = (r, c')" using Cons.prems(2) False by simp
      from Cons.IH [OF Cons.prems(1) this] show ?thesis .
    next
      case (Some b)
      show ?thesis
      proof (cases b)
        case (Inl e)
        then show ?thesis using Some Cons.prems False by auto
      next
        case (Inr data)
        obtain w c1 where w: "run_state (wire (WriteBlobData tx data)) c = (w, c1)" by (metis surj_pair)
        note c1 = wire_inv(1) [OF steady_WriteBlobData Cons.prems(1) w]
        show ?thesis
        proof (cases w)
          case (Inl e)
          obtain h c2 where h: "run_state (handleFatalErrorLocked env e) c1 = (h, c2)" by (metis surj_pair)
          have "conn_inv c2" by (rule safeD [OF safe_handle(3) c1 h])
          then show ?thesis using Cons.prems(2) False Some Inr w Inl h by auto
        next
          case [simp]: (Inr blobID)
          have "run_state (named_blobs env tx (Suc i) cols (vals[i := (vals ! i)\<lparr>nvValue := VInt64 blobID\<rparr>])) c1 = (r, c')"
            using Cons.prems(2) False Some \<open>b = Inr data\<close> w by simp
          from Cons.IH [OF c1 this] idle_wire [OF steady_WriteBlobData _ w] show ?thesis by blast
        qed
      qed
    qed
  qed
qed auto

lemma safe_materializeNamed [safe_ops]: "safe (materializeNamedBlobs env tx cols vals)"
  unfolding safe_def materializeNamedBlobs_def using named_blobs_idle by (metis prod.collapse)

lemma safe_case_gval:
  assumes "safe m" and "\<And>v. safe (f v)"
  shows "safe (case g of VInt64 v \<Rightarrow> f v | _ \<Rightarrow> m)"
  using assms by (cases g) simp_all

lemma safe_blob_cells [safe_ops]: "safe (blob_cells env tx ci cols row)"
proof (induction cols arbitrary: ci row)
  case (Cons col cols)
  show ?case unfolding blob_cells.simps by (intro safe_ops safe_case_gval Cons.IH steady_ops)
qed (simp add: safely.op_ok)

lemma safe_materializeRows [safe_ops]: "safe (materializeBlobRowsLocked env tx outs rs)"
  by (induction rs) (auto intro!: safe_ops)

section \<open>The connection's operations\<close>

lemma steady_getRowsAffected [steady_ops]: "steady (getRowsAffected h sty)"
  unfolding getRowsAffected_def Let_def by (intro steady_ops)

lemma safe_parts [safe_ops]:
  "safe (describeOrRecycle env h info items)" "safe (rowsAffectedResult env h sty)" "safe (whenAuto b)" "safe (dropStatement h)"
  unfolding describeOrRecycle_def rowsAffectedResult_def whenAuto_def dropStatement_def by (intro safe_ops steady_ops)+

lemma safe_adhoc [safe_ops]:
  "safe (dropAndFail env b h e)" "safe (prepareAdhoc env b tx q items)" "safe (describeCached env q h info)" "safe (finishExec env h sty)"
  unfolding dropAndFail_def prepareAdhoc_def describeCached_def finishExec_def by (intro safe_ops steady_ops)+

lemma safe_encodeAdhoc [safe_ops]: "safe (encodeAdhoc env b tx h ins args)"
  unfolding encodeAdhoc_def by (intro safe_ops)

lemma safe_runExec [safe_ops]: "safe (runExec env b tx h sty blr params)"
  unfolding runExec_def by (intro safe_ops steady_ops)

lemma safe_runQuery [safe_ops]: "safe (runQuery env b tx h sty outs blr params)"
  unfolding runQuery_def Let_def by (intro safe_ops steady_ops)

lemma safe_conn_ops [safe_ops]:
  "safe (ConnPrepareContext env ctx q)" "safe (ConnExecContext env ctx q args)" "safe (ConnQueryContext env ctx q args)"
  unfolding ConnPrepareContext_def ConnExecContext_def ConnQueryContext_def
  by (intro safe_entered_tx safely.op_case_prod safe_ops steady_ops)+

lemma safe_ping [safe_ops]: "safe (ConnPing env)" "safe ConnResetSession"
  unfolding ConnPing_def pingLocked_def ConnResetSession_def by (intro safe_ops steady_ops)+

lemma safe_close [safe_ops]: "safe ConnClose"
  unfolding safe_def
proof (intro allI impI)
  fix c assume i: "conn_inv c"
  let ?c = "c\<lparr>c_closed := True\<rparr>"
  show "conn_inv (snd (run_state ConnClose c))"
  proof (cases "c_closed c \<or> c_bad c")
    case True
    then show ?thesis using i by (auto simp: ConnClose_def conn_inv_def)
  next
    case False
    obtain y wc1 where y: "run_state (Commit (c_autoTx c)) (c_wc c) = (y, wc1)" by (metis surj_pair)
    let ?wc = "if c_autoTx c \<noteq> 0 then wc1 else c_wc c"
    have s: "sound ?wc" using i steadyD(1) [OF steady_attachment(3) _ y] by (simp add: conn_inv_def)
    obtain z wc2 where z: "run_state DrainStatementPool ?wc = (z, wc2)" by (metis surj_pair)
    have s2: "sound wc2" by (rule steadyD(1) [OF steady_DrainStatementPool s z])
    obtain d wc3 where d: "run_state Detach wc2 = (d, wc3)" by (metis surj_pair)
    have s3: "sound wc3 \<and> conn_closed (wc_conn wc3)" using Detach_closes s2 d unfolding shutting_def by (metis snd_conv)
    have "snd (run_state ConnClose c) = c\<lparr>c_closed := True, c_autoTx := 0, c_dirtyAutoTx := False, c_wc := wc3\<rparr>"
      using False y z d i by (auto simp: ConnClose_def commitAutoTx_def invalidateAutoTx_def run_wire conn_inv_def)
    then show ?thesis using i s3 False by (simp add: conn_inv_def)
  qed
qed

section \<open>Prepared statements\<close>

text \<open>\<open>tame m\<close>: from an idle connection, \<open>m\<close> keeps the invariant, and the connection stays idle when \<open>m\<close> succeeds.\<close>

definition tame :: "'a cop \<Rightarrow> bool" where
  "tame m \<longleftrightarrow> (\<forall>c r c'. idle c \<longrightarrow> run_state m c = (r, c') \<longrightarrow> conn_inv c' \<and> (\<forall>x. r = Inr x \<longrightarrow> idle c'))"

lemma idle_inv: "idle c \<Longrightarrow> conn_inv c"
  by (simp add: idle_def)

lemma tame_ok: "tame (okE x)"
  by (auto simp: tame_def idle_inv)

lemma tame_bind:
  assumes "tame m" and "\<And>x. tame (k x)"
  shows "tame (bindE m k)"
  unfolding tame_def
proof (intro allI impI)
  fix c r c' assume c: "idle c" and r: "run_state (bindE m k) c = (r, c')"
  obtain y c1 where y: "run_state m c = (y, c1)" by (metis surj_pair)
  from assms(1) c y have c1: "conn_inv c1 \<and> (\<forall>x. y = Inr x \<longrightarrow> idle c1)" unfolding tame_def by blast
  show "conn_inv c' \<and> (\<forall>x. r = Inr x \<longrightarrow> idle c')"
    using r y c1 assms(2) unfolding tame_def by (cases y) auto
qed

lemma tame_failing:
  assumes "tame m" and "\<And>e. safe (h e)" and "\<And>e c. isl (fst (run_state (h e) c))"
  shows "tame (tryE m (\<lambda>r. case r of Inl e \<Rightarrow> h e | Inr x \<Rightarrow> okE x))"
  unfolding tame_def
proof (intro allI impI)
  fix c r c' assume c: "idle c" and r: "run_state (tryE m (\<lambda>r. case r of Inl e \<Rightarrow> h e | Inr x \<Rightarrow> okE x)) c = (r, c')"
  obtain y c1 where y: "run_state m c = (y, c1)" by (metis surj_pair)
  from assms(1) c y have c1: "conn_inv c1 \<and> (\<forall>x. y = Inr x \<longrightarrow> idle c1)" unfolding tame_def by blast
  show "conn_inv c' \<and> (\<forall>x. r = Inr x \<longrightarrow> idle c')"
  proof (cases y)
    case (Inl e)
    then have h: "run_state (h e) c1 = (r, c')" using r y by simp
    then show ?thesis using safeD [OF assms(2) _ h] c1 assms(3) [of e c1] by auto
  qed (use r y c1 in auto)
qed

lemma fail_isl [simp]: "isl (fst (run_state (failRetryable env e) c))" "isl (fst (run_state (failFatal env e) c))"
  by (auto simp: failRetryable_def failFatal_def split: prod.splits)

lemma whenAuto_run: "run_state (whenAuto b) c = (Inr (), if b then c\<lparr>c_autoTx := 0, c_dirtyAutoTx := False\<rparr> else c)"
  by (simp add: whenAuto_def invalidateAutoTx_def)

lemma tame_retry: "tame m \<Longrightarrow> tame (retry env m)"
  unfolding retry_def by (rule tame_failing) (simp_all add: safe_fail)

lemma tame_fatal: "tame m \<Longrightarrow> tame (fatal env b m)"
  unfolding fatal_def by (rule tame_failing) (simp_all add: safely.op_bind safe_parts safe_fail whenAuto_run)

lemma tame_getAutoTx: "tame (getAutoTx env)"
  unfolding tame_def using getAutoTx_idle by blast

lemma tame_materializeNamed: "tame (materializeNamedBlobs env tx cols vals)"
  unfolding tame_def materializeNamedBlobs_def using named_blobs_idle idle_inv by blast

lemma safe_retry [safe_ops]: "safe m \<Longrightarrow> safe (retry env m)" and safe_fatal [safe_ops]: "safe m \<Longrightarrow> safe (fatal env b m)"
  unfolding retry_def fatal_def by (intro safe_ops | assumption)+

lemma tame_stmtBlobs: "tame (stmtBlobs env True tx ins args)"
  unfolding stmtBlobs_def if_True
  by (cases "hasBlobParams ins args")
    (simp_all add: tame_bind tame_retry tame_fatal tame_getAutoTx tame_materializeNamed tame_ok)

lemma safe_stmtBlobs: "safe (stmtBlobs env False tx ins args)"
  unfolding stmtBlobs_def if_False by (intro safe_ops)

lemma safe_onStmt [safe_ops]: "safe m \<Longrightarrow> (\<And>x. safe (k x)) \<Longrightarrow> safe (onStmt s m k)"
  unfolding onStmt_def by (intro safe_ops)

text \<open>The precondition of the parts of an execution: idle when the auto-commit transaction is used.\<close>

definition ready :: "bool \<Rightarrow> conn \<Rightarrow> bool" where
  "ready autoCommit c \<longleftrightarrow> conn_inv c \<and> (autoCommit \<longrightarrow> idle c)"

lemma onStmt_ready:
  assumes "ready b c" and "b \<Longrightarrow> tame m" and "\<not> b \<Longrightarrow> safe m" and "\<And>z c1. ready b c1 \<Longrightarrow> conn_inv (snd (run_state (k z) c1))"
  shows "conn_inv (snd (run_state (onStmt s m k) c))"
proof -
  obtain y c1 where y: "run_state m c = (y, c1)" by (metis surj_pair)
  have c1: "conn_inv c1 \<and> (\<forall>z. y = Inr z \<longrightarrow> ready b c1)"
  proof (cases b)
    case True
    with assms(1,2) y show ?thesis unfolding ready_def tame_def by blast
  next
    case False
    with assms(1) safeD [OF assms(3) _ y] show ?thesis by (simp add: ready_def)
  qed
  show ?thesis using y c1 assms(4) [of c1] by (cases y) (simp_all add: onStmt_def)
qed

lemma stmtFinish_ready:
  assumes "ready b c"
  shows "conn_inv (snd (run_state (stmtFinish env b tx s bp) c))"
proof -
  obtain blr params where bp: "bp = (blr, params)" by (metis surj_pair)
  have run: "steady (stmtRun env b tx s blr params)" for tx unfolding stmtRun_def by (intro steady_ops)
  have tail: "safe (onStmt s (fatal env b (wire (stmtRun env b tx s blr params))) (\<lambda>_.
     tryE (rowsAffectedResult env (s_handle s) (s_stmtType s)) (\<lambda>res. State_Monad.return (Inr res, s))))" for tx
    by (intro safe_ops run)
  show ?thesis unfolding stmtFinish_def bp prod.case
  proof (rule onStmt_ready [OF assms])
    show "tame (if b \<and> tx = 0 then retry env (getAutoTx env) else okE tx)" by (simp add: tame_retry tame_getAutoTx tame_ok)
    show "safe (if b \<and> tx = 0 then retry env (getAutoTx env) else okE tx)" if "\<not> b" using that by (simp add: safely.op_ok)
  qed (use tail in \<open>simp add: safe_def ready_def\<close>)
qed

lemma stmtEncode_ready:
  assumes "ready b c" and "\<And>bp s'. conn_inv (snd (run_state (k bp s') c))"
  shows "conn_inv (snd (run_state (stmtEncode env b s args k) c))"
  using assms safe_parts(3) [of b, unfolded safe_def]
  by (auto simp: stmtEncode_def ready_def split: prod.splits sum.splits)

lemma safe_enterStmt [safe_ops]: "safe (enterStmt ctx s)"
  unfolding enterStmt_def by (intro safe_ops)

lemma enterStmt_good: "run_state (enterStmt ctx s) c = (Inr x, c') \<Longrightarrow> c' = c \<and> \<not> c_bad c"
  by (auto simp: enterStmt_def split: if_splits option.splits)

lemma safe_stmtExec [safe_ops]: "safe (StmtExecContext env ctx args s)"
  unfolding safe_def
proof (intro allI impI)
  fix c assume i: "conn_inv c"
  obtain y c1 where y: "run_state (enterStmt ctx s) c = (y, c1)" by (metis surj_pair)
  let ?b = "c_activeTx c = 0"
  show "conn_inv (snd (run_state (StmtExecContext env ctx args s) c))"
  proof (cases y)
    case (Inl e)
    then show ?thesis using i y safeD [OF safe_enterStmt i y] by (simp add: StmtExecContext_def onStmt_def)
  next
    case (Inr u)
    then have c1: "c1 = c" "\<not> c_bad c" using enterStmt_good y by blast+
    then have r: "ready ?b c" using i by (simp add: ready_def idle_def)
    have "conn_inv (snd (run_state (onStmt s (stmtBlobs env ?b (c_activeTx c) (s_inputs s) args) (\<lambda>(tx, args').
        stmtEncode env ?b s args' (\<lambda>bp s'. stmtFinish env ?b tx s' bp))) c))"
    proof (rule onStmt_ready [OF r])
      show "conn_inv (snd (run_state (case z of (tx, args') \<Rightarrow> stmtEncode env ?b s args' (\<lambda>bp s'. stmtFinish env ?b tx s' bp)) c2))"
        if "ready ?b c2" for z c2 using that by (cases z) (simp add: stmtEncode_ready stmtFinish_ready)
    qed (simp_all add: tame_stmtBlobs safe_stmtBlobs)
    moreover have "conn_inv (snd (run_state (stmtFinish env ?b (c_activeTx c) s ([], [])) c))" by (rule stmtFinish_ready [OF r])
    ultimately show ?thesis using y c1 Inr by (simp add: StmtExecContext_def onStmt_def [of s "enterStmt ctx s"] Let_def)
  qed
qed

lemma safe_stmtEncode [safe_ops]: "(\<And>bp s'. safe (k bp s')) \<Longrightarrow> safe (stmtEncode env b s args k)"
  unfolding stmtEncode_def Let_def by (intro safe_ops)

lemma safe_stmtQueryRun [safe_ops]: "safe (stmtQueryRun env b tx s bp)"
  unfolding stmtQueryRun_def Let_def by (intro safe_ops steady_ops)

lemma safe_enterStmt_tx: "safe (bindE (enterStmt ctx s) (\<lambda>_. acquireTx env))"
  unfolding safe_def
proof (intro allI impI)
  fix c assume i: "conn_inv c"
  obtain y c1 where y: "run_state (enterStmt ctx s) c = (y, c1)" by (metis surj_pair)
  obtain z c2 where z: "run_state (acquireTx env) c = (z, c2)" by (metis surj_pair)
  show "conn_inv (snd (run_state (bindE (enterStmt ctx s) (\<lambda>_. acquireTx env)) c))"
    using i y z safeD [OF safe_enterStmt i y] acquireTx_inv [OF i _ z] enterStmt_good [of ctx s c _ c1] by (cases y) auto
qed

lemma safe_stmtQuery [safe_ops]: "safe (StmtQueryContext env ctx args s)"
  unfolding StmtQueryContext_def by (intro safe_onStmt safe_enterStmt_tx) (intro safe_ops)

lemma safe_note [safe_ops]: "safe (noteFatal env r)"
  unfolding noteFatal_def by (intro safe_ops)

lemma safe_stmtClose [safe_ops]: "safe (StmtClose env s)"
  unfolding StmtClose_def by (intro safe_ops steady_ops)

section \<open>Result sets\<close>

lemma safe_rowsClose [safe_ops]: "safe (RowsClose env r)"
  unfolding RowsClose_def Let_def by (intro safe_ops steady_ops)

lemma safe_rowsFetch [safe_ops]: "safe (RowsFetch env ctx r)"
  unfolding RowsFetch_def Let_def by (intro safe_ops steady_ops)

lemma safe_rowsNext [safe_ops]: "safe (RowsNext env ctx dest r)"
  unfolding RowsNext_def by (intro safe_ops)

section \<open>A new connection\<close>

definition same_pool :: "WireConnection \<Rightarrow> WireConnection \<Rightarrow> bool" where
  "same_pool wc wc' \<longleftrightarrow> freeHandles wc' = freeHandles wc \<and> freeCount wc' = freeCount wc"

abbreviation pool_kept :: "'a wop \<Rightarrow> bool" where "pool_kept m \<equiv> within same_pool m"

named_theorems pool_ops "handshake steps that leave the pool of handles alone"

interpretation pooling: step_relation same_pool
  by unfold_locales (auto simp: same_pool_def)

lemmas pool_rules [pool_ops] = pooling.op_rules

lemma pool_kept_def:
  "pool_kept m \<longleftrightarrow> (\<forall>wc. freeHandles (snd (run_state m wc)) = freeHandles wc \<and> freeCount (snd (run_state m wc)) = freeCount wc)"
  by (simp add: within_def same_pool_def)

lemma pool_kept_steps [pool_ops]:
  "pool_kept (write_all fs)" "pool_kept wc_flush" "pool_kept wc_ReadResponse" "pool_kept (checked what m)" "pool_kept close_conn"
  "pool_kept (enable_crypt rc wr)" "pool_kept (fillConnection cfg acc resp)"
  by (auto simp: pool_kept_def write_all_def wc_flush_def wc_ReadResponse_def checked_def close_conn_def enable_crypt_def
      fillConnection_def Let_def split: prod.splits)

lemma pool_kept_handshake: "pool_kept (handshake env cfg srp)"
  unfolding handshake_def send_def readAccept_def authenticate_def switchPlugin_def authDirect_def authSwitched_def prove_def
    activateCrypt_def attach_def orAbort_def abort_def Let_def by (intro pool_ops)

lemma ConnectContext_sound:
  assumes "ConnectContext env cfg = (Inr u, Some wc)"
  shows "sound wc"
proof -
  obtain cfg' srp conn where h: "run_state (handshake env cfg' srp) (freshConnection conn) = (Inr u, wc)"
    using assms by (auto simp: ConnectContext_def Let_def split: sum.splits prod.splits)
  have "good wc" using closes_handshake [of env cfg' srp] h unfolding closes_def by (metis good_fresh)
  moreover have "freeHandles wc = freeHandles (freshConnection conn) \<and> freeCount wc = freeCount (freshConnection conn)"
    using pool_kept_handshake [of env cfg' srp] h unfolding pool_kept_def by (metis snd_conv)
  ultimately show ?thesis by (simp add: sound_def wf_pool_def freshConnection_def)
qed

lemma connect_loop_sound: "connect_loop envs waits cfg i n = Inr (Some wc) \<Longrightarrow> sound wc"
proof (induction envs waits cfg i n rule: connect_loop.induct)
  case (1 envs waits cfg i n)
  then show ?case
    by (subst (asm) (2) connect_loop.simps)
      (auto split: prod.splits sum.splits if_splits option.splits intro: ConnectContext_sound)
qed

lemma newConnection_inv: "newConnection envs waits cfg = Inr (Some c) \<Longrightarrow> conn_inv c"
  by (auto simp: newConnection_def newConn_def conn_inv_def split: sum.splits dest: connect_loop_sound)

section \<open>Steps\<close>

inductive driver_step :: "drv \<Rightarrow> conn \<Rightarrow> conn \<Rightarrow> bool" for env where
  step_prepare: "run_state (ConnPrepareContext env ctx query) c = (r, c') \<Longrightarrow> driver_step env c c'"
| step_exec: "run_state (ConnExecContext env ctx query args) c = (r, c') \<Longrightarrow> driver_step env c c'"
| step_query: "run_state (ConnQueryContext env ctx query args) c = (r, c') \<Longrightarrow> driver_step env c c'"
| step_begin: "run_state (ConnBeginTx env ctx opts) c = (r, c') \<Longrightarrow> driver_step env c c'"
| step_ping: "run_state (ConnPing env) c = (r, c') \<Longrightarrow> driver_step env c c'"
| step_reset: "run_state ConnResetSession c = (r, c') \<Longrightarrow> driver_step env c c'"
| step_close: "run_state ConnClose c = (r, c') \<Longrightarrow> driver_step env c c'"
| step_commit: "run_state (TxCommit env tx) c = (t, c') \<Longrightarrow> driver_step env c c'"
| step_rollback: "run_state (TxRollback env tx) c = (t, c') \<Longrightarrow> driver_step env c c'"
| step_stmt_exec: "run_state (StmtExecContext env ctx args s) c = (e, c') \<Longrightarrow> driver_step env c c'"
| step_stmt_query: "run_state (StmtQueryContext env ctx args s) c = (q, c') \<Longrightarrow> driver_step env c c'"
| step_stmt_close: "run_state (StmtClose env s) c = (u, c') \<Longrightarrow> driver_step env c c'"
| step_next: "run_state (RowsNext env cx dest rs) c = (n, c') \<Longrightarrow> driver_step env c c'"
| step_rows_close: "run_state (RowsClose env rs) c = (u, c') \<Longrightarrow> driver_step env c c'"

lemma driver_step_inv: "driver_step env c c' \<Longrightarrow> conn_inv c \<Longrightarrow> conn_inv c'"
  by (induction rule: driver_step.induct) (auto elim: safeD [rotated 2] intro: safe_ops)

definition reachable :: "drv \<Rightarrow> conn \<Rightarrow> bool" where
  "reachable env c \<longleftrightarrow> (\<exists>envs waits cfg c0. newConnection envs waits cfg = Inr (Some c0) \<and> (driver_step env)\<^sup>*\<^sup>* c0 c)"

lemma reachable_inv: "reachable env c \<Longrightarrow> conn_inv c"
proof -
  have "(driver_step env)\<^sup>*\<^sup>* c0 c \<Longrightarrow> conn_inv c0 \<Longrightarrow> conn_inv c" for c0
    by (induction rule: rtranclp_induct) (auto intro: driver_step_inv)
  then show "reachable env c \<Longrightarrow> conn_inv c" unfolding reachable_def using newConnection_inv by blast
qed

section \<open>A bad connection is out of use\<close>

lemma refused_entry:
  assumes "c_closed c \<or> c_bad c"
  shows "run_state (ConnPrepareContext env ctx query) c = (Inl ErrBadConn, c)"
    and "run_state (ConnExecContext env ctx query args) c = (Inl ErrBadConn, c)"
    and "run_state (ConnQueryContext env ctx query args) c = (Inl ErrBadConn, c)"
    and "run_state (ConnBeginTx env ctx opts) c = (Inl ErrBadConn, c)"
    and "run_state (ConnPing env) c = (Inl ErrBadConn, c)"
    and "run_state ConnResetSession c = (Inl ErrBadConn, c)"
    and "run_state (StmtExecContext env ctx args s) c = ((Inl ErrBadConn, s), c)"
    and "run_state (StmtQueryContext env ctx args s) c = ((Inl ErrBadConn, s), c)"
  using assms
  by (simp_all add: ConnPrepareContext_def ConnExecContext_def ConnQueryContext_def ConnBeginTx_def ConnPing_def ConnResetSession_def
      StmtExecContext_def StmtQueryContext_def onStmt_def enter_def enterStmt_def)

lemmas bad_entry = refused_entry [OF disjI2]

lemma Flush_closed:
  assumes "conn_closed c" and "wf_writer w" and "Bytes w \<noteq> []"
  shows "\<exists>w' c'. Flush w c = (Some ErrNetClosed, w', c') \<and> conn_out c' = conn_out c \<and> conn_closed c'"
proof -
  have wn: "wn w \<noteq> 0" using assms(3) by (auto simp: Bytes_def)
  have "take (wn w) (wbuf w) \<noteq> []" using assms(3) by (simp add: Bytes_def)
  then show ?thesis using assms(1) wn
    by (auto simp: Flush_def Conn_Write_def sock_write_def XORKeyStream_def Let_def split: option.splits)
qed

lemma fetch_closed:
  assumes "sound wc" and "conn_closed (wc_conn wc)"
  shows "\<exists>e wc'. run_state (FetchRowsReuse res xtext h blr outs n buf) wc = (Inl e, wc') \<and> conn_out (wc_conn wc') = conn_out (wc_conn wc)"
proof -
  let ?fs = "[FInt32 opFetch, FInt32 h, FBuffer blr, FInt32 0, FInt32 n]"
  let ?w = "fold put_field ?fs (wc_writer wc)"
  have w: "wf_writer (wc_writer wc)" using assms(1) by (simp add: sound_def good_def)
  have "wf_writer ?w" using pooled.write_fields_wf [OF w, of ?fs] unfolding fold_put_field .
  moreover have "Bytes ?w \<noteq> []"
    using pooled.write_fields_content [OF w, of ?fs] unfolding fold_put_field by (simp add: putUint32_def)
  ultimately obtain w' c' where f: "Flush ?w (wc_conn wc) = (Some ErrNetClosed, w', c')" "conn_out c' = conn_out (wc_conn wc)"
    using Flush_closed [OF assms(2)] by blast
  have "run_state (FetchRowsReuse res xtext h blr outs n buf) wc
      = (Inl (Wrap ''op_fetch: flush'' ErrNetClosed), wc\<lparr>wc_writer := w', wc_reader := (wc_reader wc)\<lparr>rd := c'\<rparr>\<rparr>)"
    using f(1) unfolding FetchRowsReuse_def run_bindE write_all_def wc_flush_def run_mapErr by simp
  with f(2) show ?thesis by auto
qed

lemma handle_bad: "c_bad c \<Longrightarrow> snd (run_state (handleFatalErrorLocked env e) c) = c"
  by (simp add: handleFatalErrorLocked_def handleErrorLocked_def markBadLocked_def)

definition sent :: "conn \<Rightarrow> byte list" where "sent c = conn_out (wc_conn (c_wc c))"

lemma fetch_bad:
  assumes "conn_inv c" and "c_bad c" and "run_state (RowsFetch env cx r) c = (x, c')"
  shows "c_bad c' \<and> sent c' = sent c"
proof -
  let ?r = "prepareFetch r"
  have "sound (c_wc c)" "conn_closed (wc_conn (c_wc c))" using assms(1,2) by (simp_all add: conn_inv_def)
  from fetch_closed [OF this]
  obtain e wc' where f: "run_state (FetchRowsReuse (d_res env) (d_xtext env) (r_stmtHandle ?r) (bytes_or_nil (r_blr ?r)) (r_outputs ?r)
      (word_of_int (r_fetchSize ?r)) (r_fetchValues ?r)) (c_wc c) = (Inl e, wc')" and o: "conn_out (wc_conn wc') = sent c"
    unfolding sent_def by blast
  have h: "snd (run_state (handleFatalErrorLocked env e) (c\<lparr>c_wc := wc'\<rparr>)) = c\<lparr>c_wc := wc'\<rparr>" by (rule handle_bad) (simp add: assms(2))
  have "c' = c \<or> c' = c\<lparr>c_wc := wc'\<rparr>"
    using assms(3) f h by (auto simp: RowsFetch_def run_wire Let_def split: option.splits prod.splits)
  then show ?thesis using assms(2) o by (auto simp: sent_def)
qed

lemma driver_step_bad: "driver_step env c c' \<Longrightarrow> conn_inv c \<Longrightarrow> c_bad c \<Longrightarrow> c_bad c' \<and> sent c' = sent c"
proof (induction rule: driver_step.induct)
  case (step_next cx dest rs c n c')
  obtain x c1 where x: "run_state (RowsFetch env cx rs) c = (x, c1)" by (metis surj_pair)
  from step_next.hyps have "c' = c \<or> c' = c1"
    using x by (auto simp: RowsNext_def split: if_splits option.splits prod.splits)
  then show ?case using fetch_bad [OF step_next.prems x] step_next.prems(2) by auto
qed (auto simp: bad_entry ConnClose_def sent_def TxCommit_def TxRollback_def endTx_def StmtClose_def RowsClose_def Let_def split: if_splits)

end
