(* ===== verification/DriverFlow.thy ===== *)
theory DriverFlow
  imports DriverInv
begin

text \<open>
  What the driver's operations return with a server that keeps to the protocol: a result set delivers the rows of all its
  batches, an auto-committed execution reports the affected rows, the descriptor cache answers what the describe
  would, and an error of the transport takes the connection out of use.
\<close>

section \<open>Iterating over a result set\<close>

text \<open>\<^verbatim>\<open>database/sql\<close> calls \<^verbatim>\<open>Next\<close> with a destination of one value per column, up to \<open>n\<close> times or until an error.\<close>

fun next_all :: "drv \<Rightarrow> nat \<Rightarrow> rows \<Rightarrow> conn \<Rightarrow> gval list list \<times> gerr option \<times> rows \<times> conn" where
  "next_all env 0 r c = ([], None, r, c)"
| "next_all env (Suc n) r c =
     (case run_state (RowsNext env (\<lambda>_. None) (replicate (length (r_outputs r)) VNil) r) c of
        ((Inl e, r'), c') \<Rightarrow> ([], Some e, r', c')
      | ((Inr row, r'), c') \<Rightarrow> (case next_all env n r' c' of (rs, e, r'', c'') \<Rightarrow> (row # rs, e, r'', c'')))"

definition full_rows :: "rows \<Rightarrow> bool" where
  "full_rows r \<longleftrightarrow> list_all (\<lambda>row. length row = length (r_outputs r)) (r_buf r)"

lemma deliver_row:
  assumes "r_bufIdx r < length (r_buf r)" and "full_rows r"
  shows "deliver (replicate (length (r_outputs r)) VNil) r = (Inr (r_buf r ! r_bufIdx r), r\<lparr>r_bufIdx := Suc (r_bufIdx r)\<rparr>)"
proof -
  have "length (r_buf r ! r_bufIdx r) = length (r_outputs r)" using assms by (simp add: full_rows_def list_all_length)
  then show ?thesis by (auto simp: deliver_def Let_def intro: nth_equalityI)
qed

lemma next_buffered:
  assumes "\<not> r_closed r" and "full_rows r" and "r_bufIdx r \<le> length (r_buf r)"
  shows "next_all env (length (r_buf r) - r_bufIdx r + n) r c =
    (case next_all env n (r\<lparr>r_bufIdx := length (r_buf r)\<rparr>) c of (rs, e, r', c') \<Rightarrow> (drop (r_bufIdx r) (r_buf r) @ rs, e, r', c'))"
  using assms
proof (induction "length (r_buf r) - r_bufIdx r" arbitrary: r)
  case 0
  then have "r\<lparr>r_bufIdx := length (r_buf r)\<rparr> = r" by simp
  then show ?case using 0 by simp
next
  case (Suc k)
  let ?r = "r\<lparr>r_bufIdx := Suc (r_bufIdx r)\<rparr>"
  have lt: "r_bufIdx r < length (r_buf r)" using Suc.hyps(2) by simp
  have k: "length (r_buf r) - r_bufIdx r = Suc (length (r_buf ?r) - r_bufIdx ?r)" using lt by simp
  have nx: "run_state (RowsNext env (\<lambda>_. None) (replicate (length (r_outputs r)) VNil) r) c = ((Inr (r_buf r ! r_bufIdx r), ?r), c)"
    using lt Suc.prems deliver_row [OF lt Suc.prems(2)] by (simp add: RowsNext_def)
  have "next_all env (length (r_buf ?r) - r_bufIdx ?r + n) ?r c =
    (case next_all env n (?r\<lparr>r_bufIdx := length (r_buf ?r)\<rparr>) c of (rs, e, r', c') \<Rightarrow> (drop (r_bufIdx ?r) (r_buf ?r) @ rs, e, r', c'))"
    using Suc.hyps Suc.prems lt by (intro Suc.hyps(1)) (simp_all add: full_rows_def)
  then show ?case unfolding k using nx Cons_nth_drop_Suc [OF lt] by (simp split: prod.splits)
qed

section \<open>Fetching a batch\<close>

lemma row_value_length: "row_ok descs cells \<Longrightarrow> length (row_value res xtext descs cells) = length descs"
  using list_all2_lengthD by (fastforce simp: row_ok_def row_value_def)

text \<open>Between batches: the buffered rows are used up and the cursor is open.\<close>

definition between :: "rows \<Rightarrow> bool" where
  "between r \<longleftrightarrow> \<not> r_closed r \<and> \<not> r_hasBlobs r \<and> \<not> r_eof r \<and> r_bufIdx r = length (r_buf r)"

lemma fetch_next_batch:
  assumes "between r" and "serves (c_wc c) os (fetch_image (r_outputs r) batch st @ zs)" and "deferredCount (c_wc c) = length os"
    and "list_all clean os" and "list_all (row_ok (r_outputs r)) batch" and "batch \<noteq> [] \<or> st = 100"
  obtains r' c' where "\<And>n. next_all env (Suc n) r c = next_all env (Suc n) r' c'"
    and "r_buf r' = map (row_value (d_res env) (d_xtext env) (r_outputs r)) batch" and "r_bufIdx r' = 0" and "r_eof r' = (st = 100)"
    and "r_outputs r' = r_outputs r" and "\<not> r_closed r'" and "\<not> r_hasBlobs r'" and "full_rows r'"
    and "serves (c_wc c') [] zs" and "deferredCount (c_wc c') = 0"
proof -
  let ?r = "prepareFetch r" and ?cx = "\<lambda>_. None :: gerr option"
  have keep: "r_outputs ?r = r_outputs r" "r_hasBlobs ?r = r_hasBlobs r" "r_closed ?r = r_closed r" "r_eof ?r = r_eof r"
    by (simp_all add: prepareFetch_def split: option.splits)
  have "list_all (\<lambda>x. snd (resp_result x) = None) os" using assms(4) by (simp add: clean_def [abs_def])
  from FetchRowsReuse_batch [OF assms(2,3) this assms(5)]
  obtain vals wc' where f: "run_state (FetchRowsReuse (d_res env) (d_xtext env) (r_stmtHandle ?r) (bytes_or_nil (r_blr ?r)) (r_outputs ?r)
      (word_of_int (r_fetchSize ?r)) (r_fetchValues ?r)) (c_wc c)
      = (Inr (map (row_value (d_res env) (d_xtext env) (r_outputs r)) batch, vals, st = 100), wc')"
    and s: "serves wc' [] zs" "deferredCount wc' = 0" unfolding keep by blast
  let ?r' = "?r\<lparr>r_fetchValues := vals, r_buf := map (row_value (d_res env) (d_xtext env) (r_outputs r)) batch, r_bufIdx := 0, r_eof := (st = 100)\<rparr>"
  let ?c' = "c\<lparr>c_wc := wc'\<rparr>"
  have fetch: "run_state (RowsFetch env ?cx r) c = ((Inr (), ?r'), ?c')"
    using f keep assms(1) by (simp add: RowsFetch_def run_wire Let_def between_def)
  have "next_all env (Suc n) r c = next_all env (Suc n) ?r' ?c'" for n
    using fetch assms(1,6) keep by (cases batch) (simp_all add: RowsNext_def between_def)
  moreover have "full_rows ?r'"
    using assms(5) keep(1) by (auto simp: full_rows_def list_all_iff row_value_length)
  ultimately show ?thesis using that [of ?r' ?c'] s keep assms(1) by (simp add: between_def)
qed

definition cursor_image :: "ColumnDescriptor list \<Rightarrow> cell option list list list \<Rightarrow> cell option list list \<Rightarrow> byte list" where
  "cursor_image descs bs lst = concat (map (\<lambda>b. fetch_image descs b 0) bs) @ fetch_image descs lst 100"

lemma next_all_delivers:
  assumes "between r" and "serves (c_wc c) os (cursor_image (r_outputs r) bs lst @ zs)" and "deferredCount (c_wc c) = length os"
    and "list_all clean os" and "list_all (list_all (row_ok (r_outputs r))) (bs @ [lst])" and "[] \<notin> set bs"
  shows "\<exists>r' c'. next_all env (length (concat bs @ lst) + 1) r c
      = (map (row_value (d_res env) (d_xtext env) (r_outputs r)) (concat bs @ lst), Some ErrEOF, r', c') \<and> serves (c_wc c') [] zs"
  using assms
proof (induction bs arbitrary: r c os)
  case Nil
  have i: "serves (c_wc c) os (fetch_image (r_outputs r) lst 100 @ zs)" and ok: "list_all (row_ok (r_outputs r)) lst"
    using Nil.prems(2,5) by (simp_all add: cursor_image_def)
  obtain r' c' where f: "\<And>n. next_all env (Suc n) r c = next_all env (Suc n) r' c'"
    "r_buf r' = map (row_value (d_res env) (d_xtext env) (r_outputs r)) lst" "r_bufIdx r' = 0" "r_eof r' = ((100 :: int32) = 100)"
    "r_outputs r' = r_outputs r" "\<not> r_closed r'" "\<not> r_hasBlobs r'" "full_rows r'" "serves (c_wc c') [] zs"
    by (rule fetch_next_batch [OF Nil.prems(1) i Nil.prems(3,4) ok, where env = env]) (simp_all del: next_all.simps)
  have b: "next_all env (length lst + 1) r' c'
      = (case next_all env 1 (r'\<lparr>r_bufIdx := length lst\<rparr>) c' of (rs, e, r'', c'') \<Rightarrow> (r_buf r' @ rs, e, r'', c''))"
    using next_buffered [OF f(6,8), of env 1 c'] f(2,3) by simp
  show ?case using f b by (simp add: RowsNext_def)
next
  case (Cons b bs)
  have i: "serves (c_wc c) os (fetch_image (r_outputs r) b 0 @ (cursor_image (r_outputs r) bs lst @ zs))"
    and ok: "list_all (row_ok (r_outputs r)) b" and ne: "b \<noteq> []"
    using Cons.prems(2,5,6) by (auto simp: cursor_image_def)
  obtain r' c' where f: "\<And>n. next_all env (Suc n) r c = next_all env (Suc n) r' c'"
    "r_buf r' = map (row_value (d_res env) (d_xtext env) (r_outputs r)) b" "r_bufIdx r' = 0" "r_eof r' = ((0 :: int32) = 100)"
    "r_outputs r' = r_outputs r" "\<not> r_closed r'" "\<not> r_hasBlobs r'" "full_rows r'"
    "serves (c_wc c') [] (cursor_image (r_outputs r) bs lst @ zs)" "deferredCount (c_wc c') = 0"
    by (rule fetch_next_batch [OF Cons.prems(1) i Cons.prems(3,4) ok, where env = env]) (simp_all add: ne del: next_all.simps)
  let ?r = "r'\<lparr>r_bufIdx := length b\<rparr>"
  have "between ?r" using f by (simp add: between_def)
  then obtain r2 c2 where ih: "next_all env (length (concat bs @ lst) + 1) ?r c'
      = (map (row_value (d_res env) (d_xtext env) (r_outputs r)) (concat bs @ lst), Some ErrEOF, r2, c2)" "serves (c_wc c2) [] zs"
    using Cons.IH [of ?r c' "[]"] Cons.prems(5,6) f by auto
  have "next_all env (length b + (length (concat bs @ lst) + 1)) r' c'
      = (case next_all env (length (concat bs @ lst) + 1) ?r c' of (rs, e, r'', c'') \<Rightarrow> (r_buf r' @ rs, e, r'', c''))"
    using next_buffered [OF f(6,8), of env "length (concat bs @ lst) + 1" c'] f(2,3) by simp
  then show ?case using f(1,2) ih by simp
qed

section \<open>Pipelined requests that succeed\<close>

lemma allocate_answers:
  assumes "in_step wc os (al # pr # rs) zs" and "clean al" "clean pr" and "freeCount wc = 0"
  obtains wc' where "run_state (AllocateAndPrepareWithItems tx sql n items) wc
      = ((Handle (fst (resp_result al)), Inr (Data (fst (resp_result pr)))), wc')" and "in_step wc' [] rs zs" and "same_pool wc wc'"
proof -
  let ?fs = "[FInt32 opAllocateStatement, FInt32 (dbHandle wc)] @ prepare_fields tx (ucast InvalidObject) sql n items"
  have "serves wc (os @ al # pr # rs) zs" using assms(1) by (simp add: in_step_def)
  then obtain wc1 where 1: "run_state (bindE (write_all ?fs) (\<lambda>_. wc_flush)) wc = (Inr (), wc1)" "serves wc1 (os @ al # pr # rs) zs"
    "deferredCount wc1 = deferredCount wc" "freeCount wc1 = freeCount wc" "freeHandles wc1 = freeHandles wc"
    by (rule send_ready [where fs = ?fs])
  have "in_step wc1 os (al # pr # rs) zs" using 1 assms(1) by (simp add: in_step_def)
  then obtain wc2 where 2: "run_state readResponse wc1 = (answer al, wc2)" "in_step wc2 [] (pr # rs) zs" by (rule readResponse_answer)
  obtain wc3 where 3: "run_state wc_ReadResponse wc2 = (answer pr, wc3)" "in_step wc3 [] rs zs" by (rule wc_ReadResponse_answer [OF 2(2)])
  have "same_pool wc wc3" using 1 readResponse_pool [OF 2(1)] wc_ReadResponse_pool [OF 3(1)] by (simp add: same_pool_def)
  moreover have "run_state (AllocateAndPrepareWithItems tx sql n items) wc
      = ((Handle (fst (resp_result al)), Inr (Data (fst (resp_result pr)))), wc3)"
    using 1(1) 2(1) 3(1) assms(2-4) by (simp add: AllocateAndPrepareWithItems_def answer_clean del: run_bindE)
  ultimately show ?thesis using that 3(2) by blast
qed

lemma execute_commit_answers:
  assumes "in_step wc os (ex # cm # rs) zs" and "clean ex" "clean cm"
  obtains wc' where "run_state (ExecuteAndCommitRetaining h tx blr params) wc = (Inr (), wc')" and "in_step wc' [] rs zs" and "same_pool wc wc'"
proof -
  let ?fs = "[FInt32 opCommitRetaining, FInt32 tx]"
  have s: "serves wc (os @ ex # cm # rs) zs" and "wf_writer (wc_writer wc)" using assms(1) by (simp_all add: in_step_def serves_def)
  then obtain w where w: "run_state (bindE (writeExecuteOp h tx blr params) (\<lambda>_. write_all ?fs)) wc = (Inr (), wc\<lparr>wc_writer := w\<rparr>)" "wf_writer w"
    using writes_execute_commit by blast
  obtain wc1 where 1: "run_state wc_flush (wc\<lparr>wc_writer := w\<rparr>) = (Inr (), wc1)" "serves wc1 (os @ ex # cm # rs) zs" "deferredCount wc1 = deferredCount wc"
    by (rule flush_written [OF s w(2)])
  have "in_step wc1 os (ex # cm # rs) zs" using 1 assms(1) by (simp add: in_step_def)
  then obtain wc2 where 2: "run_state readResponse wc1 = (answer ex, wc2)" "in_step wc2 [] (cm # rs) zs" by (rule readResponse_answer)
  obtain wc3 where 3: "run_state wc_ReadResponse wc2 = (answer cm, wc3)" "in_step wc3 [] rs zs" by (rule wc_ReadResponse_answer [OF 2(2)])
  have "run_state (ExecuteAndCommitRetaining h tx blr params) wc = run_state (bindE (bindE (writeExecuteOp h tx blr params) (\<lambda>_. write_all ?fs)) (\<lambda>_.
     bindE (mapErr (Wrap ''execute+commit_retaining: flush'') wc_flush) (\<lambda>_. tryE readResponse (\<lambda>execRes. tryE wc_ReadResponse (\<lambda>commitRes.
       case execRes of
         Inl execErr \<Rightarrow> throwE (Wrap ''execute+commit_retaining: execute'' execErr)
       | Inr _ \<Rightarrow> (case commitRes of
           Inl commitErr \<Rightarrow> throwE (Wrap ''execute+commit_retaining: commit_retaining'' commitErr)
         | Inr _ \<Rightarrow> okE ())))))) wc"
    unfolding ExecuteAndCommitRetaining_def bindE_assoc ..
  also have "\<dots> = (Inr (), wc3)" using w(1) 1(1) 2(1) 3(1) assms(2,3) by (simp add: answer_clean run_bindE [of "bindE _ _"] del: run_bindE) simp
  finally have run: "run_state (ExecuteAndCommitRetaining h tx blr params) wc = (Inr (), wc3)" .
  have "same_pool wc wc3" using wc_flush_pool [OF 1(1)] readResponse_pool [OF 2(1)] wc_ReadResponse_pool [OF 3(1)] by (simp add: same_pool_def)
  with run 3(2) that show ?thesis by blast
qed

lemma info_answers:
  assumes "in_step wc os (x # rs) zs" and "clean x"
  obtains wc' where "run_state (InfoSQL h items n) wc = (Inr (Data (fst (resp_result x))), wc')" and "in_step wc' [] rs zs" and "same_pool wc wc'"
proof -
  obtain wc' where r: "run_state (round_trip ''op_info_sql'' [FInt32 opInfoSQL, FInt32 h, FInt32 0, FBuffer items, FInt32 n]) wc
      = (map_sum (Wrap ''op_info_sql'') id (answer x), wc')" "in_step wc' [] rs zs"
    by (rule round_trip_answer [OF assms(1), of "''op_info_sql''" "[FInt32 opInfoSQL, FInt32 h, FInt32 0, FBuffer items, FInt32 n]"])
  then show ?thesis using that [of wc'] round_trip_pool [OF r(1)] assms(2) by (simp add: InfoSQL_def answer_clean same_pool_def)
qed

section \<open>An auto-committed execution\<close>

definition affected :: "int32 \<Rightarrow> recordCounts \<Rightarrow> int64" where
  "affected sty rc = (if sty = StmtInsert then insertCount rc else if sty = StmtUpdate then updateCount rc
     else if sty = StmtDelete then deleteCount rc else insertCount rc + updateCount rc + deleteCount rc)"

lemma named_blobs_none: "list_all (\<lambda>col. \<not> is_blob col) cols \<Longrightarrow> named_blobs env tx i cols vals = okE vals"
  by (induction cols arbitrary: i) simp_all

text \<open>A describe that fits one response needs no more I/O.\<close>

definition described_by :: "drv \<Rightarrow> int32 \<Rightarrow> byte list \<Rightarrow> described option" where
  "described_by env noneID info = (case parseSQLDescribeChunk (d_gc env) info emptyDescribeState of
     (True, _) \<Rightarrow> None
   | (False, st) \<Rightarrow> Some (stmtType st, applyNoneCharset noneID (outputs st), applyNoneCharset noneID (inputs st)))"

lemma describe_complete:
  assumes "described_by env (noneCharsetID wc) info = Some d"
  shows "run_state (CompleteSQLDescribe (d_gc env) h info items n) wc = (Inr d, wc)"
  using assms by (auto simp: described_by_def CompleteSQLDescribe_def describe_more.simps Let_def split: prod.splits bool.splits)

lemma finishExec_answers:
  assumes "in_step (c_wc c) os (cnt # rs) zs" and "clean cnt" and "wf_pool (c_wc c)" and "freeCount (c_wc c) < maxFreeHandles"
  shows "\<exists>c'. run_state (finishExec env h sty) c
      = (Inr \<lparr>res_rowsAffected = affected sty (ParseRecordCounts (Data (fst (resp_result cnt)))), res_err = None\<rparr>, c')
    \<and> in_step (c_wc c') [] rs zs \<and> pooled_handles (c_wc c') = pooled_handles (c_wc c) @ [h]
    \<and> (\<exists>wc'. c' = c\<lparr>c_wc := wc'\<rparr>)"
proof -
  obtain wc1 where 1: "run_state (InfoSQL h [IscInfoSQLRecords] 256) (c_wc c) = (Inr (Data (fst (resp_result cnt))), wc1)"
    "in_step wc1 [] rs zs" "same_pool (c_wc c) wc1" by (rule info_answers [OF assms(1,2)])
  let ?wc = "wc1\<lparr>freeHandles := (freeHandles wc1)[freeCount wc1 := h], freeCount := freeCount wc1 + 1\<rparr>"
  have rec: "run_state (RecycleStatement h False) wc1 = (Inr (), ?wc)" using 1(3) assms(4) by (simp add: RecycleStatement_def same_pool_def)
  have "wf_pool wc1" using 1(3) assms(3) by (simp add: same_pool_def wf_pool_def)
  from RecycleStatement_pool(2) [OF this rec] have "pooled_handles ?wc = pooled_handles (c_wc c) @ [h]"
    using 1(3) assms(4) by (simp add: same_pool_def pooled_handles_def)
  moreover have "in_step ?wc [] rs zs" using 1(2) by (simp add: in_step_def serves_def rx_ready_def)
  moreover have "run_state (finishExec env h sty) c
      = (Inr \<lparr>res_rowsAffected = affected sty (ParseRecordCounts (Data (fst (resp_result cnt)))), res_err = None\<rparr>, c\<lparr>c_wc := ?wc\<rparr>)"
    using 1(1) rec by (simp add: finishExec_def rowsAffectedResult_def run_wire getRowsAffected_def affected_def Let_def)
  ultimately show ?thesis by (intro exI [of _ "c\<lparr>c_wc := ?wc\<rparr>"]) auto
qed

lemma exec_autocommit:
  assumes live: "\<not> c_closed c" "\<not> c_bad c" "c_activeTx c = 0" "c_autoTx c \<noteq> 0"
    and wire: "in_step (c_wc c) os (al # pr # ex # cm # cnt # rs) zs" "wf_pool (c_wc c)" "freeCount (c_wc c) = 0"
    and cl: "list_all clean [al, pr, ex, cm, cnt]"
    and desc: "\<And>none. described_by env none (Data (fst (resp_result pr))) = Some (sty, outs none, ins)"
    and sty: "sty \<noteq> StmtExecProcedure" and args: "length args = length ins" "list_all (\<lambda>col. \<not> is_blob col) ins"
    and enc: "ins \<noteq> [] \<longrightarrow> encodeParams env ins args = Inr params"
  shows "\<exists>c'. run_state (ConnExecContext env None query args) c
      = (Inr \<lparr>res_rowsAffected = affected sty (ParseRecordCounts (Data (fst (resp_result cnt)))), res_err = None\<rparr>, c')
    \<and> in_step (c_wc c') [] rs zs \<and> pooled_handles (c_wc c') = [Handle (fst (resp_result al))]
    \<and> c_autoTx c' = c_autoTx c \<and> c_activeTx c' = 0 \<and> \<not> c_bad c'"
proof -
  let ?h = "Handle (fst (resp_result al))" and ?tx = "c_autoTx c"
  have cl': "clean al" "clean pr" "clean ex" "clean cm" "clean cnt" using cl by simp_all
  obtain wc1 where 1: "run_state (AllocateAndPrepareWithItems ?tx query 65535 PrepareExecInfoItems) (c_wc c)
      = ((?h, Inr (Data (fst (resp_result pr)))), wc1)" "in_step wc1 [] (ex # cm # cnt # rs) zs" "same_pool (c_wc c) wc1"
    by (rule allocate_answers [OF wire(1) cl'(1,2) wire(3)])
  have 2: "run_state (CompleteSQLDescribe (d_gc env) ?h (Data (fst (resp_result pr))) PrepareExecInfoItems 65535) wc1
      = (Inr (sty, outs (noneCharsetID wc1), ins), wc1)" by (rule describe_complete [OF desc])
  obtain blr ps where bp: "run_state (encodeAdhoc env True ?tx ?h ins args) (c\<lparr>c_wc := wc1\<rparr>) = (Inr (blr, ps), c\<lparr>c_wc := wc1\<rparr>)"
    using args enc by (cases "ins = []") (simp_all add: encodeAdhoc_def materializeNamedBlobs_def named_blobs_none)
  obtain wc2 where 3: "run_state (ExecuteAndCommitRetaining ?h ?tx blr ps) wc1 = (Inr (), wc2)" "in_step wc2 [] (cnt # rs) zs"
    "same_pool wc1 wc2" by (rule execute_commit_answers [OF 1(2) cl'(3,4)])
  have pool: "wf_pool wc2" "freeCount wc2 = 0" "pooled_handles wc2 = []"
    using wire(2,3) 1(3) 3(3) by (simp_all add: same_pool_def wf_pool_def pooled_handles_def)
  let ?c2 = "c\<lparr>c_wc := wc2\<rparr>"
  obtain c' where 4: "run_state (finishExec env ?h sty) ?c2
      = (Inr \<lparr>res_rowsAffected = affected sty (ParseRecordCounts (Data (fst (resp_result cnt)))), res_err = None\<rparr>, c')"
    "in_step (c_wc c') [] rs zs" "pooled_handles (c_wc c') = [?h]" "\<exists>wc'. c' = ?c2\<lparr>c_wc := wc'\<rparr>"
    using finishExec_answers [of ?c2 "[]" cnt rs zs env ?h sty] 3(2) cl'(5) pool by (auto simp: maxFreeHandles_def)
  have "run_state (ConnExecContext env None query args) c = run_state (finishExec env ?h sty) ?c2"
    using live 1(1) 2 bp 3(1) sty args
    by (simp add: ConnExecContext_def enter_def acquireTx_def getAutoTx_def prepareAdhoc_def describeOrRecycle_def run_wire runExec_def)
  with 4 live show ?thesis by (intro exI [of _ c']) auto
qed

section \<open>The descriptor cache\<close>

text \<open>Every entry that describes its statement completely holds what the describe gives.\<close>

definition cache_ok :: "drv \<Rightarrow> conn \<Rightarrow> bool" where
  "cache_ok env c \<longleftrightarrow> list_all (\<lambda>e. \<forall>d. described_by env (noneCharsetID (c_wc c)) (dce_info e) = Some d
     \<longrightarrow> (dce_stmtType e, dce_outputs e, dce_inputs e) = d) (c_descCache c)"

lemma descCacheIndex_bound: "unat (descCacheIndex q) < descCacheSlots"
proof -
  have "descCacheIndex q AND 31 = descCacheIndex q" by (simp add: descCacheIndex_def descCacheMask_def descCacheSlots_def and.assoc)
  then have "descCacheIndex q \<le> 31" by (metis word_and_le1)
  then have "unat (descCacheIndex q) \<le> unat (31 :: uint32)" by (simp add: word_le_nat_alt)
  then show ?thesis by (simp add: descCacheSlots_def)
qed

lemma lookup_describes:
  assumes "cache_ok env c" and "length (c_descCache c) = descCacheSlots" and "descCacheLookup query info c = Some d"
    and "described_by env (noneCharsetID (c_wc c)) info = Some d'"
  shows "d = d'"
proof -
  let ?i = "unat (descCacheIndex query)"
  have "?i < length (c_descCache c)" using descCacheIndex_bound assms(2) by simp
  then show ?thesis using assms by (cases d') (auto simp: cache_ok_def list_all_length descCacheLookup_def Let_def split: if_splits)
qed

lemma store_lookup:
  assumes "length (c_descCache c) = descCacheSlots"
  shows "descCacheLookup query info (descCacheStore query info d c) = Some d"
  using descCacheIndex_bound [of query] assms by (simp add: descCacheLookup_def descCacheStore_def split: prod.splits)

lemma store_ok:
  assumes "cache_ok env c" and "described_by env (noneCharsetID (c_wc c)) info = None \<or> described_by env (noneCharsetID (c_wc c)) info = Some d"
  shows "cache_ok env (descCacheStore query info d c)"
proof -
  obtain sty outs ins where d: "d = (sty, outs, ins)" by (cases d)
  let ?x = "\<lparr>dce_query = query, dce_info = info, dce_stmtType = sty, dce_outputs = outs, dce_inputs = ins\<rparr>"
  let ?good = "\<lambda>e. \<forall>d. described_by env (noneCharsetID (c_wc c)) (dce_info e) = Some d \<longrightarrow> (dce_stmtType e, dce_outputs e, dce_inputs e) = d"
  have old: "?good e" if "e \<in> set (c_descCache c)" for e using assms(1) that by (simp add: cache_ok_def list_all_iff)
  have new: "?good ?x" using assms(2) by (auto simp: d)
  have "e = ?x \<or> e \<in> set (c_descCache c)" if "e \<in> set (c_descCache (descCacheStore query info d c))" for e
    using that set_update_subset_insert [THEN subsetD, of e "c_descCache c" "unat (descCacheIndex query)" ?x]
    by (simp add: descCacheStore_def d)
  then have "\<forall>e \<in> set (c_descCache (descCacheStore query info d c)). ?good e" using old new by blast
  then show ?thesis by (simp add: cache_ok_def list_all_iff d descCacheStore_def)
qed

end
