(* ===== verification/DriverEnds.thy ===== *)
theory DriverEnds
  imports DriverFlow
begin

text \<open>
  The loop of a client over a result set ends for every server: each batch of rows that a fetch returns uses up input,
  and the contents of blobs, which are read between the batches, never add any.  \<open>lowers\<close> is the common form: an
  operation does not increase a measure of the state.  The other loops and state changes of the driver that span
  components follow: the attempts to connect, the describe with its cache, and the end of a connection whose
  transport failed.
\<close>

section \<open>Operations that only use up input\<close>

definition not_above :: "('s \<Rightarrow> nat) \<Rightarrow> 's \<Rightarrow> 's \<Rightarrow> bool" where
  "not_above f s s' \<longleftrightarrow> f s' \<le> f s"

abbreviation lowers :: "('s \<Rightarrow> nat) \<Rightarrow> ('s, 'a) state \<Rightarrow> bool" where "lowers f m \<equiv> within (not_above f) m"

named_theorems lower_ops "operations that do not increase the input left"

interpretation lowering: step_relation "not_above f" for f
  by unfold_locales (auto simp: not_above_def)

lemmas lower_rules [lower_ops] = lowering.op_rules

lemma lowers_def: "lowers f m \<longleftrightarrow> (\<forall>s. f (snd (run_state m s)) \<le> f s)"
  by (simp add: within_def not_above_def)

lemma lowersI: "(\<And>s x s'. run_state m s = (x, s') \<Longrightarrow> f s' \<le> f s) \<Longrightarrow> lowers f m"
  by (rule withinI) (simp add: not_above_def)

lemma lowersD: "lowers f m \<Longrightarrow> run_state m s = (x, s') \<Longrightarrow> f s' \<le> f s"
  using withinD [of "not_above f"] by (simp add: not_above_def)

section \<open>The wire\<close>

abbreviation input_left :: "WireConnection \<Rightarrow> nat" where "input_left wc \<equiv> pending (wc_reader wc)"

lemma lowers_exchange [lower_ops]:
  "lowers input_left (write_all fs)" "lowers input_left wc_flush" "lowers input_left wc_ReadResponse" "lowers input_left readResponse"
  "lowers input_left (round_trip name fs)"
  by (rule lowersI, auto simp: write_all_def dest: wc_flush_pending wc_ReadResponse_pending(1) readResponse_pending(1) round_trip_pending(1); fail)+

lemma lowers_consumeDeferred [lower_ops]: "lowers input_left consumeDeferred"
  by (rule lowersI) (auto simp: consumeDeferred_def dest: consume_loop_pending split: prod.splits)

lemma lowers_blob_requests [lower_ops]:
  "lowers input_left (OpenBlob tx b bpb)" "lowers input_left (GetSegment h n)" "lowers input_left (CloseBlob h)"
  unfolding OpenBlob_def GetSegment_def CloseBlob_def by (intro lower_ops)+

lemma lowers_get_loop [lower_ops]: "lowers input_left (State (get_loop h n res))"
proof -
  have "get_loop h n res wc = (x, wc') \<Longrightarrow> input_left wc' \<le> input_left wc" for x wc wc'
  proof (induction h n res wc rule: get_loop.induct)
    case (1 h n res wc)
    obtain g wc1 where g: "run_state (GetSegment h n) wc = (g, wc1)" by (metis surj_pair)
    have le: "input_left wc1 \<le> input_left wc" by (rule lowersD [OF lowers_blob_requests(2) g])
    have cl: "input_left (snd (run_state (CloseBlob h) wc1)) \<le> input_left wc1"
      using lowers_blob_requests(3) [of h] by (simp add: lowers_def)
    show ?case
    proof (cases g)
      case (Inl e)
      then show ?thesis using 1(2) g le cl by (subst (asm) get_loop.simps) auto
    next
      case (Inr sp)
      obtain status packed where sp: "sp = (status, packed)" by (cases sp)
      show ?thesis
      proof (cases "status = 2")
        case True
        then show ?thesis using 1(2) g le Inr sp by (subst (asm) get_loop.simps) (simp add: Let_def)
      next
        case False
        then have "get_loop h n (unpackSegments res packed) wc1 = (x, wc')"
          using 1(2) g Inr sp by (subst (asm) get_loop.simps) (simp add: Let_def)
        from 1(1) [OF g [symmetric] Inr sp [symmetric] refl False this] le show ?thesis by linarith
      qed
    qed
  qed
  then show ?thesis by (intro lowersI) simp
qed

lemma lowers_ReadBlobData [lower_ops]: "lowers input_left (ReadBlobData tx b)"
  unfolding ReadBlobData_def readBlobDataPipelined_def readBlobDataSequential_def Let_def by (intro lower_ops)

lemma lowers_case_gval:
  assumes "lowers f m" and "\<And>v. lowers f (g v)"
  shows "lowers f (case x of VInt64 v \<Rightarrow> g v | _ \<Rightarrow> m)"
  using assms by (cases x) simp_all

abbreviation conn_left :: "conn \<Rightarrow> nat" where "conn_left c \<equiv> input_left (c_wc c)"

lemma lowers_wire [lower_ops]: "lowers input_left m \<Longrightarrow> lowers conn_left (wire m)"
  unfolding lowers_def by (auto simp: run_wire split: prod.splits) (metis snd_conv)

lemmas lowers_withC [lower_ops] = within_withC [where R = "not_above f" for f]

lemma lowers_blob_cells [lower_ops]: "lowers conn_left (blob_cells env tx ci cols row)"
proof (induction cols arbitrary: ci row)
  case (Cons col cols)
  show ?case unfolding blob_cells.simps by (intro lower_ops lowers_case_gval Cons.IH)
qed (simp add: lowering.op_ok)

lemma lowers_materialize [lower_ops]: "lowers conn_left (materializeBlobRowsLocked env tx outs rs)"
  by (induction rs) (auto intro!: lower_ops)

lemma materialize_length: "run_state (materializeBlobRowsLocked env tx outs rs) c = (Inr rs', c') \<Longrightarrow> length rs' = length rs"
  by (induction rs arbitrary: c rs' c') (auto split: prod.splits sum.splits)

section \<open>A batch uses up input\<close>

lemma fetch_loop_uses:
  "fetch_loop res xtext descs maxRows i cv wc = (Inr (n, vals, eof), wc') \<Longrightarrow> input_left wc' + n < input_left wc + i"
proof (induction res xtext descs maxRows i cv wc rule: fetch_loop.induct)
  case (1 res xtext descs maxRows i cv wc)
  obtain op r1 where op: "ReadOpcode (wc_reader wc) = (op, r1)" by (metis surj_pair)
  obtain resp r2 where f: "readFetchResponse r1 = (resp, r2)" by (metis surj_pair)
  obtain cap v where g: "grow_values (length descs) maxRows i cv = (cap, v)" by (metis surj_pair)
  obtain d r3 where d: "DecodeRow res xtext descs (nullBuf wc) (row_slice (length descs) v i) r2 = (d, r3)" by (metis surj_pair)
  note p = ReadOpcode_pending [OF op] shrinksD [OF shrinks_readFetchResponse f] shrinksD [OF shrinks_DecodeRow d]
  have ok: "rerr r1 = None" "op = opFetchResponse" "rerr r2 = None"
    using "1.prems" op f by (subst (asm) fetch_loop.simps, auto simp: Let_def split: option.splits if_splits prod.splits sum.splits)+
  show ?case
  proof (cases "FetchMessages resp = 0")
    case True
    then have "wc' = wc\<lparr>wc_reader := r2\<rparr>" "n = i" using "1.prems" op f ok by (subst (asm) fetch_loop.simps, simp add: Let_def)+
    then show ?thesis using p ok by simp
  next
    case False
    have fit: "\<not> (length descs > 0 \<and> (i + 1) * length descs > length v)"
      using "1.prems" op f ok g False by (subst (asm) fetch_loop.simps) (auto simp: Let_def split: if_splits)
    obtain row where row: "d = Inr row"
      using "1.prems" op f ok g d False fit by (subst (asm) fetch_loop.simps) (cases d; simp add: Let_def split: if_splits)
    have loop: "fetch_loop res xtext descs maxRows (i + 1) (cap, put_row (length descs) i row v) (wc\<lparr>wc_reader := r3\<rparr>) = (Inr (n, vals, eof), wc')"
      using "1.prems" op f ok g d False fit row by (subst (asm) fetch_loop.simps) (simp add: Let_def split: if_splits)
    have eq: "\<not> op \<noteq> opFetchResponse" using ok(2) by simp
    from "1.IH" [OF refl op [symmetric] refl ok(1) eq refl f [symmetric] refl ok(3) False refl refl g [symmetric] fit refl d [symmetric] refl row loop] p ok(1)
    show ?thesis by simp
  qed
qed

lemma FetchRowsReuse_uses:
  assumes "run_state (FetchRowsReuse res xtext h blr descs n buf) wc = (Inr (rs, vals, eof), wc')"
  shows "input_left wc' + length rs < input_left wc"
proof -
  let ?pre = "bindE (write_all [FInt32 opFetch, FInt32 h, FBuffer blr, FInt32 0, FInt32 n]) (\<lambda>_.
     bindE (mapErr (Wrap ''op_fetch: flush'') wc_flush) (\<lambda>_. mapErr (Wrap ''op_fetch: consume deferred'') consumeDeferred))"
  obtain y wc1 where y: "run_state ?pre wc = (y, wc1)" by (metis surj_pair)
  have "lowers input_left ?pre" by (intro lower_ops)
  from lowersD [OF this y] have le: "input_left wc1 \<le> input_left wc" .
  let ?k = "State (\<lambda>wc. let numCols = length descs; maxRows = nat (sint n) in
       case fetch_loop res xtext descs maxRows 0 (initial_values numCols maxRows buf) wc of
         (Inl e, wc') \<Rightarrow> (Inl e, wc')
       | (Inr (n, vals, eof), wc') \<Rightarrow> (Inr (map (row_slice numCols vals) [0 ..< n], vals, eof), wc')) :: (gval list list \<times> gval list \<times> bool) wop"
  have "FetchRowsReuse res xtext h blr descs n buf = bindE ?pre (\<lambda>_. ?k)" unfolding FetchRowsReuse_def bindE_assoc ..
  with assms y have "run_state ?k wc1 = (Inr (rs, vals, eof), wc')" by (cases y) (simp_all only: run_bindE sum.case prod.case, simp)
  then obtain m where "fetch_loop res xtext descs (nat (sint n)) 0 (initial_values (length descs) (nat (sint n)) buf) wc1 = (Inr (m, vals, eof), wc')"
    "length rs = m" by (auto simp: Let_def split: prod.splits sum.splits)
  from fetch_loop_uses [OF this(1)] this(2) le show ?thesis by simp
qed

section \<open>The loop of the client\<close>

definition buffered :: "rows \<Rightarrow> nat" where "buffered r = length (r_buf r) - r_bufIdx r"

lemma RowsFetch_uses:
  assumes "run_state (RowsFetch env cx r) c = ((Inr (), r'), c')"
  shows "conn_left c' + buffered r' < conn_left c"
proof -
  let ?r = "prepareFetch r"
  let ?f = "FetchRowsReuse (d_res env) (d_xtext env) (r_stmtHandle ?r) (bytes_or_nil (r_blr ?r)) (r_outputs ?r) (word_of_int (r_fetchSize ?r)) (r_fetchValues ?r)"
  have cx: "cx 1 = None" "cx 2 = None" using assms by (auto simp: RowsFetch_def Let_def split: option.splits)
  obtain fr wc1 where f: "run_state ?f (c_wc c) = (fr, wc1)" by (metis surj_pair)
  obtain rs vals eof where fr: "fr = Inr (rs, vals, eof)"
    using assms cx f by (cases fr) (auto simp: RowsFetch_def run_wire Let_def split: prod.splits)
  let ?m = "if r_hasBlobs ?r then materializeBlobRowsLocked env (r_txHandle ?r) (r_outputs ?r) rs else okE rs"
  obtain m c2 where m: "run_state ?m (c\<lparr>c_wc := wc1\<rparr>) = (m, c2)" by (metis surj_pair)
  have "lowers conn_left ?m" by (intro lower_ops)
  from lowersD [OF this m] have le: "conn_left c2 \<le> input_left wc1" by simp
  obtain rs' where rs': "m = Inr rs'" "c' = c2" "buffered r' = length rs'"
    using assms cx f fr m by (cases m) (auto simp: RowsFetch_def run_wire Let_def buffered_def split: prod.splits if_splits)
  have "length rs' = length rs" using m rs'(1) materialize_length by (cases "r_hasBlobs ?r") auto
  then show ?thesis using FetchRowsReuse_uses [OF f [unfolded fr]] le rs' by simp
qed

lemma RowsNext_uses:
  assumes "run_state (RowsNext env cx dest r) c = ((Inr row, r'), c')"
  shows "conn_left c' + buffered r' < conn_left c + buffered r"
proof (cases "r_bufIdx r \<ge> length (r_buf r)")
  case True
  obtain fr r1 c1 where f: "run_state (RowsFetch env cx r) c = ((fr, r1), c1)" by (metis surj_pair)
  with assms True have fr: "fr = Inr ()" and "c1 = c'" and "r_bufIdx r1 < length (r_buf r1)" and "r' = snd (deliver dest r1)"
    by (auto simp: RowsNext_def split: if_splits option.splits sum.splits)
  then show ?thesis using RowsFetch_uses [OF f [unfolded fr]] True by (auto simp: buffered_def deliver_def Let_def)
next
  case False
  then show ?thesis using assms by (auto simp: RowsNext_def deliver_def buffered_def Let_def split: if_splits option.splits)
qed

lemma next_all_ends:
  assumes "conn_left c + buffered r < n"
  shows "\<exists>rs e r' c'. next_all env n r c = (rs, Some e, r', c') \<and> length rs \<le> conn_left c + buffered r"
  using assms
proof (induction n arbitrary: r c)
  case (Suc n)
  obtain x r1 c1 where x: "run_state (RowsNext env (\<lambda>_. None) (replicate (length (r_outputs r)) VNil) r) c = ((x, r1), c1)" by (metis surj_pair)
  show ?case
  proof (cases x)
    case (Inr row)
    note u = RowsNext_uses [OF x [unfolded Inr]]
    with Suc.prems have "conn_left c1 + buffered r1 < n" by simp
    from Suc.IH [OF this] u show ?thesis using x Inr by fastforce
  qed (use x in simp)
qed simp

section \<open>Attempts to connect\<close>

text \<open>A server that refuses the proof: the handshake reports the refusal.\<close>

lemma handshake_refused:
  assumes "serves wc [] (accept_image op arch acc @ enc_resp auth @ zs)"
    and "op = opAcceptData \<or> op = opCondAccept" and "accept_ok acc" and "authenticated acc = 0" and "serverAuthData acc \<noteq> []"
    and "serverPlugin acc = srp_pluginName srp"
    and "ComputeProof (env_sha1 env) (env_sha256 env) (serverAuthData acc) srp = (Inr pf, srp')"
    and "resp_ok auth" and "snd (resp_result auth) = Some e"
  shows "fst (run_state (handshake env cfg srp) wc) = Inl (Wrap ''op_cont_auth'' e)"
proof -
  obtain wc1 where 1: "run_state (send ''op_connect'' (connect_fields env cfg srp)) wc = (Inr (), wc1)"
    "serves wc1 [] (accept_image op arch acc @ enc_resp auth @ zs)" by (rule send_ok [OF assms(1)])
  obtain r2 where 2: "run_state readAccept wc1 = (Inr acc, wc1\<lparr>wc_reader := r2\<rparr>)"
    "serves (wc1\<lparr>wc_reader := r2\<rparr>) [] (enc_resp auth @ zs)" by (rule readAccept_ok [OF 1(2) assms(2,3)])
  obtain wc3 where 3: "run_state (send ''op_cont_auth'' (auth_fields cfg srp' pf (serverKeys acc))) (wc1\<lparr>wc_reader := r2\<rparr>) = (Inr (), wc3)"
    "serves wc3 [] (enc_resp auth @ zs)" by (rule send_ok [OF 2(2)])
  have "serves wc3 [auth] zs" using 3(2) assms(8) by (simp add: serves_def rx_ready_def)
  then obtain r' where r': "ReadResponse (wc_reader wc3) = (resp_result auth, r')" by (rule serves_read)
  then have "fst (run_state (orAbort (Wrap ''op_cont_auth'') wc_ReadResponse) wc3) = Inl (Wrap ''op_cont_auth'' e)"
    using assms(9) by (cases "resp_result auth") (simp add: wc_ReadResponse_def orAbort_def abort_def split: prod.split)
  then obtain wc4 where 4: "run_state (orAbort (Wrap ''op_cont_auth'') wc_ReadResponse) wc3 = (Inl (Wrap ''op_cont_auth'' e), wc4)"
    by (metis prod.collapse)
  have "run_state (authenticate env cfg srp acc) (wc1\<lparr>wc_reader := r2\<rparr>) = (Inl (Wrap ''op_cont_auth'' e), wc4)"
    using assms(4-7) 3(1) 4 by (simp add: authenticate_def switchPlugin_def authDirect_def prove_def)
  then show ?thesis using 1(1) 2(1) by (simp add: handshake_def)
qed

definition transient :: "(nat \<Rightarrow> connect_env) \<Rightarrow> (nat \<Rightarrow> gerr option) \<Rightarrow> ProtocolConfig \<Rightarrow> nat \<Rightarrow> bool" where
  "transient envs waits cfg i \<longleftrightarrow> (case fst (ConnectContext (envs i) cfg) of Inl e \<Rightarrow> isTransientAuthFailure e | Inr _ \<Rightarrow> False) \<and> waits i = None"

lemma connect_loop_retries:
  assumes "\<And>j. j < n \<Longrightarrow> transient envs waits cfg (i + j)" and "n \<le> left"
    and "ConnectContext (envs (i + n)) cfg = (res, wc)" and "\<And>e. res = Inl e \<Longrightarrow> \<not> isTransientAuthFailure e \<or> n = left"
  shows "connect_loop envs waits cfg i left = map_sum id (\<lambda>_. wc) res"
  using assms
proof (induction n arbitrary: i left)
  case 0
  then show ?case by (subst connect_loop.simps) (cases res; simp)
next
  case (Suc n)
  have t: "transient envs waits cfg i" using Suc.prems(1) [of 0] by simp
  obtain x w where x: "ConnectContext (envs i) cfg = (x, w)" by (metis surj_pair)
  obtain e where e: "x = Inl e" "isTransientAuthFailure e" "waits i = None" using t x by (auto simp: transient_def split: sum.splits)
  have "connect_loop envs waits cfg (Suc i) (left - 1) = map_sum id (\<lambda>_. wc) res"
  proof (rule Suc.IH)
    show "transient envs waits cfg (Suc i + j)" if "j < n" for j using Suc.prems(1) [of "Suc j"] that by simp
    show "n \<le> left - 1" using Suc.prems(2) by simp
    show "ConnectContext (envs (Suc i + n)) cfg = (res, wc)" using Suc.prems(3) by simp
    show "\<not> isTransientAuthFailure e' \<or> n = left - 1" if "res = Inl e'" for e' using Suc.prems(2) Suc.prems(4) [OF that] by auto
  qed
  then show ?case using x e Suc.prems(2) by (subst connect_loop.simps) simp
qed

section \<open>The cached describe\<close>

lemma describeCached_same:
  assumes "cache_ok env c" and "length (c_descCache c) = descCacheSlots" and "described_by env (noneCharsetID (c_wc c)) info = Some d"
  shows "\<exists>c'. run_state (describeCached env query h info) c = (Inr d, c') \<and> cache_ok env c' \<and> length (c_descCache c') = descCacheSlots
    \<and> c_wc c' = c_wc c \<and> descCacheLookup query info c' = Some d"
proof (cases "descCacheLookup query info c")
  case None
  have "run_state (describeOrRecycle env h info PrepareInfoItems) c = (Inr d, c)"
    using describe_complete [OF assms(3)] by (simp add: describeOrRecycle_def run_wire)
  then have "run_state (describeCached env query h info) c = (Inr d, descCacheStore query info d c)"
    using None by (simp add: describeCached_def)
  moreover have "length (c_descCache (descCacheStore query info d c)) = descCacheSlots" "c_wc (descCacheStore query info d c) = c_wc c"
    using assms(2) by (simp_all add: descCacheStore_def split: prod.splits)
  ultimately show ?thesis using store_ok [OF assms(1), of info d query] store_lookup [OF assms(2), of query info d] assms(3) by simp
next
  case (Some d')
  with lookup_describes [OF assms(1,2) Some assms(3)] show ?thesis using assms by (simp add: describeCached_def)
qed

section \<open>Retirement of a connection\<close>

lemma silent_steps:
  "(driver_step env)\<^sup>*\<^sup>* c c' \<Longrightarrow> conn_inv c \<Longrightarrow> c_bad c \<Longrightarrow> conn_inv c' \<and> c_bad c' \<and> sent c' = sent c"
  by (induction rule: rtranclp_induct) (auto dest: driver_step_inv driver_step_bad)

lemma failRetryable_retires:
  assumes "conn_inv c" and "\<not> c_bad c" and "isTransportError (d_tmpl env) err" and "run_state (failRetryable env err) c = (r, c')"
  shows "r = Inl (wrapBadConn err)" and "conn_inv c'" and "c_bad c'" and "sent c' = sent c"
proof -
  show "conn_inv c'" by (rule safeD [OF safe_fail(1) assms(1,4)])
  show "r = Inl (wrapBadConn err)" "c_bad c'" "sent c' = sent c"
    using assms by (auto simp: failRetryable_def handleRetryableErrorLocked_def handleErrorLocked_def markBadLocked_def run_wire
        CloseTransport_def close_conn_def sent_def Conn_Close_def)
qed

end
