(* ===== verification/DriverSession.thy ===== *)
theory DriverSession
  imports DriverInv
begin

text \<open>
  What a connection promises to \<^verbatim>\<open>database/sql\<close>, as a small state machine: a session is in auto-commit mode, in an explicit
  transaction or retired, and open or closed.  The handle of the auto-commit transaction, the statement handles, the
  caches and the wire are hidden.  \<open>session_of\<close> is the abstraction, \<open>driver_call\<close> the calls of the model with what the
  caller sees of each, and the simulation lemma says that every call of the driver is a step of the session.
\<close>

section \<open>The abstract session\<close>

datatype phase = AutoCommit | Explicit int32 | Retired

record session =
  ss_closed :: bool
  ss_phase :: phase

definition usable :: "session \<Rightarrow> bool" where
  "usable s \<longleftrightarrow> \<not> ss_closed s \<and> ss_phase s \<noteq> Retired"

definition retire :: "session \<Rightarrow> session" where
  "retire s = s\<lparr>ss_phase := Retired\<rparr>"

definition tx_phase :: "int32 \<Rightarrow> phase" where
  "tx_phase h = (if h = 0 then AutoCommit else Explicit h)"

text \<open>A call and its outcome: a statement call with its success, a call on a result set or the close of a statement, the
  start of a transaction with the handle of a success, the end of a transaction that was or was not over, the reset of
  the session with its success, and the close.\<close>

datatype call = Work bool | Tail | Begin "int32 option" | EndTx bool | Reset bool | Close

inductive session_step :: "call \<Rightarrow> session \<Rightarrow> session \<Rightarrow> bool" where
  work: "usable s \<Longrightarrow> session_step (Work ok) s s"
| work_lost: "usable s \<Longrightarrow> session_step (Work ok) s (retire s)"
| work_refused: "\<not> usable s \<Longrightarrow> session_step (Work False) s s"
| tail: "session_step Tail s s"
| tail_lost: "session_step Tail s (retire s)"
| begun: "usable s \<Longrightarrow> session_step (Begin (Some h)) s (s\<lparr>ss_phase := tx_phase h\<rparr>)"
| begin_failed: "session_step (Begin None) s s"
| begin_lost: "usable s \<Longrightarrow> session_step (Begin None) s (retire s)"
| over: "session_step (EndTx True) s s"
| ended: "ss_phase s \<noteq> Retired \<Longrightarrow> session_step (EndTx False) s (s\<lparr>ss_phase := AutoCommit\<rparr>)"
| end_lost: "session_step (EndTx False) s (retire s)"
| reset: "usable s \<Longrightarrow> ss_phase s = AutoCommit \<Longrightarrow> session_step (Reset True) s s"
| reset_left_over: "usable s \<Longrightarrow> ss_phase s = Explicit h \<Longrightarrow> session_step (Reset False) s (retire s)"
| reset_refused: "\<not> usable s \<Longrightarrow> session_step (Reset False) s s"
| closed: "session_step Close s (s\<lparr>ss_closed := True\<rparr>)"

inductive_cases session_work: "session_step (Work ok) s s'"
inductive_cases session_tail: "session_step Tail s s'"

inductive session_run :: "call list \<Rightarrow> session \<Rightarrow> session \<Rightarrow> bool" where
  run_stop: "session_run [] s s"
| run_step: "session_step l s t \<Longrightarrow> session_run ls t u \<Longrightarrow> session_run (l # ls) s u"

section \<open>Facts of the abstract session\<close>

lemma retired_step: "session_step l s s' \<Longrightarrow> ss_phase s = Retired \<Longrightarrow> ss_phase s' = Retired"
  by (induction rule: session_step.induct) (auto simp: usable_def retire_def)

definition statement_call :: "call \<Rightarrow> bool" where
  "statement_call l \<longleftrightarrow> (\<exists>ok. l = Work ok) \<or> l = Tail"

lemma statement_step:
  assumes "session_step l s s'" and "statement_call l" and "ss_phase s \<in> {p, Retired}"
  shows "ss_phase s' \<in> {p, Retired}"
  using assms by (auto simp: statement_call_def retire_def elim!: session_work session_tail)

lemma statement_run:
  "session_run ls s s' \<Longrightarrow> list_all statement_call ls \<Longrightarrow> ss_phase s \<in> {p, Retired} \<Longrightarrow> ss_phase s' \<in> {p, Retired}"
  by (induction rule: session_run.induct) (auto dest: statement_step)

section \<open>The abstraction\<close>

definition session_of :: "conn \<Rightarrow> session" where
  "session_of c = \<lparr>ss_closed = c_closed c, ss_phase = (if c_bad c then Retired else tx_phase (c_activeTx c))\<rparr>"

lemma usable_session: "usable (session_of c) \<longleftrightarrow> \<not> (c_closed c \<or> c_bad c)"
  by (simp add: usable_def session_of_def tx_phase_def)

text \<open>The calls, labelled with their outcome.\<close>

abbreviation (input) succeeded :: "'a + 'b \<Rightarrow> bool" where "succeeded r \<equiv> \<not> isl r"

inductive driver_call :: "drv \<Rightarrow> call \<Rightarrow> conn \<Rightarrow> conn \<Rightarrow> bool" for env where
  call_prepare: "run_state (ConnPrepareContext env ctx query) c = (r, c') \<Longrightarrow> driver_call env (Work (succeeded r)) c c'"
| call_exec: "run_state (ConnExecContext env ctx query args) c = (r, c') \<Longrightarrow> driver_call env (Work (succeeded r)) c c'"
| call_query: "run_state (ConnQueryContext env ctx query args) c = (r, c') \<Longrightarrow> driver_call env (Work (succeeded r)) c c'"
| call_ping: "run_state (ConnPing env) c = (r, c') \<Longrightarrow> driver_call env (Work (succeeded r)) c c'"
| call_stmt_exec: "run_state (StmtExecContext env ctx args s) c = ((r, s'), c') \<Longrightarrow> driver_call env (Work (succeeded r)) c c'"
| call_stmt_query: "run_state (StmtQueryContext env ctx args s) c = ((r, s'), c') \<Longrightarrow> driver_call env (Work (succeeded r)) c c'"
| call_stmt_close: "run_state (StmtClose env s) c = (u, c') \<Longrightarrow> driver_call env Tail c c'"
| call_next: "run_state (RowsNext env cx dest rs) c = (n, c') \<Longrightarrow> driver_call env Tail c c'"
| call_rows_close: "run_state (RowsClose env rs) c = (u, c') \<Longrightarrow> driver_call env Tail c c'"
| call_begin: "run_state (ConnBeginTx env ctx opts) c = (Inr tx, c') \<Longrightarrow> driver_call env (Begin (Some (tx_handle tx))) c c'"
| call_no_begin: "run_state (ConnBeginTx env ctx opts) c = (Inl e, c') \<Longrightarrow> driver_call env (Begin None) c c'"
| call_commit: "run_state (TxCommit env tx) c = (t, c') \<Longrightarrow> driver_call env (EndTx (tx_done tx)) c c'"
| call_rollback: "run_state (TxRollback env tx) c = (t, c') \<Longrightarrow> driver_call env (EndTx (tx_done tx)) c c'"
| call_reset: "run_state ConnResetSession c = (r, c') \<Longrightarrow> driver_call env (Reset (succeeded r)) c c'"
| call_close: "run_state ConnClose c = (r, c') \<Longrightarrow> driver_call env Close c c'"

inductive driver_run :: "drv \<Rightarrow> call list \<Rightarrow> conn \<Rightarrow> conn \<Rightarrow> bool" for env where
  run_none: "driver_run env [] c c"
| run_call: "driver_call env l c c1 \<Longrightarrow> driver_run env ls c1 c2 \<Longrightarrow> driver_run env (l # ls) c c2"

text \<open>The labels leave out no call of the connection's state machine.\<close>

lemma driver_step_labelled: "driver_step env c c' \<Longrightarrow> \<exists>l. driver_call env l c c'"
proof (induction rule: driver_step.induct)
  case (step_begin ctx opts c r c')
  then show ?case by (cases r) (auto intro: call_begin call_no_begin)
next
  case (step_stmt_exec ctx args s c e c')
  then show ?case by (cases e) (auto intro: call_stmt_exec)
next
  case (step_stmt_query ctx args s c q c')
  then show ?case by (cases q) (auto intro: call_stmt_query)
qed (rule exI, erule driver_call.intros)+

lemma driver_call_step: "driver_call env l c c' \<Longrightarrow> driver_step env c c'"
  by (induction rule: driver_call.induct) (erule driver_step.intros)+

lemma driver_run_steps: "driver_run env ls c c' \<Longrightarrow> (driver_step env)\<^sup>*\<^sup>* c c'"
  by (induction rule: driver_run.induct) (auto intro: converse_rtranclp_into_rtranclp driver_call_step)

section \<open>Operations that keep the phase\<close>

text \<open>Whatever an operation on statements, results or blobs does, it leaves the explicit transaction and the closed flag
  alone, unless the connection is retired.\<close>

definition keeps_phase :: "conn \<Rightarrow> conn \<Rightarrow> bool" where
  "keeps_phase c c' \<longleftrightarrow> c_closed c' = c_closed c \<and> (c_bad c' \<or> \<not> c_bad c \<and> c_activeTx c' = c_activeTx c)"

abbreviation phased :: "(conn, 'a) state \<Rightarrow> bool" where "phased m \<equiv> within keeps_phase m"

named_theorems phase_ops "operations that keep the phase of the session"

interpretation phases: step_relation keeps_phase
  by unfold_locales (auto simp: keeps_phase_def)

lemmas phase_rules [phase_ops] = phases.op_rules

lemmas phase_withC [phase_ops] = within_withC [where R = keeps_phase]

lemma phasedD: "phased m \<Longrightarrow> run_state m c = (x, c') \<Longrightarrow> keeps_phase c c'"
  by (rule withinD)

lemma phase_wire [phase_ops]: "phased (wire m)"
  by (simp add: within_def run_wire keeps_phase_def split: prod.split)

lemma phase_modify [phase_ops]:
  "phased invalidateAutoTx" "phased (modifyC (\<lambda>c. c\<lparr>c_autoTx := h\<rparr>))" "phased (modifyC (\<lambda>c. c\<lparr>c_dirtyAutoTx := b\<rparr>))"
  "phased (modifyC (descCacheStore q info d))"
  by (auto simp: within_def keeps_phase_def invalidateAutoTx_def descCacheStore_def split: prod.split)

lemma phase_markBad [phase_ops]: "phased markBadLocked"
  by (auto simp: within_def keeps_phase_def markBadLocked_def run_wire split: prod.split)

lemma phase_handle [phase_ops]:
  "phased (handleErrorLocked env b e)" "phased (handleRetryableErrorLocked env e)" "phased (handleFatalErrorLocked env e)"
  unfolding handleErrorLocked_def handleRetryableErrorLocked_def handleFatalErrorLocked_def by (intro phase_ops)+

lemma phase_fail [phase_ops]: "phased (failRetryable env e)" "phased (failFatal env e)" "phased (noteFatal env r)"
  unfolding failRetryable_def failFatal_def noteFatal_def by (intro phase_ops)+

lemma phase_enter [phase_ops]: "phased (enter ctx)" "phased (enterStmt ctx s)"
  unfolding enter_def enterStmt_def by (intro phase_ops)+

lemma phase_tx [phase_ops]: "phased (getAutoTx env)" "phased (acquireTx env)" "phased commitAutoTx" "phased (whenAuto b)"
proof -
  show g: "phased (getAutoTx env)" unfolding getAutoTx_def by (intro phase_ops)
  show "phased (acquireTx env)" unfolding acquireTx_def by (intro phase_ops g)
qed (unfold commitAutoTx_def whenAuto_def, (intro phase_ops)+)

lemma phase_retry [phase_ops]: "phased m \<Longrightarrow> phased (retry env m)" "phased m \<Longrightarrow> phased (fatal env b m)"
  unfolding retry_def fatal_def by (intro phase_ops | assumption)+

lemma phase_onStmt [phase_ops]: "phased m \<Longrightarrow> (\<And>x. phased (k x)) \<Longrightarrow> phased (onStmt s m k)"
  unfolding onStmt_def by (intro phase_ops)

section \<open>Blobs, statements and result sets\<close>

lemma phase_named_blobs [phase_ops]: "phased (named_blobs env tx i cols vals)"
  by (induction cols arbitrary: i vals) (auto intro!: phase_ops split: option.split sum.split)

lemma phase_blob_cells [phase_ops]: "phased (blob_cells env tx ci cols row)"
  by (induction cols arbitrary: ci row) (auto intro!: phase_ops split: gval.split)

lemma phase_blobs [phase_ops]: "phased (materializeNamedBlobs env tx cols vals)" "phased (materializeBlobRowsLocked env tx outs rs)"
  by (simp add: materializeNamedBlobs_def phase_named_blobs) (induction rs; auto intro!: phase_ops)

lemma phase_parts [phase_ops]:
  "phased (describeOrRecycle env h info items)" "phased (rowsAffectedResult env h sty)" "phased (dropStatement h)"
  unfolding describeOrRecycle_def rowsAffectedResult_def dropStatement_def by (intro phase_ops)+

lemma phase_adhoc [phase_ops]:
  "phased (dropAndFail env b h e)" "phased (prepareAdhoc env b tx q items)" "phased (describeCached env q h info)"
  "phased (finishExec env h sty)"
  unfolding dropAndFail_def prepareAdhoc_def describeCached_def finishExec_def by (intro phase_ops)+

lemma phase_run [phase_ops]:
  "phased (encodeAdhoc env b tx h ins args)" "phased (runExec env b tx h sty blr params)" "phased (runQuery env b tx h sty outs blr params)"
  unfolding encodeAdhoc_def runExec_def runQuery_def Let_def by (intro phase_ops)+

lemma phase_conn_ops:
  "phased (ConnPrepareContext env ctx q)" "phased (ConnExecContext env ctx q args)" "phased (ConnQueryContext env ctx q args)"
  "phased (ConnPing env)"
  unfolding ConnPrepareContext_def ConnExecContext_def ConnQueryContext_def ConnPing_def pingLocked_def by (intro phase_ops)+

lemma phase_stmt_parts [phase_ops]:
  "phased (stmtBlobs env b tx ins args)" "phased (stmtFinish env b tx s bp)" "phased (stmtQueryRun env b tx s bp)"
  unfolding stmtBlobs_def stmtFinish_def stmtQueryRun_def Let_def by (intro phase_ops)+

lemma phase_stmtEncode [phase_ops]: "(\<And>bp s'. phased (k bp s')) \<Longrightarrow> phased (stmtEncode env b s args k)"
  unfolding stmtEncode_def Let_def by (intro phase_ops)

lemma phase_stmt_ops:
  "phased (StmtExecContext env ctx args s)" "phased (StmtQueryContext env ctx args s)" "phased (StmtClose env s)"
  unfolding StmtExecContext_def StmtQueryContext_def StmtClose_def Let_def by (intro phase_ops)+

lemma phase_rows_ops: "phased (RowsClose env r)" "phased (RowsNext env cx dest r)"
  unfolding RowsClose_def RowsNext_def RowsFetch_def Let_def by (intro phase_ops)+

section \<open>Simulation\<close>

lemma keeps_session: "keeps_phase c c' \<Longrightarrow> session_of c' = session_of c \<or> session_of c' = retire (session_of c)"
  by (auto simp: keeps_phase_def session_of_def retire_def)

lemma work_simulated:
  assumes "keeps_phase c c'" and "c_closed c \<or> c_bad c \<Longrightarrow> \<not> ok \<and> c' = c"
  shows "session_step (Work ok) (session_of c) (session_of c')"
proof (cases "usable (session_of c)")
  case True
  with keeps_session [OF assms(1)] show ?thesis by (auto intro: work work_lost)
next
  case False
  with assms(2) have "\<not> ok" "c' = c" by (simp_all add: usable_session)
  with False show ?thesis by (simp add: work_refused)
qed

lemma tail_simulated: "keeps_phase c c' \<Longrightarrow> session_step Tail (session_of c) (session_of c')"
  by (drule keeps_session) (auto intro: tail tail_lost)

text \<open>A transaction that fails to start leaves the phase alone.\<close>

definition failing :: "'a cop \<Rightarrow> bool" where
  "failing m \<longleftrightarrow> (\<forall>c e c'. run_state m c = (Inl e, c') \<longrightarrow> keeps_phase c c')"

lemma failing_phased: "phased m \<Longrightarrow> failing m"
  by (simp add: failing_def) (blast dest: phasedD)

lemma failing_bind:
  assumes "phased m" and "\<And>x. failing (k x)"
  shows "failing (bindE m k)"
  unfolding failing_def
proof (intro allI impI)
  fix c e c' assume r: "run_state (bindE m k) c = (Inl e, c')"
  obtain y c1 where y: "run_state m c = (y, c1)" by (metis surj_pair)
  note c1 = phasedD [OF assms(1) y]
  show "keeps_phase c c'"
  proof (cases y)
    case (Inr x)
    then have "keeps_phase c1 c'" using r y assms(2) [of x] by (simp add: failing_def)
    with c1 show ?thesis by (rule phases.compose)
  qed (use r y c1 in simp)
qed

lemma failing_try:
  assumes "phased m" and "\<And>x. failing (k x)"
  shows "failing (tryE m k)"
  unfolding failing_def
proof (intro allI impI)
  fix c e c' assume r: "run_state (tryE m k) c = (Inl e, c')"
  obtain y c1 where y: "run_state m c = (y, c1)" by (metis surj_pair)
  then have "keeps_phase c1 c'" using r assms(2) [of y] by (simp add: failing_def tryE_def)
  with phasedD [OF assms(1) y] show "keeps_phase c c'" by (rule phases.compose)
qed

lemma failing_case_sum: "(\<And>e. failing (f e)) \<Longrightarrow> (\<And>a. failing (g a)) \<Longrightarrow> failing (case x of Inl e \<Rightarrow> f e | Inr a \<Rightarrow> g a)"
  by (cases x) simp_all

lemma failing_case_option: "failing m \<Longrightarrow> (\<And>a. failing (g a)) \<Longrightarrow> failing (case x of None \<Rightarrow> m | Some a \<Rightarrow> g a)"
  by (cases x) simp_all

lemma failing_set: "failing (bindE (modifyC f) (\<lambda>_. okE y))"
  by (simp add: failing_def)

lemma failing_begin: "failing (ConnBeginTx env ctx opts)"
  unfolding ConnBeginTx_def
  by (intro failing_bind failing_case_sum failing_case_option failing_try failing_set phase_ops failing_phased)

lemma fail_never: "run_state (failRetryable env e) c \<noteq> (Inr x, c')" "run_state (failFatal env e) c \<noteq> (Inr x, c')"
  by (metis fail_isl(1) fst_conv sum.disc(2), metis fail_isl(2) fst_conv sum.disc(2))

lemma begin_done:
  assumes "run_state (ConnBeginTx env ctx opts) c = (Inr tx, c')"
  shows "usable (session_of c)" and "session_of c' = (session_of c)\<lparr>ss_phase := tx_phase (tx_handle tx)\<rparr>"
proof -
  show u: "usable (session_of c)"
    using assms refused_entry(4) [of c env ctx opts] by (auto simp: usable_session)
  obtain y c1 where y: "run_state commitAutoTx c = (y, c1)" by (metis surj_pair)
  then have c1: "c_bad c1 = c_bad c" "c_closed c1 = c_closed c"
    by (auto simp: commitAutoTx_def invalidateAutoTx_def run_wire split: if_splits prod.splits)
  obtain tpb where tpb: "buildTPB opts = Inr tpb" and y0: "y = Inr None" and ctx: "ctx = None"
    using assms u y by (auto simp: fail_never ConnBeginTx_def enter_def usable_session split: sum.splits option.splits)
  obtain z c2 where z: "run_state (wire (Transaction tpb)) c1 = (z, c2)" by (metis surj_pair)
  then have c2: "c_bad c2 = c_bad c1" "c_closed c2 = c_closed c1" by (auto simp: run_wire split: prod.splits)
  have "\<exists>h. z = Inr h \<and> tx_handle tx = h \<and> c' = c2\<lparr>c_activeTx := h\<rparr>"
    using assms u y y0 tpb ctx z by (auto simp: fail_never ConnBeginTx_def enter_def usable_session split: sum.splits)
  then show "session_of c' = (session_of c)\<lparr>ss_phase := tx_phase (tx_handle tx)\<rparr>"
    using c1 c2 u [unfolded usable_session] by (auto simp: session_of_def)
qed

lemma begin_not_done: "run_state (ConnBeginTx env ctx opts) c = (Inr tx, c') \<Longrightarrow> \<not> tx_done tx"
  by (auto simp: ConnBeginTx_def fail_never split: sum.splits option.splits prod.splits)

lemma end_clears:
  assumes "\<not> tx_done tx"
  shows "c_activeTx (snd (run_state (endTx env op tx) c)) = 0"
proof -
  let ?rest = "withC (\<lambda>c. if c_closed c \<or> c_bad c then throwE ErrBadConn
      else tryE (wire (op (tx_handle tx))) (\<lambda>r. case r of Inl e \<Rightarrow> failFatal env e | Inr _ \<Rightarrow> okE ()))"
  have "c_activeTx c = 0 \<Longrightarrow> c_activeTx (snd (run_state (failFatal env e :: unit cop) c)) = 0" for e c
    by (auto simp: failFatal_def handleFatalErrorLocked_def handleErrorLocked_def markBadLocked_def run_wire split: prod.splits)
  then have "c_activeTx c = 0 \<Longrightarrow> c_activeTx (snd (run_state ?rest c)) = 0" for c
    by (auto simp: run_wire split: sum.splits prod.splits)
  from this [of "c\<lparr>c_activeTx := 0\<rparr>"] assms show ?thesis by (simp add: endTx_def split_beta)
qed

lemma end_simulated:
  assumes "run_state (endTx env op tx) c = (t, c')"
  shows "session_step (EndTx (tx_done tx)) (session_of c) (session_of c')"
proof (cases "tx_done tx")
  case True
  then show ?thesis using assms by (simp add: endTx_def over)
next
  case False
  let ?c1 = "c\<lparr>c_activeTx := 0\<rparr>"
  have "phased (withC (\<lambda>c. if c_closed c \<or> c_bad c then throwE ErrBadConn
      else tryE (wire (op (tx_handle tx))) (\<lambda>r. case r of Inl e \<Rightarrow> failFatal env e | Inr _ \<Rightarrow> okE ())))"
    by (intro phase_ops)
  from withinD [OF this prod.collapse [symmetric], of ?c1] assms False have "keeps_phase ?c1 c'"
    by (simp add: endTx_def split: prod.splits)
  from keeps_session [OF this] False show ?thesis
    using ended [of "session_of c"] end_lost [of "session_of c"] by (auto simp: session_of_def retire_def tx_phase_def)
qed

lemma reset_simulated:
  assumes "run_state ConnResetSession c = (r, c')"
  shows "session_step (Reset (succeeded r)) (session_of c) (session_of c')"
proof (cases "usable (session_of c)")
  case False
  then show ?thesis using assms refused_entry(6) [of c] reset_refused [of "session_of c"] by (auto simp: usable_session)
next
  case True
  show ?thesis
  proof (cases "c_activeTx c = 0")
    case False
    with True assms have "isl r" "c_bad c'" "c_closed c' = c_closed c"
      by (auto simp: ConnResetSession_def usable_session markBadLocked_def run_wire split: prod.splits)
    then have "\<not> succeeded r" "session_of c' = retire (session_of c)" by (auto simp: session_of_def retire_def)
    moreover have "ss_phase (session_of c) = Explicit (c_activeTx c)"
      using True [unfolded usable_session] False by (simp add: session_of_def tx_phase_def)
    ultimately show ?thesis using reset_left_over [OF True] by simp
  qed (use True assms in \<open>auto simp: ConnResetSession_def usable_session session_of_def tx_phase_def usable_def intro!: reset\<close>)
qed

lemma close_simulated:
  assumes "run_state ConnClose c = (r, c')"
  shows "session_of c' = (session_of c)\<lparr>ss_closed := True\<rparr>"
  using assms
  by (auto simp: ConnClose_def commitAutoTx_def invalidateAutoTx_def run_wire session_of_def split: if_splits prod.splits)

lemma driver_call_simulated: "driver_call env l c c' \<Longrightarrow> session_step l (session_of c) (session_of c')"
proof (induction rule: driver_call.induct)
  case (call_prepare ctx query c r c')
  then show ?case using phasedD [OF phase_conn_ops(1)] refused_entry(1) [of c env ctx query] by (intro work_simulated) auto
next
  case (call_exec ctx query args c r c')
  then show ?case using phasedD [OF phase_conn_ops(2)] refused_entry(2) [of c env ctx query args] by (intro work_simulated) auto
next
  case (call_query ctx query args c r c')
  then show ?case using phasedD [OF phase_conn_ops(3)] refused_entry(3) [of c env ctx query args] by (intro work_simulated) auto
next
  case (call_ping c r c')
  then show ?case using phasedD [OF phase_conn_ops(4)] refused_entry(5) [of c env] by (intro work_simulated) auto
next
  case (call_stmt_exec ctx args s c r s' c')
  then show ?case using phasedD [OF phase_stmt_ops(1)] refused_entry(7) [of c env ctx args s] by (intro work_simulated) auto
next
  case (call_stmt_query ctx args s c r s' c')
  then show ?case using phasedD [OF phase_stmt_ops(2)] refused_entry(8) [of c env ctx args s] by (intro work_simulated) auto
next
  case (call_begin ctx opts c tx c')
  from begin_done [OF this] show ?case by (simp add: begun)
next
  case (call_no_begin ctx opts c e c')
  then have k: "keeps_phase c c'" using failing_begin [of env ctx opts] by (auto simp: failing_def)
  have r: "\<not> usable (session_of c) \<Longrightarrow> c' = c"
    using call_no_begin refused_entry(4) [of c env ctx opts] by (auto simp: usable_session)
  show ?case using keeps_session [OF k] r begin_failed begin_lost by (cases "usable (session_of c)") auto
qed (auto simp: TxCommit_def TxRollback_def close_simulated
    intro: tail_simulated end_simulated reset_simulated closed phasedD [OF phase_stmt_ops(3)] phasedD [OF phase_rows_ops(1)] phasedD [OF phase_rows_ops(2)])

lemma driver_run_simulated: "driver_run env ls c c' \<Longrightarrow> session_run ls (session_of c) (session_of c')"
  by (induction rule: driver_run.induct) (auto intro: session_run.intros driver_call_simulated)

end
