(* ===== verification/DriverCancel.thy ===== *)
theory DriverCancel
  imports WireSync "HOL-Library.Sublist"
begin

text \<open>
  Cancellation of a running operation (\<^verbatim>\<open>withCancel\<close> of \<^verbatim>\<open>connection.go\<close>).  While an operation runs, a goroutine waits for its
  context; when the context ends it sends op_cancel on the same socket (\<^verbatim>\<open>Cancel\<close> of \<^verbatim>\<open>database.go\<close>), gives the server a
  grace period and then moves the read deadline into the past so that a blocked read returns.  Both goroutines
  write through the stream cipher, which encrypts into a buffer and then writes to the socket; the mutex \<^verbatim>\<open>writeMu\<close>
  (taken in \<^verbatim>\<open>flush\<close> and in \<^verbatim>\<open>Cancel\<close>) keeps the two parts together.

  The interleaving is a step relation: each step is one indivisible action of one of the two goroutines or the end
  of the context.  The operation is its requests, each followed by a wait for an answer, which comes when the server
  answers (\<open>rc_answers\<close>); it may give up after any answer.  A \<^verbatim>\<open>select\<close> with several ready cases takes any of them.
\<close>

section \<open>State\<close>

datatype owner = Operation | Canceller

datatype op_phase = OpReady | OpLocked | OpHolding "byte list" | OpBlocked | OpStopping | OpReturned

datatype can_phase = CanWatching | CanCancelling | CanLocked | CanHolding "byte list" | CanGrace | CanFinished

record race =
  rc_conn :: Conn
  rc_todo :: "byte list list"
  rc_op :: op_phase
  rc_can :: can_phase
  rc_lock :: "owner option"
  rc_ctx :: bool
  rc_deadline :: bool
  rc_answers :: bool
  rc_log :: "(owner \<times> byte list) list"

definition withCancel :: "Conn \<Rightarrow> byte list list \<Rightarrow> bool \<Rightarrow> race" where
  "withCancel c requests answers =
     \<lparr>rc_conn = c, rc_todo = requests, rc_op = OpReady, rc_can = CanWatching, rc_lock = None, rc_ctx = False,
      rc_deadline = False, rc_answers = answers, rc_log = []\<rparr>"

text \<open>The channel \<^verbatim>\<open>done\<close> is closed when the operation calls \<^verbatim>\<open>stop\<close>.\<close>

definition rc_done :: "race \<Rightarrow> bool" where
  "rc_done s \<longleftrightarrow> rc_op s = OpStopping \<or> rc_op s = OpReturned"

section \<open>The two halves of a write\<close>

definition encrypt_out :: "byte list \<Rightarrow> Conn \<Rightarrow> byte list \<times> Conn" where
  "encrypt_out bs c = (case cryptW c of
     None \<Rightarrow> (bs, c)
   | Some wc \<Rightarrow> (let (es, wc') = XORKeyStream wc bs in (es, c\<lparr>cryptW := Some wc'\<rparr>)))"

lemma Conn_Write_halves:
  assumes "bs \<noteq> []"
  shows "Conn_Write bs c = (case encrypt_out bs c of (es, c') \<Rightarrow> sock_write es c')"
  using assms
  by (auto simp: Conn_Write_def encrypt_out_def sock_write_def XORKeyStream_def Let_def split: option.splits list.splits prod.splits)

definition cancel_packet :: "byte list" where
  "cancel_packet = Bytes (fold put_field [FInt32 opCancel, FInt32 CancelRaise] NewWriter)"

lemma cancel_packet_image: "cancel_packet = putUint32 opCancel @ putUint32 CancelRaise"
proof -
  have "wf_writer NewWriter" "Bytes NewWriter = []" by (simp_all add: wf_writer_def NewWriter_def Bytes_def defaultWriteBufSize_def)
  then show ?thesis using pooled.write_fields_content [of NewWriter "[FInt32 opCancel, FInt32 CancelRaise]"]
    unfolding cancel_packet_def fold_put_field by simp
qed

text \<open>\<^verbatim>\<open>Cancel\<close> writes the packet and nothing else.\<close>

lemma Cancel_packet:
  "run_state (Cancel CancelRaise) wc = (let (err, c') = Conn_Write cancel_packet (wc_conn wc)
     in (case err of Some e \<Rightarrow> Inl e | None \<Rightarrow> Inr (), wc\<lparr>wc_reader := (wc_reader wc)\<lparr>rd := c'\<rparr>\<rparr>))"
proof -
  let ?w = "fold put_field [FInt32 opCancel, FInt32 CancelRaise] NewWriter"
  have "cancel_packet \<noteq> []" by (simp add: cancel_packet_image putUint32_def)
  then have "wn ?w \<noteq> 0" "take (wn ?w) (wbuf ?w) = cancel_packet" by (auto simp: cancel_packet_def Bytes_def)
  then have "Flush ?w (wc_conn wc) = (case Conn_Write cancel_packet (wc_conn wc) of (err, c') \<Rightarrow> (err, ?w\<lparr>wn := 0\<rparr>, c'))"
    unfolding Flush_def by (simp only: if_False Let_def)
  then show ?thesis by (simp only: Cancel_def) (simp add: Let_def split: prod.split)
qed

section \<open>Steps\<close>

inductive cancel_step :: "race \<Rightarrow> race \<Rightarrow> bool" where
  op_lock: "rc_op s = OpReady \<Longrightarrow> rc_todo s \<noteq> [] \<Longrightarrow> rc_lock s = None
     \<Longrightarrow> cancel_step s (s\<lparr>rc_op := OpLocked, rc_lock := Some Operation\<rparr>)"
| op_encrypt: "rc_op s = OpLocked \<Longrightarrow> rc_todo s = p # ps \<Longrightarrow> encrypt_out p (rc_conn s) = (es, c')
     \<Longrightarrow> cancel_step s (s\<lparr>rc_conn := c', rc_op := OpHolding es\<rparr>)"
| op_send: "rc_op s = OpHolding es \<Longrightarrow> rc_todo s = p # ps \<Longrightarrow> sock_write es (rc_conn s) = (err, c')
     \<Longrightarrow> cancel_step s (s\<lparr>rc_conn := c', rc_op := OpBlocked, rc_lock := None, rc_todo := ps, rc_log := rc_log s @ [(Operation, p)]\<rparr>)"
| op_answer: "rc_op s = OpBlocked \<Longrightarrow> rc_answers s \<Longrightarrow> cancel_step s (s\<lparr>rc_op := OpReady\<rparr>)"
| op_timeout: "rc_op s = OpBlocked \<Longrightarrow> rc_deadline s \<Longrightarrow> cancel_step s (s\<lparr>rc_op := OpStopping\<rparr>)"
| op_stop: "rc_op s = OpReady \<Longrightarrow> cancel_step s (s\<lparr>rc_op := OpStopping\<rparr>)"
| op_return: "rc_op s = OpStopping \<Longrightarrow> rc_can s = CanFinished \<Longrightarrow> cancel_step s (s\<lparr>rc_op := OpReturned\<rparr>)"
| ctx_end: "\<not> rc_ctx s \<Longrightarrow> cancel_step s (s\<lparr>rc_ctx := True\<rparr>)"
| can_cancel: "rc_can s = CanWatching \<Longrightarrow> rc_ctx s \<Longrightarrow> cancel_step s (s\<lparr>rc_can := CanCancelling\<rparr>)"
| can_leave: "rc_can s = CanWatching \<Longrightarrow> rc_done s \<Longrightarrow> cancel_step s (s\<lparr>rc_can := CanFinished\<rparr>)"
| can_lock: "rc_can s = CanCancelling \<Longrightarrow> rc_lock s = None
     \<Longrightarrow> cancel_step s (s\<lparr>rc_can := CanLocked, rc_lock := Some Canceller\<rparr>)"
| can_encrypt: "rc_can s = CanLocked \<Longrightarrow> encrypt_out cancel_packet (rc_conn s) = (es, c')
     \<Longrightarrow> cancel_step s (s\<lparr>rc_conn := c', rc_can := CanHolding es\<rparr>)"
| can_send: "rc_can s = CanHolding es \<Longrightarrow> sock_write es (rc_conn s) = (err, c')
     \<Longrightarrow> cancel_step s (s\<lparr>rc_conn := c', rc_can := CanGrace, rc_lock := None, rc_log := rc_log s @ [(Canceller, cancel_packet)]\<rparr>)"
| can_interrupted: "rc_can s = CanGrace \<Longrightarrow> rc_done s \<Longrightarrow> cancel_step s (s\<lparr>rc_can := CanFinished\<rparr>)"
| can_grace_over: "rc_can s = CanGrace \<Longrightarrow> cancel_step s (s\<lparr>rc_deadline := True, rc_can := CanFinished\<rparr>)"

section \<open>Invariant\<close>

definition by_owner :: "owner \<Rightarrow> (owner \<times> byte list) list \<Rightarrow> byte list list" where
  "by_owner ow log = map snd (filter (\<lambda>e. fst e = ow) log)"

fun op_holds :: "op_phase \<Rightarrow> bool" where
  "op_holds OpLocked = True" | "op_holds (OpHolding _) = True" | "op_holds _ = False"

fun can_holds :: "can_phase \<Rightarrow> bool" where
  "can_holds CanLocked = True" | "can_holds (CanHolding _) = True" | "can_holds _ = False"

text \<open>The packet that is encrypted but not yet written, in clear and encrypted.\<close>

definition in_flight :: "race \<Rightarrow> byte list \<times> byte list" where
  "in_flight s = (case rc_op s of
     OpHolding es \<Rightarrow> (hd (rc_todo s), es)
   | _ \<Rightarrow> (case rc_can s of CanHolding es \<Rightarrow> (cancel_packet, es) | _ \<Rightarrow> ([], [])))"

definition plain :: "race \<Rightarrow> byte list" where
  "plain s = concat (map snd (rc_log s)) @ fst (in_flight s)"

definition lock_inv :: "race \<Rightarrow> bool" where
  "lock_inv s \<longleftrightarrow> (rc_lock s = Some Operation) = op_holds (rc_op s) \<and> (rc_lock s = Some Canceller) = can_holds (rc_can s)
     \<and> (op_holds (rc_op s) \<longrightarrow> rc_todo s \<noteq> []) \<and> (rc_op s = OpReturned \<longrightarrow> rc_can s = CanFinished)
     \<and> (rc_can s = CanFinished \<longrightarrow> rc_deadline s \<or> rc_done s)"

definition log_inv :: "byte list list \<Rightarrow> race \<Rightarrow> bool" where
  "log_inv reqs s \<longleftrightarrow> by_owner Operation (rc_log s) @ rc_todo s = reqs \<and> by_owner Canceller (rc_log s) \<in> {[], [cancel_packet]}
     \<and> (rc_can s \<noteq> CanGrace \<and> rc_can s \<noteq> CanFinished \<longrightarrow> by_owner Canceller (rc_log s) = [])"

definition bytes_inv :: "Conn \<Rightarrow> race \<Rightarrow> bool" where
  "bytes_inv c0 s \<longleftrightarrow> \<not> conn_closed (rc_conn s) \<and> conn_wfail (rc_conn s) = []
     \<and> conn_out (rc_conn s) @ snd (in_flight s) = conn_out c0 @ encrypted c0 (plain s)
     \<and> cryptW (rc_conn s) = map_option (\<lambda>k. k\<lparr>kpos := kpos k + length (plain s)\<rparr>) (cryptW c0)"

definition race_inv :: "Conn \<Rightarrow> byte list list \<Rightarrow> race \<Rightarrow> bool" where
  "race_inv c0 reqs s \<longleftrightarrow> lock_inv s \<and> log_inv reqs s \<and> bytes_inv c0 s"

lemma race_inv_start: "\<not> conn_closed c \<Longrightarrow> conn_wfail c = [] \<Longrightarrow> race_inv c reqs (withCancel c reqs answers)"
  by (cases "cryptW c")
    (auto simp: race_inv_def lock_inv_def log_inv_def bytes_inv_def withCancel_def by_owner_def in_flight_def plain_def encrypted_def XORKeyStream_def)

lemma encrypt_out_step:
  assumes "encrypt_out p c = (es, c')" and "cryptW c = map_option (\<lambda>k. k\<lparr>kpos := kpos k + length xs\<rparr>) (cryptW c0)"
  shows "encrypted c0 (xs @ p) = encrypted c0 xs @ es"
    and "cryptW c' = map_option (\<lambda>k. k\<lparr>kpos := kpos k + length (xs @ p)\<rparr>) (cryptW c0)"
    and "conn_out c' = conn_out c" and "conn_closed c' = conn_closed c" and "conn_wfail c' = conn_wfail c"
  using assms
  by (cases "cryptW c0"; auto simp: encrypt_out_def encrypted_def XORKeyStream_def xor_at_append ac_simps)+

lemma sock_write_step:
  assumes "sock_write es c = (err, c')" and "\<not> conn_closed c" and "conn_wfail c = []"
  shows "conn_out c' = conn_out c @ es" and "\<not> conn_closed c'" and "conn_wfail c' = []" and "cryptW c' = cryptW c"
  using assms by (auto simp: sock_write_def)

lemma in_flight_free: "\<not> op_holds (rc_op s) \<Longrightarrow> \<not> can_holds (rc_can s) \<Longrightarrow> in_flight s = ([], [])"
  by (cases "rc_op s"; cases "rc_can s") (simp_all add: in_flight_def)

lemma in_flight_locked: "rc_op s = OpLocked \<Longrightarrow> \<not> can_holds (rc_can s) \<Longrightarrow> in_flight s = ([], [])"
  "rc_can s = CanLocked \<Longrightarrow> \<not> op_holds (rc_op s) \<Longrightarrow> in_flight s = ([], [])"
  by (cases "rc_can s"; simp add: in_flight_def) (cases "rc_op s"; simp add: in_flight_def)

lemma in_flight_holding: "rc_op s = OpHolding es \<Longrightarrow> in_flight s = (hd (rc_todo s), es)"
  "rc_can s = CanHolding es \<Longrightarrow> \<not> op_holds (rc_op s) \<Longrightarrow> in_flight s = (cancel_packet, es)"
  by (simp add: in_flight_def) (cases "rc_op s"; simp add: in_flight_def)

text \<open>The two halves of a write, for either goroutine.\<close>

lemma bytes_encrypt:
  assumes "bytes_inv c0 s" and "in_flight s = ([], [])" and "encrypt_out p (rc_conn s) = (es, c')"
    and "rc_conn s' = c'" and "rc_log s' = rc_log s" and "in_flight s' = (p, es)"
  shows "bytes_inv c0 s'"
proof -
  have "cryptW (rc_conn s) = map_option (\<lambda>k. k\<lparr>kpos := kpos k + length (plain s)\<rparr>) (cryptW c0)" using assms(1) by (simp add: bytes_inv_def)
  note e = encrypt_out_step [OF assms(3) this]
  have "plain s' = plain s @ p" using assms(2,5,6) by (simp add: plain_def)
  then show ?thesis using assms e by (simp add: bytes_inv_def)
qed

lemma bytes_send:
  assumes "bytes_inv c0 s" and "in_flight s = (p, es)" and "sock_write es (rc_conn s) = (err, c')"
    and "rc_conn s' = c'" and "rc_log s' = rc_log s @ [(ow, p)]" and "in_flight s' = ([], [])"
  shows "bytes_inv c0 s'"
proof -
  have "\<not> conn_closed (rc_conn s)" "conn_wfail (rc_conn s) = []" using assms(1) by (simp_all add: bytes_inv_def)
  note w = sock_write_step [OF assms(3) this]
  have "plain s' = plain s" using assms(2,5,6) by (simp add: plain_def)
  then show ?thesis using assms w by (simp add: bytes_inv_def)
qed

lemma bytes_quiet:
  "bytes_inv c0 s \<Longrightarrow> rc_conn s' = rc_conn s \<Longrightarrow> rc_log s' = rc_log s \<Longrightarrow> in_flight s' = in_flight s \<Longrightarrow> bytes_inv c0 s'"
  by (simp add: bytes_inv_def plain_def)

lemma lock_inv_step: "cancel_step s s' \<Longrightarrow> lock_inv s \<Longrightarrow> lock_inv s'"
  by (induction rule: cancel_step.induct) (auto simp: lock_inv_def rc_done_def)

lemma log_inv_step: "cancel_step s s' \<Longrightarrow> log_inv reqs s \<Longrightarrow> log_inv reqs s'"
  by (induction rule: cancel_step.induct) (auto simp: log_inv_def by_owner_def)

lemma bytes_op_encrypt:
  assumes "lock_inv s" and "bytes_inv c0 s" and "rc_op s = OpLocked" and "rc_todo s = p # ps" and "encrypt_out p (rc_conn s) = (es, c')"
  shows "bytes_inv c0 (s\<lparr>rc_conn := c', rc_op := OpHolding es\<rparr>)"
proof -
  have "\<not> can_holds (rc_can s)" using assms(1,3) by (auto simp: lock_inv_def)
  with assms(3) have "in_flight s = ([], [])" by (rule in_flight_locked)
  moreover have "in_flight (s\<lparr>rc_conn := c', rc_op := OpHolding es\<rparr>) = (p, es)" using assms(4) by (simp add: in_flight_def)
  ultimately show ?thesis by (intro bytes_encrypt [OF assms(2) _ assms(5)]) simp_all
qed

lemma bytes_op_send:
  assumes "lock_inv s" and "bytes_inv c0 s" and "rc_op s = OpHolding es" and "rc_todo s = p # ps" and "sock_write es (rc_conn s) = (err, c')"
  shows "bytes_inv c0 (s\<lparr>rc_conn := c', rc_op := OpBlocked, rc_lock := None, rc_todo := ps, rc_log := rc_log s @ [(Operation, p)]\<rparr>)"
proof -
  have no: "\<not> can_holds (rc_can s)" using assms(1,3) by (auto simp: lock_inv_def)
  have "in_flight s = (p, es)" using assms(3,4) by (simp add: in_flight_def)
  moreover have "in_flight (s\<lparr>rc_conn := c', rc_op := OpBlocked, rc_lock := None, rc_todo := ps, rc_log := rc_log s @ [(Operation, p)]\<rparr>) = ([], [])"
    by (rule in_flight_free) (use no in simp_all)
  ultimately show ?thesis by (intro bytes_send [OF assms(2) _ assms(5), where ow = Operation]) simp_all
qed

lemma bytes_can_encrypt:
  assumes "lock_inv s" and "bytes_inv c0 s" and "rc_can s = CanLocked" and "encrypt_out cancel_packet (rc_conn s) = (es, c')"
  shows "bytes_inv c0 (s\<lparr>rc_conn := c', rc_can := CanHolding es\<rparr>)"
proof -
  have no: "\<not> op_holds (rc_op s)" using assms(1,3) by (auto simp: lock_inv_def)
  from in_flight_locked(2) [OF assms(3) this] have "in_flight s = ([], [])" .
  moreover have "in_flight (s\<lparr>rc_conn := c', rc_can := CanHolding es\<rparr>) = (cancel_packet, es)"
    by (rule in_flight_holding) (use no in simp_all)
  ultimately show ?thesis by (intro bytes_encrypt [OF assms(2) _ assms(4)]) simp_all
qed

lemma bytes_can_send:
  assumes "lock_inv s" and "bytes_inv c0 s" and "rc_can s = CanHolding es" and "sock_write es (rc_conn s) = (err, c')"
  shows "bytes_inv c0 (s\<lparr>rc_conn := c', rc_can := CanGrace, rc_lock := None, rc_log := rc_log s @ [(Canceller, cancel_packet)]\<rparr>)"
proof -
  have no: "\<not> op_holds (rc_op s)" using assms(1,3) by (auto simp: lock_inv_def)
  from in_flight_holding(2) [OF assms(3) this] have "in_flight s = (cancel_packet, es)" .
  moreover have "in_flight (s\<lparr>rc_conn := c', rc_can := CanGrace, rc_lock := None, rc_log := rc_log s @ [(Canceller, cancel_packet)]\<rparr>) = ([], [])"
    by (rule in_flight_free) (use no in simp_all)
  ultimately show ?thesis by (intro bytes_send [OF assms(2) _ assms(4), where ow = Canceller]) simp_all
qed

lemma bytes_inv_step:
  assumes "cancel_step s s'" and "lock_inv s" and "bytes_inv c0 s"
  shows "bytes_inv c0 s'"
  using assms
proof (induction rule: cancel_step.induct)
  case (op_encrypt s p ps es c')
  then show ?case by (blast intro: bytes_op_encrypt)
next
  case (op_send s es p ps err c')
  then show ?case by (blast intro: bytes_op_send)
next
  case (can_encrypt s es c')
  then show ?case by (blast intro: bytes_can_encrypt)
next
  case (can_send s es err c')
  then show ?case by (blast intro: bytes_can_send)
qed (erule bytes_quiet; simp add: in_flight_def split: can_phase.split op_phase.split)+

lemma race_inv_step: "cancel_step s s' \<Longrightarrow> race_inv c0 reqs s \<Longrightarrow> race_inv c0 reqs s'"
  unfolding race_inv_def using lock_inv_step log_inv_step bytes_inv_step by blast

lemma race_inv_run: "(cancel_step ^^ n) s s' \<Longrightarrow> race_inv c0 reqs s \<Longrightarrow> race_inv c0 reqs s'"
  by (induction n arbitrary: s') (auto dest: race_inv_step)

section \<open>What the server reads\<close>

lemma race_packets:
  assumes "race_inv c0 reqs s" and "rc_lock s = None"
  shows "decrypt (cryptW c0) (drop (length (conn_out c0)) (conn_out (rc_conn s))) = concat (map snd (rc_log s))"
proof -
  have "\<not> op_holds (rc_op s)" "\<not> can_holds (rc_can s)" using assms by (simp_all add: race_inv_def lock_inv_def)
  then have "in_flight s = ([], [])" by (rule in_flight_free)
  then have "conn_out (rc_conn s) = conn_out c0 @ encrypted c0 (concat (map snd (rc_log s)))"
    using assms(1) by (simp add: race_inv_def bytes_inv_def plain_def)
  then show ?thesis by (simp add: decrypt_encrypted)
qed

inductive_cases cancel_stepE: "cancel_step s s'"

lemma returned_silent:
  assumes "lock_inv s" and "rc_op s = OpReturned" and "cancel_step s s'"
  shows "rc_conn s' = rc_conn s \<and> rc_op s' = OpReturned"
  using assms(3,1,2) by (cases rule: cancel_stepE) (auto simp: lock_inv_def)

section \<open>Every run ends\<close>

fun op_weight :: "op_phase \<Rightarrow> nat \<Rightarrow> nat" where
  "op_weight OpReady n = 4 * n + 3" | "op_weight OpLocked n = 4 * n + 2" | "op_weight (OpHolding _) n = 4 * n + 1"
| "op_weight OpBlocked n = 4 * n + 4" | "op_weight OpStopping n = 1" | "op_weight OpReturned n = 0"

fun can_weight :: "can_phase \<Rightarrow> nat" where
  "can_weight CanWatching = 5" | "can_weight CanCancelling = 4" | "can_weight CanLocked = 3" | "can_weight (CanHolding _) = 2"
| "can_weight CanGrace = 1" | "can_weight CanFinished = 0"

definition weight :: "race \<Rightarrow> nat" where
  "weight s = op_weight (rc_op s) (length (rc_todo s)) + can_weight (rc_can s) + (if rc_ctx s then 0 else 1)"

lemma weight_step: "cancel_step s s' \<Longrightarrow> weight s' < weight s"
  by (induction rule: cancel_step.induct) (auto simp: weight_def)

lemma weight_run: "(cancel_step ^^ n) s s' \<Longrightarrow> weight s' + n \<le> weight s"
  by (induction n arbitrary: s') (auto dest!: weight_step, fastforce)

definition stuck :: "race \<Rightarrow> bool" where "stuck s \<longleftrightarrow> (\<nexists>s'. cancel_step s s')"

lemma holder_moves:
  assumes "lock_inv s" and "op_holds (rc_op s)"
  shows "\<not> stuck s"
proof -
  obtain p ps where t: "rc_todo s = p # ps" using assms by (cases "rc_todo s") (auto simp: lock_inv_def)
  show ?thesis
  proof (cases "rc_op s")
    case OpLocked
    obtain es c where "encrypt_out p (rc_conn s) = (es, c)" by (metis surj_pair)
    from op_encrypt [OF OpLocked t this] show ?thesis unfolding stuck_def by blast
  next
    case (OpHolding es)
    obtain err c where "sock_write es (rc_conn s) = (err, c)" by (metis surj_pair)
    from op_send [OF OpHolding t this] show ?thesis unfolding stuck_def by blast
  qed (use assms(2) in simp_all)
qed

lemma canceller_moves: "can_holds (rc_can s) \<Longrightarrow> \<not> stuck s"
proof (cases "rc_can s")
  case CanLocked
  obtain es c where "encrypt_out cancel_packet (rc_conn s) = (es, c)" by (metis surj_pair)
  from can_encrypt [OF CanLocked this] show ?thesis unfolding stuck_def by blast
next
  case (CanHolding es)
  obtain err c where "sock_write es (rc_conn s) = (err, c)" by (metis surj_pair)
  from can_send [OF CanHolding this] show ?thesis unfolding stuck_def by blast
qed simp_all

lemma canceller_done:
  assumes "lock_inv s" and "stuck s"
  shows "rc_can s = CanFinished"
proof -
  have no: "\<not> cancel_step s s'" for s' using assms(2) by (simp add: stuck_def)
  have ctx: "rc_ctx s" using no ctx_end by blast
  have "\<not> op_holds (rc_op s)" "\<not> can_holds (rc_can s)" using holder_moves canceller_moves assms by blast+
  then have "rc_lock s \<noteq> Some Operation" "rc_lock s \<noteq> Some Canceller" using assms(1) by (simp_all add: lock_inv_def)
  then have free: "rc_lock s = None" by (metis not_None_eq owner.exhaust)
  show ?thesis
  proof (cases "rc_can s")
    case CanWatching
    from can_cancel [OF this ctx] no show ?thesis by blast
  next
    case CanCancelling
    from can_lock [OF this free] no show ?thesis by blast
  next
    case CanGrace
    from can_grace_over [OF this] no show ?thesis by blast
  qed (use \<open>\<not> can_holds (rc_can s)\<close> in simp_all)
qed

lemma stuck_returned:
  assumes "lock_inv s" and "stuck s"
  shows "rc_op s = OpReturned"
proof -
  have f: "rc_can s = CanFinished" by (rule canceller_done [OF assms])
  have no: "\<not> op_holds (rc_op s)" using holder_moves assms by blast
  have "rc_deadline s" if "rc_op s = OpBlocked" using assms(1) f that by (simp add: lock_inv_def rc_done_def)
  then show ?thesis using assms(2) f no op_stop op_timeout op_return unfolding stuck_def by (cases "rc_op s") auto
qed

end
