(* ===== verification/Driver_Properties.thy ===== *)
theory Driver_Properties
  imports DriverEnds DriverSession Session_Properties DriverCancel
begin

text \<open>
  Properties of the layer that \<^verbatim>\<open>database/sql\<close> calls: connections, statements, transactions, result sets and data
  source names.
\<close>

section \<open>A session\<close>

text \<open>The parameters instantiated, and a server that lets the client in.\<close>

definition demo_drv :: drv where
  "demo_drv = \<lparr>d_tmpl = (\<lambda>_. []), d_lib = \<lparr>fmt_f = (\<lambda>_. ''0''), fmt_g = (\<lambda>_. ''0''), sprintV = (\<lambda>_. []), float_to_int64 = (\<lambda>_. 0),
     float64_of = (\<lambda>_. 0), float32_of = (\<lambda>_. 0), parseFloat = (\<lambda>_. None)\<rparr>, d_xtext = plain_text, d_res = no_zone,
     d_gc = (\<lambda>a b. a + b), d_pool = []\<rparr>"

definition demo_config :: Config where
  "demo_config = defaultConfig\<lparr>dsn_Host := ''localhost'', dsn_Database := ''db'', dsn_User := ''sysdba'', dsn_Password := ''masterkey'',
     dsn_WireCrypt := WireCryptDisabled\<rparr>"

definition demo_accept256 :: accept where "demo_accept256 = demo_accept\<lparr>serverPlugin := PluginSrp256\<rparr>"

definition demo_client :: srpClient where
  "demo_client = newSRPClientWithKey toUpper PluginSrp256 ''sysdba'' ''masterkey'' (BytesToBig (replicate 16 1))"

definition demo_server :: "byte list \<Rightarrow> connect_env" where
  "demo_server bs = demo_env\<lparr>env_dial := (\<lambda>_. Inr (NewConn [Recv bs] []))\<rparr>"

definition login_refused :: srv_resp where "login_refused = (0, 0, [], [WireEntry False gdsIscLogin [] None])"

definition let_in :: "byte list" where "let_in = accept_image opCondAccept 1 demo_accept256 @ enc_resp resp_done @ enc_resp resp_done"

definition keep_out :: "byte list" where "keep_out = accept_image opCondAccept 1 demo_accept256 @ enc_resp login_refused"

lemma demo_accept_ok: "accept_ok demo_accept256" "authenticated demo_accept256 = 0" "serverAuthData demo_accept256 \<noteq> []"
  "serverPlugin demo_accept256 = srp_pluginName demo_client"
  by (simp_all add: demo_accept256_def demo_accept_def accept_ok_def demo_client_def newSRPClientWithKey_def PluginSrp256_def buildServerAuthData_def
      Let_def putLE16_def maxWireBufferLen_def toUpperHex_def BigToBytes_def big_bytes.simps)

lemma demo_client_proof:
  obtains pf srp' where "ComputeProof demo_hash demo_hash (serverAuthData demo_accept256) demo_client = (Inr pf, srp')"
proof -
  let ?A = "ClientPublicKey (BytesToBig (replicate 16 1))"
  have p: "parseServerAuthData (serverAuthData demo_accept256) = Inr ([1, 2], 9)"
    unfolding demo_accept256_def demo_accept_def by (simp add: parseServerAuthData_round_trip)
  have big: "0 \<le> BytesToBig bs" for bs using big_of_bytes_bounds [of bs] by (simp add: BytesToBig_def)
  obtain pa where pa: "Pad ?A = Inr pa"
    by (rule Pad_below [of ?A]) (simp_all add: ClientPublicKey_def bigExp_power reduced big)
  obtain pb where "Pad 9 = Inr pb" by (rule Pad_below [of 9]) (simp_all add: srp_N_def)
  with p pa that show ?thesis
    by (simp add: ComputeProof_def clientSessionKey_def scramble_def demo_client_def newSRPClientWithKey_def Let_def)
qed

lemma demo_dial:
  "ConnectContext (demo_server bs) (protocolConfig demo_config)
   = (case run_state (handshake (demo_server bs) (protocolConfig demo_config) demo_client) (scripted bs) of (res, wc) \<Rightarrow> (res, Some wc))"
proof -
  have "withDefaults (protocolConfig demo_config) = protocolConfig demo_config"
    by (simp add: withDefaults_def protocolConfig_def demo_config_def defaultConfig_def DefaultPluginList_def PluginSrp256_def)
  moreover have "preferredPlugin (cfg_AuthPluginList (protocolConfig demo_config)) = PluginSrp256"
    by (simp add: preferredPlugin_def protocolConfig_def DefaultPluginList_def PluginSrp256_def PluginSrp_def)
  moreover have "newSRPClient (env_upper (demo_server bs)) (env_random (demo_server bs)) PluginSrp256 (cfg_User (protocolConfig demo_config))
      (cfg_Password (protocolConfig demo_config)) = Inr demo_client"
    by (simp add: newSRPClient_def GeneratePrivateKey_def demo_server_def demo_env_def demo_client_def protocolConfig_def demo_config_def)
  moreover have "env_dial (demo_server bs) addr = Inr (NewConn [Recv bs] [])" for addr by (simp add: demo_server_def)
  ultimately show ?thesis by (simp add: ConnectContext_def Let_def scripted_def)
qed

lemma demo_hashes: "env_sha1 (demo_server bs) = demo_hash" "env_sha256 (demo_server bs) = demo_hash"
  by (simp_all add: demo_server_def demo_env_def)

lemma demo_in:
  obtains wc where "ConnectContext (demo_server let_in) (protocolConfig demo_config) = (Inr (), Some wc)" and "in_step wc [] [] []"
proof -
  obtain pf srp' where pf: "ComputeProof demo_hash demo_hash (serverAuthData demo_accept256) demo_client = (Inr pf, srp')"
    by (rule demo_client_proof)
  have "serves (scripted let_in) [] (accept_image opCondAccept 1 demo_accept256 @ enc_resp resp_done @ enc_resp resp_done @ [])"
    by (rule serves_scripted) (simp_all add: let_in_def)
  from handshake_direct [OF this _ _ demo_accept_ok, of "demo_server let_in" pf srp' "protocolConfig demo_config"] pf
  obtain wc where "run_state (handshake (demo_server let_in) (protocolConfig demo_config) demo_client) (scripted let_in) = (Inr (), wc)"
    "in_step wc [] [] []"
    by (auto simp: demo_hashes protocolConfig_def demo_config_def)
  then show ?thesis using that by (simp add: demo_dial)
qed

lemma demo_out: "\<exists>e wc. ConnectContext (demo_server keep_out) (protocolConfig demo_config) = (Inl e, wc) \<and> isTransientAuthFailure e"
proof -
  obtain pf srp' where pf: "ComputeProof demo_hash demo_hash (serverAuthData demo_accept256) demo_client = (Inr pf, srp')"
    by (rule demo_client_proof)
  have ok: "resp_ok login_refused" by (simp add: login_refused_def entry_ok_def gdsIscLogin_def)
  have err: "snd (resp_result login_refused) = Some (StatusErr (status_value [WireEntry False gdsIscLogin [] None]))"
    by (simp add: login_refused_def response_error_def gdsIscLogin_def)
  have "serves (scripted keep_out) [] (accept_image opCondAccept 1 demo_accept256 @ enc_resp login_refused @ [])"
    by (rule serves_scripted) (simp_all add: keep_out_def login_refused_def enc_response_def putUint32_def)
  from handshake_refused [OF this _ demo_accept_ok _ ok err, of "demo_server keep_out" pf srp' "protocolConfig demo_config"] pf
  have "fst (run_state (handshake (demo_server keep_out) (protocolConfig demo_config) demo_client) (scripted keep_out))
      = Inl (Wrap ''op_cont_auth'' (StatusErr (status_value [WireEntry False gdsIscLogin [] None])))"
    by (simp add: demo_hashes)
  moreover have "isTransientAuthFailure (Wrap ''op_cont_auth'' (StatusErr (status_value [WireEntry False gdsIscLogin [] None])))"
    by (simp add: isTransientAuthFailure_def status_value_def GDSCode_def HasError_def entry_value_def gdsIscLogin_def)
  ultimately show ?thesis unfolding demo_dial by (auto split: prod.split)
qed

section \<open>Connections\<close>

text \<open>C2. In every state that calls of \<^verbatim>\<open>database/sql\<close> can bring a connection to, in any order, with any arguments and any
  behaviour of the server: the wire connection is well formed and its pool of handles within bounds, an explicit
  transaction excludes an auto-commit one, a bad connection holds no transaction, and a bad or closed one has closed
  its socket.\<close>

theorem connection_invariant:
  assumes "newConnection envs waits cfg = Inr (Some c0)" and "(driver_step env)\<^sup>*\<^sup>* c0 c"
  shows "conn_inv c"
  using reachable_inv assms unfolding reachable_def by blast

lemma connection_invariant_witness:
  "\<exists>c. newConnection (\<lambda>_. demo_server let_in) (\<lambda>_. None) demo_config = Inr (Some c)
    \<and> conn_inv (snd (run_state (ConnBeginTx demo_drv None \<lparr>Isolation = 0, ReadOnly = True\<rparr>) c))"
proof -
  obtain wc where wc: "ConnectContext (demo_server let_in) (protocolConfig demo_config) = (Inr (), Some wc)" by (rule demo_in)
  then have new: "newConnection (\<lambda>_. demo_server let_in) (\<lambda>_. None) demo_config = Inr (Some (newConn demo_config wc))"
    by (simp add: newConnection_def connect_loop.simps)
  have "driver_step demo_drv (newConn demo_config wc)
      (snd (run_state (ConnBeginTx demo_drv None \<lparr>Isolation = 0, ReadOnly = True\<rparr>) (newConn demo_config wc)))"
    by (rule step_begin) (rule prod.collapse [symmetric])
  from connection_invariant [OF new r_into_rtranclp [of "driver_step demo_drv", OF this]] new show ?thesis by blast
qed


lemma newConn_scripted_inv: "conn_inv (newConn cfg (scripted bs))"
  by (simp add: conn_inv_def newConn_def sound_def scripted_def freshConnection_def wf_pool_def) (metis good_fresh freshConnection_def)


text \<open>C24. The result of connecting is that of the first attempt that is not refused with the transient login error, or
  of the third attempt, whichever comes first: a refusal is retried and the retries are bounded.\<close>

theorem transient_login_retried:
  assumes "n < maxConnRetries" and "\<And>j. j < n \<Longrightarrow> transient envs waits (protocolConfig cfg) j"
    and "ConnectContext (envs n) (protocolConfig cfg) = (res, wc)"
    and "\<And>e. res = Inl e \<Longrightarrow> \<not> isTransientAuthFailure e \<or> n = maxConnRetries - 1"
  shows "newConnection envs waits cfg = map_sum id (\<lambda>_. map_option (newConn cfg) wc) res"
proof -
  have "connect_loop envs waits (protocolConfig cfg) 0 (maxConnRetries - 1) = map_sum id (\<lambda>_. wc) res"
    by (rule connect_loop_retries [where n = n]) (use assms in auto)
  then show ?thesis by (cases res) (simp_all add: newConnection_def)
qed

lemma transient_login_retried_witness:
  "\<exists>c. newConnection (\<lambda>i. demo_server (if i = 0 then keep_out else let_in)) (\<lambda>_. None) demo_config = Inr (Some c)"
proof -
  let ?envs = "\<lambda>i :: nat. demo_server (if i = 0 then keep_out else let_in)"
  obtain wc where wc: "ConnectContext (demo_server let_in) (protocolConfig demo_config) = (Inr (), Some wc)" by (rule demo_in)
  have t: "transient ?envs (\<lambda>_. None) (protocolConfig demo_config) j" if "j < 1" for j using demo_out that by (auto simp: transient_def)
  have "newConnection ?envs (\<lambda>_. None) demo_config = map_sum id (\<lambda>_. map_option (newConn demo_config) (Some wc)) (Inr ())"
    by (rule transient_login_retried [where n = 1, OF _ t]) (simp_all add: maxConnRetries_def wc)
  then show ?thesis by simp
qed

section \<open>Cancellation\<close>

text \<open>C10. However the goroutine that cancels an operation interleaves with it, the server decrypts whole packets: the
  requests of the operation, in order, and at most one op_cancel between them, never inside one; and after \<^verbatim>\<open>stop\<close> has
  returned nothing more is sent.\<close>

theorem cancel_packets_whole:
  assumes "\<not> conn_closed c" and "conn_wfail c = []" and "(cancel_step ^^ n) (withCancel c requests answers) s" and "rc_lock s = None"
  shows "decrypt (cryptW c) (drop (length (conn_out c)) (conn_out (rc_conn s))) = concat (map snd (rc_log s))
    \<and> prefix (by_owner Operation (rc_log s)) requests \<and> by_owner Canceller (rc_log s) \<in> {[], [cancel_packet]}
    \<and> (rc_op s = OpReturned \<longrightarrow> (\<forall>s'. cancel_step s s' \<longrightarrow> rc_conn s' = rc_conn s))"
proof -
  have i: "race_inv c requests s" by (rule race_inv_run [OF assms(3) race_inv_start [OF assms(1,2)]])
  then have "log_inv requests s" and l: "lock_inv s" by (simp_all add: race_inv_def)
  then show ?thesis using race_packets [OF i assms(4)] returned_silent [OF l] by (auto simp: log_inv_def prefix_def)
qed

text \<open>The context ends while the only request has not been sent yet.\<close>

definition demo_race :: race where
  "demo_race = withCancel ((NewConn [] [])\<lparr>cryptW := Some \<lparr>keystream = (\<lambda>i. of_nat i), kpos = 3\<rparr>\<rparr>) [[1, 2, 3]] False"

definition demo_cancelling :: race where "demo_cancelling = demo_race\<lparr>rc_ctx := True, rc_can := CanCancelling\<rparr>"

definition demo_locked :: race where "demo_locked = demo_cancelling\<lparr>rc_can := CanLocked, rc_lock := Some Canceller\<rparr>"

definition demo_holding :: race where
  "demo_holding = demo_locked\<lparr>rc_conn := snd (encrypt_out cancel_packet (rc_conn demo_locked)),
     rc_can := CanHolding (fst (encrypt_out cancel_packet (rc_conn demo_locked)))\<rparr>"

definition demo_cancelled :: race where
  "demo_cancelled = demo_holding\<lparr>rc_conn := snd (sock_write (fst (encrypt_out cancel_packet (rc_conn demo_locked))) (rc_conn demo_holding)),
     rc_can := CanGrace, rc_lock := None, rc_log := rc_log demo_holding @ [(Canceller, cancel_packet)]\<rparr>"

lemma demo_race_run: "(cancel_step ^^ 5) demo_race demo_cancelled"
proof -
  have s: "cancel_step demo_race (demo_race\<lparr>rc_ctx := True\<rparr>)" by (rule ctx_end) (simp add: demo_race_def withCancel_def)
  have "cancel_step (demo_race\<lparr>rc_ctx := True\<rparr>) (demo_race\<lparr>rc_ctx := True\<rparr>\<lparr>rc_can := CanCancelling\<rparr>)"
    by (rule can_cancel) (simp_all add: demo_race_def withCancel_def)
  then have c: "cancel_step (demo_race\<lparr>rc_ctx := True\<rparr>) demo_cancelling" by (simp add: demo_cancelling_def)
  have l: "cancel_step demo_cancelling demo_locked"
    unfolding demo_locked_def by (rule can_lock) (simp_all add: demo_cancelling_def demo_race_def withCancel_def)
  have h: "cancel_step demo_locked demo_holding"
    unfolding demo_holding_def by (rule can_encrypt) (simp_all add: demo_locked_def)
  have "cancel_step demo_holding demo_cancelled"
    unfolding demo_cancelled_def by (rule can_send [OF _ prod.collapse [symmetric]]) (simp add: demo_holding_def)
  with s c l h have "(cancel_step ^^ Suc (Suc (Suc (Suc (Suc 0))))) demo_race demo_cancelled" unfolding relpowp.simps by blast
  moreover have "Suc (Suc (Suc (Suc (Suc 0)))) = 5" by simp
  ultimately show ?thesis by (simp only:)
qed

lemma cancel_packets_whole_witness:
  "decrypt (Some \<lparr>keystream = (\<lambda>i. of_nat i), kpos = 3\<rparr>) (conn_out (rc_conn demo_cancelled)) = cancel_packet"
proof -
  let ?c = "(NewConn [] [])\<lparr>cryptW := Some \<lparr>keystream = (\<lambda>i. of_nat i), kpos = 3\<rparr>\<rparr>"
  have "rc_lock demo_cancelled = None" by (simp add: demo_cancelled_def)
  from cancel_packets_whole [OF _ _ demo_race_run [unfolded demo_race_def] this]
  show ?thesis by (simp add: NewConn_def demo_cancelled_def demo_holding_def demo_locked_def demo_cancelling_def demo_race_def withCancel_def)
qed

text \<open>C11. An operation under a context is never left hanging: every run of the two goroutines is finite (at most four steps
  per request and nine more), and one that cannot go on, with the context ended, has returned from \<^verbatim>\<open>stop\<close>, even when the server
  never answers; there is no deadlock on the mutex or on the channels.\<close>

theorem cancelled_operation_returns:
  assumes "\<not> conn_closed c" and "conn_wfail c = []" and "(cancel_step ^^ n) (withCancel c requests answers) s"
  shows "n \<le> 4 * length requests + 9 \<and> (stuck s \<longrightarrow> rc_op s = OpReturned)"
proof -
  have "lock_inv s" using race_inv_run [OF assms(3) race_inv_start [OF assms(1,2)]] by (simp add: race_inv_def)
  moreover have "weight (withCancel c requests answers) = 4 * length requests + 9" by (simp add: weight_def withCancel_def)
  ultimately show ?thesis using weight_run [OF assms(3)] stuck_returned by auto
qed

lemma cancelled_operation_returns_witness: "\<not> stuck demo_cancelled"
proof -
  have "stuck demo_cancelled \<longrightarrow> rc_op demo_cancelled = OpReturned"
    using cancelled_operation_returns [OF _ _ demo_race_run [unfolded demo_race_def]] by (simp add: NewConn_def)
  then show ?thesis by (simp add: demo_cancelled_def demo_holding_def demo_locked_def demo_cancelling_def demo_race_def withCancel_def)
qed

section \<open>The session as its client sees it\<close>

lemma demo_new:
  obtains wc where "newConnection (\<lambda>_. demo_server let_in) (\<lambda>_. None) demo_config = Inr (Some (newConn demo_config wc))"
proof -
  obtain wc where "ConnectContext (demo_server let_in) (protocolConfig demo_config) = (Inr (), Some wc)" by (rule demo_in)
  with that show ?thesis by (simp add: newConnection_def connect_loop.simps)
qed

text \<open>C3. The driver refines the abstract session: from a new connection, the outcomes of any calls of \<^verbatim>\<open>database/sql\<close>,
  in any order and with any behaviour of the server, are a run of the session that starts open and in auto-commit mode,
  and the connection ends in the state of the session.  So statements never change the mode, only a successful start
  enters a transaction, and its handle is the one the caller got, every end of a transaction returns to auto-commit mode
  or retires the connection, a session with a transaction left over is retired by the reset, and a retired or closed one
  refuses every statement and every new transaction.\<close>

theorem session_refinement:
  assumes "newConnection envs waits cfg = Inr (Some c0)" and "driver_run env ls c0 c"
  shows "session_run ls \<lparr>ss_closed = False, ss_phase = AutoCommit\<rparr> (session_of c)"
proof -
  have "session_of c0 = \<lparr>ss_closed = False, ss_phase = AutoCommit\<rparr>"
    using assms(1) by (auto simp: newConnection_def newConn_def session_of_def tx_phase_def split: sum.splits)
  with driver_run_simulated [OF assms(2)] show ?thesis by simp
qed

lemma session_refinement_witness:
  "\<exists>c. newConnection (\<lambda>_. demo_server let_in) (\<lambda>_. None) demo_config = Inr (Some c)
    \<and> session_run [Close, Work False] \<lparr>ss_closed = False, ss_phase = AutoCommit\<rparr> (session_of (snd (run_state ConnClose c)))"
proof -
  obtain wc where new: "newConnection (\<lambda>_. demo_server let_in) (\<lambda>_. None) demo_config = Inr (Some (newConn demo_config wc))"
    by (rule demo_new)
  let ?c = "newConn demo_config wc" and ?c1 = "snd (run_state ConnClose (newConn demo_config wc))"
  have c1: "driver_call demo_drv Close ?c ?c1" by (rule call_close) (rule prod.collapse [symmetric])
  have "ss_closed (session_of ?c1)" using close_simulated [OF prod.collapse [symmetric], of ?c] by simp
  then have "run_state (ConnPing demo_drv) ?c1 = (Inl ErrBadConn, ?c1)" by (intro refused_entry) (simp add: session_of_def)
  from call_ping [OF this] have "driver_call demo_drv (Work False) ?c1 ?c1" by simp
  with c1 have "driver_run demo_drv [Close, Work False] ?c ?c1" by (blast intro: driver_run.intros)
  from session_refinement [OF new this] new show ?thesis by blast
qed


definition demo_begin :: conn where "demo_begin = newConn demo_config (scripted (enc_resp resp_done))"

lemma demo_begin_run:
  obtains c1 where "run_state (ConnBeginTx demo_drv None \<lparr>Isolation = 0, ReadOnly = True\<rparr>) demo_begin = (Inr \<lparr>tx_handle = 7, tx_done = False\<rparr>, c1)"
    and "\<not> c_bad c1" and "\<not> c_closed c1"
proof -
  have "serves (scripted (enc_resp resp_done)) [resp_done] []" by (rule serves_scripted) simp_all
  then have "in_step (scripted (enc_resp resp_done)) [] [resp_done] []" by (simp add: in_step_def)
  then obtain wc' where "run_state (round_trip ''op_transaction'' [FInt32 opTransaction, FInt32 0, FBuffer tpbDefaultRead]) (scripted (enc_resp resp_done))
      = (map_sum (Wrap ''op_transaction'') id (answer resp_done), wc')" by (rule round_trip_answer)
  moreover have "answer resp_done = Inr (fst (resp_result resp_done))" by (simp add: answer_clean)
  moreover have "Handle (fst (resp_result resp_done)) = 7" by (simp add: resp_done_def response_value_def)
  ultimately have t: "run_state (Transaction tpbDefaultRead) (scripted (enc_resp resp_done)) = (Inr 7, wc')" by (simp add: Transaction_def)
  show ?thesis
    by (rule that [of "demo_begin\<lparr>c_wc := wc', c_activeTx := 7\<rparr>"])
      (use t in \<open>simp_all add: ConnBeginTx_def demo_begin_def newConn_def enter_def buildTPB_def commitAutoTx_def run_wire\<close>)
qed


section \<open>Result sets\<close>


definition demo_cursor :: rows where "demo_cursor = newRows 3 5 [demo_desc] 200 True True StmtSelect True [] False None"


text \<open>C14. The loop of the client ends whatever the server sends: after at most as many rows as there are bytes of input and
  rows already buffered, \<^verbatim>\<open>Next\<close> returns an error or \<^verbatim>\<open>io.EOF\<close>, also when rows hold blobs.\<close>

theorem iteration_ends:
  assumes "conn_left c + buffered r < n"
  shows "\<exists>rs e r' c'. next_all env n r c = (rs, Some e, r', c') \<and> length rs \<le> conn_left c + buffered r"
  by (rule next_all_ends [OF assms])

lemma iteration_ends_witness:
  "\<exists>rs e r' c'. next_all demo_drv 4 demo_cursor (newConn demo_config (scripted [0, 0, 0])) = (rs, Some e, r', c') \<and> length rs \<le> 3"
proof -
  have "conn_left (newConn demo_config (scripted [0, 0, 0])) + buffered demo_cursor = 3"
    by (simp add: newConn_def scripted_def freshConnection_def NewReader_def NewConn_def pending_def ev_len_def buffered_def demo_cursor_def newRows_def)
  then show ?thesis using iteration_ends [of "newConn demo_config (scripted [0, 0, 0])" demo_cursor 4 demo_drv] by simp
qed

section \<open>Statements\<close>

lemma applyNone_fixed:
  "list_all (\<lambda>col. SubType col = IDNone \<longrightarrow> baseType (SQLType col) \<notin> {SQLText, SQLVarying}) cols \<Longrightarrow> applyNoneCharset none cols = cols"
  by (auto simp: applyNoneCharset_def list_all_iff intro!: map_idI)

lemma described_image:
  assumes "list_all out_ok outs" and "list_all in_ok ins" and "length outs \<le> maxSQLDescribeColumns" and "length ins \<le> maxSQLDescribeColumns"
  shows "described_by env none (enc_describe sty outs ins) = Some (sty, applyNoneCharset none outs, applyNoneCharset none ins)"
  using describe_all [OF assms, of "d_gc env" sty] by (auto simp: described_by_def)

text \<open>C5. An ad-hoc execution in auto-commit mode against a server that answers its five requests (allocate, prepare with a
  describe of the statement, execute, commit-retaining, record counts) returns the number of affected rows for the
  kind of statement, keeps the auto-commit transaction for the next one, puts the statement's handle in the pool and
  leaves the connection in step with the server.\<close>

theorem exec_reports_affected:
  assumes "\<not> c_closed c" "\<not> c_bad c" "c_activeTx c = 0" "c_autoTx c \<noteq> 0"
    and "in_step (c_wc c) os (al # (ph, pb, enc_describe sty outs ins, []) # ex # cm # (ch, cb, enc_counts rc, []) # rs) zs"
    and "wf_pool (c_wc c)" "freeCount (c_wc c) = 0" and "list_all clean [al, ex, cm]"
    and "list_all out_ok outs" "list_all in_ok ins" "length outs \<le> maxSQLDescribeColumns" "length ins \<le> maxSQLDescribeColumns"
    and "list_all (\<lambda>col. SubType col = IDNone \<longrightarrow> baseType (SQLType col) \<notin> {SQLText, SQLVarying}) ins"
    and "sty \<noteq> StmtExecProcedure" and "length args = length ins" and "list_all (\<lambda>col. \<not> is_blob col) ins"
    and "ins \<noteq> [] \<longrightarrow> encodeParams env ins args = Inr params"
    and "list_all count_ok [selectCount rc, insertCount rc, updateCount rc, deleteCount rc]"
  shows "\<exists>c'. run_state (ConnExecContext env None query args) c = (Inr \<lparr>res_rowsAffected = affected sty rc, res_err = None\<rparr>, c')
    \<and> in_step (c_wc c') [] rs zs \<and> pooled_handles (c_wc c') = [Handle (fst (resp_result al))]
    \<and> c_autoTx c' = c_autoTx c \<and> c_activeTx c' = 0 \<and> \<not> c_bad c'"
proof -
  let ?pr = "(ph, pb, enc_describe sty outs ins, []) :: srv_resp" and ?cnt = "(ch, cb, enc_counts rc, []) :: srv_resp"
  have d: "Data (fst (resp_result ?pr)) = enc_describe sty outs ins" "Data (fst (resp_result ?cnt)) = enc_counts rc"
    by (simp_all add: response_value_def)
  have "list_all clean [al, ?pr, ex, cm, ?cnt]" using assms(8) by (simp add: clean_def response_error_def)
  moreover have "described_by env none (Data (fst (resp_result ?pr))) = Some (sty, applyNoneCharset none outs, ins)" for none
    unfolding d using described_image [OF assms(9-12)] applyNone_fixed [OF assms(13)] by simp
  moreover have "ParseRecordCounts (Data (fst (resp_result ?cnt))) = rc"
    unfolding d using ParseRecordCounts_enc [of rc "[]"] assms(18) by simp
  ultimately show ?thesis
    using exec_autocommit [OF assms(1-4,5-7), where outs = "\<lambda>none. applyNoneCharset none outs" and sty = sty and ins = ins and args = args
        and env = env and params = params and query = query] assms(14-17) by simp
qed

definition demo_param :: ColumnDescriptor where "demo_param = emptyColumn\<lparr>SQLType := SQLLong, Length := 4\<rparr>"

definition demo_args :: "NamedValue list" where "demo_args = [\<lparr>nvName = [], nvOrdinal = 1, nvValue = VInt64 5\<rparr>]"

definition demo_counts :: recordCounts where "demo_counts = \<lparr>selectCount = 0, insertCount = 0, updateCount = 2, deleteCount = 0\<rparr>"

definition demo_answers :: "srv_resp list" where
  "demo_answers = [resp_done, (0, 0, enc_describe StmtUpdate [] [demo_param], []), resp_done, resp_done, (0, 0, enc_counts demo_counts, [])]"

definition demo_open :: conn where
  "demo_open = (newConn demo_config (scripted (concat (map enc_resp demo_answers))))\<lparr>c_autoTx := 9\<rparr>"

lemma demo_open_ready:
  "in_step (c_wc demo_open) [] demo_answers []" "wf_pool (c_wc demo_open)" "freeCount (c_wc demo_open) = 0"
proof -
  have ok: "list_all resp_ok demo_answers" "demo_answers \<noteq> []"
    by (simp_all add: demo_answers_def enc_describe_def enc_counts_def enc_in_def demo_param_def emptyColumn_def tlv32_def tlv_def maxWireBufferLen_def)
  have "serves (scripted (concat (map enc_resp demo_answers))) demo_answers []"
    by (rule serves_scripted) (use ok in \<open>simp_all add: demo_answers_def\<close>)
  then show "in_step (c_wc demo_open) [] demo_answers []" by (simp add: in_step_def demo_open_def newConn_def)
  show "wf_pool (c_wc demo_open)" "freeCount (c_wc demo_open) = 0" by (simp_all add: demo_open_def newConn_def)
qed

lemma exec_reports_affected_witness:
  "\<exists>c'. run_state (ConnExecContext demo_drv None ''UPDATE T SET A = ?'' demo_args) demo_open = (Inr \<lparr>res_rowsAffected = 2, res_err = None\<rparr>, c')"
proof -
  have image: "params_image (d_lib demo_drv) (d_xtext demo_drv) [demo_param] (map nvValue demo_args) = Inr ([0, 0, 0, 0] @ putUint32 5)" by code_simp
  have "\<forall>d\<in>set [demo_param]. baseType (SQLType d) \<noteq> SQLDouble" by code_simp
  from EncodeParamsOptimalErr_image [of emptyStackWriter "[]", OF _ _ this, of "d_lib demo_drv" "d_xtext demo_drv" demo_args]
  have enc: "encodeParams demo_drv [demo_param] demo_args = Inr ([0, 0, 0, 0] @ putUint32 5)"
    unfolding encodeParams_def image by (simp add: demo_drv_def)
  have "\<exists>c'. run_state (ConnExecContext demo_drv None ''UPDATE T SET A = ?'' demo_args) demo_open
      = (Inr \<lparr>res_rowsAffected = affected StmtUpdate demo_counts, res_err = None\<rparr>, c')
    \<and> in_step (c_wc c') [] [] [] \<and> pooled_handles (c_wc c') = [Handle (fst (resp_result resp_done))]
    \<and> c_autoTx c' = c_autoTx demo_open \<and> c_activeTx c' = 0 \<and> \<not> c_bad c'"
    by (rule exec_reports_affected [where os = "[]" and al = resp_done and ex = resp_done and cm = resp_done and sty = StmtUpdate and rc = demo_counts
          and outs = "[]" and ins = "[demo_param]" and ph = 0 and pb = 0 and ch = 0 and cb = 0
          and params = "[0, 0, 0, 0] @ putUint32 5"])
      (use demo_open_ready enc in \<open>simp_all add: demo_open_def newConn_def demo_answers_def in_ok_def demo_param_def emptyColumn_def maxSQLDescribeColumns_def
        demo_args_def is_blob_def baseType_def demo_counts_def count_ok_def\<close>)
  then show ?thesis by (auto simp: affected_def demo_counts_def)
qed


lemma newConn_cache_ok: "cache_ok env (newConn cfg wc)"
  by (simp add: cache_ok_def newConn_def list_all_iff emptyEntry_def described_by_def parseSQLDescribeChunk_def describe_loop.simps emptyDescribeState_def
      applyNoneCharset_def)


section \<open>Values\<close>

lemma signed_fits:
  fixes v :: "'a :: len word"
  assumes "LENGTH('a) \<le> 64"
  shows "sint (scast v :: int64) = sint v" and "sint v \<le> maxInt64"
proof -
  show "sint (scast v :: int64) = sint v" using assms by (simp add: sint_up_scast is_up)
  have "sint v < 2 ^ (LENGTH('a) - 1)" by (rule sint_lt)
  also have "\<dots> \<le> (2 :: int) ^ 63" using assms by (intro power_increasing) auto
  finally show "sint v \<le> maxInt64" by simp
qed

lemma uint64_fits: "uint (v :: uint64) \<le> maxInt64 \<Longrightarrow> sint v = uint v"
  unfolding sint_uint by (rule signed_take_bit_int_eq_self) (simp_all add: order.trans [OF _ uint_ge_0])

lemma unsigned_fits:
  fixes v :: "'a :: len word"
  assumes "LENGTH('a) < 64"
  shows "sint (ucast v :: int64) = uint v" and "uint v \<le> maxInt64"
proof -
  have "uint v < 2 ^ LENGTH('a)" by (rule uint_bounded)
  also have "\<dots> \<le> (2 :: int) ^ 63" using assms by (intro power_increasing) auto
  finally show le: "uint v \<le> maxInt64" by simp
  have "uint (ucast v :: int64) = uint v" using assms by (simp add: uint_up_ucast is_up)
  with le uint64_fits [of "ucast v"] show "sint (ucast v :: int64) = uint v" by simp
qed

text \<open>C30. An integer argument of any Go type and width reaches the encoder as the \<^verbatim>\<open>int64\<close> of the same value; it is refused
  exactly when it exceeds the largest \<^verbatim>\<open>BIGINT\<close>, never wrapped.\<close>

theorem checked_integer_exact:
  assumes "nvName nv = []" and "integral (nvValue nv) = Some i"
  shows "case CheckNamedValue lib nv of
     Inr nv' \<Rightarrow> i \<le> maxInt64 \<and> (\<exists>v. nvValue nv' = VInt64 v \<and> sint v = i) \<and> nvOrdinal nv' = nvOrdinal nv
   | Inl e \<Rightarrow> i > maxInt64"
  using assms signed_fits(2) [of "word_of_int i :: int64"]
  by (cases "nvValue nv") (auto simp: CheckNamedValue_def checkUint_def signed_fits unsigned_fits uint64_fits split: sum.splits)

lemma checked_integer_exact_witness:
  "case CheckNamedValue (d_lib demo_drv) \<lparr>nvName = [], nvOrdinal = 1, nvValue = VUint64 (2 ^ 63)\<rparr> of Inr _ \<Rightarrow> False | Inl _ \<Rightarrow> True"
  using checked_integer_exact [of "\<lparr>nvName = [], nvOrdinal = 1, nvValue = VUint64 (2 ^ 63)\<rparr>" "2 ^ 63" "d_lib demo_drv"]
  by (auto split: sum.splits)



section \<open>Data source names\<close>

text \<open>A data source name that is accepted gives a configuration the rest of the driver can use: a database, a host and a
  port, dialect 3, a known encryption mode and a fetch size that is positive and fits 63 bits; a character set for
  NONE columns is chosen whenever there is one for the connection.\<close>

theorem dsn_config_valid:
  assumes "ParseDSN quote parse dsn = Inr cfg"
  shows "dsn_Database cfg \<noteq> [] \<and> dsn_Host cfg \<noteq> [] \<and> dsn_Port cfg \<noteq> [] \<and> dsn_Dialect cfg = SQLDialectCurrent
     \<and> dsn_WireCrypt cfg \<in> {WireCryptDisabled, WireCryptEnabled, WireCryptRequired} \<and> 0 < dsn_FetchSize cfg \<and> dsn_FetchSize cfg < 2 ^ 63
     \<and> (dsn_Charset cfg \<noteq> [] \<longrightarrow> dsn_NoneCharset cfg \<noteq> [])"
  using ParseDSN_valid [OF assms] by (simp add: valid_config_def)

definition demo_url :: url where
  "demo_url = \<lparr>u_User = Some (''SYSDBA'', ''masterkey''), u_Hostname = ''db.example'', u_Port = [], u_Path = ''/employee'',
     u_Query = [(''fetch_size'', [''-5'']), (''wire_crypt'', [''required'']), (''role'', [''BOSS''])]\<rparr>"

lemma dsn_config_valid_witness:
  "dsn_FetchSize (projr (ParseDSN id (\<lambda>_. Inr demo_url) ''firebird://db.example/employee'')) > 0"
proof -
  have "ParseDSN id (\<lambda>_. Inr demo_url) ''firebird://db.example/employee'' = Inr (projr (ParseDSN id (\<lambda>_. Inr demo_url) ''firebird://db.example/employee''))"
    by code_simp
  from dsn_config_valid [OF this] show ?thesis by blast
qed

text \<open>C36. The order in which Go's map iteration meets the parameters of a data source name does not change the outcome, as long
  as no two parameters set the same option.\<close>

theorem dsn_order_independent:
  assumes "parse (withScheme dsn) = Inr u" and "parse' (withScheme dsn) = Inr (u\<lparr>u_Query := q\<rparr>)"
    and "mset q = mset (u_Query u)" and "distinct (map option_of (u_Query u))"
  shows "ParseDSN quote parse' dsn = ParseDSN quote parse dsn"
  using ParseDSN_perm [of parse dsn u parse' q quote] assms by blast

lemma dsn_order_independent_witness:
  "ParseDSN id (\<lambda>_. Inr (demo_url\<lparr>u_Query := rev (u_Query demo_url)\<rparr>)) ''db'' = ParseDSN id (\<lambda>_. Inr demo_url) ''db''"
proof -
  have "distinct (map option_of (u_Query demo_url))" by code_simp
  then show ?thesis
    by (intro dsn_order_independent [where u = demo_url and q = "rev (u_Query demo_url)"]) simp_all
qed

end
