(* ===== verification/Spec2Isabelle.thy ===== *)
theory Spec2Isabelle
  imports ErrmsgGen NamedZones Wire_Properties Session_Properties Driver_Properties
begin

text \<open>
  A verification library for a Firebird driver written in Go, a \<^verbatim>\<open>database/sql\<close> driver that speaks the wire
  protocol (versions 13 to 18) itself.  Paths below are relative to \<^verbatim>\<open>src/\<close>; \<^verbatim>\<open>wire/\<close> is \<^verbatim>\<open>internal/wire/\<close>.

  \<^bold>\<open>The program.\<close>  \<^verbatim>\<open>database/sql\<close> calls the driver layer (\<^verbatim>\<open>driver.go\<close>, \<^verbatim>\<open>dsn.go\<close>, \<^verbatim>\<open>connection.go\<close>, \<^verbatim>\<open>statement.go\<close>,
  \<^verbatim>\<open>transaction.go\<close>, \<^verbatim>\<open>rows.go\<close>, \<^verbatim>\<open>result.go\<close>), which holds one wire connection per database connection.  The wire
  connection (\<^verbatim>\<open>wire/database.go\<close>, \<^verbatim>\<open>transaction.go\<close>, \<^verbatim>\<open>statement.go\<close>, \<^verbatim>\<open>execute.go\<close>, \<^verbatim>\<open>blob.go\<close>) writes requests with the XDR
  writer, flushes them, and reads responses with the XDR reader; some responses are left unread and only counted
  (deferred).  Reader and writer share the socket and its stream ciphers.  The handshake (\<^verbatim>\<open>handshake.go\<close>, \<^verbatim>\<open>auth.go\<close>)
  negotiates version, plugin, session key and cipher.  Codecs turn Go values into parameter messages and rows
  into Go values.

  \<^bold>\<open>Conventions.\<close>  Go's sized integers are words of their width (\<^verbatim>\<open>byte\<close> 8, \<^verbatim>\<open>int32\<close> 32, \<^verbatim>\<open>int64\<close> 64 bits), so wrap-around is the
  word's; lengths and indices are naturals.  A Go string is the list of its bytes as characters.  A struct is a
  record, an error a value of \<open>gerr\<close> (with wrapping, status errors and sentinels), a fallible call returns a sum.
  Operations with effects are state transformers; \<open>bindE\<close> is the early return on an error, \<open>tryE\<close> the call whose error
  is looked at, \<open>mapErr\<close> the wrapping of an error.  A panic is an error value of its own where it can happen.  A reader's
  error is sticky, as in the source.  The socket is a script: the chunks and errors that the peer and
  the network will deliver, the bytes sent so far, and the write failures to come; every theorem quantifies over
  it, so it holds for every server, segmentation and failure unless a hypothesis describes the server.

  \<^bold>\<open>Theories.\<close>  From the bottom up:
  \<^item> \<open>Prelude\<close>, \<open>Strconv\<close>: bytes, endianness, the error monad, and what the code uses of \<^verbatim>\<open>strconv\<close> and \<^verbatim>\<open>strings\<close>.
  \<^item> \<open>Errors\<close> (\<^verbatim>\<open>wire/status.go\<close>, \<^verbatim>\<open>internal/errmsg/errmsg.go\<close>, \<^verbatim>\<open>transport.go\<close>): status vectors, messages, classification.
  \<^item> \<open>Regexp\<close> (what is used of Go's \<^verbatim>\<open>regexp\<close>) and \<open>ErrmsgGen\<close> (\<^verbatim>\<open>internal/errmsg/gen/main.go\<close>): the generator of the message tables.
  \<^item> \<open>Net\<close> (\<^verbatim>\<open>wire/conn.go\<close>, \<^verbatim>\<open>crypt.go\<close>): socket and ciphers; the locale \<open>stream_cipher\<close> is what the transport relies on.
  \<^item> \<open>Protocol\<close> (\<^verbatim>\<open>protocol.go\<close>): the constants.
  \<^item> \<open>Reader\<close> (\<^verbatim>\<open>reader.go\<close>): the sliding window; the locale \<open>byte_source\<close> gives every parser its round trip and its
    independence of segmentation.
  \<^item> \<open>Writer\<close> (\<^verbatim>\<open>writer.go\<close>): the two writers, both interpretations of the locale \<open>xdr_writer\<close>.
  \<^item> \<open>Response\<close> (\<^verbatim>\<open>response.go\<close>, the parser of \<^verbatim>\<open>status.go\<close>), \<open>Info\<close> (\<^verbatim>\<open>info.go\<close>), \<open>Blr\<close> (\<^verbatim>\<open>blr.go\<close>), \<open>Params\<close> (\<^verbatim>\<open>dpb.go\<close>, \<^verbatim>\<open>tpb.go\<close>).
  \<^item> \<open>Datetime\<close> (\<^verbatim>\<open>types_datetime.go\<close>, \<^verbatim>\<open>internal/timezone/timezone.go\<close>), \<open>NamedZones\<close> (\<^verbatim>\<open>named_zones_generated.go\<close>), \<open>Numeric\<close> (\<^verbatim>\<open>types_numeric.go\<close>, \<^verbatim>\<open>types_int128.go\<close>),
    \<open>Decfloat\<close> (\<^verbatim>\<open>types_decfloat.go\<close>), \<open>Charset\<close> (\<^verbatim>\<open>internal/charset/charset.go\<close>), \<open>ParamEncode\<close> (\<^verbatim>\<open>types_encode.go\<close>), \<open>RowDecode\<close>
    (\<^verbatim>\<open>types_decode.go\<close>).
  \<^item> \<open>WireConn\<close> (\<^verbatim>\<open>database.go\<close>, \<^verbatim>\<open>transaction.go\<close>, \<^verbatim>\<open>statement.go\<close>), \<open>WireSync\<close> (accounting of responses), \<open>Exec\<close> (\<^verbatim>\<open>execute.go\<close>),
    \<open>Blob\<close> (\<^verbatim>\<open>blob.go\<close>), \<open>Auth\<close> (\<^verbatim>\<open>auth.go\<close>, \<^verbatim>\<open>internal/bignum/srp.go\<close>), \<open>Handshake\<close> (\<^verbatim>\<open>handshake.go\<close>).
  \<^item> \<open>WireKeep\<close>: the locale \<open>step_relation\<close> (an operation leads from a state to a related one) and its first
    interpretation, the soundness of the wire connection.
  \<^item> \<open>Dsn\<close> (\<^verbatim>\<open>dsn.go\<close>, registration of \<^verbatim>\<open>driver.go\<close>), \<open>DriverConn\<close> (\<^verbatim>\<open>connection.go\<close>, \<^verbatim>\<open>transaction.go\<close>, \<^verbatim>\<open>result.go\<close>, \<^verbatim>\<open>driver.go\<close>),
    \<open>DriverStmt\<close> (\<^verbatim>\<open>statement.go\<close>, \<^verbatim>\<open>rows.go\<close>).
  \<^item> \<open>DriverInv\<close>: the driver as a step relation, its invariant, and that a bad connection is silent; \<open>DriverFlow\<close>: what
    the operations return with a server that keeps to the protocol; \<open>DriverEnds\<close>: that the loops of the driver end.
  \<^item> \<open>DriverSession\<close>: an abstract session (auto-commit, explicit transaction, retired; open or closed), and the simulation of
    the driver's calls by its steps.
  \<^item> \<open>DriverCancel\<close> (\<^verbatim>\<open>withCancel\<close>, \<^verbatim>\<open>Cancel\<close>, the mutex \<^verbatim>\<open>writeMu\<close>): the operation and the goroutine that cancels it as
    interleaved steps.
  \<^item> \<open>Wire_Properties\<close>, \<open>Session_Properties\<close>, \<open>Driver_Properties\<close> and this theory hold the properties with their witnesses.

  \<^bold>\<open>What is shown.\<close>  \<^emph>\<open>Codecs\<close>: what the client writes a peer reads back, and what a server writes the client reads
  back, for requests, responses, describe buffers, rows, text, numbers and time stamps; the optimised routines (the
  stack encoder, the status fast path, the civil-day formula, the zone and descriptor caches) agree with reference
  definitions.  \<^emph>\<open>Session\<close>: the responses a connection counts as outstanding are the ones on the stream, so no
  operation reads another one's response; batches, blobs and pooled handles are delivered intact; a handshake that
  fails closes the socket, one that must encrypt does, and SRP gives both sides the same key.  \<^emph>\<open>Driver\<close>: an invariant
  of every reachable state, the refinement of an abstract session and the scope of an explicit transaction, the retirement of a connection after a transport error, the delivery of all rows of a
  result set, the result of an auto-committed execution, bounded retries, exactness of integer arguments, the
  announced column types, and cancellation that never cuts a request and always lets the operation return.  
  \<^emph>\<open>Hostile input\<close>: parsers stay well formed on every input.  \<^emph>\<open>Tables\<close>: every zone identifier has one name; the message
  tables hold what the headers declare.  Where the code does not do what it
  means to, a theorem shows that instead (a dropped DOUBLE, a misread stream after a refused allocate, the role
  sent under the wrong tag, a panic on an oversized key, a short status vector).

  \<^bold>\<open>Termination.\<close>  The model of the driver has no fuel; greedy repetition in \<open>Regexp\<close> has the length of the text, which every round
  shortens (\<open>rounds_fuel\<close>).  A loop that reads from the server ends because each round uses up
  input (\<open>pending\<close>, the bytes not yet consumed); parsers shrink their buffer; the refill loop uses up the script of the
  socket.  \<open>iteration_ends\<close> bounds the client's own loop over a result set in the same way, and
  \<open>transient_login_retried\<close> the attempts to connect.

  \<^bold>\<open>Parameters.\<close>  Code outside the repository is an argument: \<^verbatim>\<open>url.Parse\<close>, float formatting and parsing, the hash
  functions and the random source of the authentication, the key streams of RC4 and ChaCha, the encodings of
  \<^verbatim>\<open>golang.org/x/text\<close>, \<^verbatim>\<open>time.LoadLocation\<close>, the growth of slices, the dial and the names of host and user, and for the
  generator the file system, \<^verbatim>\<open>http.Get\<close>, \<^verbatim>\<open>strconv.Quote\<close> and \<^verbatim>\<open>sort.Slice\<close>.  The generated message tables
  (\<^verbatim>\<open>messages_generated.go\<close>) are data and an argument too; \<open>ErrmsgGen\<close> shows what they are for given headers.

  \<^bold>\<open>Not modelled.\<close>  The mutex of a connection serialises the calls on it, so each call is one step; only the goroutine of
  \<^verbatim>\<open>withCancel\<close> runs beside an operation, and \<open>DriverCancel\<close> shows that it leaves the requests whole, so that the operations
  of the other theories may be read without it.  What a server does with op_cancel is the server's.  Deadlines and
  socket options only turn into errors of the socket, which the script has.  The allocation-free
  variants that keep a buffer for reuse are modelled with the buffer where its content can show (the reader's window,
  the fetch values, the null bitset, the pooled writers) and without it elsewhere (inline arrays of \<^verbatim>\<open>rows\<close>).
  The soak test and the benchmark drivers drive a live server and are outside the driver.
\<close>

text \<open>C1. A request written field by field into a \<^verbatim>\<open>Writer\<close> and flushed through the connection, in clear or
  under the negotiated stream cipher, is read back field by field by a peer whose reader holds the
  matching cipher, however the network cuts the bytes into chunks; the writer is empty afterwards.\<close>

theorem wire_round_trip:
  assumes "wf_writer w" and "Bytes w = []" and "list_all field_ok fs" and "\<not> conn_closed c"
    and "Flush (pooled.write_fields fs w) c = (None, w', c')"
    and "wf_reader r" and "rerr r = None" and "window r = []" and "\<not> conn_closed (rd r)"
    and "cryptR (rd r) = cryptW c"
    and "conn_out c' = conn_out c @ deliv (conn_in (rd r))"
  shows "\<exists>r'. read_fields fs r = (fs, r') \<and> rerr r' = None \<and> stream r' = [] \<and> Bytes w' = []"
proof -
  have c: "Bytes (pooled.write_fields fs w) = concat (map field_image fs)"
    using pooled.write_fields_content [OF assms(1)] assms(2) by simp
  note fl = Flush_sends [OF assms(5,4)]
  have "stream r = concat (map field_image fs) @ []"
    using fl(1) assms(8-11) c decrypt_encrypted [of c "concat (map field_image fs)"]
    by (simp add: stream_def net_stream_def)
  with reads_read_fields [OF assms(3)] assms(6,7) fl(2) show ?thesis
    by (metis readsD)
qed

text \<open>Three fields over a stream cipher, delivered in two chunks.\<close>

definition demo_cipher :: streamCipher where
  "demo_cipher = \<lparr>keystream = (\<lambda>i. of_nat (7 * i + 3)), kpos = 5\<rparr>"

definition demo_fields :: "field list" where
  "demo_fields = [FInt32 19, FBuffer [1, 2, 3, 4, 5], FInt64 (- 1)]"

definition demo_writer :: Writer where "demo_writer = \<lparr>wbuf = replicate 4 0, wn = 0\<rparr>"

definition demo_conn :: Conn where
  "demo_conn = (NewConn [] [])\<lparr>cryptW := Some demo_cipher\<rparr>"

definition demo_wire :: "byte list" where
  "demo_wire = conn_out (snd (snd (Flush (pooled.write_fields demo_fields demo_writer) demo_conn)))"

definition demo_reader :: Reader where
  "demo_reader = \<lparr>rd = (NewConn [Recv (take 7 demo_wire), Recv (drop 7 demo_wire)] [])\<lparr>cryptR := Some demo_cipher\<rparr>,
     rerr = None, rbuf = [0, 0], rstart = 0, rend = 0, auxBuf = []\<rparr>"

lemma wire_round_trip_witness:
  "\<exists>r'. read_fields demo_fields demo_reader = (demo_fields, r') \<and> rerr r' = None \<and> stream r' = []"
proof -
  obtain e w' c' where fl: "Flush (pooled.write_fields demo_fields demo_writer) demo_conn = (e, w', c')"
    by (metis surj_pair)
  have wf: "wf_writer demo_writer" "Bytes demo_writer = []"
    by (simp_all add: wf_writer_def demo_writer_def Bytes_def)
  have cont: "Bytes (pooled.write_fields demo_fields demo_writer) = concat (map field_image demo_fields)"
    using pooled.write_fields_content [OF wf(1)] wf(2) by simp
  have e: "e = None"
    using fl by (auto simp: Flush_def demo_conn_def NewConn_def Conn_Write_def sock_write_def Let_def XORKeyStream_def split: if_splits)
  have "length demo_wire = 24"
    using Flush_sends [OF fl [unfolded e]] fl cont
    by (simp add: demo_conn_def NewConn_def demo_wire_def encrypted_def XORKeyStream_def demo_fields_def
        xdr_buffer_def xdr_pad_def)
  then have w: "take 7 demo_wire \<noteq> []" "drop 7 demo_wire \<noteq> []" by auto
  have ok: "list_all field_ok demo_fields" by (simp add: demo_fields_def maxWireBufferLen_def)
  have dc: "\<not> conn_closed demo_conn" "conn_out demo_conn = []" by (simp_all add: demo_conn_def NewConn_def)
  have dr: "wf_reader demo_reader" "rerr demo_reader = None" "window demo_reader = []"
    "\<not> conn_closed (rd demo_reader)" "cryptR (rd demo_reader) = cryptW demo_conn"
    by (simp_all add: demo_reader_def demo_conn_def NewConn_def wf_reader_def window_def)
  have "conn_out c' = conn_out demo_conn @ deliv (conn_in (rd demo_reader))"
    using w fl dc(2) by (simp add: demo_reader_def NewConn_def demo_wire_def)
  from wire_round_trip [OF wf ok dc(1) fl [unfolded e] dr this] show ?thesis by blast
qed

end
